(* ===== verification/Prelude.thy ===== *)
theory Prelude
  imports
    Main
    "HOL-Library.Word"
    "HOL-Library.List_Lexorder"
    "HOL-Library.Char_ord"
    "HOL-Library.AList"
    "HOL-Library.Monad_Syntax"
begin

text \<open>
  What the components share: the conventions under which Go values are read as HOL values,
  three-way comparison functions with their order laws (a locale), the binary search of the
  standard library's \<^verbatim>\<open>sort.Search\<close>, and the string functions of \<^verbatim>\<open>strings\<close> and
  \<^verbatim>\<open>strconv\<close> that the code calls.

  Conventions used throughout:
  \<^item> a run-time panic (nil dereference, index out of range) is the value \<^const>\<open>None\<close> of an
    option-valued operation; operations that cannot panic are plain functions;
  \<^item> an \<^verbatim>\<open>error\<close> result is the left injection of a sum;
  \<^item> a Go map is an association list with distinct keys. Its order stands for the iteration
    order of \<^verbatim>\<open>range\<close>, which Go leaves open: a theorem about every such list is a theorem
    about every iteration order. Where no loop ranges over the map it is a partial function;
  \<^item> a Go string is a list of bytes, ordered bytewise (\<^theory_text>\<open>List_Lexorder\<close>, \<^theory_text>\<open>Char_ord\<close>).
\<close>

named_theorems go_slice \<open>abstract behaviour of slice operations\<close>
named_theorems go_eval \<open>equations that let the simplifier run the model on concrete values\<close>
named_theorems go_string \<open>equations of the string functions on literals and concatenations\<close>

type_synonym byte = "8 word"
type_synonym bytes = "byte list"
type_synonym uint8 = "8 word"
type_synonym uint16 = "16 word"
type_synonym uint32 = "32 word"

section \<open>Three-way comparison\<close>

text \<open>
  The \<^verbatim>\<open>Compare\<close> functions return -1, 0 or 1. The locale states what callers rely on; zero
  may relate values that are not equal (a comparison that ignores a field), and
  \<open>three_way_total\<close> adds that it does not.
\<close>

locale three_way =
  fixes cmp :: "'a \<Rightarrow> 'a \<Rightarrow> int"
  assumes cmp_range: "cmp x y = -1 \<or> cmp x y = 0 \<or> cmp x y = 1"
    and cmp_flip: "cmp y x = - cmp x y"
    and cmp_trans: "cmp x y \<le> 0 \<Longrightarrow> cmp y z \<le> 0 \<Longrightarrow> cmp x z \<le> 0"
begin

lemma cmp_self: "cmp x x = 0"
  using cmp_flip [of x x] by simp

lemma cmp_zero_sym: "cmp x y = 0 \<longleftrightarrow> cmp y x = 0"
  using cmp_flip [of x y] by auto

lemma cmp_pos_iff: "cmp x y > 0 \<longleftrightarrow> cmp y x < 0"
  using cmp_flip [of x y] by auto

lemma cmp_less_cases: "cmp x y < 0 \<longleftrightarrow> cmp x y = -1"
  using cmp_range [of x y] by auto

lemma cmp_greater_cases: "cmp x y > 0 \<longleftrightarrow> cmp x y = 1"
  using cmp_range [of x y] by auto

lemma cmp_le_less_trans: "cmp x y \<le> 0 \<Longrightarrow> cmp y z < 0 \<Longrightarrow> cmp x z < 0"
  using cmp_trans [of z x y] cmp_flip [of x z] cmp_flip [of y z] by linarith

lemma cmp_less_le_trans: "cmp x y < 0 \<Longrightarrow> cmp y z \<le> 0 \<Longrightarrow> cmp x z < 0"
  using cmp_trans [of y z x] cmp_flip [of x z] cmp_flip [of x y] by linarith

lemma cmp_less_trans: "cmp x y < 0 \<Longrightarrow> cmp y z < 0 \<Longrightarrow> cmp x z < 0"
  using cmp_le_less_trans [of x y z] by simp

lemma cmp_zero_left:
  assumes "cmp x y = 0"
  shows "cmp x z = cmp y z"
proof -
  have "cmp y x = 0" using assms by (simp add: cmp_zero_sym)
  then have "cmp x z < 0 \<longleftrightarrow> cmp y z < 0" and "cmp z x < 0 \<longleftrightarrow> cmp z y < 0"
    using assms cmp_le_less_trans [of x y z] cmp_le_less_trans [of y x z]
      cmp_less_le_trans [of z x y] cmp_less_le_trans [of z y x] by auto
  then show ?thesis
    using cmp_range [of x z] cmp_range [of y z] cmp_flip [of z x] cmp_flip [of z y] by auto
qed

lemma cmp_zero_right: "cmp x y = 0 \<Longrightarrow> cmp z x = cmp z y"
  using cmp_zero_left [of x y z] cmp_flip [of z x] cmp_flip [of z y] by simp

text \<open>Strictly ascending lists, and insertion in front of the first element that is not smaller.\<close>

definition ascending :: "'a list \<Rightarrow> bool" where
  "ascending ys \<longleftrightarrow> sorted_wrt (\<lambda>a b. cmp a b < 0) ys"

definition below :: "'a \<Rightarrow> 'a list \<Rightarrow> nat" where
  "below x ys = length (takeWhile (\<lambda>y. cmp x y > 0) ys)"

lemma below_le: "below x ys \<le> length ys"
  by (simp add: below_def length_takeWhile_le)

lemma ascending_Nil: "ascending []"
  by (simp add: ascending_def)

lemma ascending_Cons: "ascending (y # ys) \<longleftrightarrow> (\<forall>z\<in>set ys. cmp y z < 0) \<and> ascending ys"
  by (auto simp: ascending_def)

lemma ascending_distinct: "ascending ys \<Longrightarrow> distinct ys"
  by (induction ys) (auto simp: ascending_Cons cmp_self)

text \<open>In an ascending list the elements below \<open>x\<close> are exactly those before position \<open>below x\<close>.\<close>

lemma below_nth:
  assumes "ascending ys" and "i < length ys"
  shows "cmp x (ys ! i) \<le> 0 \<longleftrightarrow> below x ys \<le> i"
  using assms
proof (induction ys arbitrary: i)
  case Nil
  then show ?case by simp
next
  case (Cons y ys)
  show ?case
  proof (cases "cmp x y > 0")
    case True
    show ?thesis
    proof (cases i)
      case 0
      with True show ?thesis by (simp add: below_def)
    next
      case (Suc k)
      have "cmp x (ys ! k) \<le> 0 \<longleftrightarrow> below x ys \<le> k"
        using Cons Suc by (simp add: ascending_Cons)
      with True Suc show ?thesis by (simp add: below_def)
    qed
  next
    case False
    have "cmp y ((y # ys) ! i) \<le> 0"
      using Cons.prems by (cases i) (auto simp: ascending_Cons cmp_self order.strict_implies_order)
    with False have "cmp x ((y # ys) ! i) \<le> 0"
      using cmp_trans [of x y "(y # ys) ! i"] by simp
    with False show ?thesis by (simp add: below_def)
  qed
qed

lemma below_hit:
  assumes "ascending ys"
  shows "(below x ys < length ys \<and> cmp x (ys ! below x ys) = 0) \<longleftrightarrow> (\<exists>y\<in>set ys. cmp x y = 0)"
proof
  assume "\<exists>y\<in>set ys. cmp x y = 0"
  then obtain i where i: "i < length ys" "cmp x (ys ! i) = 0"
    by (auto simp: in_set_conv_nth)
  have le: "below x ys \<le> i"
    using below_nth [OF assms i(1), of x] i(2) by simp
  have "\<not> below x ys < i"
  proof
    assume lt: "below x ys < i"
    have "cmp x (ys ! below x ys) \<le> 0"
      using below_nth [OF assms, of "below x ys" x] lt i(1) by simp
    moreover have "cmp (ys ! below x ys) (ys ! i) < 0"
      using assms lt i(1) sorted_wrt_nth_less unfolding ascending_def by blast
    ultimately have "cmp x (ys ! i) < 0" by (rule cmp_le_less_trans)
    with i(2) show False by simp
  qed
  with le i show "below x ys < length ys \<and> cmp x (ys ! below x ys) = 0" by simp
qed (auto intro: nth_mem)

lemma below_split:
  "take (below x ys) ys = takeWhile (\<lambda>y. cmp x y > 0) ys"
  "drop (below x ys) ys = dropWhile (\<lambda>y. cmp x y > 0) ys"
  unfolding below_def by (simp_all add: takeWhile_eq_take [symmetric] dropWhile_eq_drop [symmetric])

lemma ascending_insert:
  assumes asc: "ascending ys" and new: "\<forall>y\<in>set ys. cmp x y \<noteq> 0"
  shows "ascending (take (below x ys) ys @ x # drop (below x ys) ys)"
  using assms
proof (induction ys)
  case Nil
  then show ?case by (simp add: ascending_def)
next
  case (Cons y ys)
  show ?case
  proof (cases "cmp x y > 0")
    case True
    then have below: "below x (y # ys) = Suc (below x ys)" by (simp add: below_def)
    have "cmp y x < 0" using True by (simp add: cmp_pos_iff)
    moreover have "ascending (take (below x ys) ys @ x # drop (below x ys) ys)"
      using Cons by (simp add: ascending_Cons)
    ultimately show ?thesis
      using Cons.prems(1) below
      by (auto simp: ascending_Cons dest: in_set_takeD in_set_dropD)
  next
    case False
    then have zero: "below x (y # ys) = 0" by (simp add: below_def)
    have "cmp x y < 0" using False Cons.prems(2) by force
    then have "\<forall>z\<in>set (y # ys). cmp x z < 0"
      using Cons.prems(1) by (auto simp: ascending_Cons intro: cmp_less_trans)
    with zero Cons.prems(1) show ?thesis by (simp add: ascending_Cons)
  qed
qed

lemma ascending_remove: "ascending ys \<Longrightarrow> ascending (take i ys @ drop (Suc i) ys)"
proof (induction ys arbitrary: i)
  case Nil
  then show ?case by (simp add: ascending_def)
next
  case (Cons y ys)
  show ?case
  proof (cases i)
    case 0
    with Cons show ?thesis by (simp add: ascending_Cons)
  next
    case (Suc k)
    with Cons show ?thesis
      by (auto simp: ascending_Cons dest: in_set_takeD in_set_dropD)
  qed
qed

end

locale three_way_total = three_way +
  assumes cmp_zero: "cmp x y = 0 \<Longrightarrow> x = y"
begin

lemma cmp_eq_zero_iff: "cmp x y = 0 \<longleftrightarrow> x = y"
  using cmp_zero cmp_self by blast

lemma cmp_total: "cmp x y < 0 \<or> x = y \<or> cmp y x < 0"
  using cmp_zero [of x y] cmp_flip [of x y] by force

lemma ascending_unique:
  "ascending xs \<Longrightarrow> ascending ys \<Longrightarrow> set xs = set ys \<Longrightarrow> xs = ys"
proof (induction xs arbitrary: ys)
  case Nil
  then show ?case by simp
next
  case (Cons x xs)
  then obtain y ys' where ys: "ys = y # ys'" by (cases ys) auto
  have "x = y"
  proof (rule ccontr)
    assume "x \<noteq> y"
    with Cons.prems ys have "cmp x y < 0" and "cmp y x < 0"
      by (auto simp: ascending_Cons)
    then show False using cmp_flip [of x y] by simp
  qed
  have "x \<notin> set xs" and "y \<notin> set ys'"
    using ascending_distinct Cons.prems ys by fastforce+
  with Cons.prems(3) ys \<open>x = y\<close> have "set xs = set ys'" by auto
  then have "xs = ys'" using Cons ys by (auto simp: ascending_Cons)
  with ys \<open>x = y\<close> show ?case by simp
qed

end

text \<open>
  A \<^verbatim>\<open>Compare\<close> body is a chain of partial comparisons, each deciding when the previous ones
  returned 0. The chain and the comparison of a projection are three-way comparisons again.
\<close>

definition and_then :: "int \<Rightarrow> int \<Rightarrow> int" where
  "and_then order rest = (if order \<noteq> 0 then order else rest)"

lemma and_then_eq_zero [simp]: "and_then a b = 0 \<longleftrightarrow> a = 0 \<and> b = 0"
  by (simp add: and_then_def)

lemma three_way_and_then:
  assumes "three_way c" and "three_way d"
  shows "three_way (\<lambda>x y. and_then (c x y) (d x y))"
proof (rule three_way.intro)
  note C = three_way.cmp_range [OF assms(1)] three_way.cmp_flip [OF assms(1)]
    three_way.cmp_trans [OF assms(1)]
  note D = three_way.cmp_range [OF assms(2)] three_way.cmp_flip [OF assms(2)]
    three_way.cmp_trans [OF assms(2)]
  show "and_then (c x y) (d x y) = -1 \<or> and_then (c x y) (d x y) = 0
      \<or> and_then (c x y) (d x y) = 1" for x y
    using C(1) [of x y] D(1) [of x y] by (auto simp: and_then_def)
  show "and_then (c y x) (d y x) = - and_then (c x y) (d x y)" for x y
    using C(2) [of y x] D(2) [of y x] by (auto simp: and_then_def)
  fix x y z
  assume xy: "and_then (c x y) (d x y) \<le> 0" and yz: "and_then (c y z) (d y z) \<le> 0"
  have le: "c x y \<le> 0" "c y z \<le> 0" using xy yz by (auto simp: and_then_def split: if_splits)
  then have "c x z \<le> 0" by (rule C(3))
  moreover have "d x z \<le> 0" if "c x z = 0"
  proof -
    have "c x y = 0" and "c y z = 0"
      using le that three_way.cmp_le_less_trans [OF assms(1), of x y z]
        three_way.cmp_less_le_trans [OF assms(1), of x y z] by linarith+
    with xy yz have "d x y \<le> 0" "d y z \<le> 0" by (auto simp: and_then_def)
    then show ?thesis by (rule D(3))
  qed
  ultimately show "and_then (c x z) (d x z) \<le> 0" by (auto simp: and_then_def)
qed

lemma three_way_on:
  assumes "three_way c"
  shows "three_way (\<lambda>x y. c (f x) (f y))"
  using three_way.cmp_range [OF assms] three_way.cmp_flip [OF assms] three_way.cmp_trans [OF assms]
  by (intro three_way.intro) blast+

lemma three_way_linorder:
  fixes f :: "'a \<Rightarrow> 'b::linorder"
  shows "three_way (\<lambda>x y. if f x < f y then -1 else if f x > f y then 1 else 0)"
  by unfold_locales (auto split: if_splits)

text \<open>Three-way comparison of byte strings and of strings, \<^verbatim>\<open>bytes.Compare\<close> and \<open><\<close>, \<open>>\<close> on strings.\<close>

definition bytes_compare :: "bytes \<Rightarrow> bytes \<Rightarrow> int" where
  "bytes_compare a b = (if a < b then -1 else if a > b then 1 else 0)"

lemma bytes_compare_zero [simp]: "bytes_compare a b = 0 \<longleftrightarrow> a = b"
  by (auto simp: bytes_compare_def)

lemma three_way_bytes_compare: "three_way bytes_compare"
  unfolding bytes_compare_def using three_way_linorder [of "\<lambda>x. x"] by simp

section \<open>Binary search\<close>

text \<open>
  \<^verbatim>\<open>sort.Search(n, f)\<close> of the standard library: the loop keeps \<open>f (i-1) = false\<close>,
  \<open>f j = true\<close>. The callbacks of the caches dereference pointers, so \<open>f\<close> is option-valued.
\<close>

function search_loop :: "(nat \<Rightarrow> bool option) \<Rightarrow> nat \<Rightarrow> nat \<Rightarrow> nat option" where
  "search_loop f i j =
     (if i < j then
        let h = i + (j - i) div 2 in
        (case f h of
           None \<Rightarrow> None
         | Some b \<Rightarrow> if \<not> b then search_loop f (h + 1) j else search_loop f i h)
      else Some i)"
  by pat_completeness auto
termination
  by (relation "measure (\<lambda>(f, i, j). j - i)") auto

declare search_loop.simps [simp del]

definition sort_Search :: "nat \<Rightarrow> (nat \<Rightarrow> bool option) \<Rightarrow> nat option" where
  "sort_Search n f = search_loop f 0 n"

lemma search_loop_finds:
  assumes "i \<le> k" and "k \<le> j" and "j \<le> n"
    and "\<And>m. m < n \<Longrightarrow> f m = Some (k \<le> m)"
  shows "search_loop f i j = Some k"
  using assms
proof (induction f i j rule: search_loop.induct)
  case (1 f i j)
  show ?case
  proof (cases "i < j")
    case True
    define h where "h = i + (j - i) div 2"
    have h: "i \<le> h" "h < j" using True by (auto simp: h_def)
    have fh: "f h = Some (k \<le> h)" using 1 h by simp
    show ?thesis
    proof (cases "k \<le> h")
      case True
      then have "search_loop f i h = Some k"
        using "1.IH"(2) [OF \<open>i < j\<close> h_def fh] 1 h by simp
      with True \<open>i < j\<close> fh show ?thesis
        by (simp add: search_loop.simps [of f i j] h_def [symmetric] Let_def)
    next
      case False
      then have "search_loop f (h + 1) j = Some k"
        using "1.IH"(1) [OF \<open>i < j\<close> h_def fh] 1 h by simp
      with False \<open>i < j\<close> fh show ?thesis
        by (simp add: search_loop.simps [of f i j] h_def [symmetric] Let_def)
    qed
  next
    case False
    with 1 show ?thesis by (simp add: search_loop.simps [of f i j])
  qed
qed

lemma sort_Search_finds:
  assumes "k \<le> n" and "\<And>m. m < n \<Longrightarrow> f m = Some (k \<le> m)"
  shows "sort_Search n f = Some k"
  unfolding sort_Search_def using assms by (intro search_loop_finds) auto

section \<open>Strings\<close>

definition has_prefix :: "string \<Rightarrow> string \<Rightarrow> bool" where
  "has_prefix s p \<longleftrightarrow> take (length p) s = p"

definition trim_prefix :: "string \<Rightarrow> string \<Rightarrow> string" where
  "trim_prefix s p = (if has_prefix s p then drop (length p) s else s)"

lemma has_prefix_append [simp, go_string]: "has_prefix (p @ s) p"
  by (simp add: has_prefix_def)

lemma trim_prefix_append [simp, go_string]: "trim_prefix (p @ s) p = s"
  by (simp add: trim_prefix_def)

lemma trim_prefix_back: "has_prefix s p \<Longrightarrow> p @ trim_prefix s p = s"
  by (metis append_take_drop_id has_prefix_def trim_prefix_def)

text \<open>\<^verbatim>\<open>strings.Split\<close> with a separator of one character.\<close>

fun split_on :: "char \<Rightarrow> string \<Rightarrow> string list" where
  "split_on c [] = [[]]"
| "split_on c (x # xs) =
     (if x = c then [] # split_on c xs
      else (case split_on c xs of [] \<Rightarrow> [[x]] | y # ys \<Rightarrow> (x # y) # ys))"

lemma split_on_nonempty [simp]: "split_on c s \<noteq> []"
  by (cases s) (auto split: list.splits)

lemma split_on_none [go_string]: "c \<notin> set s \<Longrightarrow> split_on c s = [s]"
  by (induction s) auto

lemma split_on_append [go_string]: "c \<notin> set a \<Longrightarrow> split_on c (a @ c # b) = a # split_on c b"
  by (induction a) auto

fun unsplit :: "char \<Rightarrow> string list \<Rightarrow> string" where
  "unsplit c [] = []"
| "unsplit c [x] = x"
| "unsplit c (x # y # ys) = x @ c # unsplit c (y # ys)"

lemma unsplit_Cons: "ys \<noteq> [] \<Longrightarrow> unsplit c (x # ys) = x @ c # unsplit c ys"
  by (cases ys) auto

lemma unsplit_split_on: "unsplit c (split_on c s) = s"
proof (induction s)
  case (Cons x s)
  obtain y ys where y: "split_on c s = y # ys" by (cases "split_on c s") auto
  with Cons show ?case by (cases ys) (auto simp: unsplit_Cons)
qed simp

lemma split_on_parts: "p \<in> set (split_on c s) \<Longrightarrow> c \<notin> set p"
proof (induction s arbitrary: p)
  case (Cons x s)
  obtain y ys where "split_on c s = y # ys" by (cases "split_on c s") auto
  with Cons show ?case by (auto split: if_splits)
qed simp

text \<open>\<^verbatim>\<open>strconv.Itoa\<close> on non-negative numbers.\<close>

definition digit_char :: "nat \<Rightarrow> char" where
  "digit_char d = char_of (48 + d)"

fun itoa :: "nat \<Rightarrow> string" where
  "itoa n = (if n < 10 then [digit_char n] else itoa (n div 10) @ [digit_char (n mod 10)])"

declare itoa.simps [simp del]

lemma of_char_digit: "d < 10 \<Longrightarrow> (of_char (digit_char d) :: nat) = 48 + d"
  by (simp add: digit_char_def)

lemma itoa_digits: "c \<in> set (itoa n) \<Longrightarrow> 48 \<le> (of_char c :: nat) \<and> (of_char c :: nat) \<le> 57"
proof (induction n rule: itoa.induct)
  case (1 n)
  show ?case
  proof (cases "n < 10")
    case True
    with 1 show ?thesis by (auto simp: itoa.simps [of n] of_char_digit)
  next
    case False
    have "n mod 10 < 10" by simp
    then have "(of_char (digit_char (n mod 10)) :: nat) = 48 + n mod 10" by (rule of_char_digit)
    with 1 False \<open>n mod 10 < 10\<close> show ?thesis by (auto simp: itoa.simps [of n])
  qed
qed

lemma itoa_nonempty [simp]: "itoa n \<noteq> []"
  by (subst itoa.simps) simp

lemma digit_char_eval [go_eval]:
  "digit_char 0 = CHR ''0''" "digit_char 1 = CHR ''1''" "digit_char (Suc 0) = CHR ''1''"
  "digit_char 2 = CHR ''2''" "digit_char 3 = CHR ''3''" "digit_char 4 = CHR ''4''"
  "digit_char 5 = CHR ''5''" "digit_char 6 = CHR ''6''" "digit_char 7 = CHR ''7''"
  "digit_char 8 = CHR ''8''" "digit_char 9 = CHR ''9''"
  by (simp_all add: digit_char_def char_of_def bit_0)

lemma itoa_eval [go_eval]:
  "itoa 0 = ''0''" "itoa 1 = ''1''" "itoa (Suc 0) = ''1''"
  "itoa (numeral k) =
     (if numeral k < (10 :: nat) then [digit_char (numeral k)]
      else itoa (numeral k div 10) @ [digit_char (numeral k mod 10)])"
  by (simp_all add: itoa.simps digit_char_eval)

end
