(* ===== verification/GoSlice.thy ===== *)
theory GoSlice
  imports Prelude
begin

text \<open>
  Slices of pointers as the two rule caches use them: an array of pointers of which the first
  \<^verbatim>\<open>numItems\<close> are set and \<^verbatim>\<open>the rest are nils\<close> (the field comment of both
  \<^verbatim>\<open>ContivRuleLists\<close> and \<^verbatim>\<open>SessionRuleList\<close>). The operations index and shift the array the
  way the source does and panic (\<^const>\<open>None\<close>) where Go would; \<open>represents\<close> relates the array
  to the list it stands for, and the lemmas show that insertion and removal do not panic and
  are insertion and removal in that list.
\<close>

section \<open>Indexing, assignment and overlapping copy\<close>

text \<open>The pointer at an index; \<^const>\<open>None\<close> for an index out of range and for a nil pointer
  that is dereferenced.\<close>

definition elem_at :: "'a option list \<Rightarrow> nat \<Rightarrow> 'a option" where
  "elem_at xs i = (if i < length xs then xs ! i else None)"

definition slice_set :: "'a list \<Rightarrow> nat \<Rightarrow> 'a \<Rightarrow> 'a list option" where
  "slice_set xs i x = (if i < length xs then Some (xs[i := x]) else None)"

text \<open>\<^verbatim>\<open>copy(xs[d:], xs[s:])\<close>: a memmove of the shorter of the two tails.\<close>

definition copy_within :: "'a list \<Rightarrow> nat \<Rightarrow> nat \<Rightarrow> 'a list option" where
  "copy_within xs d s =
     (if d \<le> length xs \<and> s \<le> length xs then
        let n = min (length xs - d) (length xs - s)
        in Some (take d xs @ take n (drop s xs) @ drop (d + n) xs)
      else None)"

section \<open>Nil-padded arrays\<close>

text \<open>Insertion at an index and removal of an index, as in \<^verbatim>\<open>Insert\<close> and \<^verbatim>\<open>RemoveByIdx\<close>
  (\<^verbatim>\<open>Remove\<close>) of the caches; the second component is \<^verbatim>\<open>numItems\<close>.\<close>

definition padded_insert :: "nat \<Rightarrow> 'a \<Rightarrow> 'a option list \<times> nat \<Rightarrow> ('a option list \<times> nat) option" where
  "padded_insert idx x arr =
     (case arr of (xs, n) \<Rightarrow> do {
        let xs1 = (if n = length xs then xs @ [None] else xs);
        xs2 \<leftarrow> (if idx < n then copy_within xs1 (idx + 1) idx else Some xs1);
        xs3 \<leftarrow> slice_set xs2 idx (Some x);
        Some (xs3, n + 1)
      })"

definition padded_remove :: "nat \<Rightarrow> 'a option list \<times> nat \<Rightarrow> ('a option list \<times> nat) option" where
  "padded_remove idx arr =
     (case arr of (xs, n) \<Rightarrow> do {
        xs1 \<leftarrow> (if idx < n - 1 then copy_within xs idx (idx + 1) else Some xs);
        xs2 \<leftarrow> slice_set xs1 (n - 1) None;
        Some (xs2, n - 1)
      })"

definition represents :: "'a option list \<times> nat \<Rightarrow> 'a list \<Rightarrow> bool" where
  "represents arr ys \<longleftrightarrow>
     snd arr = length ys \<and> take (length ys) (fst arr) = map Some ys
     \<and> list_all (\<lambda>x. x = None) (drop (length ys) (fst arr))"

lemma represents_split:
  "represents (xs, n) ys \<longleftrightarrow>
     n = length ys \<and> (\<exists>k. xs = map Some ys @ replicate k None)"
proof
  assume r: "represents (xs, n) ys"
  define zs where "zs = drop (length ys) xs"
  have "zs = replicate (length zs) None"
    using r replicate_length_same [of zs None] by (simp add: represents_def list_all_iff zs_def)
  moreover have "xs = map Some ys @ zs"
    using r append_take_drop_id [of "length ys" xs] by (simp add: represents_def zs_def)
  ultimately show "n = length ys \<and> (\<exists>k. xs = map Some ys @ replicate k None)"
    using r unfolding represents_def by (metis snd_conv)
qed (auto simp: represents_def list_all_iff)

lemma represents_empty [simp, go_slice]: "represents ([], 0) []"
  by (simp add: represents_def)

lemma represents_length: "represents (xs, n) ys \<Longrightarrow> n = length ys \<and> n \<le> length xs"
  by (auto simp: represents_split)

lemma represents_unique: "represents arr ys \<Longrightarrow> represents arr zs \<Longrightarrow> ys = zs"
  by (auto simp: represents_def intro: map_injective)

lemma represents_elem_at [go_slice]:
  "represents (xs, n) ys \<Longrightarrow> i < n \<Longrightarrow> elem_at xs i = Some (ys ! i)"
  by (auto simp: represents_split elem_at_def nth_append)

lemma represents_insert [go_slice]:
  assumes r: "represents (xs, n) ys" and idx: "idx \<le> n"
  shows "\<exists>xs'. padded_insert idx x (xs, n) = Some (xs', n + 1)
    \<and> represents (xs', n + 1) (take idx ys @ x # drop idx ys)"
proof -
  obtain k where n: "n = length ys" and xs: "xs = map Some ys @ replicate k None"
    using r by (auto simp: represents_split)
  obtain j where xs1: "(if n = length xs then xs @ [None] else xs) = map Some ys @ None # replicate j None"
    using n xs by (cases k) auto
  define ps where "ps = take idx ys"
  define qs where "qs = drop idx ys"
  have ys: "ys = ps @ qs" and idx_ps: "idx = length ps"
    using idx n by (auto simp: ps_def qs_def)
  have shifted: "(if idx < n then copy_within (map Some ys @ None # replicate j None) (idx + 1) idx
      else Some (map Some ys @ None # replicate j None))
    = Some (map Some ps @ (if qs = [] then None else Some (hd qs)) # map Some qs @ replicate j None)"
  proof (cases qs)
    case Nil
    then show ?thesis using ys idx_ps n by simp
  next
    case (Cons q qs')
    have "take (length qs' + j + 1) (map Some qs @ None # replicate j None)
        = map Some qs @ replicate j None"
      using Cons by (simp add: take_Cons' replicate_append_same [symmetric] del: replicate_append_same)
    then show ?thesis
      using Cons ys idx_ps n by (simp add: copy_within_def Let_def min_def)
  qed
  have "padded_insert idx x (xs, n)
      = Some (map Some (ps @ x # qs) @ replicate j None, n + 1)"
    unfolding padded_insert_def Let_def prod.case xs1 shifted
    using idx_ps by (simp add: slice_set_def list_update_append)
  moreover have "represents (map Some (ps @ x # qs) @ replicate j None, n + 1) (ps @ x # qs)"
    using n ys by (auto simp: represents_split)
  ultimately show ?thesis by (simp add: ps_def qs_def)
qed

lemma copy_within_left:
  assumes "idx < length xs"
  shows "copy_within xs idx (idx + 1) = Some (take idx xs @ drop (Suc idx) xs @ [last xs])"
proof -
  have "drop (length xs - 1) xs = [last xs]"
    using assms by (cases xs rule: rev_cases) auto
  then show ?thesis using assms by (simp add: copy_within_def Let_def min_def)
qed

lemma represents_remove [go_slice]:
  assumes r: "represents (xs, n) ys" and idx: "idx < n"
  shows "\<exists>xs'. padded_remove idx (xs, n) = Some (xs', n - 1)
    \<and> represents (xs', n - 1) (take idx ys @ drop (Suc idx) ys)"
proof -
  obtain k where n: "n = length ys" and xs: "xs = map Some ys @ replicate k None"
    using r by (auto simp: represents_split)
  define ps where "ps = take idx ys"
  define y where "y = ys ! idx"
  define qs where "qs = drop (Suc idx) ys"
  have ys: "ys = ps @ y # qs" and idx_ps: "idx = length ps"
    using idx n by (auto simp: ps_def qs_def y_def id_take_nth_drop)
  show ?thesis
  proof (cases qs)
    case Nil
    then have "padded_remove idx (xs, n) = Some (map Some ps @ replicate (Suc k) None, n - 1)"
      using ys idx_ps n xs by (simp add: padded_remove_def slice_set_def list_update_append)
    moreover have "represents (map Some ps @ replicate (Suc k) None, n - 1) (ps @ qs)"
      using Nil n ys unfolding represents_split by (auto simp del: replicate.simps)
    ultimately show ?thesis unfolding ps_def qs_def by blast
  next
    case (Cons q qs')
    have "copy_within xs idx (idx + 1)
        = Some (map Some ps @ map Some qs @ replicate k None @ [last xs])"
      using ys idx_ps n xs copy_within_left [of idx xs] by simp
    moreover have "(replicate k None @ [last xs])[0 := None] = replicate (Suc k) None"
      by (cases k) (use xs in \<open>simp_all add: replicate_append_same\<close>)
    ultimately have "padded_remove idx (xs, n) = Some (map Some (ps @ qs) @ replicate (Suc k) None, n - 1)"
      using Cons ys idx_ps n
      by (simp add: padded_remove_def slice_set_def list_update_append)
    moreover have "represents (map Some (ps @ qs) @ replicate (Suc k) None, n - 1) (ps @ qs)"
      using n ys unfolding represents_split by (auto simp del: replicate.simps)
    ultimately show ?thesis unfolding ps_def qs_def by blast
  qed
qed

section \<open>Binary search in a sorted array\<close>

context three_way
begin

lemma search_array:
  assumes r: "represents (xs, n) ys" and asc: "ascending ys"
  shows "sort_Search n (\<lambda>i. map_option (\<lambda>y. cmp x y \<le> 0) (elem_at xs i)) = Some (below x ys)"
proof (rule sort_Search_finds)
  have n: "n = length ys" using represents_length [OF r] by simp
  then show "below x ys \<le> n" by (simp add: below_le)
  show "map_option (\<lambda>y. cmp x y \<le> 0) (elem_at xs i) = Some (below x ys \<le> i)" if "i < n" for i
    using that r n below_nth [OF asc, of i x] by (simp add: represents_elem_at)
qed

end

end
