(* ===== verification/GoNet.thy ===== *)
theory GoNet
  imports Prelude
begin

unbundle bit_operations_syntax

text \<open>
  The part of the standard library's \<^verbatim>\<open>net\<close> package that the plugins use: addresses and masks
  as byte slices, \<^verbatim>\<open>To4\<close>, \<^verbatim>\<open>To16\<close>, \<^verbatim>\<open>Equal\<close>, \<^verbatim>\<open>Mask\<close>, \<^verbatim>\<open>CIDRMask\<close>, \<^verbatim>\<open>Size\<close>, \<^verbatim>\<open>Contains\<close>,
  the parsers and the printers. A nil or empty slice is the empty list; functions whose nil
  result is tested by the callers return an option. The second half reads an address as its
  bits, most significant first, and shows that containment in a CIDR network is agreement on
  the first bits.
\<close>

type_synonym ip = bytes
type_synonym ipmask = bytes

record ipnet =
  IP :: ip
  Mask :: ipmask

section \<open>Addresses\<close>

definition v4InV6Prefix :: bytes where
  "v4InV6Prefix = [0, 0, 0, 0, 0, 0, 0, 0, 0, 0, 0xff, 0xff]"

definition IPv4 :: "byte \<Rightarrow> byte \<Rightarrow> byte \<Rightarrow> byte \<Rightarrow> ip" where
  "IPv4 a b c d = v4InV6Prefix @ [a, b, c, d]"

definition To4 :: "ip \<Rightarrow> ip option" where
  "To4 ip =
     (if length ip = 4 then Some ip
      else if length ip = 16 \<and> take 12 ip = v4InV6Prefix then Some (drop 12 ip)
      else None)"

definition To16 :: "ip \<Rightarrow> ip option" where
  "To16 ip =
     (if length ip = 4 then Some (IPv4 (ip ! 0) (ip ! 1) (ip ! 2) (ip ! 3))
      else if length ip = 16 then Some ip
      else None)"

definition ip_equal :: "ip \<Rightarrow> ip \<Rightarrow> bool" where
  "ip_equal ip x =
     (if length ip = length x then ip = x
      else if length ip = 4 \<and> length x = 16 then take 12 x = v4InV6Prefix \<and> ip = drop 12 x
      else if length ip = 16 \<and> length x = 4 then take 12 ip = v4InV6Prefix \<and> drop 12 ip = x
      else False)"

section \<open>Masks and networks\<close>

fun cidr_bytes :: "nat \<Rightarrow> nat \<Rightarrow> bytes" where
  "cidr_bytes 0 n = []"
| "cidr_bytes (Suc l) n =
     (if n \<ge> 8 then 0xff # cidr_bytes l (n - 8)
      else NOT (drop_bit n 0xff) # cidr_bytes l 0)"

definition CIDRMask :: "nat \<Rightarrow> nat \<Rightarrow> ipmask" where
  "CIDRMask ones bits =
     (if bits \<noteq> 32 \<and> bits \<noteq> 128 then []
      else if ones > bits then []
      else cidr_bytes (bits div 8) ones)"

text \<open>The inner loop of \<^verbatim>\<open>simpleMaskLength\<close>, which shifts the byte left while its top bit is
  set; a byte is exhausted after eight shifts.\<close>

fun lead_ones :: "nat \<Rightarrow> byte \<Rightarrow> nat \<Rightarrow> nat \<times> byte" where
  "lead_ones 0 v n = (n, v)"
| "lead_ones (Suc k) v n =
     (if v AND 0x80 \<noteq> 0 then lead_ones k (push_bit 1 v) (n + 1) else (n, v))"

fun simpleMaskLength :: "ipmask \<Rightarrow> nat \<Rightarrow> nat option" where
  "simpleMaskLength [] n = Some n"
| "simpleMaskLength (v # ms) n =
     (if v = 0xff then simpleMaskLength ms (n + 8)
      else let (n', v') = lead_ones 8 v n in
        if v' \<noteq> 0 then None
        else if list_ex (\<lambda>b. b \<noteq> 0) ms then None
        else Some n')"

definition mask_size :: "ipmask \<Rightarrow> nat \<times> nat" where
  "mask_size m =
     (case simpleMaskLength m 0 of None \<Rightarrow> (0, 0) | Some ones \<Rightarrow> (ones, length m * 8))"

definition ip_and :: "ip \<Rightarrow> ipmask \<Rightarrow> ip" where
  "ip_and ip m = map2 (\<lambda>a b. a AND b) ip m"

definition ip_mask :: "ip \<Rightarrow> ipmask \<Rightarrow> ip" where
  "ip_mask ip ms =
     (let ms' = (if length ms = 16 \<and> length ip = 4 \<and> list_all (\<lambda>b. b = 0xff) (take 12 ms)
                   then drop 12 ms else ms);
          ip' = (if length ms' = 4 \<and> length ip = 16 \<and> take 12 ip = v4InV6Prefix
                 then drop 12 ip else ip)
      in if length ip' \<noteq> length ms' then [] else ip_and ip' ms')"

definition networkNumberAndMask :: "ipnet \<Rightarrow> (ip \<times> ipmask) option" where
  "networkNumberAndMask n =
     (let number = (case To4 (IP n) of
                      Some ip4 \<Rightarrow> Some ip4
                    | None \<Rightarrow> if length (IP n) = 16 then Some (IP n) else None)
      in case number of
           None \<Rightarrow> None
         | Some ip \<Rightarrow>
             if length (Mask n) = 4 then
               (if length ip \<noteq> 4 then None else Some (ip, Mask n))
             else if length (Mask n) = 16 then
               Some (ip, if length ip = 4 then drop 12 (Mask n) else Mask n)
             else None)"

definition contains :: "ipnet \<Rightarrow> ip \<Rightarrow> bool" where
  "contains n ip =
     (let (nn, m) = (case networkNumberAndMask n of None \<Rightarrow> ([], []) | Some p \<Rightarrow> p);
          ip' = (case To4 ip of Some x \<Rightarrow> x | None \<Rightarrow> ip)
      in length ip' = length nn \<and> ip_and nn m = ip_and ip' m)"

section \<open>Parsing\<close>

definition is_digit :: "char \<Rightarrow> bool" where
  "is_digit c \<longleftrightarrow> CHR ''0'' \<le> c \<and> c \<le> CHR ''9''"

definition digit_val :: "char \<Rightarrow> nat" where
  "digit_val c = of_char c - 48"

text \<open>\<^verbatim>\<open>dtoi\<close>: the number, the rest of the string, and whether it is acceptable.\<close>

fun dtoi_loop :: "string \<Rightarrow> nat \<Rightarrow> nat \<times> string \<times> bool" where
  "dtoi_loop [] n = (n, [], True)"
| "dtoi_loop (c # s) n =
     (if is_digit c then
        let n' = n * 10 + digit_val c in
        if n' \<ge> 0xFFFFFF then (0xFFFFFF, c # s, False) else dtoi_loop s n'
      else (n, c # s, True))"

definition dtoi :: "string \<Rightarrow> nat \<times> string \<times> bool" where
  "dtoi s = (let (n, rest, ok) = dtoi_loop s 0 in
     if rest = s then (0, s, False) else (n, rest, ok))"

definition hex_val :: "char \<Rightarrow> nat option" where
  "hex_val c =
     (if is_digit c then Some (digit_val c)
      else if CHR ''a'' \<le> c \<and> c \<le> CHR ''f'' then Some (of_char c - 97 + 10)
      else if CHR ''A'' \<le> c \<and> c \<le> CHR ''F'' then Some (of_char c - 65 + 10)
      else None)"

fun xtoi_loop :: "string \<Rightarrow> nat \<Rightarrow> nat \<times> string \<times> bool" where
  "xtoi_loop [] n = (n, [], True)"
| "xtoi_loop (c # s) n =
     (case hex_val c of
        None \<Rightarrow> (n, c # s, True)
      | Some d \<Rightarrow> let n' = n * 16 + d in
          if n' \<ge> 0xFFFFFF then (0, c # s, False) else xtoi_loop s n')"

definition xtoi :: "string \<Rightarrow> nat \<times> string \<times> bool" where
  "xtoi s = (let (n, rest, ok) = xtoi_loop s 0 in
     if rest = s then (0, s, False) else (n, rest, ok))"

fun parse_octets :: "nat \<Rightarrow> bool \<Rightarrow> string \<Rightarrow> (bytes \<times> string) option" where
  "parse_octets 0 first s = Some ([], s)"
| "parse_octets (Suc k) first s =
     (if s = [] then None
      else if \<not> first \<and> hd s \<noteq> CHR ''.'' then None
      else
        let (n, rest, ok) = dtoi (if first then s else tl s) in
        if \<not> ok \<or> n > 0xFF then None
        else map_option (\<lambda>(p, r). (of_nat n # p, r)) (parse_octets k False rest))"

definition parseIPv4 :: "string \<Rightarrow> ip option" where
  "parseIPv4 s =
     (case parse_octets 4 True s of
        Some ([a, b, c, d], []) \<Rightarrow> Some (IPv4 a b c d)
      | _ \<Rightarrow> None)"

text \<open>
  The loop of \<^verbatim>\<open>parseIPv6\<close> over at most eight 16-bit chunks: \<open>acc\<close> holds the bytes read so
  far, \<open>ell\<close> the position of the ellipsis. The result is the bytes, the ellipsis and the rest
  of the string.
\<close>

fun parse_chunks :: "nat \<Rightarrow> string \<Rightarrow> bytes \<Rightarrow> nat option \<Rightarrow> (bytes \<times> nat option \<times> string) option" where
  "parse_chunks 0 s acc ell = Some (acc, ell, s)"
| "parse_chunks (Suc k) s acc ell =
     (let (n, rest, ok) = xtoi s in
      if \<not> ok \<or> n > 0xFFFF then None
      else if rest \<noteq> [] \<and> hd rest = CHR ''.'' then
        (if ell = None \<and> length acc \<noteq> 12 then None
         else if length acc + 4 > 16 then None
         else map_option (\<lambda>ip4. (acc @ drop 12 ip4, ell, [])) (parseIPv4 s))
      else
        let acc' = acc @ [of_nat (n div 256), of_nat n] in
        if rest = [] then Some (acc', ell, [])
        else if hd rest \<noteq> CHR '':'' \<or> length rest = 1 then None
        else
          let s' = tl rest in
          if hd s' = CHR '':'' then
            (if ell \<noteq> None then None
             else if tl s' = [] then Some (acc', Some (length acc'), [])
             else parse_chunks k (tl s') acc' (Some (length acc')))
          else parse_chunks k s' acc' ell)"

definition parseIPv6 :: "string \<Rightarrow> ip option" where
  "parseIPv6 s0 =
     (let lead = has_prefix s0 ''::'';
          s = (if lead then drop 2 s0 else s0)
      in if lead \<and> s = [] then Some (replicate 16 0)
         else case parse_chunks 8 s [] (if lead then Some 0 else None) of
                None \<Rightarrow> None
              | Some (acc, ell, rest) \<Rightarrow>
                  if rest \<noteq> [] then None
                  else if length acc < 16 then
                    map_option (\<lambda>e. take e acc @ replicate (16 - length acc) 0 @ drop e acc) ell
                  else if ell \<noteq> None then None
                  else Some acc)"

definition ParseIP :: "string \<Rightarrow> ip option" where
  "ParseIP s =
     (case find (\<lambda>c. c = CHR ''.'' \<or> c = CHR '':'') s of
        None \<Rightarrow> None
      | Some c \<Rightarrow> if c = CHR ''.'' then parseIPv4 s else parseIPv6 s)"

definition ParseCIDR :: "string \<Rightarrow> (ip \<times> ipnet) option" where
  "ParseCIDR s =
     (if CHR ''/'' \<notin> set s then None
      else
        let addr = takeWhile (\<lambda>c. c \<noteq> CHR ''/'') s;
            ms = tl (dropWhile (\<lambda>c. c \<noteq> CHR ''/'') s);
            (iplen, ip) = (case parseIPv4 addr of
                             Some ip \<Rightarrow> (4, Some ip)
                           | None \<Rightarrow> (16, parseIPv6 addr));
            (n, rest, ok) = dtoi ms
        in case ip of
             None \<Rightarrow> None
           | Some ip' \<Rightarrow>
               if \<not> ok \<or> rest \<noteq> [] \<or> n > 8 * iplen then None
               else let m = CIDRMask n (8 * iplen)
                    in Some (ip', \<lparr>IP = ip_mask ip' m, Mask = m\<rparr>))"

section \<open>Printing\<close>

definition hex_digit :: "nat \<Rightarrow> char" where
  "hex_digit d = (if d < 10 then digit_char d else char_of (87 + d))"

fun hex_string :: "nat \<Rightarrow> string" where
  "hex_string n = (if n < 16 then [hex_digit n] else hex_string (n div 16) @ [hex_digit (n mod 16)])"

declare hex_string.simps [simp del]

fun join :: "string \<Rightarrow> string list \<Rightarrow> string" where
  "join sep [] = []"
| "join sep [x] = x"
| "join sep (x # y # ys) = x @ sep @ join sep (y # ys)"

fun groups16 :: "bytes \<Rightarrow> nat list" where
  "groups16 (a # b # bs) = (unat a * 256 + unat b) # groups16 bs"
| "groups16 _ = []"

text \<open>The scan for the longest run of zero groups, as a pair of its bounds (equal bounds: none).\<close>

fun zero_run :: "nat \<Rightarrow> nat list \<Rightarrow> nat \<times> nat \<Rightarrow> nat \<times> nat" where
  "zero_run i [] e = e"
| "zero_run i (g # gs) e =
     (let n = length (takeWhile (\<lambda>x. x = 0) (g # gs)) in
      if n > 0 \<and> n > snd e - fst e then zero_run (i + n + 1) (drop n gs) (i, i + n)
      else zero_run (i + 1) gs e)"

definition ip_string :: "ip \<Rightarrow> string" where
  "ip_string ip =
     (if ip = [] then ''<nil>''
      else case To4 ip of
        Some p4 \<Rightarrow> join ''.'' (map (\<lambda>b. itoa (unat b)) p4)
      | None \<Rightarrow>
          if length ip \<noteq> 16 then ''?'' @ concat (map (\<lambda>b. [hex_digit (unat b div 16), hex_digit (unat b mod 16)]) ip)
          else
            let gs = groups16 ip; (e0, e1) = zero_run 0 gs (0, 0) in
            if e1 - e0 \<le> 1 then join '':'' (map hex_string gs)
            else join '':'' (map hex_string (take e0 gs)) @ ''::''
                   @ join '':'' (map hex_string (drop e1 gs)))"

definition mask_string :: "ipmask \<Rightarrow> string" where
  "mask_string m = (if m = [] then ''<nil>''
     else concat (map (\<lambda>b. [hex_digit (unat b div 16), hex_digit (unat b mod 16)]) m))"

definition ipnet_string :: "ipnet \<Rightarrow> string" where
  "ipnet_string n =
     (case networkNumberAndMask n of
        None \<Rightarrow> ''<nil>''
      | Some (nn, m) \<Rightarrow>
          (case simpleMaskLength m 0 of
             None \<Rightarrow> ip_string nn @ ''/'' @ mask_string m
           | Some l \<Rightarrow> ip_string nn @ ''/'' @ itoa l))"

section \<open>Evaluation\<close>

lemma lead_ones_numeral [go_eval]:
  "lead_ones (numeral k) v n =
     (if v AND 0x80 \<noteq> 0 then lead_ones (pred_numeral k) (push_bit 1 v) (n + 1) else (n, v))"
  by (simp add: numeral_eq_Suc)

lemma cidr_bytes_numeral [go_eval]:
  "cidr_bytes (numeral k) n =
     (if n \<ge> 8 then 0xff # cidr_bytes (pred_numeral k) (n - 8)
      else NOT (drop_bit n 0xff) # cidr_bytes (pred_numeral k) 0)"
  by (simp add: numeral_eq_Suc)

lemma parse_octets_numeral [go_eval]:
  "parse_octets (numeral k) first s =
     (if s = [] then None
      else if \<not> first \<and> hd s \<noteq> CHR ''.'' then None
      else
        let (n, rest, ok) = dtoi (if first then s else tl s) in
        if \<not> ok \<or> n > 0xFF then None
        else map_option (\<lambda>(p, r). (of_nat n # p, r)) (parse_octets (pred_numeral k) False rest))"
  by (simp add: numeral_eq_Suc)

lemmas net_defs [go_eval] =
  v4InV6Prefix_def IPv4_def To4_def To16_def ip_equal_def CIDRMask_def mask_size_def ip_and_def
  ip_mask_def networkNumberAndMask_def contains_def is_digit_def digit_val_def dtoi_def
  parseIPv4_def ParseIP_def ParseCIDR_def ip_string_def mask_string_def ipnet_string_def
  hex_digit_def Let_def

section \<open>Addresses as bits\<close>

definition byte_bits :: "byte \<Rightarrow> bool list" where
  "byte_bits b = map (bit b) [7, 6, 5, 4, 3, 2, 1, 0]"

definition bits_of :: "bytes \<Rightarrow> bool list" where
  "bits_of bs = concat (map byte_bits bs)"

definition norm_ip :: "ip \<Rightarrow> ip" where
  "norm_ip ip = (case To4 ip of Some x \<Rightarrow> x | None \<Rightarrow> ip)"

definition prefix_len :: "ipnet \<Rightarrow> nat" where
  "prefix_len n = fst (mask_size (Mask n))"

text \<open>
  A network in the form that \<^verbatim>\<open>ParseCIDR\<close> returns: a mask of leading ones as long as the
  address, and no address bit set outside the mask. An IPv6 network has to be disjoint from
  \<^verbatim>\<open>::ffff:0:0/96\<close>: \<^verbatim>\<open>To4\<close> reads addresses of that range as IPv4 addresses.
\<close>

definition net_ok :: "ipnet \<Rightarrow> bool" where
  "net_ok n \<longleftrightarrow>
     (length (IP n) = 4 \<or> length (IP n) = 16 \<and>
        take (min 96 (prefix_len n)) (bits_of (IP n)) \<noteq> take (min 96 (prefix_len n)) (bits_of v4InV6Prefix)) \<and>
     length (Mask n) = length (IP n) \<and>
     prefix_len n \<le> 8 * length (IP n) \<and>
     Mask n = cidr_bytes (length (IP n)) (prefix_len n) \<and>
     ip_and (IP n) (Mask n) = IP n"

lemma length_byte_bits [simp]: "length (byte_bits b) = 8"
  by (simp add: byte_bits_def)

lemma bits_of_Nil [simp]: "bits_of [] = []"
  by (simp add: bits_of_def)

lemma bits_of_Cons [simp]: "bits_of (b # bs) = byte_bits b @ bits_of bs"
  by (simp add: bits_of_def)

lemma length_bits_of [simp]: "length (bits_of bs) = 8 * length bs"
  by (induction bs) simp_all

lemma byte_bits_nth: "k < 8 \<Longrightarrow> byte_bits b ! k = bit b (7 - k)"
proof -
  assume "k < 8"
  then consider "k = 0" | "k = 1" | "k = 2" | "k = 3" | "k = 4" | "k = 5" | "k = 6" | "k = 7"
    by linarith
  then show ?thesis by cases (simp_all add: byte_bits_def)
qed

lemma byte_eqI: "(\<And>k. k < 8 \<Longrightarrow> bit a k = bit b k) \<Longrightarrow> a = (b :: byte)"
  by (rule bit_word_eqI) simp

lemma byte_bits_inject: "byte_bits a = byte_bits b \<longleftrightarrow> a = b"
proof
  assume eq: "byte_bits a = byte_bits b"
  show "a = b"
  proof (rule byte_eqI)
    fix k :: nat
    assume "k < 8"
    then have "byte_bits a ! (7 - k) = bit a k" "byte_bits b ! (7 - k) = bit b k"
      by (simp_all add: byte_bits_nth)
    then show "bit a k = bit b k" by (simp add: eq)
  qed
qed simp

lemma bits_of_inject: "length a = length b \<Longrightarrow> bits_of a = bits_of b \<longleftrightarrow> a = b"
  by (induction a b rule: list_induct2) (auto simp: byte_bits_inject)

lemma bits_of_nth: "k < 8 * length bs \<Longrightarrow> bits_of bs ! k = bit (bs ! (k div 8)) (7 - k mod 8)"
proof (induction bs arbitrary: k)
  case (Cons b bs)
  show ?case
  proof (cases "k < 8")
    case True
    then show ?thesis by (simp add: nth_append byte_bits_nth)
  next
    case False
    then have "k div 8 = Suc ((k - 8) div 8)" "k mod 8 = (k - 8) mod 8"
      by (simp_all add: le_div_geq le_mod_geq)
    then show ?thesis using False Cons by (simp add: nth_append)
  qed
qed simp

lemma bit_ff: "bit (0xff :: byte) k \<longleftrightarrow> k < 8"
proof -
  have ff: "(0xff :: byte) = mask 8" by (simp add: mask_eq_exp_minus_1)
  show ?thesis unfolding ff by (simp only: bit_mask_iff) simp
qed

lemma bit_cidr_byte: "k < 8 \<Longrightarrow> bit (NOT (drop_bit n 0xff) :: byte) k \<longleftrightarrow> 8 \<le> n + k"
  by (simp add: bit_not_iff bit_drop_bit_eq bit_ff not_less del: bit_numeral_word_iff)

lemma byte_masked_bits:
  assumes "n < 8"
  shows "byte_bits (a AND NOT (drop_bit n 0xff)) = take n (byte_bits a) @ replicate (8 - n) False"
proof (rule nth_equalityI)
  show "length (byte_bits (a AND NOT (drop_bit n 0xff))) = length (take n (byte_bits a) @ replicate (8 - n) False)"
    using assms by simp
next
  fix k
  assume "k < length (byte_bits (a AND NOT (drop_bit n 0xff)))"
  then have k: "k < 8" by simp
  have "byte_bits (a AND NOT (drop_bit n 0xff)) ! k \<longleftrightarrow> bit a (7 - k) \<and> 8 \<le> n + (7 - k)"
    using k by (simp add: byte_bits_nth bit_and_iff bit_cidr_byte)
  moreover have "(take n (byte_bits a) @ replicate (8 - n) False) ! k \<longleftrightarrow> bit a (7 - k) \<and> k < n"
    using k assms by (simp add: nth_append byte_bits_nth)
  moreover have "8 \<le> n + (7 - k) \<longleftrightarrow> k < n" using k by arith
  ultimately show "byte_bits (a AND NOT (drop_bit n 0xff)) ! k = (take n (byte_bits a) @ replicate (8 - n) False) ! k"
    by simp
qed

lemma byte_and_ff: "(a :: byte) AND 0xff = a"
  by (rule byte_eqI) (simp add: bit_and_iff bit_ff del: bit_numeral_word_iff)

lemma length_cidr_bytes [simp]: "length (cidr_bytes l n) = l"
  by (induction l n rule: cidr_bytes.induct) simp_all

lemma length_ip_and [simp]: "length (ip_and a m) = min (length a) (length m)"
  by (simp add: ip_and_def)

lemma ip_and_Cons [simp]: "ip_and (a # as) (m # ms) = (a AND m) # ip_and as ms"
  by (simp add: ip_and_def)

lemma ip_and_Nil [simp]: "ip_and [] m = []"
  by (simp add: ip_and_def)

lemma bits_of_masked:
  "n \<le> 8 * length a \<Longrightarrow>
   bits_of (ip_and a (cidr_bytes (length a) n)) = take n (bits_of a) @ replicate (8 * length a - n) False"
proof (induction a arbitrary: n)
  case (Cons b bs)
  show ?case
  proof (cases "8 \<le> n")
    case True
    then show ?thesis using Cons by (simp add: byte_and_ff)
  next
    case False
    have "bits_of (ip_and bs (cidr_bytes (length bs) 0)) = replicate (8 * length bs) False"
      using Cons.IH [of 0] by simp
    then show ?thesis using False
      by (simp add: byte_masked_bits replicate_add [symmetric])
  qed
qed simp

lemma ip_and_cidr_eq_iff:
  assumes "length a = l" "length b = l" "n \<le> 8 * l"
  shows "ip_and a (cidr_bytes l n) = ip_and b (cidr_bytes l n) \<longleftrightarrow> take n (bits_of a) = take n (bits_of b)"
proof -
  have "ip_and a (cidr_bytes l n) = ip_and b (cidr_bytes l n) \<longleftrightarrow>
        bits_of (ip_and a (cidr_bytes l n)) = bits_of (ip_and b (cidr_bytes l n))"
    using assms by (simp add: bits_of_inject)
  then show ?thesis
    using assms bits_of_masked [of n a] bits_of_masked [of n b] by simp
qed

text \<open>Containment in a network is agreement on the first \<open>prefix_len\<close> bits.\<close>

lemma To4_length: "To4 ip = Some x \<Longrightarrow> length x = 4"
  by (auto simp: To4_def split: if_splits)

lemma bits_of_append: "bits_of (a @ b) = bits_of a @ bits_of b"
  by (simp add: bits_of_def)

lemma bits_of_take: "bits_of (take k ip) = take (8 * k) (bits_of ip)"
  by (induction ip arbitrary: k) (auto simp: take_Cons' algebra_simps)

lemma net_ok_not_mapped: "net_ok n \<Longrightarrow> length (IP n) \<noteq> 4 \<Longrightarrow> length (IP n) = 16 \<and> To4 (IP n) = None"
proof -
  assume n: "net_ok n" "length (IP n) \<noteq> 4"
  have "take 12 (IP n) \<noteq> v4InV6Prefix"
  proof
    assume "take 12 (IP n) = v4InV6Prefix"
    then have "take 96 (bits_of (IP n)) = bits_of v4InV6Prefix"
      using bits_of_take [of 12 "IP n"] by simp
    then have "take (min 96 (prefix_len n)) (bits_of (IP n)) = take (min 96 (prefix_len n)) (bits_of v4InV6Prefix)"
      by (metis min.commute take_take min.right_idem)
    with n show False by (auto simp: net_ok_def)
  qed
  with n show ?thesis by (auto simp: net_ok_def To4_def)
qed

lemma net_ok_norm: "net_ok n \<Longrightarrow> norm_ip (IP n) = IP n"
  using net_ok_not_mapped [of n] by (cases "length (IP n) = 4") (auto simp: norm_ip_def To4_def)

lemma contains_iff_prefix:
  assumes "net_ok n"
  shows "contains n ip \<longleftrightarrow> length (norm_ip ip) = length (IP n) \<and>
           take (prefix_len n) (bits_of (norm_ip ip)) = take (prefix_len n) (bits_of (IP n))"
proof -
  have nm: "networkNumberAndMask n = Some (IP n, Mask n)"
    using assms net_ok_not_mapped [of n]
    by (cases "length (IP n) = 4") (auto simp: net_ok_def networkNumberAndMask_def To4_def)
  then have "contains n ip \<longleftrightarrow> length (norm_ip ip) = length (IP n) \<and>
               ip_and (IP n) (Mask n) = ip_and (norm_ip ip) (Mask n)"
    by (simp add: contains_def norm_ip_def Let_def)
  also have "\<dots> \<longleftrightarrow> length (norm_ip ip) = length (IP n) \<and>
      take (prefix_len n) (bits_of (IP n)) = take (prefix_len n) (bits_of (norm_ip ip))"
    using assms ip_and_cidr_eq_iff [of "IP n" "length (IP n)" "norm_ip ip" "prefix_len n"]
    by (auto simp: net_ok_def)
  finally show ?thesis by auto
qed

lemma net_ok_bits:
  "net_ok n \<Longrightarrow> bits_of (IP n) = take (prefix_len n) (bits_of (IP n)) @ replicate (8 * length (IP n) - prefix_len n) False"
  using bits_of_masked [of "prefix_len n" "IP n"] unfolding net_ok_def by metis

text \<open>\<^verbatim>\<open>Size\<close> recovers the prefix length that \<^verbatim>\<open>CIDRMask\<close> was called with.\<close>

lemma lead_ones_shift: "lead_ones f v k = (fst (lead_ones f v 0) + k, snd (lead_ones f v 0))"
proof (induction f arbitrary: v k)
  case (Suc f)
  show ?case
    using Suc [of "push_bit 1 v" "k + 1"] Suc [of "push_bit 1 v" 1] by simp
qed simp

lemma lead_ones_table:
  "lead_ones 8 (NOT (drop_bit 0 0xff)) 0 = (0, 0)" "lead_ones 8 (NOT (drop_bit 1 0xff)) 0 = (1, 0)"
  "lead_ones 8 (NOT (drop_bit 2 0xff)) 0 = (2, 0)" "lead_ones 8 (NOT (drop_bit 3 0xff)) 0 = (3, 0)"
  "lead_ones 8 (NOT (drop_bit 4 0xff)) 0 = (4, 0)" "lead_ones 8 (NOT (drop_bit 5 0xff)) 0 = (5, 0)"
  "lead_ones 8 (NOT (drop_bit 6 0xff)) 0 = (6, 0)" "lead_ones 8 (NOT (drop_bit 7 0xff)) 0 = (7, 0)"
  by (simp_all add: lead_ones_numeral)

lemma lead_ones_cidr:
  assumes "n < 8"
  shows "lead_ones 8 (NOT (drop_bit n 0xff)) k = (n + k, 0)" and "NOT (drop_bit n 0xff) \<noteq> (0xff :: byte)"
proof -
  from assms consider "n = 0" | "n = 1" | "n = 2" | "n = 3" | "n = 4" | "n = 5" | "n = 6" | "n = 7"
    by linarith
  then have "lead_ones 8 (NOT (drop_bit n 0xff)) 0 = (n, 0)"
    by cases (simp_all only: lead_ones_table)
  then show "lead_ones 8 (NOT (drop_bit n 0xff)) k = (n + k, 0)"
    by (subst lead_ones_shift) simp
  have "\<not> bit (NOT (drop_bit n 0xff) :: byte) 0"
    using assms bit_cidr_byte [of 0 n] by linarith
  moreover have "bit (0xff :: byte) 0" by simp
  ultimately show "NOT (drop_bit n 0xff) \<noteq> (0xff :: byte)" by metis
qed

lemma cidr_bytes_zero: "list_ex (\<lambda>b. b \<noteq> 0) (cidr_bytes l 0) = False"
  by (induction l) simp_all

lemma simpleMaskLength_cidr: "n \<le> 8 * l \<Longrightarrow> simpleMaskLength (cidr_bytes l n) k = Some (n + k)"
proof (induction l arbitrary: n k)
  case (Suc l)
  show ?case
    using Suc cidr_bytes_zero by (cases "8 \<le> n") (simp_all add: lead_ones_cidr)
qed simp

lemma mask_size_cidr: "n \<le> 8 * l \<Longrightarrow> mask_size (cidr_bytes l n) = (n, l * 8)"
  by (simp add: mask_size_def simpleMaskLength_cidr)

end
