(* ===== verification/KsrModel.thy ===== *)
theory KsrModel
  imports Prelude
begin

text \<open>
  The data-store model of the Kubernetes state reflector, \<^verbatim>\<open>src/plugins/ksr/model\<close>: the
  identifiers of pods, policies and namespaces, and the keys under which they are stored. Shows
  that each parser inverts its key function, accepts nothing else, and that no key is accepted
  by two parsers.
\<close>

section \<open>Identifiers\<close>

record obj_id =
  Name :: string
  Namespace :: string

type_synonym pod_id = obj_id
type_synonym policy_id = obj_id

definition ID_String :: "obj_id \<Rightarrow> string" where
  "ID_String i = Namespace i @ ''/'' @ Name i"

section \<open>Pods\<close>

record label =
  Label_Key :: string
  Label_Value :: string

datatype port_protocol = Pod_TCP | Pod_UDP

record container_port =
  Port_Name :: string
  HostPort :: "32 word"
  ContainerPort :: "32 word"
  Port_Protocol :: port_protocol
  Port_HostIpAddress :: string

record container =
  Container_Name :: string
  Container_Port :: "container_port list"

record pod =
  Pod_Name :: string
  Pod_Namespace :: string
  Pod_Label :: "label list"
  IpAddress :: string
  HostIpAddress :: string
  Container :: "container list"

section \<open>Keys\<close>

definition NamespacePrefix :: string where
  "NamespacePrefix = ''k8s/namespace/''"

definition PodPrefix :: string where
  "PodPrefix = ''k8s/namespace/{namespace}/pod/''"

definition PolicyPrefix :: string where
  "PolicyPrefix = ''k8s/namespace/{namespace}/policy/''"

text \<open>\<^verbatim>\<open>strings.Replace\<close> with a limit of one.\<close>

fun replace_first :: "string \<Rightarrow> string \<Rightarrow> string \<Rightarrow> string" where
  "replace_first old new [] = (if old = [] then new else [])"
| "replace_first old new (c # s) =
     (if has_prefix (c # s) old then new @ drop (length old) (c # s)
      else c # replace_first old new s)"

definition pod_Key :: "string \<Rightarrow> string \<Rightarrow> string" where
  "pod_Key pod namespace = replace_first ''{namespace}'' namespace PodPrefix @ pod"

definition policy_Key :: "string \<Rightarrow> string \<Rightarrow> string" where
  "policy_Key policy namespace = replace_first ''{namespace}'' namespace PolicyPrefix @ policy"

definition namespace_Key :: "string \<Rightarrow> string" where
  "namespace_Key namespace = NamespacePrefix @ namespace"

definition invalid_key :: "string \<Rightarrow> string" where
  "invalid_key key = ''invalid format of the key '' @ key"

definition ParsePodFromKey :: "string \<Rightarrow> string + string \<times> string" where
  "ParsePodFromKey key =
     (if has_prefix key NamespacePrefix then
        let components = split_on CHR ''/'' (trim_prefix key NamespacePrefix) in
        if length components = 3 \<and> components ! 1 = ''pod''
        then Inr (components ! 2, components ! 0)
        else Inl (invalid_key key)
      else Inl (invalid_key key))"

definition ParsePolicyFromKey :: "string \<Rightarrow> string + string \<times> string" where
  "ParsePolicyFromKey key =
     (if has_prefix key NamespacePrefix then
        let components = split_on CHR ''/'' (trim_prefix key NamespacePrefix) in
        if length components = 3 \<and> components ! 1 = ''policy''
        then Inr (components ! 2, components ! 0)
        else Inl (invalid_key key)
      else Inl (invalid_key key))"

definition ParseNamespaceFromKey :: "string \<Rightarrow> string + string" where
  "ParseNamespaceFromKey key =
     (if has_prefix key NamespacePrefix then
        let components = split_on CHR ''/'' (trim_prefix key NamespacePrefix) in
        if length components = 1 then Inr (components ! 0) else Inl (invalid_key key)
      else Inl (invalid_key key))"

section \<open>Keys and their parsers\<close>

lemma ID_String_inject:
  assumes "CHR ''/'' \<notin> set (Namespace i)" "CHR ''/'' \<notin> set (Namespace j)"
  shows "ID_String i = ID_String j \<longleftrightarrow> i = j"
proof
  assume "ID_String i = ID_String j"
  then have e: "Namespace i @ CHR ''/'' # Name i = Namespace j @ CHR ''/'' # Name j"
    by (simp add: ID_String_def)
  have "Namespace i = hd (split_on CHR ''/'' (Namespace i @ CHR ''/'' # Name i))"
    using assms by (simp add: split_on_append)
  also have "\<dots> = Namespace j"
    unfolding e using assms by (simp add: split_on_append)
  finally have "Namespace i = Namespace j" .
  with e show "i = j" by simp
qed simp

lemma key_shape:
  "pod_Key pod ns = NamespacePrefix @ ns @ CHR ''/'' # ''pod'' @ CHR ''/'' # pod"
  "policy_Key pol ns = NamespacePrefix @ ns @ CHR ''/'' # ''policy'' @ CHR ''/'' # pol"
  by (simp_all add: pod_Key_def policy_Key_def PodPrefix_def PolicyPrefix_def NamespacePrefix_def has_prefix_def)

lemma split_three:
  "split_on c (trim_prefix key p) = [x, y, z] \<Longrightarrow> has_prefix key p \<Longrightarrow>
   key = p @ x @ c # y @ c # z \<and> c \<notin> set x \<and> c \<notin> set z"
  using unsplit_split_on [of c "trim_prefix key p"] split_on_parts [of _ c "trim_prefix key p"] trim_prefix_back [of key p]
  by auto

lemma length_three: "length xs = 3 \<longleftrightarrow> (\<exists>a b c. xs = [a, b, c])"
  by (auto simp: numeral_eq_Suc length_Suc_conv)

lemma parse_object_key:
  assumes "has_prefix key NamespacePrefix"
  shows "length (split_on CHR ''/'' (trim_prefix key NamespacePrefix)) = 3 \<and>
         split_on CHR ''/'' (trim_prefix key NamespacePrefix) ! 1 = kind \<and>
         split_on CHR ''/'' (trim_prefix key NamespacePrefix) ! 2 = name \<and>
         split_on CHR ''/'' (trim_prefix key NamespacePrefix) ! 0 = ns \<longleftrightarrow>
         key = NamespacePrefix @ ns @ CHR ''/'' # kind @ CHR ''/'' # name \<and>
         CHR ''/'' \<notin> set kind \<and> CHR ''/'' \<notin> set ns \<and> CHR ''/'' \<notin> set name"
  (is "?l \<longleftrightarrow> ?r")
proof
  assume ?l
  then have s: "split_on CHR ''/'' (trim_prefix key NamespacePrefix) = [ns, kind, name]"
    by (auto simp: length_three)
  then have "CHR ''/'' \<notin> set kind" using split_on_parts [of kind "CHR ''/''" "trim_prefix key NamespacePrefix"] by simp
  then show ?r using split_three [OF s assms] by auto
next
  assume ?r
  then show ?l by (simp add: split_on_append split_on_none)
qed

lemma parse_pod_iff:
  "ParsePodFromKey key = Inr (pod, ns) \<longleftrightarrow>
   key = pod_Key pod ns \<and> CHR ''/'' \<notin> set pod \<and> CHR ''/'' \<notin> set ns"
proof (cases "has_prefix key NamespacePrefix")
  case True
  have "CHR ''/'' \<notin> set ''pod''" by simp
  with parse_object_key [OF True, of "''pod''" pod ns] True show ?thesis
    unfolding ParsePodFromKey_def key_shape Let_def by (auto split: if_splits)
next
  case False
  then show ?thesis by (auto simp: ParsePodFromKey_def key_shape)
qed

lemma parse_policy_iff:
  "ParsePolicyFromKey key = Inr (pol, ns) \<longleftrightarrow>
   key = policy_Key pol ns \<and> CHR ''/'' \<notin> set pol \<and> CHR ''/'' \<notin> set ns"
proof (cases "has_prefix key NamespacePrefix")
  case True
  have "CHR ''/'' \<notin> set ''policy''" by simp
  with parse_object_key [OF True, of "''policy''" pol ns] True show ?thesis
    unfolding ParsePolicyFromKey_def key_shape Let_def by (auto split: if_splits)
next
  case False
  then show ?thesis by (auto simp: ParsePolicyFromKey_def key_shape)
qed

lemma parse_namespace_iff:
  "ParseNamespaceFromKey key = Inr ns \<longleftrightarrow> key = namespace_Key ns \<and> CHR ''/'' \<notin> set ns"
proof (cases "has_prefix key NamespacePrefix")
  case True
  then have "length (split_on CHR ''/'' (trim_prefix key NamespacePrefix)) = 1 \<and>
      split_on CHR ''/'' (trim_prefix key NamespacePrefix) ! 0 = ns \<longleftrightarrow>
      key = NamespacePrefix @ ns \<and> CHR ''/'' \<notin> set ns"
    using unsplit_split_on [of "CHR ''/''" "trim_prefix key NamespacePrefix"]
      split_on_parts [of ns "CHR ''/''" "trim_prefix key NamespacePrefix"] trim_prefix_back [OF True]
    by (auto simp: length_Suc_conv split_on_none)
  with True show ?thesis
    unfolding ParseNamespaceFromKey_def namespace_Key_def Let_def by (auto split: if_splits)
next
  case False
  then show ?thesis by (auto simp: ParseNamespaceFromKey_def namespace_Key_def)
qed

section \<open>Properties\<close>

text \<open>
  C28: the parsers of data-store keys are exact inverses of the key functions: a key is parsed to
  a name and a namespace without slashes precisely when it is the key built from them, and
  every other key is an error.
\<close>

theorem keys_parse_exactly:
  "(ParsePodFromKey key = Inr (pod, ns) \<longleftrightarrow> key = pod_Key pod ns \<and> CHR ''/'' \<notin> set pod \<and> CHR ''/'' \<notin> set ns) \<and>
   (ParsePolicyFromKey key = Inr (pol, ns) \<longleftrightarrow> key = policy_Key pol ns \<and> CHR ''/'' \<notin> set pol \<and> CHR ''/'' \<notin> set ns) \<and>
   (ParseNamespaceFromKey key = Inr ns \<longleftrightarrow> key = namespace_Key ns \<and> CHR ''/'' \<notin> set ns)"
  by (intro conjI parse_pod_iff parse_policy_iff parse_namespace_iff)

text \<open>No key is accepted by two of the three parsers, so watchers can tell the kinds apart.\<close>

lemma key_kinds_disjoint:
  "\<not> (\<not> isl (ParsePodFromKey key) \<and> \<not> isl (ParsePolicyFromKey key)) \<and>
   \<not> (\<not> isl (ParsePodFromKey key) \<and> \<not> isl (ParseNamespaceFromKey key)) \<and>
   \<not> (\<not> isl (ParsePolicyFromKey key) \<and> \<not> isl (ParseNamespaceFromKey key))"
  by (simp add: ParsePodFromKey_def ParsePolicyFromKey_def ParseNamespaceFromKey_def Let_def)

end
