(* ===== verification/Utils.thy ===== *)
theory Utils
  imports GoNet KsrModel
begin

text \<open>
  The helpers of \<^verbatim>\<open>src/plugins/policy/utils/utils.go\<close>: set operations on string slices, the
  conversions between identifiers and strings, the three-way comparisons, and the one-host
  subnet of an address.
\<close>

section \<open>Slices as sets\<close>

text \<open>\<^verbatim>\<open>RemoveDuplicates\<close> collects the keys of a map, in the order the map is iterated: the
  result is any enumeration of them, here the one given by the argument \<open>iter\<close>.\<close>

definition RemoveDuplicates :: "(string list \<Rightarrow> string list) \<Rightarrow> string list \<Rightarrow> string list" where
  "RemoveDuplicates iter el = iter (fold List.insert el [])"

definition Intersect :: "string list \<Rightarrow> string list \<Rightarrow> string list" where
  "Intersect a b = filter (\<lambda>el. el \<in> set a) b"

definition Difference :: "string list \<Rightarrow> string list \<Rightarrow> string list" where
  "Difference a b = filter (\<lambda>el. el \<notin> set a) b"

section \<open>Identifiers and strings\<close>

text \<open>The component \<^verbatim>\<open>parts[1]\<close> does not exist when the string has no slash: a panic.\<close>

definition UnstringID :: "string \<Rightarrow> obj_id option" where
  "UnstringID s =
     (let parts = split_on CHR ''/'' s in
      if length parts < 2 then None else Some \<lparr>Name = parts ! 1, Namespace = parts ! 0\<rparr>)"

definition UnstringPodID :: "string list \<Rightarrow> pod_id list option" where
  "UnstringPodID pods = those (map UnstringID pods)"

definition StringPodID :: "pod_id list \<Rightarrow> string list" where
  "StringPodID pods = map (\<lambda>pod. Namespace pod @ ''/'' @ Name pod) pods"

definition UnstringPolicyID :: "string list \<Rightarrow> policy_id list option" where
  "UnstringPolicyID policies = those (map UnstringID policies)"

definition StringPolicyID :: "policy_id list \<Rightarrow> string list" where
  "StringPolicyID policies = map (\<lambda>policy. Namespace policy @ ''/'' @ Name policy) policies"

section \<open>Comparisons\<close>

definition CompareInts :: "int \<Rightarrow> int \<Rightarrow> int" where
  "CompareInts a b = (if a < b then -1 else if a > b then 1 else 0)"

definition CompareIPNets :: "ipnet \<Rightarrow> ipnet \<Rightarrow> int" where
  "CompareIPNets a b =
     (let ipOrder = bytes_compare (IP a) (IP b) in
      if ipOrder = 0 then bytes_compare (Mask a) (Mask b) else ipOrder)"

definition CompareIPNetsBytes :: "uint8 \<Rightarrow> bytes \<Rightarrow> uint8 \<Rightarrow> bytes \<Rightarrow> int" where
  "CompareIPNetsBytes aPrefixLen aIP bPrefixLen bIP =
     (let prefixOrder = CompareInts (uint aPrefixLen) (uint bPrefixLen) in
      if prefixOrder \<noteq> 0 then prefixOrder else bytes_compare aIP bIP)"

section \<open>One-host subnets\<close>

definition GetOneHostSubnet :: "string \<Rightarrow> ipnet option" where
  "GetOneHostSubnet hostAddr =
     (case ParseIP hostAddr of
        None \<Rightarrow> None
      | Some ip \<Rightarrow>
          Some \<lparr>IP = ip, Mask = (if To4 ip \<noteq> None then CIDRMask (4 * 8) (4 * 8)
                                 else CIDRMask (16 * 8) (16 * 8))\<rparr>)"

section \<open>Lemmas\<close>

lemma set_fold_insert: "set (fold List.insert xs acc) = set xs \<union> set acc"
  by (induction xs arbitrary: acc) auto

lemma RemoveDuplicates_set:
  "(\<And>ks. set (iter ks) = set ks) \<Longrightarrow> set (RemoveDuplicates iter el) = set el"
  by (simp add: RemoveDuplicates_def set_fold_insert)

lemma Intersect_set [simp]: "set (Intersect a b) = set a \<inter> set b"
  by (auto simp: Intersect_def)

lemma Difference_set [simp]: "set (Difference a b) = set b - set a"
  by (auto simp: Difference_def)

lemma UnstringID_String: "CHR ''/'' \<notin> set (Namespace i) \<Longrightarrow> CHR ''/'' \<notin> set (Name i) \<Longrightarrow> UnstringID (ID_String i) = Some i"
  by (simp add: UnstringID_def ID_String_def split_on_append split_on_none)

lemma CompareInts_zero [simp]: "CompareInts a b = 0 \<longleftrightarrow> a = b"
  by (auto simp: CompareInts_def)

lemma three_way_CompareInts: "three_way CompareInts"
  unfolding CompareInts_def using three_way_linorder [of "\<lambda>x. x"] by simp

lemma CompareIPNets_chain:
  "CompareIPNets a b = and_then (bytes_compare (IP a) (IP b)) (bytes_compare (Mask a) (Mask b))"
  by (simp add: CompareIPNets_def and_then_def Let_def)

lemma CompareIPNets_zero [simp]: "CompareIPNets a b = 0 \<longleftrightarrow> a = b"
  by (auto simp: CompareIPNets_chain intro: ipnet.equality)

lemma three_way_CompareIPNets: "three_way CompareIPNets"
proof -
  have c: "CompareIPNets = (\<lambda>a b. and_then (bytes_compare (IP a) (IP b)) (bytes_compare (Mask a) (Mask b)))"
    by (intro ext) (rule CompareIPNets_chain)
  show ?thesis
    unfolding c by (rule three_way_and_then; rule three_way_on [OF three_way_bytes_compare])
qed

lemma CompareIPNetsBytes_chain:
  "CompareIPNetsBytes p a q b = and_then (CompareInts (uint p) (uint q)) (bytes_compare a b)"
  by (simp add: CompareIPNetsBytes_def and_then_def Let_def)

lemma CompareIPNetsBytes_zero [simp]: "CompareIPNetsBytes p a q b = 0 \<longleftrightarrow> p = q \<and> a = b"
  by (simp add: CompareIPNetsBytes_chain word_uint_eq_iff)

interpretation ipnet_order: three_way_total CompareIPNets
  by (intro three_way_total.intro three_way_CompareIPNets three_way_total_axioms.intro) simp

text \<open>The one-host subnet contains exactly the host.\<close>

lemma parseIPv4_shape: "parseIPv4 s = Some ip \<Longrightarrow> \<exists>a b c d. ip = IPv4 a b c d"
  unfolding parseIPv4_def by (simp split: option.splits prod.splits list.splits) blast

lemma parseIPv4_length: "parseIPv4 s = Some ip \<Longrightarrow> length ip = 16"
  by (auto dest: parseIPv4_shape simp: IPv4_def v4InV6Prefix_def)

lemma To4_IPv4: "To4 (IPv4 a b c d) = Some [a, b, c, d]"
  by (simp add: IPv4_def v4InV6Prefix_def To4_def)

lemma parse_chunks_length:
  "parse_chunks k s acc ell = Some (acc', ell', rest) \<Longrightarrow> length acc + 2 * k \<le> 16 \<Longrightarrow> length acc' \<le> 16"
proof (induction k arbitrary: s acc ell)
  case (Suc k)
  obtain n r ok where x: "xtoi s = (n, r, ok)" by (cases "xtoi s")
  note step = Suc.prems(1) [unfolded parse_chunks.simps x Let_def prod.case]
  show ?case
  proof (cases "r \<noteq> [] \<and> hd r = CHR ''.''")
    case True
    with step have "length acc + 4 \<le> 16" and "\<exists>ip4. parseIPv4 s = Some ip4 \<and> acc' = acc @ drop 12 ip4"
      by (auto split: if_splits)
    then show ?thesis by (auto dest: parseIPv4_length)
  next
    case False
    let ?acc = "acc @ [of_nat (n div 256), of_nat n]"
    have len: "length ?acc + 2 * k \<le> 16" using Suc.prems(2) by simp
    from step False consider "acc' = ?acc" | s' e where "parse_chunks k s' ?acc e = Some (acc', ell', rest)"
      by (auto split: if_splits)
    then show ?thesis
    proof cases
      case 1
      with len show ?thesis by simp
    next
      case 2
      then show ?thesis by (rule Suc.IH [OF _ len])
    qed
  qed
qed simp

lemma parseIPv6_length: "parseIPv6 s = Some ip \<Longrightarrow> length ip = 16"
proof -
  assume "parseIPv6 s = Some ip"
  moreover have "length acc' \<le> 16" if "parse_chunks 8 s' [] e = Some (acc', e', r)" for s' e acc' e' r
    using parse_chunks_length [OF that] by simp
  moreover have "length (take e a @ replicate (16 - length a) x @ drop e a) = 16"
    if "length a < 16" for a :: bytes and e x
    using that by (cases "e \<le> length a") simp_all
  ultimately show ?thesis
    unfolding parseIPv6_def Let_def
    by (fastforce split: if_splits option.splits)
qed

lemma ParseIP_length: "ParseIP s = Some ip \<Longrightarrow> length ip = 16"
  by (auto simp: ParseIP_def split: option.splits if_splits dest: parseIPv4_length parseIPv6_length)

lemma ip_and_full: "length a = l \<Longrightarrow> length b = l \<Longrightarrow> ip_and a (cidr_bytes l (8 * l)) = ip_and b (cidr_bytes l (8 * l)) \<longleftrightarrow> a = b"
  by (subst ip_and_cidr_eq_iff) (simp_all add: bits_of_inject)

lemma GetOneHostSubnet_contains:
  assumes "GetOneHostSubnet s = Some n"
  shows "IP n \<noteq> [] \<and> ParseIP s = Some (IP n) \<and> (\<forall>a. contains n a \<longleftrightarrow> norm_ip a = norm_ip (IP n))"
proof -
  obtain ip where ip: "ParseIP s = Some ip" "IP n = ip"
    and m: "Mask n = (if To4 ip \<noteq> None then CIDRMask (4 * 8) (4 * 8) else CIDRMask (16 * 8) (16 * 8))"
    using assms by (auto simp: GetOneHostSubnet_def split: option.splits)
  have len: "length ip = 16" using ip ParseIP_length by blast
  have "networkNumberAndMask n = Some (norm_ip ip, cidr_bytes (length (norm_ip ip)) (8 * length (norm_ip ip)))"
  proof (cases "To4 ip")
    case None
    then show ?thesis using ip len m by (simp add: networkNumberAndMask_def norm_ip_def CIDRMask_def)
  next
    case (Some x)
    then have "length x = 4" by (rule To4_length)
    with Some show ?thesis using ip len m by (simp add: networkNumberAndMask_def norm_ip_def CIDRMask_def)
  qed
  then have "contains n a \<longleftrightarrow> norm_ip a = norm_ip ip" for a
    using ip_and_full [of "norm_ip ip" "length (norm_ip ip)" "norm_ip a"]
    by (auto simp: contains_def Let_def norm_ip_def)
  then show ?thesis using ip len by auto
qed

end
