(* ===== verification/ContivRule.thy ===== *)
theory ContivRule
  imports Utils
begin

text \<open>
  The rule type shared by the configurator and the renderers,
  \<^verbatim>\<open>src/plugins/policy/renderer/api.go\<close>, with its \<^verbatim>\<open>Compare\<close> and \<^verbatim>\<open>String\<close>, and what a list of rules
  decides for a packet. \<^verbatim>\<open>Compare\<close> is shown to be a total order on rules.
\<close>

section \<open>Rules\<close>

datatype action = ActionDeny | ActionPermit

datatype protocol = TCP | UDP

primrec action_int :: "action \<Rightarrow> int" where
  "action_int ActionDeny = 0"
| "action_int ActionPermit = 1"

primrec protocol_int :: "protocol \<Rightarrow> int" where
  "protocol_int TCP = 0"
| "protocol_int UDP = 1"

primrec action_String :: "action \<Rightarrow> string" where
  "action_String ActionDeny = ''DENY''"
| "action_String ActionPermit = ''PERMIT''"

primrec protocol_String :: "protocol \<Rightarrow> string" where
  "protocol_String TCP = ''TCP''"
| "protocol_String UDP = ''UDP''"

text \<open>
  The two networks of \<^verbatim>\<open>ContivRule\<close> are pointers. Rules coming from the configurator have both
  set; the session rule cache builds rules whose source network may be nil, so the record is
  generic in the type of that field.
\<close>

record 's contiv_rule_of =
  ID :: string
  Action :: action
  SrcNetwork :: 's
  DestNetwork :: ipnet
  Protocol :: protocol
  SrcPort :: uint16
  DestPort :: uint16

type_synonym contiv_rule = "ipnet contiv_rule_of"

definition empty_net :: ipnet where
  "empty_net = \<lparr>IP = [], Mask = []\<rparr>"

definition ContivRule_String :: "contiv_rule \<Rightarrow> string" where
  "ContivRule_String cr =
     (let any = ''ANY'';
          srcNet = (if length (IP (SrcNetwork cr)) > 0 then ipnet_string (SrcNetwork cr) else any);
          dstNet = (if length (IP (DestNetwork cr)) > 0 then ipnet_string (DestNetwork cr) else any);
          srcPort = (if SrcPort cr \<noteq> 0 then itoa (unat (SrcPort cr)) else any);
          dstPort = (if DestPort cr \<noteq> 0 then itoa (unat (DestPort cr)) else any)
      in ''Rule '' @ ID cr @ '' <'' @ action_String (Action cr) @ '' '' @ srcNet @ ''[''
           @ protocol_String (Protocol cr) @ '':'' @ srcPort @ ''] -> '' @ dstNet @ ''[''
           @ protocol_String (Protocol cr) @ '':'' @ dstPort @ '']>'')"

definition Compare :: "contiv_rule \<Rightarrow> contiv_rule \<Rightarrow> int" where
  "Compare cr cr2 =
     (if ID cr < ID cr2 then -1
      else if ID cr > ID cr2 then 1
      else
        let actionOrder = CompareInts (action_int (Action cr)) (action_int (Action cr2)) in
        if actionOrder \<noteq> 0 then actionOrder
        else
          let srcIPOrder = CompareIPNets (SrcNetwork cr) (SrcNetwork cr2) in
          if srcIPOrder \<noteq> 0 then srcIPOrder
          else
            let destIPOrder = CompareIPNets (DestNetwork cr) (DestNetwork cr2) in
            if destIPOrder \<noteq> 0 then destIPOrder
            else
              let protocolOrder = CompareInts (protocol_int (Protocol cr)) (protocol_int (Protocol cr2)) in
              if protocolOrder \<noteq> 0 then protocolOrder
              else
                let srcPortOrder = CompareInts (uint (SrcPort cr)) (uint (SrcPort cr2)) in
                if srcPortOrder \<noteq> 0 then srcPortOrder
                else CompareInts (uint (DestPort cr)) (uint (DestPort cr2)))"

section \<open>What rules mean\<close>

text \<open>
  A packet as the rules see it. The interface documentation fixes the reading of a rule: an
  empty network and a zero port match everything, and an empty list of rules allows any
  traffic. Rules are tried in the order of the list.
\<close>

record packet =
  pkt_src :: ip
  pkt_dst :: ip
  pkt_proto :: protocol
  pkt_sport :: uint16
  pkt_dport :: uint16

definition net_matches :: "ipnet \<Rightarrow> ip \<Rightarrow> bool" where
  "net_matches n ip \<longleftrightarrow> length (IP n) = 0 \<or> contains n ip"

definition port_matches :: "uint16 \<Rightarrow> uint16 \<Rightarrow> bool" where
  "port_matches p q \<longleftrightarrow> p = 0 \<or> p = q"

definition rule_matches :: "contiv_rule \<Rightarrow> packet \<Rightarrow> bool" where
  "rule_matches r p \<longleftrightarrow>
     net_matches (SrcNetwork r) (pkt_src p) \<and> net_matches (DestNetwork r) (pkt_dst p) \<and>
     Protocol r = pkt_proto p \<and> port_matches (SrcPort r) (pkt_sport p) \<and>
     port_matches (DestPort r) (pkt_dport p)"

fun permitted :: "contiv_rule list \<Rightarrow> packet \<Rightarrow> bool" where
  "permitted [] p \<longleftrightarrow> True"
| "permitted (r # rs) p \<longleftrightarrow> (if rule_matches r p then Action r = ActionPermit else permitted rs p)"

section \<open>Compare is a total order\<close>

lemma action_int_inject [simp]: "action_int a = action_int b \<longleftrightarrow> a = b"
  by (cases a; cases b) simp_all

lemma protocol_int_inject [simp]: "protocol_int a = protocol_int b \<longleftrightarrow> a = b"
  by (cases a; cases b) simp_all

definition string_order :: "string \<Rightarrow> string \<Rightarrow> int" where
  "string_order a b = (if a < b then -1 else if a > b then 1 else 0)"

lemma string_order_zero [simp]: "string_order a b = 0 \<longleftrightarrow> a = b"
  by (auto simp: string_order_def)

lemma Compare_chain:
  "Compare = (\<lambda>a b.
     and_then (string_order (ID a) (ID b))
     (and_then (CompareInts (action_int (Action a)) (action_int (Action b)))
     (and_then (CompareIPNets (SrcNetwork a) (SrcNetwork b))
     (and_then (CompareIPNets (DestNetwork a) (DestNetwork b))
     (and_then (CompareInts (protocol_int (Protocol a)) (protocol_int (Protocol b)))
     (and_then (CompareInts (uint (SrcPort a)) (uint (SrcPort b)))
               (CompareInts (uint (DestPort a)) (uint (DestPort b)))))))))"
  by (intro ext) (simp add: Compare_def and_then_def string_order_def Let_def)

lemma three_way_Compare: "three_way Compare"
  unfolding Compare_chain string_order_def
  by (intro three_way_and_then three_way_linorder three_way_on [OF three_way_CompareIPNets]
      three_way_on [OF three_way_CompareInts])

lemma Compare_zero [simp]: "Compare a b = 0 \<longleftrightarrow> a = b"
  by (auto simp: Compare_chain word_uint_eq_iff [symmetric] intro: contiv_rule_of.equality)

interpretation rule_order: three_way_total Compare
  by (intro three_way_total.intro three_way_Compare three_way_total_axioms.intro) simp

section \<open>Properties\<close>

text \<open>
  C29: \<^verbatim>\<open>Compare\<close> on Contiv rules is a total order, as its comment says: exchanging the arguments
  negates the result, it is transitive, and it returns zero only for equal rules.
\<close>

theorem Compare_total_order:
  "Compare b a = - Compare a b \<and> (Compare a b = 0 \<longleftrightarrow> a = b) \<and>
   (Compare a b \<le> 0 \<and> Compare b c \<le> 0 \<longrightarrow> Compare a c \<le> 0)"
  using rule_order.cmp_flip [of b a] rule_order.cmp_trans [of a b c] by simp

definition ex_rule :: "string \<Rightarrow> uint16 \<Rightarrow> contiv_rule" where
  "ex_rule i p = \<lparr>ID = i, Action = ActionPermit, SrcNetwork = empty_net, DestNetwork = empty_net,
     Protocol = TCP, SrcPort = 0, DestPort = p\<rparr>"

theorem Compare_total_order_witness:
  "Compare (ex_rule ''a'' 80) (ex_rule ''a'' 443) \<le> 0 \<and> Compare (ex_rule ''a'' 443) (ex_rule ''b'' 1) \<le> 0 \<and>
   Compare (ex_rule ''a'' 80) (ex_rule ''b'' 1) \<le> 0"
proof -
  have "Compare (ex_rule ''a'' 80) (ex_rule ''a'' 443) \<le> 0" "Compare (ex_rule ''a'' 443) (ex_rule ''b'' 1) \<le> 0"
    by (simp_all add: Compare_def ex_rule_def CompareInts_def CompareIPNets_def bytes_compare_def empty_net_def)
  then show ?thesis using Compare_total_order [where a = "ex_rule ''a'' 80" and b = "ex_rule ''a'' 443" and c = "ex_rule ''b'' 1"] by blast
qed

end
