(* ===== verification/SessionCache.thy ===== *)
theory SessionCache
  imports GoSlice GoMd5 ContivRule
begin

text \<open>
  The cache of VPP session rules, \<^verbatim>\<open>src/plugins/policy/renderer/vpptcp/cache\<close>: session rules and
  their order, the sorted rule lists with their difference, sets of ports, the conversion of
  Contiv rules into session rules of the global table and of the local tables, and the
  transactions of the cache.
\<close>

section \<open>Session rules\<close>

record session_rule =
  TransportProto :: uint8
  IsIP4 :: uint8
  LclIP :: bytes
  LclPlen :: uint8
  RmtIP :: bytes
  RmtPlen :: uint8
  LclPort :: uint16
  RmtPort :: uint16
  ActionIndex :: uint32
  AppnsIndex :: uint32
  Scope :: uint8
  Tag :: bytes

definition RuleScopeGlobal :: uint8 where "RuleScopeGlobal = 1"
definition RuleScopeLocal :: uint8 where "RuleScopeLocal = 2"
definition RuleScopeBoth :: uint8 where "RuleScopeBoth = 3"
definition RuleActionDoNothing :: uint32 where "RuleActionDoNothing = -1"
definition RuleActionDeny :: uint32 where "RuleActionDeny = -1 - 1"
definition RuleActionAllow :: uint32 where "RuleActionAllow = -1 - 2"
definition RuleProtoTCP :: uint8 where "RuleProtoTCP = 0"
definition RuleProtoUDP :: uint8 where "RuleProtoUDP = 1"

definition SessionRule_Compare :: "session_rule \<Rightarrow> session_rule \<Rightarrow> bool \<Rightarrow> int" where
  "SessionRule_Compare sr sr2 compareTag =
     (let nsOrder = CompareInts (uint (AppnsIndex sr)) (uint (AppnsIndex sr2)) in
      if nsOrder \<noteq> 0 then nsOrder else
      let scopeOrder = CompareInts (uint (Scope sr)) (uint (Scope sr2)) in
      if scopeOrder \<noteq> 0 then scopeOrder else
      let actionOrder = CompareInts (uint (ActionIndex sr)) (uint (ActionIndex sr2)) in
      if actionOrder \<noteq> 0 then actionOrder else
      let ipVerOrder = CompareInts (uint (IsIP4 sr)) (uint (IsIP4 sr2)) in
      if ipVerOrder \<noteq> 0 then ipVerOrder else
      let lclOrder = CompareIPNetsBytes (LclPlen sr) (LclIP sr) (LclPlen sr2) (LclIP sr2) in
      if lclOrder \<noteq> 0 then lclOrder else
      let rmtOrder = CompareIPNetsBytes (RmtPlen sr) (RmtIP sr) (RmtPlen sr2) (RmtIP sr2) in
      if rmtOrder \<noteq> 0 then rmtOrder else
      let protocolOrder = CompareInts (uint (TransportProto sr)) (uint (TransportProto sr2)) in
      if protocolOrder \<noteq> 0 then protocolOrder else
      let lclPortOrder = CompareInts (uint (LclPort sr)) (uint (LclPort sr2)) in
      if lclPortOrder \<noteq> 0 then lclPortOrder else
      let rmtPortOrder = CompareInts (uint (RmtPort sr)) (uint (RmtPort sr2)) in
      if rmtPortOrder \<noteq> 0 then rmtPortOrder else
      if compareTag then bytes_compare (Tag sr) (Tag sr2) else 0)"

definition new_SessionRule :: session_rule where
  "new_SessionRule = \<lparr>TransportProto = 0, IsIP4 = 0, LclIP = replicate 16 0, LclPlen = 0, RmtIP = replicate 16 0,
     RmtPlen = 0, LclPort = 0, RmtPort = 0, ActionIndex = 0, AppnsIndex = 0, Scope = 0, Tag = replicate 64 0\<rparr>"

text \<open>\<^verbatim>\<open>copy(array[:], src)\<close> into a fixed-size array.\<close>

definition array_copy :: "'a list \<Rightarrow> 'a list \<Rightarrow> 'a list" where
  "array_copy dst src = take (length dst) src @ drop (length src) dst"

text \<open>The tag of a printed rule, \<^verbatim>\<open>Tag[:tagLen]\<close> with \<^verbatim>\<open>tagLen\<close> the index of the first zero byte; a
  tag without zero byte gives the index -1 and a panic.\<close>

definition tag_string :: "bytes \<Rightarrow> bytes option" where
  "tag_string tag = (if 0 \<in> set tag then Some (takeWhile (\<lambda>b. b \<noteq> 0) tag) else None)"

definition SessionRule_String :: "session_rule \<Rightarrow> string option" where
  "SessionRule_String sr =
     (let scope = (if Scope sr = 0 then ''global''
                   else if Scope sr = RuleScopeGlobal then ''global''
                   else if Scope sr = RuleScopeLocal then ''local''
                   else if Scope sr = RuleScopeBoth then ''both''
                   else ''invalid'');
          action = (if ActionIndex sr = RuleActionDoNothing then ''do-nothing''
                    else if ActionIndex sr = RuleActionAllow then ''allow''
                    else if ActionIndex sr = RuleActionDeny then ''deny''
                    else ''fwd->'' @ itoa (unat (ActionIndex sr)));
          ipBits = (if IsIP4 sr = 0 then 128 else 32);
          lcl = \<lparr>IP = array_copy (replicate (ipBits div 8) 0) (LclIP sr), Mask = CIDRMask (unat (LclPlen sr)) ipBits\<rparr>;
          rmt = \<lparr>IP = array_copy (replicate (ipBits div 8) 0) (RmtIP sr), Mask = CIDRMask (unat (RmtPlen sr)) ipBits\<rparr>;
          l4Proto = (if TransportProto sr = RuleProtoTCP then ''TCP''
                     else if TransportProto sr = RuleProtoUDP then ''UDP''
                     else ''invalid'')
      in map_option (\<lambda>tag.
           ''Rule <ns:'' @ itoa (unat (AppnsIndex sr)) @ '' scope:'' @ scope @ '' action:'' @ action
           @ '' lcl:'' @ ipnet_string lcl @ ''['' @ l4Proto @ '':'' @ itoa (unat (LclPort sr))
           @ ''] rmt:'' @ ipnet_string rmt @ '':['' @ l4Proto @ '':'' @ itoa (unat (RmtPort sr))
           @ ''] tag:'' @ map (\<lambda>b. char_of (unat b)) tag @ ''>'') (tag_string (Tag sr)))"

section \<open>Lists of session rules\<close>

text \<open>The array \<^verbatim>\<open>rules\<close> and \<^verbatim>\<open>numItems\<close>.\<close>

type_synonym session_rule_list = "session_rule option list \<times> nat"

definition NewSessionRuleList :: session_rule_list where
  "NewSessionRuleList = ([], 0)"

definition lookupIdxByRule :: "session_rule_list \<Rightarrow> session_rule \<Rightarrow> nat option" where
  "lookupIdxByRule srl rule =
     sort_Search (snd srl)
       (\<lambda>i. map_option (\<lambda>r. SessionRule_Compare rule r False \<le> 0) (elem_at (fst srl) i))"

definition insert_rule :: "session_rule_list \<Rightarrow> session_rule \<Rightarrow> (session_rule_list \<times> bool) option" where
  "insert_rule srl rule =
     do {
       idx \<leftarrow> lookupIdxByRule srl rule;
       present \<leftarrow> (if idx < snd srl
                   then map_option (\<lambda>r. SessionRule_Compare rule r False = 0) (elem_at (fst srl) idx)
                   else Some False);
       if present then Some (srl, False)
       else map_option (\<lambda>srl'. (srl', True)) (padded_insert idx rule srl)
     }"

fun Insert_loop :: "session_rule_list \<Rightarrow> session_rule list \<Rightarrow> bool \<Rightarrow> (session_rule_list \<times> bool) option" where
  "Insert_loop srl [] allIn = Some (srl, allIn)"
| "Insert_loop srl (rule # rules) allIn =
     (case insert_rule srl rule of
        None \<Rightarrow> None
      | Some (srl', added) \<Rightarrow> Insert_loop srl' rules (if \<not> added then False else allIn))"

definition Insert :: "session_rule_list \<Rightarrow> session_rule list \<Rightarrow> (session_rule_list \<times> bool) option" where
  "Insert srl rules = Insert_loop srl rules True"

definition Remove :: "session_rule_list \<Rightarrow> nat \<Rightarrow> (session_rule_list \<times> bool) option" where
  "Remove srl idx =
     (if idx < snd srl then map_option (\<lambda>srl'. (srl', True)) (padded_remove idx srl)
      else Some (srl, False))"

text \<open>
  The loop of \<^verbatim>\<open>Diff\<close>. The results are slices of pointers. A comparison outside -1, 0, 1 would
  leave both indices unchanged: there is no result then.
\<close>

function diff_loop ::
  "session_rule_list \<Rightarrow> session_rule_list \<Rightarrow> nat \<Rightarrow> nat \<Rightarrow> session_rule option list \<Rightarrow> session_rule option list \<Rightarrow>
   (session_rule option list \<times> session_rule option list) option" where
  "diff_loop srl srl2 idx1 idx2 added removed =
     (if idx1 < snd srl \<or> idx2 < snd srl2 then
        if idx1 < snd srl then
          if idx2 < snd srl2 then
            (case (elem_at (fst srl) idx1, elem_at (fst srl2) idx2) of
               (Some r1, Some r2) \<Rightarrow>
                 let order = SessionRule_Compare r1 r2 True in
                 if order = 0 then diff_loop srl srl2 (idx1 + 1) (idx2 + 1) added removed
                 else if order = -1 then diff_loop srl srl2 (idx1 + 1) idx2 (added @ [Some r1]) removed
                 else if order = 1 then diff_loop srl srl2 idx1 (idx2 + 1) added (removed @ [Some r2])
                 else None
             | _ \<Rightarrow> None)
          else if idx1 < length (fst srl) then
            diff_loop srl srl2 (idx1 + 1) idx2 (added @ [fst srl ! idx1]) removed
          else None
        else if idx2 < length (fst srl2) then
          diff_loop srl srl2 idx1 (idx2 + 1) added (removed @ [fst srl2 ! idx2])
        else None
      else Some (added, removed))"
  by pat_completeness auto
termination
  by (relation "measure (\<lambda>(srl, srl2, idx1, idx2, added, removed). (snd srl - idx1) + (snd srl2 - idx2))") auto

declare diff_loop.simps [simp del]

definition Diff ::
  "session_rule_list \<Rightarrow> session_rule_list \<Rightarrow> (session_rule option list \<times> session_rule option list) option" where
  "Diff srl srl2 = diff_loop srl srl2 0 0 [] []"

section \<open>Tables\<close>

record session_tables =
  global :: session_rule_list
  local :: "(uint32 \<times> session_rule_list) list"

definition NewSessionTables :: session_tables where
  "NewSessionTables = \<lparr>global = NewSessionRuleList, local = []\<rparr>"

fun diff_local ::
  "(uint32 \<times> session_rule_list) list \<Rightarrow> session_tables \<Rightarrow> session_rule option list \<times> session_rule option list \<Rightarrow>
   (session_rule option list \<times> session_rule option list) option" where
  "diff_local [] st2 acc = Some acc"
| "diff_local ((nsIndex, nsRules) # rest) st2 acc =
     (case map_of (local st2) nsIndex of
        Some nsRules2 \<Rightarrow>
          (case Diff nsRules nsRules2 of
             None \<Rightarrow> None
           | Some (nsAdded, nsRemoved) \<Rightarrow> diff_local rest st2 (fst acc @ nsAdded, snd acc @ nsRemoved))
      | None \<Rightarrow> diff_local rest st2 (fst acc @ fst nsRules, snd acc))"

definition tables_Diff ::
  "session_tables \<Rightarrow> session_tables \<Rightarrow> (session_rule option list \<times> session_rule option list) option" where
  "tables_Diff st st2 =
     (case Diff (global st) (global st2) of
        None \<Rightarrow> None
      | Some acc \<Rightarrow>
          map_option (\<lambda>(added, removed).
              (added, removed @ concat (map (\<lambda>(nsIndex, nsRules2).
                 if map_of (local st) nsIndex = None then fst nsRules2 else []) (local st2))))
            (diff_local (local st) st2 acc))"

section \<open>Ports\<close>

text \<open>A set of port numbers, as the list of the keys of the map.\<close>

type_synonym ports = "uint16 list"

definition AnyPort :: uint16 where
  "AnyPort = 0"

definition ports_Add :: "ports \<Rightarrow> uint16 \<Rightarrow> ports" where
  "ports_Add p port = List.insert port p"

definition NewPorts :: "uint16 list \<Rightarrow> ports" where
  "NewPorts portNums = fold (\<lambda>portNum ports. ports_Add ports portNum) portNums []"

definition HasExplicit :: "ports \<Rightarrow> uint16 \<Rightarrow> bool" where
  "HasExplicit p port \<longleftrightarrow> port \<in> set p"

definition Has :: "ports \<Rightarrow> uint16 \<Rightarrow> bool" where
  "Has p port \<longleftrightarrow> HasExplicit p 0 \<or> HasExplicit p port"

definition IsSubsetOf :: "ports \<Rightarrow> ports \<Rightarrow> bool" where
  "IsSubsetOf p p2 =
     (if Has p2 AnyPort then True
      else if Has p AnyPort then False
      else list_all (\<lambda>port. Has p2 port) p)"

definition Intersection :: "ports \<Rightarrow> ports \<Rightarrow> ports" where
  "Intersection p p2 =
     (if Has p AnyPort then p2
      else if Has p2 AnyPort then p
      else fold (\<lambda>port inter. if Has p2 port then ports_Add inter port else inter) p (NewPorts []))"

fun getAllowedEgressPorts :: "ipnet \<Rightarrow> contiv_rule list \<Rightarrow> ports \<times> ports \<Rightarrow> ports \<times> ports" where
  "getAllowedEgressPorts srcIP [] acc = acc"
| "getAllowedEgressPorts srcIP (rule # egress) (tcp, udp) =
     (if Action rule = ActionDeny then getAllowedEgressPorts srcIP egress (tcp, udp)
      else if length (IP (SrcNetwork rule)) > 0 \<and> \<not> contains (SrcNetwork rule) (IP srcIP) then
        getAllowedEgressPorts srcIP egress (tcp, udp)
      else if Protocol rule = TCP then
        getAllowedEgressPorts srcIP egress (ports_Add tcp (DestPort rule), udp)
      else getAllowedEgressPorts srcIP egress (tcp, ports_Add udp (DestPort rule)))"

fun getAllowedIngressPorts :: "ipnet \<Rightarrow> contiv_rule list \<Rightarrow> ports \<times> ports \<Rightarrow> ports \<times> ports" where
  "getAllowedIngressPorts dstIP [] acc = acc"
| "getAllowedIngressPorts dstIP (rule # ingress) (tcp, udp) =
     (if Action rule = ActionDeny then getAllowedIngressPorts dstIP ingress (tcp, udp)
      else if length (IP (DestNetwork rule)) > 0 \<and> \<not> contains (DestNetwork rule) (IP dstIP) then
        getAllowedIngressPorts dstIP ingress (tcp, udp)
      else if Protocol rule = TCP then
        getAllowedIngressPorts dstIP ingress (ports_Add tcp (DestPort rule), udp)
      else getAllowedIngressPorts dstIP ingress (tcp, ports_Add udp (DestPort rule)))"

section \<open>Combining ingress with the egress rules of the host\<close>

record namespace_config =
  ipAddr :: ipnet
  ns_ingress :: "contiv_rule list"
  ns_egress :: "contiv_rule list"

type_synonym ns_configs = "(uint32 \<times> namespace_config) list"

text \<open>Rules with a source network that may be nil.\<close>

type_synonym combined_rule = "ipnet option contiv_rule_of"

definition rule_ptr :: "contiv_rule \<Rightarrow> combined_rule" where
  "rule_ptr r = \<lparr>ID = ID r, Action = Action r, SrcNetwork = Some (SrcNetwork r), DestNetwork = DestNetwork r,
     Protocol = Protocol r, SrcPort = SrcPort r, DestPort = DestPort r\<rparr>"

definition hasDenyRule :: "contiv_rule list \<Rightarrow> bool" where
  "hasDenyRule rules \<longleftrightarrow> list_ex (\<lambda>r. Action r = ActionDeny) rules"

text \<open>Cleanup of the rule subtree of one remote host.\<close>

definition cleanup_rules :: "protocol \<Rightarrow> ipnet \<Rightarrow> combined_rule list \<Rightarrow> combined_rule list" where
  "cleanup_rules proto rmtIP rules =
     filter (\<lambda>r. Protocol r \<noteq> proto \<or> length (IP (DestNetwork r)) = 0 \<or>
       (let (ones, bits) = mask_size (Mask (DestNetwork r)) in
        ones \<noteq> bits \<or> \<not> ip_equal (IP (DestNetwork r)) (IP rmtIP))) rules"

definition combine_TCP :: "uint32 \<Rightarrow> uint32 \<Rightarrow> ipnet \<Rightarrow> ports \<Rightarrow> ports \<Rightarrow> combined_rule list \<Rightarrow> combined_rule list" where
  "combine_TCP nsIndex rmtNsIndex rmtIP inTCP egTCP rules =
     (if \<not> IsSubsetOf inTCP egTCP then
        let allowedTCP = Intersection inTCP egTCP;
            pre = itoa (unat nsIndex) @ ''-combined-'' @ itoa (unat rmtNsIndex);
            mk = (\<lambda>rid act port. \<lparr>ID = rid, Action = act, SrcNetwork = Some empty_net, DestNetwork = rmtIP,
                    Protocol = TCP, SrcPort = AnyPort, DestPort = port\<rparr>)
        in cleanup_rules TCP rmtIP rules
           @ map (\<lambda>tcpPort. mk (pre @ ''-TCP:'' @ itoa (unat tcpPort)) ActionPermit tcpPort) allowedTCP
           @ [mk (pre @ ''-TCP:NONE'') ActionDeny AnyPort]
      else rules)"

definition combine_UDP :: "uint32 \<Rightarrow> ipnet \<Rightarrow> ports \<Rightarrow> ports \<Rightarrow> combined_rule list \<Rightarrow> combined_rule list" where
  "combine_UDP rmtNsIndex rmtIP inUDP egUDP rules =
     (if \<not> IsSubsetOf inUDP egUDP then
        let allowedUDP = Intersection inUDP egUDP;
            pre = ''combined-'' @ itoa (unat rmtNsIndex);
            mk = (\<lambda>rid act port. \<lparr>ID = rid, Action = act, SrcNetwork = None, DestNetwork = rmtIP,
                    Protocol = UDP, SrcPort = 0, DestPort = port\<rparr>)
        in cleanup_rules UDP rmtIP rules
           @ map (\<lambda>udpPort. mk (pre @ ''-UDP:'' @ itoa (unat udpPort)) ActionPermit udpPort) allowedUDP
           @ [mk (pre @ ''-UDP:NONE'') ActionDeny 0]
      else rules)"

fun combine_loop :: "uint32 \<Rightarrow> namespace_config \<Rightarrow> bool \<Rightarrow> ns_configs \<Rightarrow> combined_rule list \<Rightarrow> combined_rule list" where
  "combine_loop nsIndex nsConfig hasDeny [] rules = rules"
| "combine_loop nsIndex nsConfig hasDeny ((rmtNsIndex, rmtNsConfig) # rest) rules =
     (if rmtNsIndex = nsIndex then combine_loop nsIndex nsConfig hasDeny rest rules
      else if \<not> hasDenyRule (ns_egress rmtNsConfig) then combine_loop nsIndex nsConfig hasDeny rest rules
      else
        let (egTCP, egUDP) = getAllowedEgressPorts (ipAddr nsConfig) (ns_egress rmtNsConfig) (NewPorts [], NewPorts []);
            (inTCP, inUDP) =
              (if hasDeny then getAllowedIngressPorts (ipAddr rmtNsConfig) (ns_ingress nsConfig) (NewPorts [], NewPorts [])
               else (NewPorts [AnyPort], NewPorts [AnyPort]))
        in combine_loop nsIndex nsConfig hasDeny rest
             (combine_UDP rmtNsIndex (ipAddr rmtNsConfig) inUDP egUDP
               (combine_TCP nsIndex rmtNsIndex (ipAddr rmtNsConfig) inTCP egTCP rules)))"

definition getCombinedIngressRules :: "ns_configs \<Rightarrow> uint32 \<Rightarrow> combined_rule list option" where
  "getCombinedIngressRules config nsIndex =
     map_option (\<lambda>nsConfig.
        combine_loop nsIndex nsConfig (hasDenyRule (ns_ingress nsConfig)) config (map rule_ptr (ns_ingress nsConfig)))
       (map_of config nsIndex)"

section \<open>Conversion to session rules\<close>

definition proto_byte :: "protocol \<Rightarrow> uint8" where
  "proto_byte p = (case p of TCP \<Rightarrow> RuleProtoTCP | UDP \<Rightarrow> RuleProtoUDP)"

definition action_index :: "action \<Rightarrow> uint32" where
  "action_index a = (if a = ActionPermit then RuleActionAllow else RuleActionDeny)"

text \<open>\<^verbatim>\<open>copy(array[:], ip.To4())\<close> and \<^verbatim>\<open>copy(array[:], ip.To16())\<close>; copying nil copies nothing.\<close>

definition addr_array :: "bool \<Rightarrow> ip \<Rightarrow> bytes" where
  "addr_array v4 ip = array_copy (replicate 16 0) (case (if v4 then To4 ip else To16 ip) of None \<Rightarrow> [] | Some x \<Rightarrow> x)"

definition tag_bytes :: "string \<Rightarrow> bytes" where
  "tag_bytes s = array_copy (replicate 64 0) (map of_char s)"

definition egress_rule :: "uint32 \<Rightarrow> ipnet \<Rightarrow> contiv_rule \<Rightarrow> session_rule" where
  "egress_rule nsIndex addr rule =
     (let is4 = (To4 (IP addr) \<noteq> None \<and> (length (IP (SrcNetwork rule)) = 0 \<or> To4 (IP (SrcNetwork rule)) \<noteq> None)) in
      new_SessionRule \<lparr>
        TransportProto := proto_byte (Protocol rule),
        IsIP4 := (if is4 then 1 else 0),
        LclIP := addr_array is4 (IP addr),
        LclPlen := of_nat (fst (mask_size (Mask addr))),
        LclPort := DestPort rule,
        RmtIP := (if length (IP (SrcNetwork rule)) > 0 then addr_array is4 (IP (SrcNetwork rule)) else replicate 16 0),
        RmtPlen := (if length (IP (SrcNetwork rule)) > 0 then of_nat (fst (mask_size (Mask (SrcNetwork rule)))) else 0),
        RmtPort := SrcPort rule,
        ActionIndex := action_index (Action rule),
        AppnsIndex := 0,
        Scope := RuleScopeGlobal\<rparr>)"

definition convertEgressRule :: "uint32 \<Rightarrow> ipnet \<Rightarrow> string \<Rightarrow> contiv_rule \<Rightarrow> session_rule list" where
  "convertEgressRule nsIndex addr tagPrefix rule =
     (if length (IP (SrcNetwork rule)) = 0 \<and> DestPort rule = 0 \<and> Action rule = ActionPermit then []
      else
        let sr = egress_rule nsIndex addr rule;
            rid = (\<lambda>suffix. tagPrefix @ getMD5Hash (itoa (unat nsIndex) @ ''-egress-'' @ ID rule @ suffix))
        in if length (IP (SrcNetwork rule)) = 0 then
             [sr\<lparr>RmtPlen := 1, Tag := tag_bytes (rid ''-1/2'')\<rparr>,
              sr\<lparr>RmtPlen := 1, RmtIP := (RmtIP sr)[0 := 128], Tag := tag_bytes (rid ''-2/2'')\<rparr>]
           else [sr\<lparr>Tag := tag_bytes (rid '''')\<rparr>])"

definition convertEgressRules :: "uint32 \<Rightarrow> ipnet \<Rightarrow> contiv_rule list \<Rightarrow> string \<Rightarrow> session_rule list" where
  "convertEgressRules nsIndex addr egress tagPrefix =
     concat (map (convertEgressRule nsIndex addr tagPrefix) egress)"

definition ingress_rule :: "uint32 \<Rightarrow> 's contiv_rule_of \<Rightarrow> session_rule" where
  "ingress_rule nsIndex rule =
     (let dst = IP (DestNetwork rule) in
      new_SessionRule \<lparr>
        TransportProto := proto_byte (Protocol rule),
        IsIP4 := (if length dst \<noteq> 0 \<and> To4 dst \<noteq> None then 1 else 0),
        LclPort := SrcPort rule,
        RmtIP := (if length dst > 0 then addr_array (To4 dst \<noteq> None) dst else replicate 16 0),
        RmtPlen := (if length dst > 0 then of_nat (fst (mask_size (Mask (DestNetwork rule)))) else 0),
        RmtPort := DestPort rule,
        ActionIndex := action_index (Action rule),
        AppnsIndex := nsIndex,
        Scope := RuleScopeLocal\<rparr>)"

definition convertIngressRule :: "uint32 \<Rightarrow> string \<Rightarrow> 's contiv_rule_of \<Rightarrow> session_rule list" where
  "convertIngressRule nsIndex tagPrefix rule =
     (if length (IP (DestNetwork rule)) = 0 \<and> DestPort rule = 0 \<and> Action rule = ActionPermit then []
      else
        let sr = ingress_rule nsIndex rule;
            rid = (\<lambda>suffix. tagPrefix @ getMD5Hash (itoa (unat nsIndex) @ ''-ingress-'' @ ID rule @ suffix))
        in if length (IP (DestNetwork rule)) = 0 then
             let base = sr\<lparr>RmtPlen := 1\<rparr>;
                 sr1 = base\<lparr>IsIP4 := 1, Tag := tag_bytes (rid ''-IPv4-1/2'')\<rparr>;
                 sr2 = base\<lparr>IsIP4 := 1, RmtIP := (RmtIP base)[0 := 128], Tag := tag_bytes (rid ''-IPv4-2/2'')\<rparr>;
                 sr3 = base\<lparr>Tag := tag_bytes (rid ''-IPv6-1/2'')\<rparr>;
                 sr4 = base\<lparr>RmtIP := (RmtIP base)[0 := 128], Tag := tag_bytes (rid ''-IPv6-2/2'')\<rparr>
             in [sr1, sr1, sr2, sr3, sr4]
           else [sr\<lparr>Tag := tag_bytes (rid '''')\<rparr>])"

definition convertIngressRules :: "uint32 \<Rightarrow> 's contiv_rule_of list \<Rightarrow> string \<Rightarrow> session_rule list" where
  "convertIngressRules nsIndex ingress tagPrefix =
     concat (map (convertIngressRule nsIndex tagPrefix) ingress)"

section \<open>Transactions\<close>

record session_cache =
  sc_config :: ns_configs
  sc_tables :: session_tables
  sc_tagPrefix :: string

record session_txn =
  st_resync :: bool
  st_config :: ns_configs
  st_tables :: session_tables
  st_upToDate :: bool

definition session_Init :: "string \<Rightarrow> session_cache" where
  "session_Init tagPrefix = \<lparr>sc_config = [], sc_tables = NewSessionTables, sc_tagPrefix = tagPrefix\<rparr>"

definition session_NewTxn :: "session_cache \<Rightarrow> bool \<Rightarrow> session_txn" where
  "session_NewTxn src resync =
     \<lparr>st_resync = resync, st_config = (if resync then [] else sc_config src),
      st_tables = NewSessionTables, st_upToDate = False\<rparr>"

definition LookupByNamespace :: "session_cache \<Rightarrow> uint32 \<Rightarrow> contiv_rule list \<times> contiv_rule list" where
  "LookupByNamespace src nsIndex =
     (case map_of (sc_config src) nsIndex of
        None \<Rightarrow> ([], [])
      | Some nsConfig \<Rightarrow> (ns_ingress nsConfig, ns_egress nsConfig))"

definition AllNamespaces :: "session_cache \<Rightarrow> uint32 list" where
  "AllNamespaces src = map fst (sc_config src)"

definition session_Update :: "session_txn \<Rightarrow> uint32 \<Rightarrow> ipnet \<Rightarrow> contiv_rule list \<Rightarrow> contiv_rule list \<Rightarrow> session_txn" where
  "session_Update srct nsIndex addr ing eg =
     srct\<lparr>st_config := AList.update nsIndex \<lparr>ipAddr = addr, ns_ingress = ing, ns_egress = eg\<rparr> (st_config srct),
          st_upToDate := False\<rparr>"

fun refresh_global :: "string \<Rightarrow> ns_configs \<Rightarrow> session_rule_list \<Rightarrow> session_rule_list option" where
  "refresh_global tagPrefix [] srl = Some srl"
| "refresh_global tagPrefix ((nsIndex, nsConfig) # rest) srl =
     (case Insert srl (convertEgressRules nsIndex (ipAddr nsConfig) (ns_egress nsConfig) tagPrefix) of
        None \<Rightarrow> None
      | Some (srl', _) \<Rightarrow> refresh_global tagPrefix rest srl')"

fun refresh_local ::
  "string \<Rightarrow> ns_configs \<Rightarrow> uint32 list \<Rightarrow> (uint32 \<times> session_rule_list) list \<Rightarrow> (uint32 \<times> session_rule_list) list option" where
  "refresh_local tagPrefix config [] loc = Some loc"
| "refresh_local tagPrefix config (nsIndex # rest) loc =
     (case (getCombinedIngressRules config nsIndex, map_of loc nsIndex) of
        (Some ingress, Some srl) \<Rightarrow>
          (case Insert srl (convertIngressRules nsIndex ingress tagPrefix) of
             None \<Rightarrow> None
           | Some (srl', _) \<Rightarrow> refresh_local tagPrefix config rest (AList.update nsIndex srl' loc))
      | _ \<Rightarrow> None)"

definition refreshTables :: "string \<Rightarrow> session_txn \<Rightarrow> session_txn option" where
  "refreshTables tagPrefix srct =
     do {
       glob \<leftarrow> refresh_global tagPrefix (st_config srct) NewSessionRuleList;
       let empty = fold (\<lambda>nsIndex loc. AList.update nsIndex NewSessionRuleList loc)
                     (map fst (st_config srct)) (local (st_tables srct));
       loc \<leftarrow> refresh_local tagPrefix (st_config srct) (map fst (st_config srct)) empty;
       Some (srct\<lparr>st_tables := \<lparr>global = glob, local = loc\<rparr>, st_upToDate := True\<rparr>)
     }"

text \<open>The tables of the rules that are currently installed, from the dump.\<close>

fun dump_tables :: "session_rule list \<Rightarrow> session_tables \<Rightarrow> session_tables option" where
  "dump_tables [] tables = Some tables"
| "dump_tables (rule # rules) tables =
     (if Scope rule = RuleScopeLocal then
        let srl = (case map_of (local tables) (AppnsIndex rule) of None \<Rightarrow> NewSessionRuleList | Some srl \<Rightarrow> srl) in
        (case Insert srl [rule] of
           None \<Rightarrow> None
         | Some (srl', _) \<Rightarrow> dump_tables rules (tables\<lparr>local := AList.update (AppnsIndex rule) srl' (local tables)\<rparr>))
      else
        (case Insert (global tables) [rule] of
           None \<Rightarrow> None
         | Some (srl', _) \<Rightarrow> dump_tables rules (tables\<lparr>global := srl'\<rparr>)))"

text \<open>\<^verbatim>\<open>Changes\<close>: the transaction with refreshed tables, and the error of the dump or the changes. The
  argument \<open>dump\<close> is the result of \<^verbatim>\<open>dumpClbk\<close>.\<close>

definition session_Changes ::
  "session_cache \<Rightarrow> string + session_rule list \<Rightarrow> session_txn \<Rightarrow>
   (session_txn \<times> (string + session_rule option list \<times> session_rule option list)) option" where
  "session_Changes src dump srct =
     do {
       srct' \<leftarrow> (if st_upToDate srct then Some srct else refreshTables (sc_tagPrefix src) srct);
       (if st_resync srct' then
          (case dump of
             Inl err \<Rightarrow> Some (srct', Inl err)
           | Inr currentRules \<Rightarrow>
               do {
                 currentTables \<leftarrow> dump_tables currentRules NewSessionTables;
                 changes \<leftarrow> tables_Diff (st_tables srct') currentTables;
                 Some (srct', Inr changes)
               })
        else
          do {
            changes \<leftarrow> tables_Diff (st_tables srct') (sc_tables src);
            Some (srct', Inr changes)
          })
     }"

definition session_Commit :: "session_cache \<Rightarrow> session_txn \<Rightarrow> session_cache option" where
  "session_Commit src srct =
     do {
       srct' \<leftarrow> (if st_upToDate srct then Some srct else refreshTables (sc_tagPrefix src) srct);
       Some (src\<lparr>sc_config := st_config srct, sc_tables := st_tables srct'\<rparr>)
     }"

end
