(* ===== verification/SessionPorts.thy ===== *)
theory SessionPorts
  imports SessionCache
begin

text \<open>
  Sets of ports of the session rule cache, and the ingress rules of a pod combined with the egress
  rules of the other pods of the node, \<^verbatim>\<open>getCombinedIngressRules\<close> of
  \<^verbatim>\<open>src/plugins/policy/renderer/vpptcp/cache/cache_impl.go\<close>.
\<close>

section \<open>Ports as sets\<close>

definition port_set :: "ports \<Rightarrow> uint16 set" where
  "port_set p = {q. Has p q}"

lemma set_ports_Add [simp]: "set (ports_Add p q) = insert q (set p)"
  by (simp add: ports_Add_def)

lemma set_fold_filter:
  "set (fold (\<lambda>port inter. if P port then ports_Add inter port else inter) p acc) = {q \<in> set p. P q} \<union> set acc"
  by (induction p arbitrary: acc) auto

lemma set_NewPorts: "set (NewPorts portNums) = set portNums"
proof -
  have "set (fold (\<lambda>portNum ports. ports_Add ports portNum) portNums acc) = set portNums \<union> set acc" for acc
    by (induction portNums arbitrary: acc) auto
  then show ?thesis by (simp add: NewPorts_def)
qed

lemma port_set_eq: "port_set p = (if 0 \<in> set p then UNIV else set p)"
  by (auto simp: port_set_def Has_def HasExplicit_def)

lemma Has_iff: "Has p q \<longleftrightarrow> q \<in> port_set p"
  by (simp add: port_set_def)

lemma AnyPort_full: "Has p AnyPort \<longleftrightarrow> port_set p = UNIV"
  by (auto simp: port_set_eq Has_def HasExplicit_def AnyPort_def split: if_splits)

lemma port_set_Intersection: "port_set (Intersection p p2) = port_set p \<inter> port_set p2"
proof (cases "Has p AnyPort \<or> Has p2 AnyPort")
  case True
  then show ?thesis by (auto simp: Intersection_def AnyPort_full)
next
  case False
  then have z: "0 \<notin> set p" "0 \<notin> set p2" by (auto simp: Has_def HasExplicit_def AnyPort_def)
  then have "set (Intersection p p2) = set p \<inter> set p2"
    using False by (auto simp: Intersection_def set_fold_filter set_NewPorts Has_iff port_set_eq)
  with z show ?thesis by (simp add: port_set_eq)
qed

lemma IsSubsetOf_iff: "IsSubsetOf p p2 \<longleftrightarrow> port_set p \<subseteq> port_set p2"
proof (cases "Has p2 AnyPort \<or> Has p AnyPort")
  case True
  then show ?thesis
    by (auto simp: IsSubsetOf_def AnyPort_full)
next
  case False
  then have z: "0 \<notin> set p" "0 \<notin> set p2" by (auto simp: Has_def HasExplicit_def AnyPort_def)
  then show ?thesis using False by (auto simp: IsSubsetOf_def list_all_iff Has_iff port_set_eq)
qed

text \<open>A \<^verbatim>\<open>Ports\<close> value stands for a set of port numbers, all of them when it contains AnyPort. Under this
  reading \<^verbatim>\<open>Intersection\<close> is set intersection, \<^verbatim>\<open>IsSubsetOf\<close> is inclusion, and whenever the first set is not
  included in the second the intersection does not contain AnyPort, so the rules generated from it name ports.\<close>

lemma ports_are_sets:
  "port_set (Intersection p p2) = port_set p \<inter> port_set p2 \<and>
   (IsSubsetOf p p2 \<longleftrightarrow> port_set p \<subseteq> port_set p2) \<and>
   port_set (NewPorts ns) = (if AnyPort \<in> set ns then UNIV else set ns) \<and>
   (IsSubsetOf p p2 \<or> \<not> Has (Intersection p p2) AnyPort)"
  using port_set_Intersection [of p p2] IsSubsetOf_iff [of p p2]
  by (auto simp: set_NewPorts AnyPort_def [symmetric] port_set_eq [of "NewPorts ns", folded AnyPort_def] AnyPort_full)

section \<open>Ports that the rules of a pod allow\<close>

definition allows_from :: "protocol \<Rightarrow> ipnet \<Rightarrow> contiv_rule \<Rightarrow> bool" where
  "allows_from proto srcIP r \<longleftrightarrow> Action r = ActionPermit \<and> Protocol r = proto \<and>
     (IP (SrcNetwork r) = [] \<or> contains (SrcNetwork r) (IP srcIP))"

definition allows_to :: "protocol \<Rightarrow> ipnet \<Rightarrow> contiv_rule \<Rightarrow> bool" where
  "allows_to proto dstIP r \<longleftrightarrow> Action r = ActionPermit \<and> Protocol r = proto \<and>
     (IP (DestNetwork r) = [] \<or> contains (DestNetwork r) (IP dstIP))"

lemma not_TCP: "p \<noteq> TCP \<longleftrightarrow> p = UDP"
  by (cases p) auto

lemma not_Deny: "a \<noteq> ActionDeny \<longleftrightarrow> a = ActionPermit"
  by (cases a) auto

lemma getAllowedEgressPorts_sets:
  "set (fst (getAllowedEgressPorts srcIP egress (tcp, udp))) = set tcp \<union> DestPort ` {r \<in> set egress. allows_from TCP srcIP r}"
  "set (snd (getAllowedEgressPorts srcIP egress (tcp, udp))) = set udp \<union> DestPort ` {r \<in> set egress. allows_from UDP srcIP r}"
  by (induction egress arbitrary: tcp udp) (auto simp: allows_from_def not_TCP not_Deny)

lemma getAllowedIngressPorts_sets:
  "set (fst (getAllowedIngressPorts dstIP ingress (tcp, udp))) = set tcp \<union> DestPort ` {r \<in> set ingress. allows_to TCP dstIP r}"
  "set (snd (getAllowedIngressPorts dstIP ingress (tcp, udp))) = set udp \<union> DestPort ` {r \<in> set ingress. allows_to UDP dstIP r}"
  by (induction ingress arbitrary: tcp udp) (auto simp: allows_to_def not_TCP not_Deny)

section \<open>Rules towards one host\<close>

definition host_net :: "ipnet \<Rightarrow> bool" where
  "host_net n \<longleftrightarrow> IP n \<noteq> [] \<and> fst (mask_size (Mask n)) = snd (mask_size (Mask n))"

definition is_host :: "protocol \<Rightarrow> ipnet \<Rightarrow> combined_rule \<Rightarrow> bool" where
  "is_host proto rmtIP r \<longleftrightarrow> Protocol r = proto \<and> host_net (DestNetwork r) \<and> ip_equal (IP (DestNetwork r)) (IP rmtIP)"

definition host_rules :: "protocol \<Rightarrow> ipnet \<Rightarrow> combined_rule list \<Rightarrow> combined_rule list" where
  "host_rules proto rmtIP rules = filter (is_host proto rmtIP) rules"

definition subnet_rules :: "combined_rule list \<Rightarrow> combined_rule list" where
  "subnet_rules rules = filter (\<lambda>r. \<not> host_net (DestNetwork r)) rules"

definition permitted_ports :: "combined_rule list \<Rightarrow> uint16 set" where
  "permitted_ports rules = {q. \<exists>r\<in>set rules. Action r = ActionPermit \<and> (DestPort r = 0 \<or> DestPort r = q)}"

definition closed_by_deny :: "combined_rule list \<Rightarrow> bool" where
  "closed_by_deny rules \<longleftrightarrow> rules \<noteq> [] \<and> Action (last rules) = ActionDeny \<and> DestPort (last rules) = 0"

text \<open>The effect of one cleanup-and-append step of the combination.\<close>

definition replaces_host :: "protocol \<Rightarrow> ipnet \<Rightarrow> uint16 set \<Rightarrow> combined_rule list \<Rightarrow> combined_rule list \<Rightarrow> bool" where
  "replaces_host proto rmtIP A rules rules' \<longleftrightarrow>
     (\<exists>new. rules' = cleanup_rules proto rmtIP rules @ new \<and>
        (\<forall>r\<in>set new. Protocol r = proto \<and> DestNetwork r = rmtIP) \<and> permitted_ports new = A \<and> closed_by_deny new)"

lemma cleanup_rules_filter: "cleanup_rules proto rmtIP rules = filter (\<lambda>r. \<not> is_host proto rmtIP r) rules"
  unfolding cleanup_rules_def is_host_def host_net_def Let_def split_beta
  by (rule filter_cong [OF refl]) simp

lemma norm_ip_Some: "To4 a = Some x \<Longrightarrow> norm_ip a = x" and norm_ip_None: "To4 a = None \<Longrightarrow> norm_ip a = a"
  by (simp_all add: norm_ip_def)

lemma ip_equal_refl [simp]: "ip_equal a a"
  by (simp add: ip_equal_def)

lemma drop12_inject:
  assumes "take 12 a = v4InV6Prefix" "take 12 b = v4InV6Prefix"
  shows "drop 12 a = drop 12 b \<longleftrightarrow> a = b"
  using append_take_drop_id [of 12 a] append_take_drop_id [of 12 b] assms by metis

lemma ip_equal_norm: "ip_equal a b \<longleftrightarrow> norm_ip a = norm_ip b"
proof -
  let ?m = "\<lambda>a :: ip. length a = 16 \<and> take 12 a = v4InV6Prefix"
  have norm: "norm_ip a = (if ?m a then drop 12 a else a)" for a :: ip
    by (simp add: norm_ip_def To4_def)
  have l: "length (drop 12 a) = 4" if "?m a" for a :: ip using that by simp
  have ne: "length x \<noteq> length y \<Longrightarrow> x \<noteq> y" for x y :: ip by blast
  show ?thesis
    by (cases "?m a"; cases "?m b")
       (simp_all add: norm ip_equal_def drop12_inject l ne, (fast+)?)
qed

lemma host_rules_replaced:
  assumes "replaces_host proto rmtIP A rules rules'" "host_net rmtIP"
  shows "p \<noteq> proto \<or> \<not> ip_equal (IP rmtIP) (IP ip) \<Longrightarrow> host_rules p ip rules' = host_rules p ip rules"
    and "permitted_ports (host_rules proto rmtIP rules') = A \<and> closed_by_deny (host_rules proto rmtIP rules')"
    and "subnet_rules rules' = subnet_rules rules"
proof -
  obtain new where new: "rules' = cleanup_rules proto rmtIP rules @ new"
    "\<And>r. r \<in> set new \<Longrightarrow> Protocol r = proto \<and> DestNetwork r = rmtIP" "permitted_ports new = A" "closed_by_deny new"
    using assms(1) by (auto simp: replaces_host_def)
  show "host_rules p ip rules' = host_rules p ip rules" if "p \<noteq> proto \<or> \<not> ip_equal (IP rmtIP) (IP ip)"
  proof -
    have "filter (is_host p ip) new = []"
      using new(2) that by (auto simp: is_host_def filter_empty_conv)
    moreover have "filter (is_host p ip) (cleanup_rules proto rmtIP rules) = filter (is_host p ip) rules"
      unfolding cleanup_rules_filter filter_filter
      using that by (intro filter_cong) (auto simp: is_host_def ip_equal_norm)
    ultimately show ?thesis by (simp add: host_rules_def new(1))
  qed
  have "filter (is_host proto rmtIP) new = new"
    using new(2) assms(2) by (auto simp: is_host_def filter_id_conv)
  then have "host_rules proto rmtIP rules' = new"
    by (simp add: host_rules_def new(1) cleanup_rules_filter)
  then show "permitted_ports (host_rules proto rmtIP rules') = A \<and> closed_by_deny (host_rules proto rmtIP rules')"
    using new by simp
  have "filter (\<lambda>r. \<not> host_net (DestNetwork r)) new = []"
    using new(2) assms(2) by (auto simp: filter_empty_conv)
  moreover have "filter (\<lambda>r. \<not> host_net (DestNetwork r)) (cleanup_rules proto rmtIP rules) =
      filter (\<lambda>r. \<not> host_net (DestNetwork r)) rules"
    unfolding cleanup_rules_filter filter_filter by (intro filter_cong) (auto simp: is_host_def)
  ultimately show "subnet_rules rules' = subnet_rules rules"
    by (simp add: subnet_rules_def new(1))
qed

lemma permitted_ports_map:
  assumes "\<And>port. Action (mk port) = ActionPermit \<and> DestPort (mk port) = port" "Action d = ActionDeny" "0 \<notin> set ps"
  shows "permitted_ports (map mk ps @ [d]) = set ps"
  using assms by (auto simp: permitted_ports_def)

lemma not_subset_ports: "\<not> IsSubsetOf p p2 \<Longrightarrow> 0 \<notin> set (Intersection p p2) \<and> set (Intersection p p2) = port_set p \<inter> port_set p2"
  using port_set_Intersection [of p p2] by (auto simp: IsSubsetOf_iff port_set_eq split: if_splits)

lemma replaces_hostI:
  assumes "rules' = cleanup_rules proto rmtIP rules @ map mk ps @ [d]" "0 \<notin> set ps" "set ps = A"
    "\<And>port. Protocol (mk port) = proto" "\<And>port. DestNetwork (mk port) = rmtIP"
    "\<And>port. Action (mk port) = ActionPermit" "\<And>port. DestPort (mk port) = port"
    "Protocol d = proto" "DestNetwork d = rmtIP" "Action d = ActionDeny" "DestPort d = 0"
  shows "replaces_host proto rmtIP A rules rules'"
proof -
  have "permitted_ports (map mk ps @ [d]) = A"
    using assms by (intro permitted_ports_map [THEN trans]) simp_all
  moreover have "closed_by_deny (map mk ps @ [d])"
    using assms by (simp add: closed_by_deny_def)
  moreover have "\<forall>r\<in>set (map mk ps @ [d]). Protocol r = proto \<and> DestNetwork r = rmtIP"
    using assms by simp
  ultimately show ?thesis
    using assms(1) unfolding replaces_host_def by blast
qed

lemma combine_TCP_replaces:
  assumes "\<not> IsSubsetOf inTCP egTCP"
  shows "replaces_host TCP rmtIP (port_set inTCP \<inter> port_set egTCP) rules (combine_TCP ns rmtNs rmtIP inTCP egTCP rules)"
  unfolding combine_TCP_def Let_def if_P [OF assms]
  by (rule replaces_hostI [OF refl not_subset_ports [OF assms, THEN conjunct1] not_subset_ports [OF assms, THEN conjunct2]]) (simp_all only: contiv_rule_of.simps AnyPort_def)

lemma combine_UDP_replaces:
  assumes "\<not> IsSubsetOf inUDP egUDP"
  shows "replaces_host UDP rmtIP (port_set inUDP \<inter> port_set egUDP) rules (combine_UDP rmtNs rmtIP inUDP egUDP rules)"
  unfolding combine_UDP_def Let_def if_P [OF assms]
  by (rule replaces_hostI [OF refl not_subset_ports [OF assms, THEN conjunct1] not_subset_ports [OF assms, THEN conjunct2]]) (simp_all only: contiv_rule_of.simps)

section \<open>The combined rules\<close>

text \<open>What the egress rules of a remote pod and the ingress rules of the pod let through.\<close>

definition egress_ports :: "protocol \<Rightarrow> ipnet \<Rightarrow> contiv_rule list \<Rightarrow> uint16 set" where
  "egress_ports proto srcIP egress = {q. \<exists>r\<in>set egress. allows_from proto srcIP r \<and> (DestPort r = 0 \<or> DestPort r = q)}"

definition ingress_ports :: "protocol \<Rightarrow> ipnet \<Rightarrow> contiv_rule list \<Rightarrow> uint16 set" where
  "ingress_ports proto dstIP ingress =
     (if hasDenyRule ingress then {q. \<exists>r\<in>set ingress. allows_to proto dstIP r \<and> (DestPort r = 0 \<or> DestPort r = q)} else UNIV)"

lemma port_set_image:
  assumes "set ps = DestPort ` {r \<in> A. P r}"
  shows "port_set ps = {q. \<exists>r\<in>A. P r \<and> (DestPort r = 0 \<or> DestPort r = q)}"
proof -
  have "q \<in> set ps \<longleftrightarrow> (\<exists>r\<in>A. P r \<and> DestPort r = q)" for q
    unfolding assms by blast
  then show ?thesis by (auto simp: port_set_def Has_def HasExplicit_def)
qed

definition combine_step :: "uint32 \<Rightarrow> namespace_config \<Rightarrow> uint32 \<times> namespace_config \<Rightarrow> combined_rule list \<Rightarrow> combined_rule list" where
  "combine_step ns nc rmt rules = combine_loop ns nc (hasDenyRule (ns_ingress nc)) [rmt] rules"

lemma combine_loop_append: "combine_loop ns nc h (xs @ ys) rules = combine_loop ns nc h ys (combine_loop ns nc h xs rules)"
  by (induction xs arbitrary: rules) (auto simp: Let_def split: prod.split)

lemma combine_loop_steps: "combine_loop ns nc (hasDenyRule (ns_ingress nc)) xs rules = fold (combine_step ns nc) xs rules"
proof (induction xs arbitrary: rules)
  case (Cons x xs)
  then show ?case
    using combine_loop_append [of ns nc _ "[x]" xs] by (simp add: combine_step_def)
qed simp

text \<open>For each protocol a remote pod replaces its host rules, unless its egress rules let through
  everything that the ingress rules do.\<close>

definition host_step :: "protocol \<Rightarrow> namespace_config \<Rightarrow> namespace_config \<Rightarrow> combined_rule list \<Rightarrow> combined_rule list \<Rightarrow> bool" where
  "host_step proto nc rc rules rules' =
     (let inp = ingress_ports proto (ipAddr rc) (ns_ingress nc); eg = egress_ports proto (ipAddr nc) (ns_egress rc) in
      if inp \<subseteq> eg then rules' = rules else replaces_host proto (ipAddr rc) (inp \<inter> eg) rules rules')"

lemma port_set_egress:
  "port_set (fst (getAllowedEgressPorts srcIP egress (NewPorts [], NewPorts []))) = egress_ports TCP srcIP egress"
  "port_set (snd (getAllowedEgressPorts srcIP egress (NewPorts [], NewPorts []))) = egress_ports UDP srcIP egress"
  unfolding egress_ports_def
  by (rule port_set_image; simp add: getAllowedEgressPorts_sets set_NewPorts)+

lemma port_set_ingress:
  "hasDenyRule ingress \<Longrightarrow>
    port_set (fst (getAllowedIngressPorts dstIP ingress (NewPorts [], NewPorts []))) = ingress_ports TCP dstIP ingress"
  "hasDenyRule ingress \<Longrightarrow>
    port_set (snd (getAllowedIngressPorts dstIP ingress (NewPorts [], NewPorts []))) = ingress_ports UDP dstIP ingress"
  "\<not> hasDenyRule ingress \<Longrightarrow> port_set (NewPorts [AnyPort]) = ingress_ports proto dstIP ingress"
  unfolding ingress_ports_def
  by (simp_all add: port_set_image getAllowedIngressPorts_sets set_NewPorts)
     (simp add: port_set_eq set_NewPorts AnyPort_def)

lemma combine_TCP_step:
  "port_set inTCP = ingress_ports TCP (ipAddr rc) (ns_ingress nc) \<Longrightarrow> port_set egTCP = egress_ports TCP (ipAddr nc) (ns_egress rc) \<Longrightarrow>
   host_step TCP nc rc rules (combine_TCP ns rmt (ipAddr rc) inTCP egTCP rules)"
  using combine_TCP_replaces [of inTCP egTCP "ipAddr rc" rules ns rmt]
  by (simp add: host_step_def Let_def IsSubsetOf_iff) (simp add: combine_TCP_def IsSubsetOf_iff)

lemma combine_UDP_step:
  "port_set inUDP = ingress_ports UDP (ipAddr rc) (ns_ingress nc) \<Longrightarrow> port_set egUDP = egress_ports UDP (ipAddr nc) (ns_egress rc) \<Longrightarrow>
   host_step UDP nc rc rules (combine_UDP rmt (ipAddr rc) inUDP egUDP rules)"
  using combine_UDP_replaces [of inUDP egUDP "ipAddr rc" rules rmt]
  by (simp add: host_step_def Let_def IsSubsetOf_iff) (simp add: combine_UDP_def IsSubsetOf_iff)

lemma combine_step_hosts:
  assumes "rmt \<noteq> ns" "hasDenyRule (ns_egress rc)"
  shows "\<exists>mid. host_step TCP nc rc rules mid \<and> host_step UDP nc rc mid (combine_step ns nc (rmt, rc) rules)"
proof -
  obtain egTCP egUDP where eg: "getAllowedEgressPorts (ipAddr nc) (ns_egress rc) (NewPorts [], NewPorts []) = (egTCP, egUDP)"
    by fastforce
  obtain inTCP inUDP where inp: "(if hasDenyRule (ns_ingress nc)
      then getAllowedIngressPorts (ipAddr rc) (ns_ingress nc) (NewPorts [], NewPorts [])
      else (NewPorts [AnyPort], NewPorts [AnyPort])) = (inTCP, inUDP)"
    by fastforce
  have egp: "port_set egTCP = egress_ports TCP (ipAddr nc) (ns_egress rc)" "port_set egUDP = egress_ports UDP (ipAddr nc) (ns_egress rc)"
    using port_set_egress [of "ipAddr nc" "ns_egress rc"] eg by simp_all
  have inpp: "port_set inTCP = ingress_ports TCP (ipAddr rc) (ns_ingress nc)" "port_set inUDP = ingress_ports UDP (ipAddr rc) (ns_ingress nc)"
    using port_set_ingress(1,2) [of "ns_ingress nc" "ipAddr rc"] port_set_ingress(3) [of "ns_ingress nc" _ "ipAddr rc"] inp by (cases "hasDenyRule (ns_ingress nc)"; simp)+
  have step: "combine_step ns nc (rmt, rc) rules = combine_UDP rmt (ipAddr rc) inUDP egUDP (combine_TCP ns rmt (ipAddr rc) inTCP egTCP rules)"
    using assms eg inp by (simp add: combine_step_def)
  show ?thesis
    unfolding step using combine_TCP_step [OF inpp(1) egp(1)] combine_UDP_step [OF inpp(2) egp(2)] by blast
qed

lemma combine_step_idle: "rmt = ns \<or> \<not> hasDenyRule (ns_egress rc) \<Longrightarrow> combine_step ns nc (rmt, rc) rules = rules"
  by (auto simp: combine_step_def)

lemma host_step_effect:
  assumes "host_step proto nc rc rules rules'" "host_net (ipAddr rc)"
  shows "p \<noteq> proto \<or> \<not> ip_equal (IP (ipAddr rc)) (IP ip) \<Longrightarrow> host_rules p ip rules' = host_rules p ip rules"
    and "subnet_rules rules' = subnet_rules rules"
  using assms host_rules_replaced [OF _ assms(2), of proto _ rules rules']
  by (auto simp: host_step_def Let_def split: if_splits)

lemma combine_step_other:
  assumes "host_net (ipAddr rc)"
  shows "\<not> ip_equal (IP (ipAddr rc)) (IP ip) \<Longrightarrow> host_rules p ip (combine_step ns nc (rmt, rc) rules) = host_rules p ip rules"
    and "subnet_rules (combine_step ns nc (rmt, rc) rules) = subnet_rules rules"
  by (cases "rmt = ns \<or> \<not> hasDenyRule (ns_egress rc)";
      use combine_step_idle [of rmt ns rc nc rules] combine_step_hosts [of rmt ns rc nc rules] host_step_effect [OF _ assms] in force)+

lemma combine_steps_other:
  assumes "\<forall>(n, c)\<in>set xs. host_net (ipAddr c)"
  shows "\<forall>(n, c)\<in>set xs. \<not> ip_equal (IP (ipAddr c)) (IP ip) \<Longrightarrow>
      host_rules p ip (fold (combine_step ns nc) xs rules) = host_rules p ip rules"
    and "subnet_rules (fold (combine_step ns nc) xs rules) = subnet_rules rules"
  using assms by (induction xs arbitrary: rules) (auto simp: combine_step_other)

lemma combine_step_own:
  assumes "rmt \<noteq> ns" "hasDenyRule (ns_egress rc)" "host_net (ipAddr rc)"
  shows "\<exists>rules2. host_rules p (ipAddr rc) rules2 = host_rules p (ipAddr rc) rules \<and>
    (\<exists>rules3. host_step p nc rc rules2 rules3 \<and>
       host_rules p (ipAddr rc) (combine_step ns nc (rmt, rc) rules) = host_rules p (ipAddr rc) rules3)"
proof -
  obtain mid where m: "host_step TCP nc rc rules mid" "host_step UDP nc rc mid (combine_step ns nc (rmt, rc) rules)"
    using combine_step_hosts [OF assms(1,2)] by blast
  show ?thesis
  proof (cases p)
    case TCP
    with m host_step_effect(1) [OF m(2) assms(3), of TCP "ipAddr rc"] show ?thesis by auto
  next
    case UDP
    with m host_step_effect(1) [OF m(1) assms(3), of UDP "ipAddr rc"] show ?thesis by auto
  qed
qed

text \<open>C6: let a remote pod of the node have an egress rule that denies, and let the address of no other pod be equal
  to its address. The combined ingress rules of a pod towards that remote pod allow, for TCP and for UDP, exactly
  the ports allowed by the ingress rules of the pod and by the egress rules of the remote pod, closed by a deny;
  when the egress rules allow everything the ingress rules do, the rules towards that pod are the original
  ones. The rules towards subnets are never changed.\<close>

theorem combined_ingress_rules:
  assumes "map_of config ns = Some nc" "distinct (map fst config)" "(rmt, rc) \<in> set config" "rmt \<noteq> ns"
    and "hasDenyRule (ns_egress rc)" "\<forall>(n, c)\<in>set config. host_net (ipAddr c)"
    and "\<forall>(n, c)\<in>set config. n \<noteq> rmt \<longrightarrow> \<not> ip_equal (IP (ipAddr c)) (IP (ipAddr rc))"
  shows "\<exists>rules. getCombinedIngressRules config ns = Some rules \<and>
    subnet_rules rules = subnet_rules (map rule_ptr (ns_ingress nc)) \<and>
    (let inp = ingress_ports p (ipAddr rc) (ns_ingress nc); eg = egress_ports p (ipAddr nc) (ns_egress rc) in
     if inp \<subseteq> eg then host_rules p (ipAddr rc) rules = host_rules p (ipAddr rc) (map rule_ptr (ns_ingress nc))
     else permitted_ports (host_rules p (ipAddr rc) rules) = inp \<inter> eg \<and> closed_by_deny (host_rules p (ipAddr rc) rules))"
proof -
  let ?o = "map rule_ptr (ns_ingress nc)" and ?ip = "ipAddr rc"
  obtain xs ys where config: "config = xs @ (rmt, rc) # ys" using split_list [OF assms(3)] by blast
  have net: "host_net ?ip" "\<forall>(n, c)\<in>set xs. host_net (ipAddr c)" "\<forall>(n, c)\<in>set ys. host_net (ipAddr c)"
    using assms(6) config by auto
  have keys: "\<forall>(n, c)\<in>set xs. n \<noteq> rmt" "\<forall>(n, c)\<in>set ys. n \<noteq> rmt"
    using assms(2) config by force+
  have ne: "\<forall>(n, c)\<in>set xs. \<not> ip_equal (IP (ipAddr c)) (IP ?ip)" "\<forall>(n, c)\<in>set ys. \<not> ip_equal (IP (ipAddr c)) (IP ?ip)"
    using assms(7) config keys by fastforce+
  let ?r1 = "fold (combine_step ns nc) xs ?o"
  let ?r = "fold (combine_step ns nc) ys (combine_step ns nc (rmt, rc) ?r1)"
  have r: "getCombinedIngressRules config ns = Some ?r"
    using assms(1) by (simp add: getCombinedIngressRules_def combine_loop_steps config)
  have sub: "subnet_rules ?r = subnet_rules ?o"
    by (simp only: combine_steps_other(2) [OF net(2)] combine_steps_other(2) [OF net(3)] combine_step_other(2) [OF net(1)])
  obtain r2 r3 where own: "host_rules p ?ip r2 = host_rules p ?ip ?r1" "host_step p nc rc r2 r3"
    "host_rules p ?ip (combine_step ns nc (rmt, rc) ?r1) = host_rules p ?ip r3"
    using combine_step_own [OF assms(4,5) net(1)] by blast
  have h: "host_rules p ?ip ?r = host_rules p ?ip r3" "host_rules p ?ip r2 = host_rules p ?ip ?o"
    using combine_steps_other(1) [OF net(3) ne(2)] combine_steps_other(1) [OF net(2) ne(1)] own by simp_all
  show ?thesis
    using r sub h own(2) host_rules_replaced(2) [OF _ net(1), of p _ r2 r3]
    by (auto simp: host_step_def Let_def split: if_splits)
qed

definition example_net :: "byte \<Rightarrow> ipnet" where
  "example_net b = \<lparr>IP = [10, 1, 1, b], Mask = [0xff, 0xff, 0xff, 0xff]\<rparr>"

definition example_rule :: "action \<Rightarrow> uint16 \<Rightarrow> contiv_rule" where
  "example_rule act port = \<lparr>ID = ''r'', Action = act, SrcNetwork = empty_net, DestNetwork = empty_net,
     Protocol = TCP, SrcPort = 0, DestPort = port\<rparr>"

definition example_config :: ns_configs where
  "example_config =
     [(1, \<lparr>ipAddr = example_net 1,
           ns_ingress = [example_rule ActionPermit 80, example_rule ActionPermit 443, example_rule ActionDeny 0],
           ns_egress = []\<rparr>),
      (2, \<lparr>ipAddr = example_net 2, ns_ingress = [],
           ns_egress = [example_rule ActionPermit 80, example_rule ActionPermit 22, example_rule ActionDeny 0]\<rparr>)]"

lemma combined_ingress_rules_witness:
  "\<exists>rules. getCombinedIngressRules example_config 1 = Some rules \<and>
     permitted_ports (host_rules TCP (example_net 2) rules) = {80} \<and> closed_by_deny (host_rules TCP (example_net 2) rules)"
proof -
  let ?nc = "snd (example_config ! 0)" and ?rc = "snd (example_config ! 1)"
  have sets: "ingress_ports TCP (example_net 2) (ns_ingress ?nc) = {80, 443}"
    "egress_ports TCP (example_net 1) (ns_egress ?rc) = {80, 22}"
    by (auto simp: example_config_def example_rule_def ingress_ports_def egress_ports_def allows_to_def allows_from_def
        hasDenyRule_def empty_net_def)
  have "host_net (example_net b)" for b
    by (simp add: host_net_def example_net_def go_eval)
  moreover have "\<not> ip_equal (IP (example_net 1)) (IP (example_net 2))"
    by (simp add: ip_equal_def example_net_def)
  ultimately show ?thesis
    using combined_ingress_rules [of example_config 1 ?nc 2 ?rc TCP] sets
    by (simp add: example_config_def hasDenyRule_def example_rule_def Let_def del: split_paired_Ex) blast
qed

end
