(* ===== verification/SessionLists.thy ===== *)
theory SessionLists
  imports SessionCache
begin

text \<open>
  The sorted lists of session rules: \<^verbatim>\<open>Compare\<close> as an order with and without tags, insertion as
  insertion into a strictly ascending list, and \<^verbatim>\<open>Diff\<close> as the two set differences.
\<close>

section \<open>The order of session rules\<close>

lemma SessionRule_Compare_chain:
  "SessionRule_Compare a b t =
     and_then (CompareInts (uint (AppnsIndex a)) (uint (AppnsIndex b)))
     (and_then (CompareInts (uint (Scope a)) (uint (Scope b)))
     (and_then (CompareInts (uint (ActionIndex a)) (uint (ActionIndex b)))
     (and_then (CompareInts (uint (IsIP4 a)) (uint (IsIP4 b)))
     (and_then (CompareInts (uint (LclPlen a)) (uint (LclPlen b)))
     (and_then (bytes_compare (LclIP a) (LclIP b))
     (and_then (CompareInts (uint (RmtPlen a)) (uint (RmtPlen b)))
     (and_then (bytes_compare (RmtIP a) (RmtIP b))
     (and_then (CompareInts (uint (TransportProto a)) (uint (TransportProto b)))
     (and_then (CompareInts (uint (LclPort a)) (uint (LclPort b)))
     (and_then (CompareInts (uint (RmtPort a)) (uint (RmtPort b)))
               (if t then bytes_compare (Tag a) (Tag b) else 0)))))))))))"
  by (simp add: SessionRule_Compare_def and_then_def CompareIPNetsBytes_def Let_def)

lemma three_way_const: "three_way (\<lambda>a b. 0)"
  by unfold_locales simp_all

lemma three_way_SessionRule_Compare: "three_way (\<lambda>a b. SessionRule_Compare a b t)"
proof -
  have "three_way (\<lambda>a b. if t then bytes_compare (Tag a) (Tag b) else 0)"
    using three_way_on [OF three_way_bytes_compare] three_way_const by (cases t) simp_all
  then show ?thesis
    unfolding SessionRule_Compare_chain
    by (intro three_way_and_then three_way_on [OF three_way_CompareInts] three_way_on [OF three_way_bytes_compare])
qed

lemma SessionRule_Compare_untagged: "SessionRule_Compare a b False = 0 \<longleftrightarrow> a\<lparr>Tag := []\<rparr> = b\<lparr>Tag := []\<rparr>"
  unfolding SessionRule_Compare_chain
  by (cases a; cases b) (auto simp: word_uint_eq_iff)

lemma SessionRule_Compare_zero: "SessionRule_Compare a b True = 0 \<longleftrightarrow> a = b"
  unfolding SessionRule_Compare_chain
  by (cases a; cases b) (auto simp: word_uint_eq_iff)

lemma SessionRule_Compare_less: "SessionRule_Compare a b False < 0 \<Longrightarrow> SessionRule_Compare a b True < 0"
proof -
  have "SessionRule_Compare a b True = and_then (SessionRule_Compare a b False) (bytes_compare (Tag a) (Tag b))"
    unfolding SessionRule_Compare_chain by (simp add: and_then_def)
  then show "SessionRule_Compare a b False < 0 \<Longrightarrow> ?thesis" by (simp add: and_then_def)
qed

interpretation srule: three_way "\<lambda>a b. SessionRule_Compare a b False"
  by (rule three_way_SessionRule_Compare)

interpretation trule: three_way_total "\<lambda>a b. SessionRule_Compare a b True"
  by (intro three_way_total.intro three_way_SessionRule_Compare three_way_total_axioms.intro)
     (simp add: SessionRule_Compare_zero)

abbreviation rules_ascending :: "session_rule list \<Rightarrow> bool" where
  "rules_ascending \<equiv> three_way.ascending (\<lambda>a b. SessionRule_Compare a b False)"

lemma rules_ascending_tagged: "rules_ascending ys \<Longrightarrow> trule.ascending ys"
  unfolding srule.ascending_def trule.ascending_def
  by (erule sorted_wrt_mono_rel [rotated]) (rule SessionRule_Compare_less)

section \<open>Insertion\<close>

text \<open>The abstract list of an array: strictly ascending, ignoring tags.\<close>

definition list_of :: "session_rule_list \<Rightarrow> session_rule list \<Rightarrow> bool" where
  "list_of srl ys \<longleftrightarrow> represents srl ys \<and> rules_ascending ys"

definition has_rule :: "session_rule list \<Rightarrow> session_rule \<Rightarrow> bool" where
  "has_rule ys r \<longleftrightarrow> (\<exists>y\<in>set ys. SessionRule_Compare r y False = 0)"

definition add_rule :: "session_rule list \<Rightarrow> session_rule \<Rightarrow> session_rule list" where
  "add_rule ys r =
     (if has_rule ys r then ys else take (srule.below r ys) ys @ r # drop (srule.below r ys) ys)"

lemma list_of_empty: "list_of NewSessionRuleList []"
  by (simp add: list_of_def NewSessionRuleList_def srule.ascending_Nil)

lemma lookupIdxByRule_below: "list_of srl ys \<Longrightarrow> lookupIdxByRule srl r = Some (srule.below r ys)"
  using srule.search_array [of "fst srl" "snd srl" ys r] by (simp add: list_of_def lookupIdxByRule_def)

lemma insert_rule_adds:
  assumes l: "list_of srl ys"
  shows "\<exists>srl'. insert_rule srl r = Some (srl', \<not> has_rule ys r) \<and> list_of srl' (add_rule ys r)"
proof -
  obtain xs n where srl: "srl = (xs, n)" by (cases srl)
  have rep: "represents (xs, n) ys" and asc: "rules_ascending ys" using l by (auto simp: list_of_def srl)
  have n: "n = length ys" using represents_length [OF rep] by simp
  let ?k = "srule.below r ys"
  have hit: "has_rule ys r \<longleftrightarrow> ?k < n \<and> SessionRule_Compare r (ys ! ?k) False = 0"
    using srule.below_hit [OF asc, of r] by (auto simp: has_rule_def n)
  have el: "?k < n \<Longrightarrow> elem_at xs ?k = Some (ys ! ?k)" using rep by (rule represents_elem_at)
  show ?thesis
  proof (cases "has_rule ys r")
    case True
    then show ?thesis
      using hit el l by (auto simp: insert_rule_def lookupIdxByRule_below add_rule_def srl)
  next
    case False
    obtain xs' where xs': "padded_insert ?k r (xs, n) = Some (xs', n + 1)"
      "represents (xs', n + 1) (take ?k ys @ r # drop ?k ys)"
      using represents_insert [OF rep, of ?k r] srule.below_le [of r ys] n by auto
    have "rules_ascending (take ?k ys @ r # drop ?k ys)"
      using asc False by (intro srule.ascending_insert) (auto simp: has_rule_def)
    then have "list_of (xs', n + 1) (add_rule ys r)"
      using xs' False by (simp add: list_of_def add_rule_def)
    moreover have "insert_rule srl r = Some ((xs', n + 1), True)"
      using False hit el xs' l by (auto simp: insert_rule_def lookupIdxByRule_below srl)
    ultimately show ?thesis using False by auto
  qed
qed

lemma set_add_rule: "set (add_rule ys r) = (if has_rule ys r then set ys else insert r (set ys))"
proof -
  have "set (take k ys @ r # drop k ys) = insert r (set ys)" for k
    by (metis append_take_drop_id list.set(2) set_append Un_insert_right)
  then show ?thesis by (simp add: add_rule_def)
qed

fun all_new :: "session_rule list \<Rightarrow> session_rule list \<Rightarrow> bool" where
  "all_new ys [] \<longleftrightarrow> True"
| "all_new ys (r # rs) \<longleftrightarrow> \<not> has_rule ys r \<and> all_new (add_rule ys r) rs"

definition add_rules :: "session_rule list \<Rightarrow> session_rule list \<Rightarrow> session_rule list" where
  "add_rules ys rs = fold (\<lambda>r ys. add_rule ys r) rs ys"

lemma Insert_loop_adds:
  "list_of srl ys \<Longrightarrow>
   \<exists>srl'. Insert_loop srl rs allIn = Some (srl', allIn \<and> all_new ys rs) \<and> list_of srl' (add_rules ys rs)"
proof (induction rs arbitrary: srl ys allIn)
  case (Cons r rs)
  obtain srl1 where srl1: "insert_rule srl r = Some (srl1, \<not> has_rule ys r)" "list_of srl1 (add_rule ys r)"
    using insert_rule_adds [OF Cons.prems] by blast
  obtain srl2 where "Insert_loop srl1 rs (if has_rule ys r then False else allIn) =
      Some (srl2, (if has_rule ys r then False else allIn) \<and> all_new (add_rule ys r) rs)"
    "list_of srl2 (add_rules (add_rule ys r) rs)"
    using Cons.IH [OF srl1(2)] by blast
  then show ?case using srl1 by (auto simp: add_rules_def)
qed (simp add: add_rules_def)

lemma Insert_adds:
  "list_of srl ys \<Longrightarrow> \<exists>srl'. Insert srl rs = Some (srl', all_new ys rs) \<and> list_of srl' (add_rules ys rs)"
  using Insert_loop_adds [of srl ys rs True] by (simp add: Insert_def)

lemma add_rules_Nil [simp]: "add_rules ys [] = ys"
  by (simp add: add_rules_def)

lemma add_rules_Cons [simp]: "add_rules ys (r # rs) = add_rules (add_rule ys r) rs"
  by (simp add: add_rules_def)

lemma has_rule_add: "has_rule (add_rule ys r) q \<longleftrightarrow> has_rule ys q \<or> SessionRule_Compare q r False = 0"
proof (cases "has_rule ys r")
  case True
  then obtain y where y: "y \<in> set ys" "SessionRule_Compare r y False = 0" by (auto simp: has_rule_def)
  have "has_rule ys q" if "SessionRule_Compare q r False = 0"
    using that y by (auto simp: has_rule_def SessionRule_Compare_untagged)
  then show ?thesis using True by (auto simp: add_rule_def)
next
  case False
  then show ?thesis using set_add_rule [of ys r] by (auto simp: has_rule_def)
qed

lemma add_rules_bounds:
  "set ys \<subseteq> set (add_rules ys rs)" "set (add_rules ys rs) \<subseteq> set ys \<union> set rs"
  by (induction rs arbitrary: ys) (fastforce simp: set_add_rule split: if_splits)+

lemma has_rule_add_rules: "has_rule (add_rules ys rs) q \<longleftrightarrow> has_rule ys q \<or> has_rule rs q"
proof (induction rs arbitrary: ys)
  case (Cons r rs)
  have "has_rule (r # rs) q \<longleftrightarrow> SessionRule_Compare q r False = 0 \<or> has_rule rs q" by (simp add: has_rule_def)
  then show ?case using Cons by (simp add: has_rule_add disj_assoc)
qed (simp add: has_rule_def)

section \<open>Difference\<close>

text \<open>The merge that \<^verbatim>\<open>Diff\<close> performs, on the abstract lists.\<close>

fun merge_diff :: "session_rule list \<Rightarrow> session_rule list \<Rightarrow> session_rule list \<times> session_rule list" where
  "merge_diff (y # ys) (z # zs) =
     (if SessionRule_Compare y z True = 0 then merge_diff ys zs
      else if SessionRule_Compare y z True = -1 then map_prod ((#) y) id (merge_diff ys (z # zs))
      else map_prod id ((#) z) (merge_diff (y # ys) zs))"
| "merge_diff ys [] = (ys, [])"
| "merge_diff [] zs = ([], zs)"

lemma filter_skip: "y \<notin> set zs \<Longrightarrow> filter (\<lambda>z. z \<noteq> y \<and> P z) zs = filter P zs"
  by (rule filter_cong) auto

lemma merge_diff_sets:
  "trule.ascending ys \<Longrightarrow> trule.ascending zs \<Longrightarrow>
   merge_diff ys zs = (filter (\<lambda>y. y \<notin> set zs) ys, filter (\<lambda>z. z \<notin> set ys) zs)"
proof (induction ys zs rule: merge_diff.induct)
  case (1 y ys z zs)
  have asc: "trule.ascending ys" "trule.ascending zs" "\<forall>x\<in>set ys. SessionRule_Compare y x True < 0"
    "\<forall>x\<in>set zs. SessionRule_Compare z x True < 0"
    using 1(4,5) by (auto simp: trule.ascending_Cons)
  have self: "\<not> SessionRule_Compare x x True < 0" for x by (simp add: trule.cmp_self)
  have notin: "y \<notin> set ys" "z \<notin> set zs" using asc(3,4) self by blast+
  consider "SessionRule_Compare y z True = 0" | "SessionRule_Compare y z True = -1" | "SessionRule_Compare y z True = 1"
    using trule.cmp_range by blast
  then show ?case
  proof cases
    case 1
    then have "y = z" by (simp add: SessionRule_Compare_zero)
    then show ?thesis using "1.IH"(1) 1 asc notin by (simp add: filter_skip)
  next
    case 2
    then have lt: "SessionRule_Compare y z True < 0" by simp
    have "SessionRule_Compare y x True < 0" if "x \<in> set zs" for x
      using trule.cmp_less_trans [OF lt] asc(4) that by blast
    then have "y \<noteq> z" "y \<notin> set zs" using lt self by blast+
    then show ?thesis using "1.IH"(2) 2 asc "1.prems" by (simp add: filter_skip)
  next
    case 3
    then have lt: "SessionRule_Compare z y True < 0" using trule.cmp_pos_iff [of y z] by simp
    have "SessionRule_Compare z x True < 0" if "x \<in> set ys" for x
      using trule.cmp_less_trans [OF lt] asc(3) that by blast
    then have "z \<noteq> y" "z \<notin> set ys" using lt self by blast+
    then show ?thesis using "1.IH"(3) 3 asc "1.prems" by (simp add: filter_skip)
  qed
qed auto

lemma drop_nth_Cons: "i < length ys \<Longrightarrow> drop i ys = ys ! i # drop (Suc i) ys"
  by (rule Cons_nth_drop_Suc [symmetric])

lemma represents_nth: "represents (xs, n) ys \<Longrightarrow> i < n \<Longrightarrow> i < length xs \<and> xs ! i = Some (ys ! i)"
  using represents_elem_at [of xs n ys i] represents_length [of xs n ys] by (auto simp: elem_at_def)

lemma merge_diff_Nil: "merge_diff [] zs = ([], zs)" "merge_diff ys [] = (ys, [])"
  by (cases zs; simp) (cases ys; simp)

lemma diff_loop_merges:
  assumes "represents srl ys" "represents srl2 zs"
  shows "diff_loop srl srl2 i j added removed =
    Some (added @ map Some (fst (merge_diff (drop i ys) (drop j zs))),
          removed @ map Some (snd (merge_diff (drop i ys) (drop j zs))))"
  using assms
proof (induction srl srl2 i j added removed rule: diff_loop.induct)
  case (1 srl srl2 i j added removed)
  obtain xs n xs2 n2 where s: "srl = (xs, n)" "srl2 = (xs2, n2)" by (cases srl; cases srl2) auto
  have n: "n = length ys" "n2 = length zs"
    using "1.prems" represents_length unfolding s by blast+
  have r1: "i < n \<Longrightarrow> i < length xs \<and> xs ! i = Some (ys ! i)" and r2: "j < n2 \<Longrightarrow> j < length xs2 \<and> xs2 ! j = Some (zs ! j)"
    using "1.prems" represents_nth unfolding s by blast+
  consider (both) "i < n" "j < n2" | (left) "i < n" "\<not> j < n2" | (right) "\<not> i < n" "j < n2" | (none) "\<not> i < n" "\<not> j < n2"
    by blast
  then show ?case
  proof cases
    case both
    let ?c = "SessionRule_Compare (ys ! i) (zs ! j) True"
    have el: "elem_at xs i = Some (ys ! i)" "elem_at xs2 j = Some (zs ! j)"
      using both r1 r2 by (simp_all add: elem_at_def)
    have d: "drop i ys = ys ! i # drop (Suc i) ys" "drop j zs = zs ! j # drop (Suc j) zs"
      using both n by (simp_all add: drop_nth_Cons)
    consider "?c = 0" | "?c = -1" | "?c = 1" using trule.cmp_range by blast
    then show ?thesis
      by cases (use "1.IH"(1-3) "1.prems" both el in \<open>subst diff_loop.simps, simp add: s d Let_def map_prod_def split_beta\<close>)+
  next
    case left
    have d: "drop i ys = ys ! i # drop (Suc i) ys" "drop j zs = []" using left n by (simp_all add: drop_nth_Cons)
    show ?thesis
      using "1.IH"(4) "1.prems" left r1 by (subst diff_loop.simps) (simp add: s d merge_diff_Nil)
  next
    case right
    have d: "drop j zs = zs ! j # drop (Suc j) zs" "drop i ys = []" using right n by (simp_all add: drop_nth_Cons)
    show ?thesis
      using "1.IH"(5) "1.prems" right r2 by (subst diff_loop.simps) (simp add: s d merge_diff_Nil)
  next
    case none
    then show ?thesis using n by (subst diff_loop.simps) (simp add: s merge_diff_Nil)
  qed
qed

lemma Diff_sets:
  assumes "list_of srl ys" "list_of srl2 zs"
  shows "Diff srl srl2 = Some (map Some (filter (\<lambda>y. y \<notin> set zs) ys), map Some (filter (\<lambda>z. z \<notin> set ys) zs))"
  using assms diff_loop_merges [of srl ys srl2 zs 0 0 "[]" "[]"] merge_diff_sets [of ys zs]
  by (simp add: Diff_def list_of_def rules_ascending_tagged)

end
