(* ===== verification/SessionTables.thy ===== *)
theory SessionTables
  imports SessionLists
begin

text \<open>
  The tables of the session rule cache as sets of rules: what \<^verbatim>\<open>Diff\<close> on tables returns, which
  tables a transaction computes, and what \<^verbatim>\<open>Changes\<close> and \<^verbatim>\<open>Commit\<close> do to the installed rules.
\<close>

section \<open>Tables as sets of rules\<close>

text \<open>
  The arrays of the tables are built by insertion only and carry no nil padding, which matters
  where \<^verbatim>\<open>Diff\<close> on tables appends a whole array.
\<close>

definition table_of :: "session_rule_list \<Rightarrow> session_rule list \<Rightarrow> bool" where
  "table_of srl ys \<longleftrightarrow> srl = (map Some ys, length ys) \<and> rules_ascending ys"

lemma table_of_iff: "table_of srl ys \<longleftrightarrow> list_of srl ys \<and> length (fst srl) = snd srl"
proof
  assume a: "list_of srl ys \<and> length (fst srl) = snd srl"
  obtain xs n where srl: "srl = (xs, n)" by (cases srl)
  from a obtain k where "n = length ys" "xs = map Some ys @ replicate k None" "rules_ascending ys"
    by (auto simp: list_of_def srl represents_split)
  with a show "table_of srl ys" by (simp add: table_of_def srl)
qed (auto simp: table_of_def list_of_def represents_split)

lemma copy_within_length: "copy_within xs d s = Some ys \<Longrightarrow> length ys = length xs"
  by (auto simp: copy_within_def Let_def split: if_splits)

lemma padded_insert_length: "padded_insert idx x (xs, length xs) = Some (xs', n) \<Longrightarrow> length xs' = length xs + 1"
  by (auto simp: padded_insert_def slice_set_def Let_def bind_eq_Some_conv split: if_splits dest: copy_within_length)

lemma insert_rule_compact:
  "insert_rule srl r = Some (srl', b) \<Longrightarrow> length (fst srl) = snd srl \<Longrightarrow> length (fst srl') = snd srl'"
proof -
  assume i: "insert_rule srl r = Some (srl', b)" "length (fst srl) = snd srl"
  obtain xs n where srl: "srl = (xs, n)" by (cases srl)
  obtain idx where "srl' = srl \<or> padded_insert idx r (xs, length xs) = Some srl'"
    using i by (auto simp: insert_rule_def bind_eq_Some_conv srl split: if_splits)
  moreover have "snd srl' = length xs + 1" if "padded_insert idx r (xs, length xs) = Some srl'"
    using that by (auto simp: padded_insert_def Let_def bind_eq_Some_conv)
  ultimately show ?thesis using i padded_insert_length [of idx r xs "fst srl'" "snd srl'"] by (auto simp: srl)
qed

lemma Insert_loop_compact:
  "Insert_loop srl rs b = Some (srl', b') \<Longrightarrow> length (fst srl) = snd srl \<Longrightarrow> length (fst srl') = snd srl'"
proof (induction rs arbitrary: srl b)
  case (Cons r rs)
  obtain srl1 a where i: "insert_rule srl r = Some (srl1, a)"
    using Cons.prems(1) by (cases "insert_rule srl r") auto
  then show ?case using Cons insert_rule_compact [OF i] by auto
qed auto

lemma Insert_table:
  assumes "table_of srl ys"
  shows "\<exists>srl'. Insert srl rs = Some (srl', all_new ys rs) \<and> table_of srl' (add_rules ys rs)"
proof -
  obtain srl' where s: "Insert srl rs = Some (srl', all_new ys rs)" "list_of srl' (add_rules ys rs)"
    using assms Insert_adds [of srl ys rs] by (auto simp: table_of_iff)
  then have "length (fst srl') = snd srl'"
    using assms Insert_loop_compact [of srl rs True srl'] by (simp add: Insert_def table_of_iff)
  with s show ?thesis by (auto simp: table_of_iff)
qed

definition rules_of :: "session_rule_list \<Rightarrow> session_rule set" where
  "rules_of srl = {r. Some r \<in> set (fst srl)}"

lemma rules_of_table [simp]: "table_of srl ys \<Longrightarrow> rules_of srl = set ys"
  by (auto simp: table_of_def rules_of_def)

text \<open>Well-formed tables: local rules carry the index of their namespace, global ones do not have
  the local scope.\<close>

definition is_table :: "session_rule_list \<Rightarrow> bool" where
  "is_table srl \<longleftrightarrow> (\<exists>ys. table_of srl ys)"

definition tables_wf :: "session_tables \<Rightarrow> bool" where
  "tables_wf st \<longleftrightarrow>
     is_table (global st) \<and> (\<forall>r\<in>rules_of (global st). Scope r \<noteq> RuleScopeLocal) \<and>
     distinct (map fst (local st)) \<and>
     (\<forall>(ns, srl)\<in>set (local st). is_table srl \<and> (\<forall>r\<in>rules_of srl. Scope r = RuleScopeLocal \<and> AppnsIndex r = ns))"

definition local_rules :: "session_tables \<Rightarrow> uint32 \<Rightarrow> session_rule set" where
  "local_rules st ns = (case map_of (local st) ns of None \<Rightarrow> {} | Some srl \<Rightarrow> rules_of srl)"

definition all_rules :: "session_tables \<Rightarrow> session_rule set" where
  "all_rules st = rules_of (global st) \<union> (\<Union>ns. local_rules st ns)"

lemma Diff_tables:
  assumes "is_table srl" "is_table srl2"
  shows "\<exists>a r. Diff srl srl2 = Some (map Some a, map Some r) \<and>
    set a = rules_of srl - rules_of srl2 \<and> set r = rules_of srl2 - rules_of srl"
proof -
  obtain ys zs where t: "table_of srl ys" "table_of srl2 zs" using assms by (auto simp: is_table_def)
  then have "Diff srl srl2 = Some (map Some (filter (\<lambda>y. y \<notin> set zs) ys), map Some (filter (\<lambda>z. z \<notin> set ys) zs))"
    by (intro Diff_sets) (auto simp: table_of_iff)
  moreover have "set (filter (\<lambda>y. y \<notin> set zs) ys) = rules_of srl - rules_of srl2"
    "set (filter (\<lambda>z. z \<notin> set ys) zs) = rules_of srl2 - rules_of srl" using t by auto
  ultimately show ?thesis by blast
qed

lemma table_array: "is_table srl \<Longrightarrow> \<exists>ys. fst srl = map Some ys \<and> set ys = rules_of srl"
  by (auto simp: is_table_def table_of_def rules_of_def)

lemma diff_local_sets:
  assumes "\<forall>(ns, srl)\<in>set ls. is_table srl" "\<forall>(ns, srl)\<in>set (local st2). is_table srl"
  shows "\<exists>a r. diff_local ls st2 acc = Some (fst acc @ map Some a, snd acc @ map Some r) \<and>
    set a = (\<Union>(ns, srl)\<in>set ls. rules_of srl - local_rules st2 ns) \<and>
    set r = (\<Union>(ns, srl)\<in>set ls. local_rules st2 ns - rules_of srl)"
  using assms(1)
proof (induction ls arbitrary: acc)
  case (Cons p ls)
  obtain ns srl where p: "p = (ns, srl)" by (cases p)
  have srl: "is_table srl" using Cons.prems by (simp add: p)
  have ls: "\<forall>(ns, srl)\<in>set ls. is_table srl" using Cons.prems by simp
  show ?case
  proof (cases "map_of (local st2) ns")
    case None
    obtain ys where ys: "fst srl = map Some ys" "set ys = rules_of srl" using table_array [OF srl] by blast
    obtain a r where ar: "diff_local ls st2 (fst acc @ fst srl, snd acc) =
        Some ((fst acc @ fst srl) @ map Some a, snd acc @ map Some r)"
      "set a = (\<Union>(ns, srl)\<in>set ls. rules_of srl - local_rules st2 ns)"
      "set r = (\<Union>(ns, srl)\<in>set ls. local_rules st2 ns - rules_of srl)"
      using Cons.IH [OF ls, of "(fst acc @ fst srl, snd acc)"] by auto
    have "diff_local (p # ls) st2 acc = Some (fst acc @ map Some (ys @ a), snd acc @ map Some r)"
      using None ar(1) by (simp add: p ys)
    moreover have "local_rules st2 ns = {}" using None by (simp add: local_rules_def)
    ultimately show ?thesis using ar ys by (intro exI [of _ "ys @ a"] exI [of _ r]) (simp add: p)
  next
    case (Some srl2)
    then have srl2: "is_table srl2" using assms(2) map_of_SomeD by fastforce
    obtain a1 r1 where d: "Diff srl srl2 = Some (map Some a1, map Some r1)"
      "set a1 = rules_of srl - rules_of srl2" "set r1 = rules_of srl2 - rules_of srl"
      using Diff_tables [OF srl srl2] by blast
    obtain a r where ar: "diff_local ls st2 (fst acc @ map Some a1, snd acc @ map Some r1) =
        Some ((fst acc @ map Some a1) @ map Some a, (snd acc @ map Some r1) @ map Some r)"
      "set a = (\<Union>(ns, srl)\<in>set ls. rules_of srl - local_rules st2 ns)"
      "set r = (\<Union>(ns, srl)\<in>set ls. local_rules st2 ns - rules_of srl)"
      using Cons.IH [OF ls, of "(fst acc @ map Some a1, snd acc @ map Some r1)"] by auto
    have "diff_local (p # ls) st2 acc = Some (fst acc @ map Some (a1 @ a), snd acc @ map Some (r1 @ r))"
      using Some ar(1) d(1) by (simp add: p)
    moreover have "local_rules st2 ns = rules_of srl2" using Some by (simp add: local_rules_def)
    ultimately show ?thesis using ar d by (intro exI [of _ "a1 @ a"] exI [of _ "r1 @ r"]) (simp add: p)
  qed
qed simp

lemma local_rules_Union:
  assumes "distinct (map fst ls)"
  shows "(\<Union>(ns, srl)\<in>set ls. f ns srl) = (\<Union>ns. case map_of ls ns of None \<Rightarrow> {} | Some srl \<Rightarrow> f ns srl)"
proof (rule set_eqI)
  fix x
  have "x \<in> (\<Union>(ns, srl)\<in>set ls. f ns srl) \<longleftrightarrow> (\<exists>ns srl. (ns, srl) \<in> set ls \<and> x \<in> f ns srl)" by blast
  also have "\<dots> \<longleftrightarrow> (\<exists>ns srl. map_of ls ns = Some srl \<and> x \<in> f ns srl)" using assms by simp
  also have "\<dots> \<longleftrightarrow> (\<exists>ns. x \<in> (case map_of ls ns of None \<Rightarrow> {} | Some srl \<Rightarrow> f ns srl))"
    by (intro ex_cong1) (auto split: option.splits)
  also have "\<dots> \<longleftrightarrow> x \<in> (\<Union>ns. case map_of ls ns of None \<Rightarrow> {} | Some srl \<Rightarrow> f ns srl)" by blast
  finally show "x \<in> (\<Union>(ns, srl)\<in>set ls. f ns srl) \<longleftrightarrow> x \<in> (\<Union>ns. case map_of ls ns of None \<Rightarrow> {} | Some srl \<Rightarrow> f ns srl)" .
qed

lemma whole_arrays:
  assumes "\<forall>(ns, srl)\<in>set ls. is_table srl"
  shows "\<exists>ys. concat (map (\<lambda>(ns, srl). if P ns then fst srl else []) ls) = map Some ys \<and>
    set ys = (\<Union>(ns, srl)\<in>set ls. if P ns then rules_of srl else {})"
  using assms
proof (induction ls)
  case (Cons p ls)
  obtain ns srl where p: "p = (ns, srl)" by (cases p)
  obtain zs where zs: "fst srl = map Some zs" "set zs = rules_of srl"
    using table_array [of srl] Cons.prems by (auto simp: p)
  obtain ys where ys: "concat (map (\<lambda>(ns, srl). if P ns then fst srl else []) ls) = map Some ys"
    "set ys = (\<Union>(ns, srl)\<in>set ls. if P ns then rules_of srl else {})"
    using Cons by auto
  show ?case
    using zs ys by (intro exI [of _ "(if P ns then zs else []) @ ys"]) (simp add: p)
qed simp

lemma tables_wf_local:
  "tables_wf st \<Longrightarrow> r \<in> local_rules st ns \<Longrightarrow> Scope r = RuleScopeLocal \<and> AppnsIndex r = ns"
  unfolding local_rules_def tables_wf_def by (fastforce split: option.splits dest: map_of_SomeD)

lemma tables_wf_global: "tables_wf st \<Longrightarrow> r \<in> rules_of (global st) \<Longrightarrow> Scope r \<noteq> RuleScopeLocal"
  by (simp add: tables_wf_def)

lemma all_rules_cases:
  assumes "tables_wf st"
  shows "r \<in> all_rules st \<longleftrightarrow> (if Scope r = RuleScopeLocal then r \<in> local_rules st (AppnsIndex r) else r \<in> rules_of (global st))"
  using tables_wf_local [OF assms] tables_wf_global [OF assms] unfolding all_rules_def by auto

lemma all_rules_diff:
  assumes "tables_wf st" "tables_wf st2"
  shows "all_rules st - all_rules st2 =
    (rules_of (global st) - rules_of (global st2)) \<union> (\<Union>ns. local_rules st ns - local_rules st2 ns)"
proof (rule set_eqI)
  fix r
  have loc: "r \<in> (\<Union>ns. local_rules st ns - local_rules st2 ns) \<longleftrightarrow>
      r \<in> local_rules st (AppnsIndex r) \<and> r \<notin> local_rules st2 (AppnsIndex r)"
    using tables_wf_local [OF assms(1), of r] by blast
  show "r \<in> all_rules st - all_rules st2 \<longleftrightarrow>
      r \<in> (rules_of (global st) - rules_of (global st2)) \<union> (\<Union>ns. local_rules st ns - local_rules st2 ns)"
    unfolding Un_iff loc Diff_iff all_rules_cases [OF assms(1)] all_rules_cases [OF assms(2)]
    using tables_wf_local [OF assms(1), of r] tables_wf_global [OF assms(1), of r] by auto
qed

lemma tables_Diff_sets:
  assumes "tables_wf st" "tables_wf st2"
  shows "\<exists>a r. tables_Diff st st2 = Some (map Some a, map Some r) \<and>
    set a = all_rules st - all_rules st2 \<and> set r = all_rules st2 - all_rules st"
proof -
  have wf: "\<forall>(ns, srl)\<in>set (local st). is_table srl" "\<forall>(ns, srl)\<in>set (local st2). is_table srl"
    "is_table (global st)" "is_table (global st2)" "distinct (map fst (local st))" "distinct (map fst (local st2))"
    using assms unfolding tables_wf_def by auto
  obtain a1 r1 where d: "Diff (global st) (global st2) = Some (map Some a1, map Some r1)"
    "set a1 = rules_of (global st) - rules_of (global st2)" "set r1 = rules_of (global st2) - rules_of (global st)"
    using Diff_tables [OF wf(3,4)] by blast
  obtain a r where l: "diff_local (local st) st2 (map Some a1, map Some r1) = Some (map Some (a1 @ a), map Some (r1 @ r))"
    "set a = (\<Union>(ns, srl)\<in>set (local st). rules_of srl - local_rules st2 ns)"
    "set r = (\<Union>(ns, srl)\<in>set (local st). local_rules st2 ns - rules_of srl)"
    using diff_local_sets [OF wf(1,2), of "(map Some a1, map Some r1)"] by auto
  obtain ys where ys: "concat (map (\<lambda>(ns, srl). if map_of (local st) ns = None then fst srl else []) (local st2)) = map Some ys"
    "set ys = (\<Union>(ns, srl)\<in>set (local st2). if map_of (local st) ns = None then rules_of srl else {})"
    using whole_arrays [OF wf(2), of "\<lambda>ns. map_of (local st) ns = None"] by blast
  have sa: "set a = (\<Union>ns. local_rules st ns - local_rules st2 ns)"
    unfolding l(2) local_rules_Union [OF wf(5)] 
    by (rule SUP_cong [OF refl]) (simp add: local_rules_def split: option.splits)
  have sr: "set r \<union> set ys = (\<Union>ns. local_rules st2 ns - local_rules st ns)"
    unfolding l(3) ys(2) local_rules_Union [OF wf(5)] local_rules_Union [OF wf(6)] UN_Un_distrib [symmetric]
    by (rule SUP_cong [OF refl]) (simp add: local_rules_def split: option.splits)
  have "tables_Diff st st2 = Some (map Some (a1 @ a), map Some (r1 @ r @ ys))"
    using d(1) l(1) ys(1) by (simp add: tables_Diff_def)
  moreover have "set (a1 @ a) = all_rules st - all_rules st2"
    using d(2) sa all_rules_diff [OF assms] by simp
  moreover have "set (r1 @ r @ ys) = all_rules st2 - all_rules st"
    using d(3) sr all_rules_diff [OF assms(2,1)] by simp
  ultimately show ?thesis by blast
qed

section \<open>The tables a transaction computes\<close>

lemma scope_consts [simp]: "RuleScopeGlobal \<noteq> RuleScopeLocal"
  by (simp add: RuleScopeGlobal_def RuleScopeLocal_def)

lemma convertEgressRules_scope: "r \<in> set (convertEgressRules ns addr eg pre) \<Longrightarrow> Scope r = RuleScopeGlobal"
  by (auto simp: convertEgressRules_def convertEgressRule_def egress_rule_def Let_def split: if_splits)

lemma convertIngressRules_scope:
  "r \<in> set (convertIngressRules ns ing pre) \<Longrightarrow> Scope r = RuleScopeLocal \<and> AppnsIndex r = ns"
  by (auto simp: convertIngressRules_def convertIngressRule_def ingress_rule_def Let_def split: if_splits)

lemma add_rules_append: "add_rules ys (a @ b) = add_rules (add_rules ys a) b"
  by (simp add: add_rules_def)

lemma table_of_New: "table_of NewSessionRuleList []"
  by (simp add: table_of_def NewSessionRuleList_def srule.ascending_Nil)

definition egress_of :: "string \<Rightarrow> ns_configs \<Rightarrow> session_rule list" where
  "egress_of tagPrefix config =
     concat (map (\<lambda>(ns, c). convertEgressRules ns (ipAddr c) (ns_egress c) tagPrefix) config)"

definition ingress_of :: "string \<Rightarrow> ns_configs \<Rightarrow> uint32 \<Rightarrow> session_rule list" where
  "ingress_of tagPrefix config ns =
     (case getCombinedIngressRules config ns of None \<Rightarrow> [] | Some ing \<Rightarrow> convertIngressRules ns ing tagPrefix)"

lemma egress_of_scope: "r \<in> set (egress_of pre config) \<Longrightarrow> Scope r \<noteq> RuleScopeLocal"
  by (auto simp: egress_of_def dest: convertEgressRules_scope)

lemma ingress_of_scope: "r \<in> set (ingress_of pre config ns) \<Longrightarrow> Scope r = RuleScopeLocal \<and> AppnsIndex r = ns"
  by (auto simp: ingress_of_def dest: convertIngressRules_scope split: option.splits)

lemma refresh_global_table:
  "table_of srl ys \<Longrightarrow> \<exists>srl'. refresh_global pre config srl = Some srl' \<and> table_of srl' (add_rules ys (egress_of pre config))"
proof (induction config arbitrary: srl ys)
  case (Cons p config)
  obtain ns c where p: "p = (ns, c)" by (cases p)
  obtain srl1 b where "Insert srl (convertEgressRules ns (ipAddr c) (ns_egress c) pre) = Some (srl1, b)"
    "table_of srl1 (add_rules ys (convertEgressRules ns (ipAddr c) (ns_egress c) pre))"
    using Insert_table [OF Cons.prems] by blast
  with Cons.IH show ?case by (simp add: p egress_of_def add_rules_append)
qed (simp add: egress_of_def)

lemma refresh_local_tables:
  assumes "distinct nss" "set nss \<subseteq> fst ` set config" "\<forall>ns\<in>set nss. map_of loc ns = Some NewSessionRuleList"
  shows "\<exists>loc'. refresh_local pre config nss loc = Some loc' \<and> map fst loc' = map fst loc \<and>
    (\<forall>ns\<in>set nss. \<exists>srl. map_of loc' ns = Some srl \<and> table_of srl (add_rules [] (ingress_of pre config ns))) \<and>
    (\<forall>ns. ns \<notin> set nss \<longrightarrow> map_of loc' ns = map_of loc ns)"
  using assms
proof (induction nss arbitrary: loc)
  case (Cons ns nss)
  obtain c where c: "map_of config ns = Some c"
    using Cons.prems(2) by (metis insert_subset list.simps(15) map_of_eq_None_iff option.exhaust)
  then obtain ing where ing: "getCombinedIngressRules config ns = Some ing" by (simp add: getCombinedIngressRules_def)
  obtain srl b where srl: "Insert NewSessionRuleList (convertIngressRules ns ing pre) = Some (srl, b)"
    "table_of srl (add_rules [] (ingress_of pre config ns))"
    using Insert_table [OF table_of_New] ing by (simp add: ingress_of_def) blast
  let ?loc = "AList.update ns srl loc"
  have pres: "\<forall>m\<in>set nss. map_of ?loc m = Some NewSessionRuleList"
    using Cons.prems(1,3) by (auto simp: update_conv')
  have sub: "set nss \<subseteq> fst ` set config" and dis: "distinct nss" using Cons.prems by auto
  obtain loc' where loc': "refresh_local pre config nss ?loc = Some loc'" "map fst loc' = map fst ?loc"
    "\<forall>m\<in>set nss. \<exists>srl. map_of loc' m = Some srl \<and> table_of srl (add_rules [] (ingress_of pre config m))"
    "\<And>m. m \<notin> set nss \<Longrightarrow> map_of loc' m = map_of ?loc m"
    using Cons.IH [OF dis sub pres] by blast
  have "ns \<in> fst ` set loc" using Cons.prems(3) by (metis list.set_intros(1) map_of_eq_None_iff option.distinct(1))
  then have "map fst ?loc = map fst loc" by (simp add: update_keys)
  moreover have "refresh_local pre config (ns # nss) loc = Some loc'"
    using ing srl(1) loc'(1) Cons.prems(3) by simp
  moreover have "map_of loc' ns = Some srl" using loc'(4) [of ns] Cons.prems(1) by (simp add: update_conv')
  moreover have "map_of loc' m = map_of loc m" if "m \<notin> set (ns # nss)" for m
    using loc'(4) [of m] that by (simp add: update_conv')
  ultimately show ?case using loc'(2,3) srl(2) by (intro exI [of _ loc']) (simp del: split_paired_Ex)
qed simp

definition txn_wf :: "session_txn \<Rightarrow> bool" where
  "txn_wf t \<longleftrightarrow> distinct (map fst (st_config t)) \<and> distinct (map fst (local (st_tables t))) \<and>
     fst ` set (local (st_tables t)) \<subseteq> fst ` set (st_config t)"

lemma map_of_fold_update: "map_of (fold (\<lambda>k l. AList.update k v l) ks l) k = (if k \<in> set ks then Some v else map_of l k)"
  by (induction ks arbitrary: l) (auto simp: update_conv')

lemma distinct_fold_update: "distinct (map fst l) \<Longrightarrow> distinct (map fst (fold (\<lambda>k l. AList.update k v l) ks l))"
  by (induction ks arbitrary: l) (auto simp: distinct_update)

lemma keys_map_of: "fst ` set l = {k. map_of l k \<noteq> None}"
  by (auto simp: map_of_eq_None_iff)

lemma is_table_add_rules: "table_of srl (add_rules [] rs) \<Longrightarrow> is_table srl \<and> rules_of srl \<subseteq> set rs"
  using add_rules_bounds(2) [of "[]" rs] by (auto simp: is_table_def)

lemma refreshTables_tables:
  assumes "txn_wf t"
  shows "\<exists>t'. refreshTables pre t = Some t' \<and> txn_wf t' \<and> st_config t' = st_config t \<and> st_resync t' = st_resync t \<and>
    st_upToDate t' \<and> tables_wf (st_tables t') \<and> fst ` set (local (st_tables t')) = fst ` set (st_config t) \<and>
    table_of (global (st_tables t')) (add_rules [] (egress_of pre (st_config t))) \<and>
    (\<forall>ns\<in>fst ` set (st_config t). \<exists>srl. map_of (local (st_tables t')) ns = Some srl \<and>
       table_of srl (add_rules [] (ingress_of pre (st_config t) ns)))"
proof -
  let ?c = "st_config t" and ?nss = "map fst (st_config t)"
  obtain g where g: "refresh_global pre ?c NewSessionRuleList = Some g" "table_of g (add_rules [] (egress_of pre ?c))"
    using refresh_global_table [OF table_of_New] by blast
  let ?e = "fold (\<lambda>ns loc. AList.update ns NewSessionRuleList loc) ?nss (local (st_tables t))"
  have d: "distinct ?nss" "distinct (map fst (local (st_tables t)))"
    and keys: "fst ` set (local (st_tables t)) \<subseteq> fst ` set ?c" using assms by (auto simp: txn_wf_def)
  have sub: "set ?nss \<subseteq> fst ` set ?c" and new: "\<forall>ns\<in>set ?nss. map_of ?e ns = Some NewSessionRuleList"
    by (auto simp: map_of_fold_update)
  obtain l where l: "refresh_local pre ?c ?nss ?e = Some l" "map fst l = map fst ?e"
    "\<forall>ns\<in>set ?nss. \<exists>srl. map_of l ns = Some srl \<and> table_of srl (add_rules [] (ingress_of pre ?c ns))"
    using refresh_local_tables [OF d(1) sub new, of pre] by blast
  have dl: "distinct (map fst l)" using distinct_fold_update [OF d(2)] l(2) by simp
  have ek: "fst ` set ?e = fst ` set ?c"
    using keys by (auto simp: keys_map_of map_of_fold_update split: if_splits)
  have kl: "fst ` set l = fst ` set ?c" using arg_cong [OF l(2), of set] ek by (simp only: set_map)
  let ?t = "t\<lparr>st_tables := \<lparr>global = g, local = l\<rparr>, st_upToDate := True\<rparr>"
  have r: "refreshTables pre t = Some ?t" using g(1) l(1) by (simp add: refreshTables_def Let_def)
  have loc: "is_table srl \<and> (\<forall>r\<in>rules_of srl. Scope r = RuleScopeLocal \<and> AppnsIndex r = ns)" if "(ns, srl) \<in> set l" for ns srl
  proof -
    have m: "map_of l ns = Some srl" using that dl by simp
    have "ns \<in> fst ` set l" using that by force
    then have "ns \<in> set ?nss" unfolding kl by simp
    then have "table_of srl (add_rules [] (ingress_of pre ?c ns))" using l(3) m by force
    from is_table_add_rules [OF this] show ?thesis
      using ingress_of_scope by blast
  qed
  have glob: "is_table g \<and> (\<forall>r\<in>rules_of g. Scope r \<noteq> RuleScopeLocal)"
    using is_table_add_rules [OF g(2)] egress_of_scope by blast
  have "tables_wf (st_tables ?t)" using glob loc dl by (auto simp: tables_wf_def)
  moreover have "txn_wf ?t" using d dl kl by (simp add: txn_wf_def)
  ultimately show ?thesis using r g(2) l(3) kl by (intro exI [of _ ?t]) (simp del: split_paired_Ex)
qed

section \<open>Changes and Commit\<close>

definition untagged_distinct :: "session_rule list \<Rightarrow> bool" where
  "untagged_distinct rs \<longleftrightarrow> distinct (map (\<lambda>r. r\<lparr>Tag := []\<rparr>) rs)"

lemma has_rule_untagged: "has_rule ys r \<longleftrightarrow> r\<lparr>Tag := []\<rparr> \<in> (\<lambda>y. y\<lparr>Tag := []\<rparr>) ` set ys"
  by (auto simp: has_rule_def SessionRule_Compare_untagged)

lemma tables_wf_New: "tables_wf NewSessionTables" and all_rules_New: "all_rules NewSessionTables = {}"
  using table_of_New by (auto simp: tables_wf_def NewSessionTables_def is_table_def all_rules_def local_rules_def rules_of_def NewSessionRuleList_def)

lemma Insert_one:
  assumes "is_table srl" "\<forall>y\<in>rules_of srl. y\<lparr>Tag := []\<rparr> \<noteq> r\<lparr>Tag := []\<rparr>"
  shows "\<exists>srl' b. Insert srl [r] = Some (srl', b) \<and> is_table srl' \<and> rules_of srl' = insert r (rules_of srl)"
proof -
  obtain ys where ys: "table_of srl ys" using assms(1) by (auto simp: is_table_def)
  then have "\<not> has_rule ys r" using assms(2) by (auto simp: has_rule_untagged)
  then have "set (add_rules ys [r]) = insert r (set ys)" by (simp add: set_add_rule)
  moreover obtain srl' b where "Insert srl [r] = Some (srl', b)" "table_of srl' (add_rules ys [r])"
    using Insert_table [OF ys] by blast
  ultimately show ?thesis using ys by (intro exI [of _ srl'] exI [of _ b]) (auto simp: is_table_def)
qed

lemma local_update_wf:
  assumes wf: "tables_wf tb" and srl: "is_table srl" "\<forall>r\<in>rules_of srl. Scope r = RuleScopeLocal \<and> AppnsIndex r = ns"
  shows "tables_wf (tb\<lparr>local := AList.update ns srl (local tb)\<rparr>)"
    and "all_rules (tb\<lparr>local := AList.update ns srl (local tb)\<rparr>) = (all_rules tb - local_rules tb ns) \<union> rules_of srl"
proof -
  let ?tb = "tb\<lparr>local := AList.update ns srl (local tb)\<rparr>"
  have d: "distinct (map fst (local tb))" using wf by (simp add: tables_wf_def)
  have "is_table s \<and> (\<forall>r\<in>rules_of s. Scope r = RuleScopeLocal \<and> AppnsIndex r = m)"
    if "(m, s) \<in> set (AList.update ns srl (local tb))" for m s
  proof -
    have "map_of (AList.update ns srl (local tb)) m = Some s"
      using that distinct_update [OF d] by simp
    then have "m = ns \<and> s = srl \<or> map_of (local tb) m = Some s" by (auto simp: update_conv' split: if_splits)
    then show ?thesis using srl wf unfolding tables_wf_def by (fastforce dest: map_of_SomeD)
  qed
  then show "tables_wf ?tb" using wf distinct_update [OF d] by (auto simp: tables_wf_def)
  have lr: "local_rules ?tb m = (if m = ns then rules_of srl else local_rules tb m)" for m
    by (simp add: local_rules_def update_conv')
  show "all_rules ?tb = (all_rules tb - local_rules tb ns) \<union> rules_of srl"
  proof (rule set_eqI)
    fix r
    show "r \<in> all_rules ?tb \<longleftrightarrow> r \<in> (all_rules tb - local_rules tb ns) \<union> rules_of srl"
      unfolding Un_iff Diff_iff all_rules_cases [OF \<open>tables_wf ?tb\<close>] all_rules_cases [OF wf] lr
      using srl(2) tables_wf_local [OF wf, of r ns] by auto
  qed
qed

lemma dump_tables_rules:
  assumes "tables_wf tb" "untagged_distinct rs" "\<forall>r\<in>set rs. \<forall>y\<in>all_rules tb. y\<lparr>Tag := []\<rparr> \<noteq> r\<lparr>Tag := []\<rparr>"
  shows "\<exists>tb'. dump_tables rs tb = Some tb' \<and> tables_wf tb' \<and> all_rules tb' = all_rules tb \<union> set rs"
  using assms
proof (induction rs arbitrary: tb)
  case (Cons r rs)
  have ud: "untagged_distinct rs" using Cons.prems(2) by (simp add: untagged_distinct_def)
  have fresh: "\<forall>q\<in>set rs. r\<lparr>Tag := []\<rparr> \<noteq> q\<lparr>Tag := []\<rparr>" using Cons.prems(2) by (auto simp: untagged_distinct_def)
  obtain tb1 where tb1: "tables_wf tb1" "all_rules tb1 = insert r (all_rules tb)" "dump_tables (r # rs) tb = dump_tables rs tb1"
  proof (cases "Scope r = RuleScopeLocal")
    case True
    let ?srl = "case map_of (local tb) (AppnsIndex r) of None \<Rightarrow> NewSessionRuleList | Some srl \<Rightarrow> srl"
    have srl: "is_table ?srl \<and> rules_of ?srl = local_rules tb (AppnsIndex r)"
      using Cons.prems(1) table_of_New unfolding tables_wf_def local_rules_def
      by (auto simp: is_table_def rules_of_def NewSessionRuleList_def split: option.splits dest!: map_of_SomeD)
    have sub: "local_rules tb (AppnsIndex r) \<subseteq> all_rules tb" by (auto simp: all_rules_def)
    have fr: "\<forall>y\<in>rules_of ?srl. y\<lparr>Tag := []\<rparr> \<noteq> r\<lparr>Tag := []\<rparr>" using srl sub Cons.prems(3) by auto
    obtain s b where s: "Insert ?srl [r] = Some (s, b)" "is_table s" "rules_of s = insert r (rules_of ?srl)"
      using Insert_one [OF conjunct1 [OF srl] fr] by blast
    note s = s(1,2) s(3) [unfolded conjunct2 [OF srl]]
    have "\<forall>q\<in>rules_of s. Scope q = RuleScopeLocal \<and> AppnsIndex q = AppnsIndex r"
      using s(3) True tables_wf_local [OF Cons.prems(1)] by auto
    note upd = local_update_wf [OF Cons.prems(1) s(2) this]
    show ?thesis
      by (rule that [OF upd(1)]) (use upd(2) s sub True in auto)
  next
    case False
    have g: "is_table (global tb)" "rules_of (global tb) \<subseteq> all_rules tb"
      using Cons.prems(1) by (auto simp: tables_wf_def all_rules_def)
    obtain s b where s: "Insert (global tb) [r] = Some (s, b)" "is_table s" "rules_of s = insert r (rules_of (global tb))"
      using Insert_one [OF g(1), of r] g(2) Cons.prems(3) by (metis list.set_intros(1) subsetD)
    have "tables_wf (tb\<lparr>global := s\<rparr>)" using Cons.prems(1) s False by (auto simp: tables_wf_def)
    moreover have "all_rules (tb\<lparr>global := s\<rparr>) = insert r (all_rules tb)" using s(3) by (auto simp: all_rules_def local_rules_def)
    ultimately show ?thesis using that s(1) False by simp
  qed
  obtain tb' where "dump_tables rs tb1 = Some tb'" "tables_wf tb'" "all_rules tb' = all_rules tb1 \<union> set rs"
    using Cons.IH [OF tb1(1) ud] tb1(2) fresh Cons.prems(3) by auto
  then show ?case using tb1 by auto
qed simp

lemma txn_wf_New: "distinct (map fst (sc_config src)) \<Longrightarrow> txn_wf (session_NewTxn src resync)"
  by (simp add: txn_wf_def session_NewTxn_def NewSessionTables_def)

lemma txn_wf_Update: "txn_wf t \<Longrightarrow> txn_wf (session_Update t ns addr ing eg)"
proof -
  assume "txn_wf t"
  moreover have "fst ` set (AList.update ns c l) = insert ns (fst ` set l)" for c and l :: ns_configs
    by (simp add: dom_update)
  ultimately show ?thesis
    by (auto simp: txn_wf_def session_Update_def distinct_update)
qed

definition apply_updates ::
  "(uint32 \<times> ipnet \<times> contiv_rule list \<times> contiv_rule list) list \<Rightarrow> session_txn \<Rightarrow> session_txn" where
  "apply_updates us t = fold (\<lambda>(ns, addr, ing, eg) t. session_Update t ns addr ing eg) us t"

lemma txn_wf_updates: "txn_wf t \<Longrightarrow> txn_wf (apply_updates us t)"
  unfolding apply_updates_def by (induction us arbitrary: t) (auto intro: txn_wf_Update)

text \<open>The cache over its life: transactions of any updates, each committed.\<close>

inductive session_reach :: "string \<Rightarrow> session_cache \<Rightarrow> bool" for pre where
  init: "session_reach pre (session_Init pre)"
| commit: "session_reach pre src \<Longrightarrow>
    session_Commit src (apply_updates us (session_NewTxn src resync)) = Some src' \<Longrightarrow> session_reach pre src'"

definition cache_wf :: "session_cache \<Rightarrow> bool" where
  "cache_wf src \<longleftrightarrow> distinct (map fst (sc_config src)) \<and> tables_wf (sc_tables src) \<and>
     fst ` set (local (sc_tables src)) = fst ` set (sc_config src) \<and>
     table_of (global (sc_tables src)) (add_rules [] (egress_of (sc_tagPrefix src) (sc_config src))) \<and>
     (\<forall>ns\<in>fst ` set (sc_config src). \<exists>srl. map_of (local (sc_tables src)) ns = Some srl \<and>
        table_of srl (add_rules [] (ingress_of (sc_tagPrefix src) (sc_config src) ns)))"

lemma cache_wf_Init: "cache_wf (session_Init pre)"
  using tables_wf_New table_of_New by (simp add: cache_wf_def session_Init_def NewSessionTables_def egress_of_def)

lemma upToDate_updates: "st_upToDate (apply_updates us (session_NewTxn src resync)) = False"
proof -
  have "\<not> st_upToDate t \<Longrightarrow> \<not> st_upToDate (apply_updates us t)" for t
    unfolding apply_updates_def by (induction us arbitrary: t) (simp_all add: session_Update_def split: prod.split)
  then show ?thesis by (simp add: session_NewTxn_def)
qed

lemma Commit_wf:
  assumes "txn_wf t" "\<not> st_upToDate t"
  shows "\<exists>src'. session_Commit src t = Some src' \<and> cache_wf src' \<and> sc_tagPrefix src' = sc_tagPrefix src"
proof -
  obtain t' where "refreshTables (sc_tagPrefix src) t = Some t'" "txn_wf t'" "tables_wf (st_tables t')"
    "fst ` set (local (st_tables t')) = fst ` set (st_config t)"
    "table_of (global (st_tables t')) (add_rules [] (egress_of (sc_tagPrefix src) (st_config t)))"
    "\<forall>ns\<in>fst ` set (st_config t). \<exists>srl. map_of (local (st_tables t')) ns = Some srl \<and>
       table_of srl (add_rules [] (ingress_of (sc_tagPrefix src) (st_config t) ns))"
    using refreshTables_tables [OF assms(1), of "sc_tagPrefix src"] by (elim exE conjE) (rule that)
  then show ?thesis
    using assms by (simp add: session_Commit_def cache_wf_def txn_wf_def del: split_paired_Ex)
qed

lemma session_reach_wf: "session_reach pre src \<Longrightarrow> cache_wf src \<and> sc_tagPrefix src = pre"
proof (induction rule: session_reach.induct)
  case init
  show ?case using cache_wf_Init by (simp add: session_Init_def)
next
  case (commit src us resync src')
  then have "txn_wf (apply_updates us (session_NewTxn src resync))"
    by (intro txn_wf_updates txn_wf_New) (simp add: cache_wf_def)
  from Commit_wf [OF this, of src] commit show ?case by (auto simp: upToDate_updates)
qed

text \<open>What is installed when \<^verbatim>\<open>Changes\<close> runs: the dump on resync, the cached tables otherwise.\<close>

definition installed :: "session_cache \<Rightarrow> session_rule list \<Rightarrow> bool \<Rightarrow> session_rule set" where
  "installed src dumped resync = (if resync then set dumped else all_rules (sc_tables src))"

lemma Changes_then_Commit:
  assumes src: "cache_wf src" and t: "txn_wf t" "\<not> st_upToDate t" and dumped: "untagged_distinct dumped"
  shows "\<exists>t' a r src'. session_Changes src (Inr dumped) t = Some (t', Inr (map Some a, map Some r)) \<and>
    session_Commit src t' = Some src' \<and> session_Commit src t = Some src' \<and>
    set a = all_rules (sc_tables src') - installed src dumped (st_resync t) \<and>
    set r = installed src dumped (st_resync t) - all_rules (sc_tables src')"
proof -
  obtain t' where t': "refreshTables (sc_tagPrefix src) t = Some t'" "st_config t' = st_config t" "st_resync t' = st_resync t"
    "st_upToDate t'" "tables_wf (st_tables t')"
    using refreshTables_tables [OF t(1), of "sc_tagPrefix src"] by (elim exE conjE) (rule that)
  obtain cur where cur: "tables_wf cur" "all_rules cur = installed src dumped (st_resync t)"
    "\<And>ch. tables_Diff (st_tables t') cur = Some ch \<Longrightarrow> session_Changes src (Inr dumped) t = Some (t', Inr ch)"
  proof (cases "st_resync t")
    case True
    obtain tb where "dump_tables dumped NewSessionTables = Some tb" "tables_wf tb" "all_rules tb = set dumped"
      using dump_tables_rules [OF tables_wf_New dumped] by (auto simp: all_rules_New)
    then show ?thesis using that True t' t by (auto simp: session_Changes_def installed_def)
  next
    case False
    then show ?thesis using that src t' t by (auto simp: session_Changes_def installed_def cache_wf_def)
  qed
  obtain a r where "tables_Diff (st_tables t') cur = Some (map Some a, map Some r)"
    "set a = all_rules (st_tables t') - all_rules cur" "set r = all_rules cur - all_rules (st_tables t')"
    using tables_Diff_sets [OF t'(5) cur(1)] by blast
  then show ?thesis
    using cur t' by (intro exI [of _ t'] exI [of _ a] exI [of _ r]) (simp add: session_Commit_def t(2))
qed

section \<open>Properties\<close>

text \<open>The rule lists are sorted sets. On lists that represent ascending sequences, \<^verbatim>\<open>Insert\<close> never fails, adds exactly the
  rules whose content is not there yet, keeps the sequence ascending and tells whether all rules were new, and
  \<^verbatim>\<open>Diff\<close> returns in order the rules that are only in the first and only in the second list.\<close>

lemma session_lists_refine:
  assumes "list_of srl ys" "list_of srl2 zs"
  shows "(\<exists>srl'. Insert srl rs = Some (srl', all_new ys rs) \<and> list_of srl' (add_rules ys rs)) \<and>
    (\<forall>q. has_rule (add_rules ys rs) q \<longleftrightarrow> has_rule ys q \<or> has_rule rs q) \<and>
    set ys \<subseteq> set (add_rules ys rs) \<and> set (add_rules ys rs) \<subseteq> set ys \<union> set rs \<and>
    Diff srl srl2 = Some (map Some (filter (\<lambda>y. y \<notin> set zs) ys), map Some (filter (\<lambda>z. z \<notin> set ys) zs))"
  using Insert_adds [OF assms(1)] has_rule_add_rules add_rules_bounds Diff_sets [OF assms] by blast

text \<open>C15: whatever transactions were committed, the tables of the cache are well-formed (sorted, without nil entries, local
  rules in the table of their namespace, one local table for each configured namespace) and consist of the
  rules converted from the configuration; and the next transaction, with any updates, commits without a panic.\<close>

theorem session_cache_invariant:
  assumes "session_reach pre src"
  shows "cache_wf src \<and> sc_tagPrefix src = pre \<and>
    (\<exists>src'. session_Commit src (apply_updates us (session_NewTxn src resync)) = Some src' \<and> cache_wf src')"
proof -
  have wf: "cache_wf src" "sc_tagPrefix src = pre" using session_reach_wf [OF assms] by blast+
  then have "txn_wf (apply_updates us (session_NewTxn src resync))"
    by (intro txn_wf_updates txn_wf_New) (simp add: cache_wf_def)
  from Commit_wf [OF this, of src] wf show ?thesis by (auto simp: upToDate_updates)
qed

lemma session_cache_invariant_witness:
  "cache_wf (session_Init ''contiv'') \<and>
   (\<exists>src'. session_Commit (session_Init ''contiv'') (apply_updates [] (session_NewTxn (session_Init ''contiv'') True)) = Some src' \<and> cache_wf src')"
  using session_cache_invariant [OF session_reach.init [of "''contiv''"], of "[]" True] by blast

end
