(* ===== verification/SessionConvert.thy ===== *)
theory SessionConvert
  imports SessionCache
begin

text \<open>
  The conversion of Contiv rules into VPP session rules, \<^verbatim>\<open>convertEgressRules\<close> and \<^verbatim>\<open>convertIngressRules\<close> of
  \<^verbatim>\<open>src/plugins/policy/renderer/vpptcp/cache/cache_impl.go\<close>, against the packets that the rules match.
\<close>

section \<open>Packets matched by session rules\<close>

definition prefix_covers :: "uint8 \<Rightarrow> bytes \<Rightarrow> bytes \<Rightarrow> bool" where
  "prefix_covers plen net a \<longleftrightarrow> take (unat plen) (bits_of net) = take (unat plen) (bits_of a)"

text \<open>In the global table the local endpoint is the destination of the connection, in a local table its source.\<close>

definition global_matches :: "session_rule \<Rightarrow> packet \<Rightarrow> bool" where
  "global_matches r p \<longleftrightarrow> IsIP4 r = 1 \<and> TransportProto r = proto_byte (pkt_proto p) \<and>
     prefix_covers (LclPlen r) (LclIP r) (pkt_dst p) \<and> prefix_covers (RmtPlen r) (RmtIP r) (pkt_src p) \<and>
     port_matches (LclPort r) (pkt_dport p) \<and> port_matches (RmtPort r) (pkt_sport p)"

definition local_matches :: "session_rule \<Rightarrow> packet \<Rightarrow> bool" where
  "local_matches r p \<longleftrightarrow> IsIP4 r = 1 \<and> TransportProto r = proto_byte (pkt_proto p) \<and>
     prefix_covers (LclPlen r) (LclIP r) (pkt_src p) \<and> prefix_covers (RmtPlen r) (RmtIP r) (pkt_dst p) \<and>
     port_matches (LclPort r) (pkt_sport p) \<and> port_matches (RmtPort r) (pkt_dport p)"

definition ip4_packet :: "packet \<Rightarrow> bool" where
  "ip4_packet p \<longleftrightarrow> length (pkt_src p) = 4 \<and> length (pkt_dst p) = 4"

definition ip4_net :: "ipnet \<Rightarrow> bool" where
  "ip4_net n \<longleftrightarrow> net_ok n \<and> length (IP n) = 4"

lemma proto_byte_inject: "proto_byte a = proto_byte b \<longleftrightarrow> a = b"
  by (cases a; cases b) (simp_all add: proto_byte_def RuleProtoTCP_def RuleProtoUDP_def)

lemma first_bit: "a \<noteq> [] \<Longrightarrow> take (Suc 0) (bits_of a) = [bit (a ! 0) 7]"
  by (cases a) (simp_all add: byte_bits_def)

lemma halves:
  assumes "a \<noteq> []"
  shows "prefix_covers 1 (replicate 16 0) a \<longleftrightarrow> \<not> bit (a ! 0) 7"
    and "prefix_covers 1 ((replicate 16 0)[0 := 128]) a \<longleftrightarrow> bit (a ! 0) 7"
proof -
  have "bit (128 :: byte) 7" by simp
  then show "prefix_covers 1 (replicate 16 0) a \<longleftrightarrow> \<not> bit (a ! 0) 7"
    "prefix_covers 1 ((replicate 16 0)[0 := 128]) a \<longleftrightarrow> bit (a ! 0) 7"
    using assms by (simp_all add: prefix_covers_def first_bit del: bit_numeral_word_iff)
qed

lemma halves_differ: "replicate 16 0 \<noteq> (replicate 16 0 :: bytes)[0 := 128]"
proof
  assume "replicate 16 0 = (replicate 16 0 :: bytes)[0 := 128]"
  then have "(replicate 16 0 :: bytes) ! 0 = (replicate 16 0)[0 := 128] ! 0" by (rule arg_cong)
  then show False by simp
qed

lemma To4_4: "length a = 4 \<Longrightarrow> To4 a = Some a"
  by (simp add: To4_def)

lemma addr_array_4: "length a = 4 \<Longrightarrow> addr_array True a = a @ replicate 12 0"
  by (simp add: addr_array_def To4_4 array_copy_def)

lemma net_covers:
  assumes "ip4_net n" "length a = 4"
  shows "prefix_covers (of_nat (fst (mask_size (Mask n)))) (addr_array True (IP n)) a \<longleftrightarrow> contains n a"
proof -
  have n: "net_ok n" "length (IP n) = 4" "prefix_len n \<le> 32" using assms(1) by (auto simp: ip4_net_def net_ok_def)
  have u: "unat (of_nat (prefix_len n) :: uint8) = prefix_len n"
    using n(3) by (simp add: unat_of_nat)
  have "norm_ip a = a" using assms(2) by (simp add: norm_ip_def To4_4)
  then show ?thesis
    using n u assms(2) by (auto simp: prefix_covers_def contains_iff_prefix addr_array_4 bits_of_append prefix_len_def [symmetric])
qed

lemma covers_zero [simp]: "prefix_covers 0 net a"
  by (simp add: prefix_covers_def)
section \<open>Egress rules\<close>

text \<open>The rule is for any packet and permits it: no session rule is generated.\<close>

definition skipped :: "ipnet \<Rightarrow> 's contiv_rule_of \<Rightarrow> bool" where
  "skipped n r \<longleftrightarrow> length (IP n) = 0 \<and> DestPort r = 0 \<and> Action r = ActionPermit"

lemma egress_rule_fields:
  assumes "ip4_net addr" "IP (SrcNetwork rule) = [] \<or> ip4_net (SrcNetwork rule)"
  shows "IsIP4 (egress_rule ns addr rule) = 1" "TransportProto (egress_rule ns addr rule) = proto_byte (Protocol rule)"
    "LclIP (egress_rule ns addr rule) = addr_array True (IP addr)" "LclPlen (egress_rule ns addr rule) = of_nat (fst (mask_size (Mask addr)))"
    "LclPort (egress_rule ns addr rule) = DestPort rule" "RmtPort (egress_rule ns addr rule) = SrcPort rule"
    "ActionIndex (egress_rule ns addr rule) = action_index (Action rule)"
    "RmtIP (egress_rule ns addr rule) = (if IP (SrcNetwork rule) = [] then replicate 16 0 else addr_array True (IP (SrcNetwork rule)))"
    "RmtPlen (egress_rule ns addr rule) = (if IP (SrcNetwork rule) = [] then 0 else of_nat (fst (mask_size (Mask (SrcNetwork rule)))))"
  using assms by (auto simp: egress_rule_def Let_def ip4_net_def To4_4)

lemma card_one_of_two: "x \<noteq> y \<Longrightarrow> P x \<longleftrightarrow> Q \<and> \<not> b \<Longrightarrow> P y \<longleftrightarrow> Q \<and> b \<Longrightarrow> card {r \<in> {x, y}. P r} = (if Q then 1 else 0)"
  by (cases Q; cases b) (auto simp: conj_disj_distribR Collect_disj_eq Collect_conv_if)


section \<open>Ingress rules\<close>

lemma ingress_rule_fields:
  assumes "IP (DestNetwork rule) = [] \<or> ip4_net (DestNetwork rule)"
  shows "IsIP4 (ingress_rule ns rule) = (if IP (DestNetwork rule) = [] then 0 else 1)"
    "TransportProto (ingress_rule ns rule) = proto_byte (Protocol rule)" "LclPlen (ingress_rule ns rule) = 0"
    "LclPort (ingress_rule ns rule) = SrcPort rule" "RmtPort (ingress_rule ns rule) = DestPort rule"
    "ActionIndex (ingress_rule ns rule) = action_index (Action rule)"
    "RmtIP (ingress_rule ns rule) = (if IP (DestNetwork rule) = [] then replicate 16 0 else addr_array True (IP (DestNetwork rule)))"
    "RmtPlen (ingress_rule ns rule) = (if IP (DestNetwork rule) = [] then 0 else of_nat (fst (mask_size (Mask (DestNetwork rule)))))"
  using assms by (auto simp: ingress_rule_def Let_def ip4_net_def To4_4 new_SessionRule_def)

text \<open>What an ingress rule says of a packet sent by the pod.\<close>

definition sent_matches :: "'s contiv_rule_of \<Rightarrow> packet \<Rightarrow> bool" where
  "sent_matches r p \<longleftrightarrow> net_matches (DestNetwork r) (pkt_dst p) \<and> Protocol r = pkt_proto p \<and>
     port_matches (SrcPort r) (pkt_sport p) \<and> port_matches (DestPort r) (pkt_dport p)"


section \<open>Tags\<close>

lemma unat_less_256: "unat (b :: byte) < 256"
  using unsigned_less [of b, where 'a = nat] by simp

lemma of_char_zero: "(of_char c :: byte) = 0 \<longleftrightarrow> c = CHR 0x00"
proof -
  have "unat (of_char c :: byte) = of_char c"
    using unat_of_nat [of "of_char c :: nat", where 'a = 8] nat_of_char_less_256 [of c] by (simp add: of_nat_of_char)
  then have "(of_char c :: byte) = 0 \<longleftrightarrow> (of_char c :: nat) = 0"
    using unat_eq_zero [of "of_char c :: byte"] by simp
  also have "\<dots> \<longleftrightarrow> (of_char c :: nat) = of_char (CHR 0x00)" by simp
  finally show ?thesis by (simp only: of_char_eq_iff)
qed

lemma char_of_nonzero: "0 < n \<Longrightarrow> n < 256 \<Longrightarrow> char_of (n :: nat) \<noteq> CHR 0x00"
proof
  assume n: "0 < n" "n < 256" and "char_of n = CHR 0x00"
  then have "(of_char (char_of n) :: nat) = of_char (CHR 0x00)" by (simp only:)
  with n show False by (simp add: of_char_of)
qed

lemma lower_hex_nonzero: "d < 16 \<Longrightarrow> lower_hex d \<noteq> CHR 0x00"
  by (simp add: lower_hex_def digit_char_def char_of_nonzero)

lemma getMD5Hash_nonzero: "CHR 0x00 \<notin> set (getMD5Hash s)"
proof -
  have "lower_hex (unat b div 16) \<noteq> CHR 0x00" "lower_hex (unat b mod 16) \<noteq> CHR 0x00" for b :: byte
    using unat_less_256 [of b] by (intro lower_hex_nonzero; simp add: less_mult_imp_div_less)+
  then have "\<forall>b\<in>set bs. CHR 0x00 \<notin> set [lower_hex (unat b div 16), lower_hex (unat b mod 16)]" for bs :: bytes
    by (simp add: eq_commute [of "CHR 0x00"])
  then show ?thesis
    unfolding getMD5Hash_def hex_EncodeToString_def set_concat set_map UN_iff by blast
qed

lemma tag_string_bytes:
  assumes "length s < 64" "CHR 0x00 \<notin> set s"
  shows "tag_string (tag_bytes s) = Some (map of_char s)"
proof -
  have z: "\<forall>b\<in>set (map of_char s). (b :: byte) \<noteq> 0"
    using assms(2) by (auto simp: of_char_zero)
  have t: "tag_bytes s = map of_char s @ 0 # replicate (63 - length s) 0"
    using assms(1) by (simp add: tag_bytes_def array_copy_def Suc_diff_Suc flip: replicate_Suc)
  have "takeWhile (\<lambda>b. b \<noteq> 0) (tag_bytes s) = map of_char s"
    unfolding t using z by (subst takeWhile_append2) auto
  then show ?thesis by (simp add: tag_string_def t)
qed

lemma tag_of_egress: "r \<in> set (convertEgressRules ns addr egress pre) \<Longrightarrow> \<exists>s. Tag r = tag_bytes (pre @ getMD5Hash s)"
  by (auto simp: convertEgressRules_def convertEgressRule_def Let_def split: if_splits)

lemma tag_of_ingress: "r \<in> set (convertIngressRules ns ingress pre) \<Longrightarrow> \<exists>s. Tag r = tag_bytes (pre @ getMD5Hash s)"
  by (auto simp: convertIngressRules_def convertIngressRule_def Let_def split: if_splits)

lemma tag_read:
  assumes "length pre \<le> 31" "CHR 0x00 \<notin> set pre"
  shows "length (tag_bytes (pre @ getMD5Hash s)) = 64 \<and>
      tag_string (tag_bytes (pre @ getMD5Hash s)) = Some (map of_char (pre @ getMD5Hash s))"
  using assms getMD5Hash_nonzero [of s] by (intro conjI tag_string_bytes) (auto simp: tag_bytes_def array_copy_def)

text \<open>C35: with a prefix of at most 31 characters and no NUL character in it, the tag of every generated session rule
  fits its array of 64 bytes with a terminating zero and reads back as the prefix followed by a digest of 32
  characters, so that printing a rule never fails and a dump recognises the rules of the renderer.\<close>

theorem tags_readable:
  assumes "length pre \<le> 31" "CHR 0x00 \<notin> set pre"
  shows "r \<in> set (convertEgressRules ns addr egress pre) \<union> set (convertIngressRules ns (ingress :: 's contiv_rule_of list) pre) \<Longrightarrow>
    length (Tag r) = 64 \<and> (\<exists>s. tag_string (Tag r) = Some (map of_char (pre @ getMD5Hash s)))"
  using tag_of_egress [of r ns addr egress pre] tag_of_ingress [of r ns ingress pre] tag_read [OF assms] by (metis UnE)

section \<open>An example\<close>

definition ex_addr :: ipnet where
  "ex_addr = \<lparr>IP = [10, 1, 1, 1], Mask = [0xff, 0xff, 0xff, 0xff]\<rparr>"

definition ex_deny :: contiv_rule where
  "ex_deny = \<lparr>ID = ''deny'', Action = ActionDeny, SrcNetwork = empty_net, DestNetwork = empty_net,
     Protocol = TCP, SrcPort = 0, DestPort = 0\<rparr>"

definition ex_packet :: packet where
  "ex_packet = \<lparr>pkt_src = [10, 1, 1, 9], pkt_dst = [10, 1, 1, 1], pkt_proto = TCP, pkt_sport = 4000, pkt_dport = 80\<rparr>"

lemmas ex_eval = ex_addr_def ex_deny_def ex_packet_def empty_net_def ip4_packet_def skipped_def

lemma ex_addr_ok: "ip4_net ex_addr"
  by (simp add: ip4_net_def net_ok_def ex_addr_def prefix_len_def ip_and_def go_eval)

lemma ex_matches: "contains ex_addr (pkt_dst ex_packet)" "rule_matches ex_deny ex_packet" "sent_matches ex_deny ex_packet"
  by (simp_all add: ex_eval rule_matches_def sent_matches_def net_matches_def port_matches_def go_eval)



lemma tags_readable_witness:
  "list_all (\<lambda>r. length (Tag r) = 64 \<and> tag_string (Tag r) \<noteq> None) (convertEgressRules 1 ex_addr [ex_deny] ''contiv/vpp-policy-'')"
  unfolding list_all_iff
proof
  fix r assume "r \<in> set (convertEgressRules 1 ex_addr [ex_deny] ''contiv/vpp-policy-'')"
  then show "length (Tag r) = 64 \<and> tag_string (Tag r) \<noteq> None"
    using tags_readable [of "''contiv/vpp-policy-''" r 1 ex_addr "[ex_deny]" "[] :: contiv_rule list"] by auto
qed

end
