(* ===== verification/VpptcpRenderer.thy ===== *)
theory VpptcpRenderer
  imports SessionTables SessionConvert KsrModel
begin

text \<open>
  The VPPTCP renderer, \<^verbatim>\<open>src/plugins/policy/renderer/vpptcp/vpptcp_renderer.go\<close>: the dump of the installed
  session rules, the requests sent to VPP in batches, and transactions of the renderer over the cache of
  session rules. VPP is a parameter: a function from its state and a request to its next state and a reply.
\<close>

section \<open>Dump of the installed rules\<close>

definition SessionRuleTagPrefix :: string where
  "SessionRuleTagPrefix = ''contiv/vpp-policy-''"

text \<open>The details sent by VPP have slices for the addresses and the tag.\<close>

definition details_rule :: "session_rule \<Rightarrow> session_rule" where
  "details_rule msg = new_SessionRule \<lparr>
     TransportProto := TransportProto msg,
     IsIP4 := IsIP4 msg,
     LclPlen := LclPlen msg,
     RmtPlen := RmtPlen msg,
     LclPort := LclPort msg,
     RmtPort := RmtPort msg,
     ActionIndex := ActionIndex msg,
     AppnsIndex := AppnsIndex msg,
     Scope := Scope msg,
     LclIP := array_copy (replicate 16 0) (LclIP msg),
     RmtIP := array_copy (replicate 16 0) (RmtIP msg),
     Tag := array_copy (replicate 64 0) (Tag msg)\<rparr>"

text \<open>The replies to the dump: an error or the details of a rule; the end of the list is the stop mark. A tag without
  a zero byte makes the slice expression panic.\<close>

fun dumpRules_loop :: "(string + session_rule) list \<Rightarrow> session_rule list \<Rightarrow> (session_rule list \<times> string option) option" where
  "dumpRules_loop [] rules = Some (rules, None)"
| "dumpRules_loop (Inl err # replies) rules = Some (rules, Some err)"
| "dumpRules_loop (Inr msg # replies) rules =
     (case tag_string (Tag msg) of
        None \<Rightarrow> None
      | Some tag \<Rightarrow>
          if take (length SessionRuleTagPrefix) tag \<noteq> map of_char SessionRuleTagPrefix then dumpRules_loop replies rules
          else dumpRules_loop replies (rules @ [details_rule msg]))"

definition dumpRules :: "(string + session_rule) list \<Rightarrow> (session_rule list \<times> string option) option" where
  "dumpRules replies = dumpRules_loop replies []"

section \<open>Requests\<close>

record add_del_msg = session_rule +
  IsAdd :: uint8

definition makeSessionRuleAddDelReq :: "session_rule \<Rightarrow> bool \<Rightarrow> add_del_msg" where
  "makeSessionRuleAddDelReq rule add =
     (let isAdd = (if add then 1 else 0) in
      \<lparr>TransportProto = TransportProto rule, IsIP4 = IsIP4 rule, LclIP = LclIP rule, LclPlen = LclPlen rule,
       RmtIP = RmtIP rule, RmtPlen = RmtPlen rule, LclPort = LclPort rule, RmtPort = RmtPort rule,
       ActionIndex = ActionIndex rule, AppnsIndex = AppnsIndex rule, Scope = Scope rule, Tag = Tag rule,
       IsAdd = isAdd\<rparr>)"

text \<open>A reply: an error of the channel, data that does not decode, or a return value.\<close>

datatype reply = ReplyError string | ReplyUndecodable string | ReplyRetval int

definition updateErrMsg :: string where
  "updateErrMsg = ''failed to update VPPTCP session rule''"

definition reply_error :: "reply \<Rightarrow> string option" where
  "reply_error reply =
     (case reply of
        ReplyError err \<Rightarrow> Some err
      | ReplyUndecodable err \<Rightarrow> Some err
      | ReplyRetval n \<Rightarrow> if n \<noteq> 0 then Some updateErrMsg else None)"

type_synonym 'v vpp = "'v \<Rightarrow> add_del_msg \<Rightarrow> 'v \<times> reply"

text \<open>The state of VPP and the replies waiting in \<^verbatim>\<open>ReplyChan\<close>.\<close>

type_synonym 'v vpp_chan = "'v \<times> reply list"

fun send_req :: "'v vpp \<Rightarrow> add_del_msg \<Rightarrow> 'v vpp_chan \<Rightarrow> 'v vpp_chan" where
  "send_req vpp req (v, queue) = (case vpp v req of (v', reply) \<Rightarrow> (v', queue @ [reply]))"

text \<open>Wait for \<^verbatim>\<open>j\<close> replies, up to the first error. Waiting on an empty channel does not end.\<close>

fun receive_replies :: "nat \<Rightarrow> reply list \<Rightarrow> (reply list \<times> string option) option" where
  "receive_replies 0 queue = Some (queue, None)"
| "receive_replies (Suc j) [] = None"
| "receive_replies (Suc j) (reply # queue) =
     (case reply_error reply of
        Some err \<Rightarrow> Some (queue, Some err)
      | None \<Rightarrow> receive_replies j queue)"

text \<open>The loop over batches of at most \<^verbatim>\<open>chanBufSize\<close> requests. With a negative size no request is ever sent and
  the loop does not end.\<close>

partial_function (option) update_loop ::
  "'v vpp \<Rightarrow> int \<Rightarrow> add_del_msg list \<Rightarrow> nat \<Rightarrow> 'v vpp_chan \<Rightarrow> ('v vpp_chan \<times> string option) option" where
  "update_loop vpp chanBufSize requests i ch =
     (if i < length requests then
        let batch = take (nat chanBufSize) (drop i requests);
            ch' = fold (send_req vpp) batch ch
        in (case receive_replies (length batch) (snd ch') of
              None \<Rightarrow> None
            | Some (queue, Some err) \<Rightarrow> Some ((fst ch', queue), Some err)
            | Some (queue, None) \<Rightarrow> update_loop vpp chanBufSize requests (i + length batch) (fst ch', queue))
      else Some (ch, None))"

text \<open>The requests; a nil rule is dereferenced.\<close>

definition make_requests :: "session_rule option list \<Rightarrow> session_rule option list \<Rightarrow> add_del_msg list option" where
  "make_requests add remove =
     (if None \<in> set remove \<or> None \<in> set add then None
      else Some (map (\<lambda>r. makeSessionRuleAddDelReq (the r) False) remove @
                 map (\<lambda>r. makeSessionRuleAddDelReq (the r) True) add))"

definition updateRules ::
  "'v vpp \<Rightarrow> int \<Rightarrow> session_rule option list \<Rightarrow> session_rule option list \<Rightarrow> 'v vpp_chan \<Rightarrow> ('v vpp_chan \<times> string option) option" where
  "updateRules vpp goVPPChanBufSize add remove ch =
     (case make_requests add remove of
        None \<Rightarrow> None
      | Some requests \<Rightarrow>
          let chanBufSize = (if goVPPChanBufSize \<noteq> 0 then goVPPChanBufSize else 100)
          in update_loop vpp chanBufSize requests 0 ch)"

section \<open>Transactions of the renderer\<close>

definition vpptcp_Init :: session_cache where
  "vpptcp_Init = session_Init SessionRuleTagPrefix"

record vpptcp_txn =
  cacheTxn :: session_txn
  vt_resync :: bool

definition vpptcp_NewTxn :: "session_cache \<Rightarrow> bool \<Rightarrow> vpptcp_txn" where
  "vpptcp_NewTxn cache resync = \<lparr>cacheTxn = session_NewTxn cache resync, vt_resync = resync\<rparr>"

text \<open>\<^verbatim>\<open>GetNsIndex\<close> of the Contiv plugin is the parameter \<^verbatim>\<open>nsIndexOf\<close>.\<close>

definition vpptcp_Render ::
  "(string \<Rightarrow> string \<Rightarrow> uint32 option) \<Rightarrow> vpptcp_txn \<Rightarrow> pod_id \<Rightarrow> ipnet \<Rightarrow> contiv_rule list \<Rightarrow> contiv_rule list \<Rightarrow> vpptcp_txn" where
  "vpptcp_Render nsIndexOf art pod podIP ingress egress =
     (case nsIndexOf (Namespace pod) (Name pod) of
        None \<Rightarrow> art
      | Some nsIndex \<Rightarrow> art\<lparr>cacheTxn := session_Update (cacheTxn art) nsIndex podIP ingress egress\<rparr>)"

text \<open>The callback of the cache: the dump gives the rules or an error.\<close>

definition dump_result :: "(session_rule list \<times> string option) \<Rightarrow> string + session_rule list" where
  "dump_result d = (case snd d of None \<Rightarrow> Inr (fst d) | Some err \<Rightarrow> Inl err)"

text \<open>\<^verbatim>\<open>Changes\<close> of the cache with this callback, which runs on resync only.\<close>

definition vpptcp_Changes ::
  "(string + session_rule) list \<Rightarrow> session_cache \<Rightarrow> vpptcp_txn \<Rightarrow>
   (session_txn \<times> (string + session_rule option list \<times> session_rule option list)) option" where
  "vpptcp_Changes replies cache art =
     (case (if st_resync (cacheTxn art) then dumpRules replies else Some ([], None)) of
        None \<Rightarrow> None
      | Some d \<Rightarrow> session_Changes cache (dump_result d) (cacheTxn art))"

definition vpptcp_Commit ::
  "'v vpp \<Rightarrow> int \<Rightarrow> (string + session_rule) list \<Rightarrow> session_cache \<Rightarrow> vpptcp_txn \<Rightarrow> 'v vpp_chan \<Rightarrow>
   (session_cache \<times> 'v vpp_chan \<times> string option) option" where
  "vpptcp_Commit vpp goVPPChanBufSize replies cache art ch =
     (case vpptcp_Changes replies cache art of
        None \<Rightarrow> None
      | Some (txn, Inl err) \<Rightarrow> Some (cache, ch, Some err)
      | Some (txn, Inr (added, removed)) \<Rightarrow>
          (if length added = 0 \<and> length removed = 0 then
             map_option (\<lambda>cache'. (cache', ch, None)) (session_Commit cache txn)
           else
             (case updateRules vpp goVPPChanBufSize added removed ch of
                None \<Rightarrow> None
              | Some (ch', Some err) \<Rightarrow> Some (cache, ch', Some err)
              | Some (ch', None) \<Rightarrow> map_option (\<lambda>cache'. (cache', ch', None)) (session_Commit cache txn))))"
section \<open>Batches\<close>

fun vpp_run :: "'v vpp \<Rightarrow> add_del_msg list \<Rightarrow> 'v \<Rightarrow> 'v \<times> reply list" where
  "vpp_run vpp [] v = (v, [])"
| "vpp_run vpp (req # reqs) v =
     (let (v', reply) = vpp v req; (v'', replies) = vpp_run vpp reqs v' in (v'', reply # replies))"

lemma send_all: "fold (send_req vpp) batch (v, queue) = (fst (vpp_run vpp batch v), queue @ snd (vpp_run vpp batch v))"
  by (induction batch arbitrary: v queue) (auto simp: Let_def split: prod.split)

lemma length_vpp_run: "length (snd (vpp_run vpp batch v)) = length batch"
  by (induction batch arbitrary: v) (simp_all add: Let_def split_beta)

lemma vpp_run_append:
  "vpp_run vpp (a @ b) v = (fst (vpp_run vpp b (fst (vpp_run vpp a v))), snd (vpp_run vpp a v) @ snd (vpp_run vpp b (fst (vpp_run vpp a v))))"
  by (induction a arbitrary: v) (auto simp: Let_def split: prod.split)

lemma receive_returns: "k \<le> length queue \<Longrightarrow> \<exists>res. receive_replies k queue = Some res \<and> length (fst res) + k \<ge> length queue"
proof (induction k queue rule: receive_replies.induct)
  case (3 j reply queue)
  then show ?case by (cases "reply_error reply") (auto intro: le_SucI)
qed auto

lemma receive_ok: "\<forall>reply\<in>set queue. reply_error reply = None \<Longrightarrow> receive_replies (length queue) (queue @ rest) = Some (rest, None)"
  by (induction queue) auto

lemma update_loop_returns:
  assumes "chanBufSize > 0"
  shows "\<exists>res. update_loop vpp chanBufSize requests i ch = Some res"
proof (induction "length requests - i" arbitrary: i ch rule: less_induct)
  case less
  show ?case
  proof (cases "i < length requests")
    case True
    let ?batch = "take (nat chanBufSize) (drop i requests)"
    let ?ch = "fold (send_req vpp) ?batch ch"
    have len: "length ?batch > 0" using True assms by simp
    have "length ?batch \<le> length (snd ?ch)"
      by (cases ch) (simp only: send_all length_vpp_run snd_conv length_append)
    then obtain queue err where r: "receive_replies (length ?batch) (snd ?ch) = Some (queue, err)"
      using receive_returns by fastforce
    show ?thesis
      using less [of "i + length ?batch" "(fst ?ch, queue)"] True len r
      by (cases err) (simp_all only: update_loop.simps [of vpp chanBufSize requests i] if_True Let_def option.case prod.case, auto)
  qed (simp add: update_loop.simps)
qed

lemma update_loop_ok:
  assumes "chanBufSize > 0" "\<forall>reply\<in>set (snd (vpp_run vpp (drop i requests) v)). reply_error reply = None"
  shows "update_loop vpp chanBufSize requests i (v, []) = Some ((fst (vpp_run vpp (drop i requests) v), []), None)"
  using assms(2)
proof (induction "length requests - i" arbitrary: i v rule: less_induct)
  case less
  show ?case
  proof (cases "i < length requests")
    case True
    let ?batch = "take (nat chanBufSize) (drop i requests)" and ?rest = "drop (nat chanBufSize) (drop i requests)"
    have len: "length ?batch > 0" using True assms by simp
    have split: "drop i requests = ?batch @ ?rest" by (rule append_take_drop_id [symmetric])
    have drop: "drop (i + length ?batch) requests = ?rest"
      by (simp add: add.commute min_def)
    let ?v = "fst (vpp_run vpp ?batch v)"
    have run: "vpp_run vpp (drop i requests) v = (fst (vpp_run vpp ?rest ?v), snd (vpp_run vpp ?batch v) @ snd (vpp_run vpp ?rest ?v))"
      using vpp_run_append [of vpp ?batch ?rest v] by (simp only: split [symmetric])
    have r: "receive_replies (length ?batch) (snd (vpp_run vpp ?batch v)) = Some ([], None)"
      using receive_ok [of "snd (vpp_run vpp ?batch v)" "[]"] less.prems run by (auto simp: length_vpp_run)
    have "update_loop vpp chanBufSize requests (i + length ?batch) (?v, []) = Some ((fst (vpp_run vpp ?rest ?v), []), None)"
      using less.hyps [of "i + length ?batch" ?v] less.prems True len run unfolding drop by auto
    then show ?thesis
      using True r run by (simp add: update_loop.simps [of vpp chanBufSize requests i] Let_def send_all)
  qed (simp add: update_loop.simps)
qed

section \<open>Rules of the renderer\<close>

text \<open>A rule with the tag of this renderer.\<close>

definition own_rule :: "session_rule \<Rightarrow> bool" where
  "own_rule r \<longleftrightarrow> (\<exists>tag. tag_string (Tag r) = Some tag \<and>
     take (length SessionRuleTagPrefix) tag = map of_char SessionRuleTagPrefix)"

definition sized_rule :: "session_rule \<Rightarrow> bool" where
  "sized_rule r \<longleftrightarrow> length (LclIP r) = 16 \<and> length (RmtIP r) = 16 \<and> length (Tag r) = 64 \<and> 0 \<in> set (Tag r)"

lemma details_sized: "sized_rule r \<Longrightarrow> details_rule r = r"
  by (cases r) (simp add: sized_rule_def details_rule_def new_SessionRule_def array_copy_def)

lemma dumpRules_own:
  assumes "\<forall>r\<in>set rs. sized_rule r"
  shows "dumpRules (map Inr rs) = Some (filter own_rule rs, None)"
proof -
  have "dumpRules_loop (map Inr rs) acc = Some (acc @ filter own_rule rs, None)" for acc
    using assms
  proof (induction rs arbitrary: acc)
    case (Cons r rs)
    then have "tag_string (Tag r) \<noteq> None" by (simp add: sized_rule_def tag_string_def)
    with Cons show ?case by (auto simp: own_rule_def details_sized)
  qed simp
  then show ?thesis by (simp add: dumpRules_def)
qed

lemma own_tag: "Tag r = tag_bytes (SessionRuleTagPrefix @ getMD5Hash s) \<Longrightarrow> own_rule r"
  using tag_read [of SessionRuleTagPrefix s] by (simp add: own_rule_def SessionRuleTagPrefix_def)

lemma egress_of_own: "r \<in> set (egress_of SessionRuleTagPrefix config) \<Longrightarrow> own_rule r"
  using tag_of_egress own_tag by (fastforce simp: egress_of_def)

lemma ingress_of_own: "r \<in> set (ingress_of SessionRuleTagPrefix config ns) \<Longrightarrow> own_rule r"
  using tag_of_ingress own_tag by (fastforce simp: ingress_of_def split: option.splits)

lemma cache_rules_own:
  assumes "cache_wf cache" "sc_tagPrefix cache = SessionRuleTagPrefix" "r \<in> all_rules (sc_tables cache)"
  shows "own_rule r"
proof -
  let ?t = "sc_tables cache" and ?c = "sc_config cache"
  from assms(3) consider "r \<in> rules_of (global ?t)" | ns where "r \<in> local_rules ?t ns"
    by (auto simp: all_rules_def)
  then show ?thesis
  proof cases
    case 1
    have "rules_of (global ?t) \<subseteq> set (egress_of SessionRuleTagPrefix ?c)"
      using assms(1,2) is_table_add_rules [of "global ?t" "egress_of SessionRuleTagPrefix ?c"] by (simp add: cache_wf_def)
    with 1 egress_of_own show ?thesis by blast
  next
    case (2 ns)
    then obtain srl where srl: "map_of (local ?t) ns = Some srl" "r \<in> rules_of srl"
      by (auto simp: local_rules_def split: option.splits)
    have "ns \<in> fst ` set (local ?t)"
      using srl(1) map_of_eq_None_iff [of "local ?t" ns] by simp
    then have "ns \<in> fst ` set ?c"
      using assms(1) by (simp add: cache_wf_def)
    then obtain srl2 where "map_of (local ?t) ns = Some srl2" "table_of srl2 (add_rules [] (ingress_of SessionRuleTagPrefix ?c ns))"
      using assms(1,2) unfolding cache_wf_def by metis
    with srl have "r \<in> set (ingress_of SessionRuleTagPrefix ?c ns)"
      using is_table_add_rules [of srl2] by auto
    then show ?thesis by (rule ingress_of_own)
  qed
qed

section \<open>What a transaction installs\<close>

text \<open>VPP accepts the requests; \<^verbatim>\<open>rules\<close> reads the session rules of all tables from its state.\<close>

definition vpp_accepts :: "'v vpp \<Rightarrow> ('v \<Rightarrow> session_rule set) \<Rightarrow> bool" where
  "vpp_accepts vpp rules \<longleftrightarrow>
     (\<forall>v r. snd (vpp v (makeSessionRuleAddDelReq r True)) = ReplyRetval 0 \<and>
            snd (vpp v (makeSessionRuleAddDelReq r False)) = ReplyRetval 0 \<and>
            rules (fst (vpp v (makeSessionRuleAddDelReq r True))) = insert r (rules v) \<and>
            rules (fst (vpp v (makeSessionRuleAddDelReq r False))) = rules v - {r})"

lemma vpp_run_requests:
  assumes "vpp_accepts vpp rules"
  shows "(\<forall>reply\<in>set (snd (vpp_run vpp (map (\<lambda>r. makeSessionRuleAddDelReq r b) rs) v)). reply_error reply = None) \<and>
    rules (fst (vpp_run vpp (map (\<lambda>r. makeSessionRuleAddDelReq r b) rs) v)) = (if b then rules v \<union> set rs else rules v - set rs)"
proof (induction rs arbitrary: v)
  case (Cons r rs)
  have "snd (vpp v (makeSessionRuleAddDelReq r b)) = ReplyRetval 0"
    "rules (fst (vpp v (makeSessionRuleAddDelReq r b))) = (if b then insert r (rules v) else rules v - {r})"
    using assms by (cases b; simp add: vpp_accepts_def)+
  then show ?case
    using Cons.IH [of "fst (vpp v (makeSessionRuleAddDelReq r b))"] by (auto simp: Let_def split_beta reply_error_def)
qed simp

lemma updateRules_ok:
  assumes "vpp_accepts vpp rules" "buf \<ge> 0"
  shows "\<exists>v'. updateRules vpp buf (map Some a) (map Some d) (v, []) = Some ((v', []), None) \<and> rules v' = rules v - set d \<union> set a"
proof -
  let ?d = "map (\<lambda>r. makeSessionRuleAddDelReq r False) d" and ?a = "map (\<lambda>r. makeSessionRuleAddDelReq r True) a"
  have req: "make_requests (map Some a) (map Some d) = Some (?d @ ?a)"
    by (simp add: make_requests_def)
  note run = vpp_run_append [of vpp ?d ?a v] vpp_run_requests [OF assms(1), of False d v]
    vpp_run_requests [OF assms(1), of True a "fst (vpp_run vpp ?d v)"]
  have "update_loop vpp b (?d @ ?a) 0 (v, []) = Some ((fst (vpp_run vpp (?d @ ?a) v), []), None)" if "b > 0" for b
    by (rule update_loop_ok [OF that, where i = 0, unfolded drop_0]) (use run in auto)
  moreover have "rules (fst (vpp_run vpp (?d @ ?a) v)) = rules v - set d \<union> set a" using run by simp
  ultimately show ?thesis
    using assms(2) by (simp add: updateRules_def req Let_def)
qed

text \<open>Transactions of the renderer: a new one, with any number of pods rendered.\<close>

inductive vpptcp_open :: "session_cache \<Rightarrow> bool \<Rightarrow> vpptcp_txn \<Rightarrow> bool" for cache resync where
  new: "vpptcp_open cache resync (vpptcp_NewTxn cache resync)"
| render: "vpptcp_open cache resync art \<Longrightarrow> vpptcp_open cache resync (vpptcp_Render nsIndexOf art pod podIP ingress egress)"

lemma apply_updates_snoc: "apply_updates (us @ [(ns, addr, ing, eg)]) t = session_Update (apply_updates us t) ns addr ing eg"
  by (simp add: apply_updates_def)

lemma vpptcp_open_updates:
  "vpptcp_open cache resync art \<Longrightarrow> \<exists>us. cacheTxn art = apply_updates us (session_NewTxn cache resync)"
proof (induction rule: vpptcp_open.induct)
  case new
  show ?case by (rule exI [of _ "[]"]) (simp add: vpptcp_NewTxn_def apply_updates_def)
next
  case (render art nsIndexOf pod podIP ingress egress)
  then obtain us where "cacheTxn art = apply_updates us (session_NewTxn cache resync)" by blast
  then show ?case
    using apply_updates_snoc [of us _ podIP ingress egress "session_NewTxn cache resync"]
    by (cases "nsIndexOf (Namespace pod) (Name pod)") (auto simp: vpptcp_Render_def intro: sym)
qed

lemma resync_updates: "st_resync (apply_updates us t) = st_resync t"
  unfolding apply_updates_def by (induction us arbitrary: t) (simp_all add: session_Update_def split: prod.split)

text \<open>What the transaction finds in VPP: without resync the rules of the cache, with resync the dumped rules. In both
  cases rules that others installed may be there as well.\<close>

definition vpp_in_sync :: "session_cache \<Rightarrow> bool \<Rightarrow> session_rule list \<Rightarrow> session_rule set \<Rightarrow> bool" where
  "vpp_in_sync cache resync dumped rs \<longleftrightarrow>
     (if resync then set dumped = rs \<and> (\<forall>r\<in>rs. sized_rule r) \<and> untagged_distinct dumped
      else {r \<in> rs. own_rule r} = all_rules (sc_tables cache))"

lemma untagged_distinct_filter: "untagged_distinct rs \<Longrightarrow> untagged_distinct (filter P rs)"
  by (simp add: untagged_distinct_def distinct_map_filter)

lemma vpptcp_Changes_exact:
  assumes cache: "session_reach SessionRuleTagPrefix cache" and art: "vpptcp_open cache resync art"
    and sync: "vpp_in_sync cache resync dumped rs"
  shows "\<exists>t' a d cache'. vpptcp_Changes (map Inr dumped) cache art = Some (t', Inr (map Some a, map Some d)) \<and>
    session_Commit cache t' = Some cache' \<and> session_reach SessionRuleTagPrefix cache' \<and>
    (\<forall>r\<in>set d. own_rule r) \<and> {r \<in> rs. own_rule r} - set d \<union> set a = all_rules (sc_tables cache')"
proof -
  obtain us where us: "cacheTxn art = apply_updates us (session_NewTxn cache resync)"
    using vpptcp_open_updates [OF art] by blast
  let ?t = "cacheTxn art"
  have wf: "cache_wf cache" using session_reach_wf [OF cache] by blast
  have t: "txn_wf ?t" "\<not> st_upToDate ?t" "st_resync ?t = resync"
    using wf by (simp_all add: us txn_wf_updates txn_wf_New cache_wf_def upToDate_updates resync_updates)
       (simp add: session_NewTxn_def)
  let ?dump = "if resync then filter own_rule dumped else []"
  have ud: "untagged_distinct ?dump" using sync untagged_distinct_filter
    by (auto simp: vpp_in_sync_def untagged_distinct_def)
  have dump: "(if st_resync ?t then dumpRules (map Inr dumped) else Some ([], None)) = Some (?dump, None)"
    using sync t(3) dumpRules_own [of dumped] by (auto simp: vpp_in_sync_def)
  have own: "{r \<in> rs. own_rule r} = installed cache ?dump (st_resync ?t)"
    using sync t(3) by (auto simp: vpp_in_sync_def installed_def)
  obtain t' a d cache' where c: "session_Changes cache (Inr ?dump) ?t = Some (t', Inr (map Some a, map Some d))"
    "session_Commit cache t' = Some cache'" "set a = all_rules (sc_tables cache') - {r \<in> rs. own_rule r}"
    "set d = {r \<in> rs. own_rule r} - all_rules (sc_tables cache')" "session_Commit cache ?t = Some cache'"
    using Changes_then_Commit [OF wf t(1,2) ud, folded own] by (elim exE conjE) (rule that)
  have "vpptcp_Changes (map Inr dumped) cache art = Some (t', Inr (map Some a, map Some d))"
    using c(1) dump by (simp add: vpptcp_Changes_def dump_result_def)
  moreover have "session_reach SessionRuleTagPrefix cache'"
    using session_reach.commit [OF cache] c(5) us by simp
  ultimately show ?thesis
    using c by (intro exI [of _ t'] exI [of _ a] exI [of _ d] exI [of _ cache']) auto
qed


section \<open>Batches that do not end, and errors\<close>

lemma update_loop_diverges:
  assumes "chanBufSize < 0" "i < length requests"
  shows "update_loop vpp chanBufSize requests i ch = None"
proof -
  have "update_loop vpp chanBufSize requests i ch = Some res \<Longrightarrow> chanBufSize < 0 \<longrightarrow> \<not> i < length requests" for res
    by (rule update_loop.raw_induct [where P = "\<lambda>vpp b reqs i ch res. b < 0 \<longrightarrow> \<not> i < length reqs"])
      (auto split: if_splits)
  with assms show ?thesis by (cases "update_loop vpp chanBufSize requests i ch") auto
qed

text \<open>C30: sending the requests always ends, whatever VPP replies and whatever replies are still waiting, unless the size of
  the channel buffer is configured negative and there is a request to send: then no batch makes progress.\<close>

theorem updateRules_ends:
  "(\<exists>res. updateRules vpp buf (map Some add) (map Some remove) ch = Some res) \<longleftrightarrow> buf \<ge> 0 \<or> add = [] \<and> remove = []"
proof -
  have reqs: "\<exists>requests. make_requests (map Some add) (map Some remove) = Some requests \<and> (requests = [] \<longleftrightarrow> add = [] \<and> remove = [])"
    by (auto simp: make_requests_def)
  then obtain requests where r: "make_requests (map Some add) (map Some remove) = Some requests"
    "requests = [] \<longleftrightarrow> add = [] \<and> remove = []" by blast
  have empty: "requests = [] \<Longrightarrow> \<exists>res. updateRules vpp buf (map Some add) (map Some remove) ch = Some res"
    using r(1) by (simp add: updateRules_def update_loop.simps)
  have ends: "buf \<ge> 0 \<Longrightarrow> \<exists>res. updateRules vpp buf (map Some add) (map Some remove) ch = Some res"
    using r(1) update_loop_returns [of _ vpp requests 0 ch] by (simp add: updateRules_def)
  have "buf < 0 \<Longrightarrow> requests \<noteq> [] \<Longrightarrow> updateRules vpp buf (map Some add) (map Some remove) ch = None"
    using r(1) update_loop_diverges [of buf 0 requests vpp ch] by (simp add: updateRules_def)
  with empty ends r(2) show ?thesis by (metis not_le option.distinct(1))
qed

text \<open>C31: when a commit of the renderer reports an error, from the dump or from VPP, the cache is unchanged; when the
  dump failed nothing was sent.\<close>

theorem vpptcp_Commit_error:
  assumes "vpptcp_Commit vpp buf replies cache art ch = Some (cache', ch', Some err)"
  shows "cache' = cache \<and> (st_resync (cacheTxn art) \<and> (\<exists>rs. dumpRules replies = Some (rs, Some err)) \<and> ch' = ch \<or>
    (\<exists>t added removed. vpptcp_Changes replies cache art = Some (t, Inr (added, removed)) \<and>
       updateRules vpp buf added removed ch = Some (ch', Some err)))"
proof -
  obtain t res where t: "vpptcp_Changes replies cache art = Some (t, res)"
    using assms by (auto simp: vpptcp_Commit_def split: option.splits)
  show ?thesis
  proof (cases res)
    case (Inl e)
    then have "e = err \<and> cache' = cache \<and> ch' = ch" using assms t by (simp add: vpptcp_Commit_def)
    moreover have "st_resync (cacheTxn art) \<and> (\<exists>rs. dumpRules replies = Some (rs, Some e))"
      using t Inl unfolding vpptcp_Changes_def session_Changes_def dump_result_def
      by (auto split: option.splits if_splits sum.splits Option.bind_splits)
    ultimately show ?thesis by simp
  next
    case (Inr p)
    then show ?thesis
      using assms t by (cases p) (auto simp: vpptcp_Commit_def split: option.splits if_splits)
  qed
qed

section \<open>Replies left behind\<close>

text \<open>C40: after an error the remaining replies of the batch stay in the reply channel. The next update reads the first of
  them in place of the reply to its own request: if it is an error, the update fails with it whatever VPP
  answers now, stops after its first batch, and leaves as many more replies behind as it sent requests.\<close>

theorem stale_reply_reported:
  assumes "reply_error r0 = Some err" "add \<noteq> [] \<or> remove \<noteq> []" "buf \<ge> 0"
  shows "\<exists>v' queue'. updateRules vpp buf (map Some add) (map Some remove) (v, r0 # queue) = Some ((v', queue'), Some err) \<and>
    length queue' = length queue + min (length add + length remove) (if buf = 0 then 100 else nat buf)"
proof -
  define chanBufSize where "chanBufSize = (if buf \<noteq> 0 then buf else 100)"
  define requests where "requests = map (\<lambda>r. makeSessionRuleAddDelReq r False) remove @ map (\<lambda>r. makeSessionRuleAddDelReq r True) add"
  have pos: "chanBufSize > 0" using assms(3) by (simp add: chanBufSize_def)
  let ?batch = "take (nat chanBufSize) requests"
  have len: "length requests = length add + length remove" by (simp add: requests_def)
  then have "0 < length ?batch" using assms(2) pos by auto
  then obtain k where k: "length ?batch = Suc k" using gr0_implies_Suc by blast
  let ?queue = "queue @ snd (vpp_run vpp ?batch v)"
  have "receive_replies (length ?batch) (r0 # ?queue) = Some (?queue, Some err)"
    using assms(1) unfolding k by simp
  then have "update_loop vpp chanBufSize requests 0 (v, r0 # queue) = Some ((fst (vpp_run vpp ?batch v), ?queue), Some err)"
    using assms(2) len by (auto simp: update_loop.simps [of vpp chanBufSize requests 0] Let_def send_all)
  moreover have "make_requests (map Some add) (map Some remove) = Some requests"
    by (auto simp: make_requests_def requests_def)
  moreover have "length ?queue = length queue + min (length add + length remove) (if buf = 0 then 100 else nat buf)"
    using len by (simp add: length_vpp_run chanBufSize_def min.commute)
  ultimately show ?thesis
    by (simp add: updateRules_def chanBufSize_def [symmetric])
qed

section \<open>Examples\<close>

definition ex_vpp :: "session_rule set vpp" where
  "ex_vpp v req = ((if IsAdd req = 1 then insert (session_rule.truncate req) v else v - {session_rule.truncate req}), ReplyRetval 0)"

definition ex_txn :: vpptcp_txn where
  "ex_txn = vpptcp_Render (\<lambda>_ _. Some 1) (vpptcp_NewTxn vpptcp_Init False) \<lparr>Name = ''web'', Namespace = ''default''\<rparr> ex_addr [] [ex_deny]"

lemma truncate_request: "session_rule.truncate (makeSessionRuleAddDelReq r b) = r"
  by (cases r) (simp add: makeSessionRuleAddDelReq_def session_rule.truncate_def)

lemma ex_vpp_accepts: "vpp_accepts ex_vpp (\<lambda>v. v)"
  by (simp add: vpp_accepts_def ex_vpp_def truncate_request) (simp add: makeSessionRuleAddDelReq_def)


lemma vpptcp_Commit_error_witness:
  "vpptcp_Commit ex_vpp 0 [Inl ''timeout''] vpptcp_Init (vpptcp_NewTxn vpptcp_Init True) ({}, []) =
     Some (vpptcp_Init, ({}, []), Some ''timeout'') \<and>
   (\<exists>rs. dumpRules [Inl ''timeout''] = Some (rs, Some ''timeout''))"
proof -
  have "vpptcp_Commit ex_vpp 0 [Inl ''timeout''] vpptcp_Init (vpptcp_NewTxn vpptcp_Init True) ({}, []) =
     Some (vpptcp_Init, ({}, []), Some ''timeout'')"
    by (simp add: vpptcp_Commit_def vpptcp_Changes_def vpptcp_NewTxn_def session_NewTxn_def dumpRules_def dump_result_def
        session_Changes_def refreshTables_def Let_def)
  from this vpptcp_Commit_error [OF this] show ?thesis by (auto simp: dumpRules_def)
qed

lemma stale_reply_reported_witness:
  "\<exists>v' queue'. updateRules ex_vpp 0 [Some new_SessionRule] [] ({}, [ReplyRetval (-1)]) = Some ((v', queue'), Some updateErrMsg) \<and>
     length queue' = 1"
  using stale_reply_reported [of "ReplyRetval (-1)" updateErrMsg "[new_SessionRule]" "[]" 0 ex_vpp "{}" "[]"]
  by (simp add: reply_error_def del: split_paired_Ex)

end
