(* ===== verification/Ipam.thy ===== *)
theory Ipam
  imports GoNet
begin

text \<open>
  IP address management of a node, \<^verbatim>\<open>src/plugins/contiv/ipam/ipam.go\<close>: networks computed from the
  configuration and the identifier of the host, addresses of hosts and of the virtual ethernet pair,
  and the pool of pod addresses. The mutex makes every operation one step; its map of assigned
  addresses is an association list.
\<close>

unbundle bit_operations_syntax

section \<open>Addresses as 32-bit numbers\<close>

datatype ipam_error =
  CantParse string
| CantParseSubnet string
| PrefixTooShort uint8 nat
| NotIPv4
| EmptyPodID
| NoFreeIP ipnet
| CantFindIP string
| CantRelease ipam_error

definition gatewayPodSeqID :: nat where "gatewayPodSeqID = 1"
definition vethVPPEndIPHostSeqID :: uint32 where "vethVPPEndIPHostSeqID = 1"
definition vethHostEndIPHostSeqID :: uint32 where "vethHostEndIPHostSeqID = 2"

definition ipv4ToUint32 :: "ip \<Rightarrow> ipam_error + uint32" where
  "ipv4ToUint32 ip =
     (case To4 ip of
        None \<Rightarrow> Inl NotIPv4
      | Some ip4 \<Rightarrow> Inr (foldl (\<lambda>tmp bytePart. push_bit 8 tmp + ucast bytePart) 0 ip4))"

definition uint32_bytes :: "uint32 \<Rightarrow> bytes" where
  "uint32_bytes ip = [ucast (drop_bit 24 ip), ucast (drop_bit 16 ip), ucast (drop_bit 8 ip), ucast ip]"

text \<open>\<^verbatim>\<open>net.IPv4(...)\<close> is 16 bytes long and never nil after \<^verbatim>\<open>To4\<close>.\<close>

definition uint32ToIpv4 :: "uint32 \<Rightarrow> ip" where
  "uint32ToIpv4 ip =
     (case uint32_bytes ip of
        [a, b, c, d] \<Rightarrow> (case To4 (IPv4 a b c d) of Some x \<Rightarrow> x | None \<Rightarrow> [])
      | _ \<Rightarrow> [])"

definition uint32ToIpv4Mask :: "uint32 \<Rightarrow> ipmask" where
  "uint32ToIpv4Mask ip = uint32_bytes ip"

definition convertToHostIPPart :: "uint8 \<Rightarrow> uint8 \<Rightarrow> uint8" where
  "convertToHostIPPart hostID expectedHostPartBitSize = hostID AND (push_bit (unat expectedHostPartBitSize) 1 - 1)"

section \<open>Networks\<close>

definition applyHostID :: "ipnet \<Rightarrow> uint8 \<Rightarrow> uint8 \<Rightarrow> ipam_error + ipnet" where
  "applyHostID subnetIPPrefix hostID networkPrefixLen =
     (let subnetPrefixLen = fst (mask_size (Mask subnetIPPrefix));
          hostPartBitSize = networkPrefixLen - of_nat subnetPrefixLen;
          hostIPPart = convertToHostIPPart hostID hostPartBitSize
      in case ipv4ToUint32 (IP subnetIPPrefix) of
           Inl err \<Rightarrow> Inl err
         | Inr subnetIPPartUint32 \<Rightarrow>
             let networkPrefixUint32 = subnetIPPartUint32 + push_bit (unat (32 - networkPrefixLen)) (ucast hostIPPart)
             in Inr \<lparr>IP = uint32ToIpv4 networkPrefixUint32,
                     Mask = uint32ToIpv4Mask (push_bit (unat (32 - networkPrefixLen)) (push_bit (unat networkPrefixLen) 1 - 1))\<rparr>)"

definition convertConfigNotation :: "string \<Rightarrow> uint8 \<Rightarrow> uint8 \<Rightarrow> ipam_error + ipnet \<times> ipnet" where
  "convertConfigNotation subnetCIDR networkPrefixLen hostID =
     (case ParseCIDR subnetCIDR of
        None \<Rightarrow> Inl (CantParseSubnet subnetCIDR)
      | Some (_, subnetIPPrefix) \<Rightarrow>
          let subnetPrefixLen = fst (mask_size (Mask subnetIPPrefix))
          in if networkPrefixLen \<le> of_nat subnetPrefixLen then Inl (PrefixTooShort networkPrefixLen subnetPrefixLen)
             else map_sum id (\<lambda>networkIPPrefix. (subnetIPPrefix, networkIPPrefix))
                    (applyHostID subnetIPPrefix hostID networkPrefixLen))"

section \<open>The module\<close>

record ipam =
  ipam_hostID :: uint8
  podSubnetIPPrefix :: ipnet
  podNetworkIPPrefix :: ipnet
  podNetworkGatewayIP :: ip
  assignedPodIPs :: "(uint32 \<times> string) list"
  vSwitchSubnetIPPrefix :: ipnet
  vSwitchNetworkIPPrefix :: ipnet
  vethVPPEndIP :: ip
  vethHostEndIP :: ip
  hostNodeNetworkIPPrefix :: ipnet

record ipam_config =
  PodSubnetCIDR :: string
  PodNetworkPrefixLen :: uint8
  VSwitchSubnetCIDR :: string
  VSwitchNetworkPrefixLen :: uint8
  HostNodeSubnetCidr :: string

definition new_ipam :: "uint8 \<Rightarrow> ipam" where
  "new_ipam hostID =
     (let zero = \<lparr>IP = [], Mask = []\<rparr> in
      \<lparr>ipam_hostID = hostID, podSubnetIPPrefix = zero, podNetworkIPPrefix = zero, podNetworkGatewayIP = [],
       assignedPodIPs = [], vSwitchSubnetIPPrefix = zero, vSwitchNetworkIPPrefix = zero, vethVPPEndIP = [],
       vethHostEndIP = [], hostNodeNetworkIPPrefix = zero\<rparr>)"

definition initializePodsIPAM :: "ipam \<Rightarrow> ipam_config \<Rightarrow> uint8 \<Rightarrow> ipam_error + ipam" where
  "initializePodsIPAM ipam config hostID =
     (case convertConfigNotation (PodSubnetCIDR config) (PodNetworkPrefixLen config) hostID of
        Inl err \<Rightarrow> Inl err
      | Inr (subnet, network) \<Rightarrow>
          (case ipv4ToUint32 (IP network) of
             Inl err \<Rightarrow> Inl err
           | Inr podNetworkPrefixUint32 \<Rightarrow>
               Inr (ipam\<lparr>podSubnetIPPrefix := subnet, podNetworkIPPrefix := network,
                         podNetworkGatewayIP := uint32ToIpv4 (podNetworkPrefixUint32 + of_nat gatewayPodSeqID),
                         assignedPodIPs := []\<rparr>)))"

definition initializeVSwitchIPAM :: "ipam \<Rightarrow> ipam_config \<Rightarrow> uint8 \<Rightarrow> ipam_error + ipam" where
  "initializeVSwitchIPAM ipam config hostID =
     (case convertConfigNotation (VSwitchSubnetCIDR config) (VSwitchNetworkPrefixLen config) hostID of
        Inl err \<Rightarrow> Inl err
      | Inr (subnet, network) \<Rightarrow>
          (case ipv4ToUint32 (IP network) of
             Inl err \<Rightarrow> Inl err
           | Inr vSwitchNetworkPrefixUint32 \<Rightarrow>
               Inr (ipam\<lparr>vSwitchSubnetIPPrefix := subnet, vSwitchNetworkIPPrefix := network,
                         vethVPPEndIP := uint32ToIpv4 (vSwitchNetworkPrefixUint32 + vethVPPEndIPHostSeqID),
                         vethHostEndIP := uint32ToIpv4 (vSwitchNetworkPrefixUint32 + vethHostEndIPHostSeqID)\<rparr>)))"

definition initializeHostNodeIPAM :: "ipam \<Rightarrow> ipam_config \<Rightarrow> ipam_error + ipam" where
  "initializeHostNodeIPAM ipam config =
     (case ParseCIDR (HostNodeSubnetCidr config) of
        None \<Rightarrow> Inl (CantParse (HostNodeSubnetCidr config))
      | Some (_, pSubnet) \<Rightarrow> Inr (ipam\<lparr>hostNodeNetworkIPPrefix := pSubnet\<rparr>))"

definition ipam_New :: "uint8 \<Rightarrow> ipam_config \<Rightarrow> ipam_error + ipam" where
  "ipam_New hostID config =
     (case initializePodsIPAM (new_ipam hostID) config hostID of
        Inl err \<Rightarrow> Inl err
      | Inr ipam1 \<Rightarrow>
          (case initializeVSwitchIPAM ipam1 config hostID of
             Inl err \<Rightarrow> Inl err
           | Inr ipam2 \<Rightarrow> initializeHostNodeIPAM ipam2 config))"

section \<open>Computed addresses and networks\<close>

definition newIP :: "ip \<Rightarrow> ip option" where
  "newIP ip = (if length ip < 4 then None else To4 (IPv4 (ip ! 0) (ip ! 1) (ip ! 2) (ip ! 3)))"

definition newIPNet :: "ipnet \<Rightarrow> ipnet option" where
  "newIPNet ipNet =
     (if length (Mask ipNet) < 4 then None
      else map_option (\<lambda>ip. \<lparr>IP = ip, Mask = [Mask ipNet ! 0, Mask ipNet ! 1, Mask ipNet ! 2, Mask ipNet ! 3]\<rparr>)
             (newIP (IP ipNet)))"

definition computeHostIPAddress :: "ipam \<Rightarrow> uint8 \<Rightarrow> ipam_error + ip" where
  "computeHostIPAddress i hostID =
     (let subnetPrefixLen = fst (mask_size (Mask (hostNodeNetworkIPPrefix i)));
          hostPartBitSize = 32 - of_nat subnetPrefixLen;
          hostIPPart = convertToHostIPPart hostID hostPartBitSize
      in case ipv4ToUint32 (IP (hostNodeNetworkIPPrefix i)) of
           Inl err \<Rightarrow> Inl err
         | Inr networkIPPartUint32 \<Rightarrow> Inr (uint32ToIpv4 (networkIPPartUint32 + ucast hostIPPart)))"

definition HostIPAddress :: "ipam \<Rightarrow> uint8 \<Rightarrow> ipam_error + ip" where
  "HostIPAddress i hostID = computeHostIPAddress i hostID"

definition HostIPNetwork :: "ipam \<Rightarrow> uint8 \<Rightarrow> ipam_error + ipnet" where
  "HostIPNetwork i hostID =
     (case computeHostIPAddress i hostID of
        Inl err \<Rightarrow> Inl err
      | Inr hostIP \<Rightarrow>
          let maskSize = fst (mask_size (Mask (hostNodeNetworkIPPrefix i)))
          in Inr \<lparr>IP = hostIP,
                  Mask = uint32ToIpv4Mask (push_bit (unat (32 - of_nat maskSize :: uint8)) (push_bit maskSize 1 - 1))\<rparr>)"

definition get_VEthVPPEndIP :: "ipam \<Rightarrow> ip option" where
  "get_VEthVPPEndIP i = newIP (vethVPPEndIP i)"

definition get_VEthHostEndIP :: "ipam \<Rightarrow> ip option" where
  "get_VEthHostEndIP i = newIP (vethHostEndIP i)"

definition VSwitchNetwork :: "ipam \<Rightarrow> ipnet option" where
  "VSwitchNetwork i = newIPNet (vSwitchNetworkIPPrefix i)"

definition PodSubnet :: "ipam \<Rightarrow> ipnet option" where
  "PodSubnet i = newIPNet (podSubnetIPPrefix i)"

definition PodNetwork :: "ipam \<Rightarrow> ipnet option" where
  "PodNetwork i = newIPNet (podNetworkIPPrefix i)"

definition PodGatewayIP :: "ipam \<Rightarrow> ip option" where
  "PodGatewayIP i = newIP (podNetworkGatewayIP i)"

definition HostID :: "ipam \<Rightarrow> uint8" where
  "HostID i = ipam_hostID i"

definition other_network :: "ipnet \<Rightarrow> ipnet \<Rightarrow> uint8 \<Rightarrow> (ipam_error + ipnet) option" where
  "other_network subnet network hostID =
     (let networkSize = fst (mask_size (Mask network)) in
      case applyHostID subnet hostID (of_nat networkSize) of
        Inl err \<Rightarrow> Some (Inl err)
      | Inr n \<Rightarrow> map_option Inr (newIPNet n))"

definition OtherHostVSwitchNetwork :: "ipam \<Rightarrow> uint8 \<Rightarrow> (ipam_error + ipnet) option" where
  "OtherHostVSwitchNetwork i hostID = other_network (vSwitchSubnetIPPrefix i) (vSwitchNetworkIPPrefix i) hostID"

definition OtherHostPodNetwork :: "ipam \<Rightarrow> uint8 \<Rightarrow> (ipam_error + ipnet) option" where
  "OtherHostPodNetwork i hostID = other_network (podSubnetIPPrefix i) (podNetworkIPPrefix i) hostID"

section \<open>The pool of pod addresses\<close>

text \<open>The loop of \<^verbatim>\<open>NextPodIP\<close> from \<^verbatim>\<open>j\<close> on: the first sequence number below \<^verbatim>\<open>maxSeqID\<close> that is
  neither the gateway nor assigned.\<close>

function next_seq :: "(uint32 \<times> string) list \<Rightarrow> uint32 \<Rightarrow> nat \<Rightarrow> nat \<Rightarrow> nat option" where
  "next_seq assigned networkPrefix maxSeqID j =
     (if j < maxSeqID then
        if j = gatewayPodSeqID then next_seq assigned networkPrefix maxSeqID (j + 1)
        else if map_of assigned (networkPrefix + of_nat j) \<noteq> None then next_seq assigned networkPrefix maxSeqID (j + 1)
        else Some j
      else None)"
  by pat_completeness auto
termination
  by (relation "measure (\<lambda>(a, n, maxSeqID, j). maxSeqID - j)") auto

declare next_seq.simps [simp del]

definition NextPodIP :: "ipam \<Rightarrow> string \<Rightarrow> ipam \<times> (ipam_error + ip)" where
  "NextPodIP i podID =
     (if length podID = 0 then (i, Inl EmptyPodID)
      else case ipv4ToUint32 (IP (podNetworkIPPrefix i)) of
             Inl err \<Rightarrow> (i, Inl err)
           | Inr networkPrefix \<Rightarrow>
               let (prefixBits, totalBits) = mask_size (Mask (podNetworkIPPrefix i));
                   maxSeqID = 2 ^ (totalBits - prefixBits)
               in (case next_seq (assignedPodIPs i) networkPrefix maxSeqID 1 of
                     Some j \<Rightarrow>
                       (i\<lparr>assignedPodIPs := AList.update (networkPrefix + of_nat j) podID (assignedPodIPs i)\<rparr>,
                        Inr (uint32ToIpv4 (networkPrefix + of_nat j)))
                   | None \<Rightarrow> (i, Inl (NoFreeIP (podNetworkIPPrefix i)))))"

fun findIP :: "(uint32 \<times> string) list \<Rightarrow> string \<Rightarrow> ipam_error + uint32" where
  "findIP [] podID = Inl (CantFindIP podID)"
| "findIP ((ip, curPodID) # rest) podID = (if curPodID = podID then Inr ip else findIP rest podID)"

definition ReleasePodIP :: "ipam \<Rightarrow> string \<Rightarrow> ipam \<times> ipam_error option" where
  "ReleasePodIP i podID =
     (if length podID = 0 then (i, None)
      else case findIP (assignedPodIPs i) podID of
             Inl err \<Rightarrow> (i, Some (CantRelease err))
           | Inr ip \<Rightarrow> (i\<lparr>assignedPodIPs := AList.delete ip (assignedPodIPs i)\<rparr>, None))"

end
