(* ===== verification/IpamNets.thy ===== *)
theory IpamNets
  imports Ipam
begin

text \<open>
  Networks of the IPAM module: addresses as numbers, membership in a network as equality of quotients,
  and the networks that \<^verbatim>\<open>applyHostID\<close> and \<^verbatim>\<open>New\<close> compute.
\<close>

section \<open>Addresses as numbers\<close>

lemma bit_uint32_bytes:
  assumes "k < 4" "n < 8"
  shows "bit (uint32_bytes w ! k) n \<longleftrightarrow> bit w (8 * (3 - k) + n)"
proof -
  from assms(1) consider "k = 0" | "k = 1" | "k = 2" | "k = 3" by linarith
  then show ?thesis
    by cases (use assms(2) in \<open>simp_all add: uint32_bytes_def bit_ucast_iff bit_drop_bit_eq\<close>)
qed

lemma length_uint32_bytes [simp]: "length (uint32_bytes w) = 4"
  by (simp add: uint32_bytes_def)

lemma bits_uint32_bytes: "bits_of (uint32_bytes w) = map (\<lambda>k. bit w (31 - k)) [0..<32]"
proof (rule nth_equalityI)
  fix k assume "k < length (bits_of (uint32_bytes w))"
  then have k: "k < 32" by simp
  have "8 * (3 - k div 8) + (7 - k mod 8) = 31 - k" using k by presburger
  then show "bits_of (uint32_bytes w) ! k = map (\<lambda>k. bit w (31 - k)) [0..<32] ! k"
    using k bits_of_nth [of k "uint32_bytes w"] bit_uint32_bytes [of "k div 8" "7 - k mod 8" w] by simp
qed simp

lemma bits_eq_iff_drop:
  assumes "len \<le> 32"
  shows "take len (bits_of (uint32_bytes a)) = take len (bits_of (uint32_bytes b)) \<longleftrightarrow> drop_bit (32 - len) a = drop_bit (32 - len) b"
proof -
  have "take len (bits_of (uint32_bytes a)) = take len (bits_of (uint32_bytes b)) \<longleftrightarrow> (\<forall>k<len. bit a (31 - k) = bit b (31 - k))"
    using assms by (auto simp: bits_uint32_bytes list_eq_iff_nth_eq take_map [symmetric])
  also have "\<dots> \<longleftrightarrow> (\<forall>m<32. 32 - len \<le> m \<longrightarrow> bit a m = bit b m)"
  proof
    assume h: "\<forall>k<len. bit a (31 - k) = bit b (31 - k)"
    show "\<forall>m<32. 32 - len \<le> m \<longrightarrow> bit a m = bit b m"
    proof (intro allI impI)
      fix m :: nat assume "m < 32" "32 - len \<le> m"
      then show "bit a m = bit b m" using h [rule_format, of "31 - m"] assms by simp
    qed
  next
    assume h: "\<forall>m<32. 32 - len \<le> m \<longrightarrow> bit a m = bit b m"
    show "\<forall>k<len. bit a (31 - k) = bit b (31 - k)"
    proof (intro allI impI)
      fix k assume "k < len"
      then show "bit a (31 - k) = bit b (31 - k)" using h [rule_format, of "31 - k"] assms by simp
    qed
  qed
  also have "\<dots> \<longleftrightarrow> drop_bit (32 - len) a = drop_bit (32 - len) b"
  proof
    assume h: "\<forall>m<32. 32 - len \<le> m \<longrightarrow> bit a m = bit b m"
    show "drop_bit (32 - len) a = drop_bit (32 - len) b"
    proof (rule bit_eqI)
      fix n
      show "bit (drop_bit (32 - len) a) n = bit (drop_bit (32 - len) b) n"
        using h [rule_format, of "32 - len + n"] by (cases "32 - len + n < 32") (auto simp: bit_drop_bit_eq not_less bit_imp_le_length dest: bit_imp_le_length)
    qed
  next
    assume h: "drop_bit (32 - len) a = drop_bit (32 - len) b"
    show "\<forall>m<32. 32 - len \<le> m \<longrightarrow> bit a m = bit b m"
    proof (intro allI impI)
      fix m :: nat assume "32 - len \<le> m"
      then show "bit a m = bit b m"
        using arg_cong [OF h, of "\<lambda>w. bit w (m - (32 - len))"] by (simp add: bit_drop_bit_eq)
    qed
  qed
  finally show ?thesis .
qed

lemma drop_bit_word_iff: "drop_bit n a = drop_bit n b \<longleftrightarrow> unat a div 2 ^ n = unat b div 2 ^ n" for a b :: uint32
  unfolding word_unat_eq_iff unat_drop_bit_eq by (simp add: drop_bit_eq_div)

lemma uint32ToIpv4_bytes [simp]: "uint32ToIpv4 w = uint32_bytes w"
  by (simp add: uint32ToIpv4_def uint32_bytes_def To4_def IPv4_def v4InV6Prefix_def)

text \<open>The number of four bytes.\<close>

definition ip_num :: "bytes \<Rightarrow> uint32" where
  "ip_num ip4 = foldl (\<lambda>tmp bytePart. push_bit 8 tmp + ucast bytePart) 0 ip4"

lemma ipv4ToUint32_4: "length ip = 4 \<Longrightarrow> ipv4ToUint32 ip = Inr (ip_num ip)"
  by (simp add: ipv4ToUint32_def To4_def ip_num_def)

lemma bit_shift_add: "bit (push_bit 8 w + ucast (b :: byte) :: uint32) n \<longleftrightarrow> (if n < 8 then bit b n else n < 32 \<and> bit w (n - 8))"
proof -
  have "push_bit 8 w + ucast b = (push_bit 8 w OR ucast b :: uint32)"
    by (rule disjunctive_add) (auto simp: bit_push_bit_iff bit_ucast_iff dest: bit_imp_le_length)
  then show ?thesis
    by (auto simp: bit_or_iff bit_push_bit_iff bit_ucast_iff dest: bit_imp_le_length)
qed

lemma bit_ip_num: "bit (ip_num [a, b, c, d]) n \<longleftrightarrow>
    (if n < 8 then bit d n else if n < 16 then bit c (n - 8) else if n < 24 then bit b (n - 16) else n < 32 \<and> bit a (n - 24))"
proof -
  have "\<not> bit a (n - 24)" if "\<not> n < 32"
    using that bit_imp_le_length [of a "n - 24"] by auto
  then show ?thesis unfolding ip_num_def foldl.simps bit_shift_add by auto
qed

lemma length_4: "length xs = 4 \<longleftrightarrow> (\<exists>a b c d. xs = [a, b, c, d])"
  by (auto simp: numeral_eq_Suc length_Suc_conv)

lemma ip_num_bytes [simp]: "ip_num (uint32_bytes w) = w"
  by (rule bit_eqI) (auto simp: uint32_bytes_def bit_ip_num bit_ucast_iff bit_drop_bit_eq)

lemma bytes_ip_num:
  assumes "length ip = 4"
  shows "uint32_bytes (ip_num ip) = ip"
proof -
  obtain a b c d where ip: "ip = [a, b, c, d]" using assms by (auto simp: length_4)
  show ?thesis
    unfolding ip uint32_bytes_def
    by (simp, intro conjI; rule byte_eqI) (simp_all add: bit_ucast_iff bit_drop_bit_eq bit_ip_num)
qed

section \<open>Networks given by a number and a prefix length\<close>

definition net32 :: "uint32 \<Rightarrow> nat \<Rightarrow> ipnet" where
  "net32 p len = \<lparr>IP = uint32_bytes p, Mask = cidr_bytes 4 len\<rparr>"

definition in_net32 :: "uint32 \<Rightarrow> nat \<Rightarrow> uint32 \<Rightarrow> bool" where
  "in_net32 p len w \<longleftrightarrow> unat w div 2 ^ (32 - len) = unat p div 2 ^ (32 - len)"

lemma contains_net32:
  assumes "len \<le> 32"
  shows "contains (net32 p len) ip \<longleftrightarrow> length (norm_ip ip) = 4 \<and> in_net32 p len (ip_num (norm_ip ip))"
proof -
  have nm: "networkNumberAndMask (net32 p len) = Some (uint32_bytes p, cidr_bytes 4 len)"
    by (simp add: networkNumberAndMask_def net32_def To4_def)
  have c: "contains (net32 p len) ip \<longleftrightarrow> length (norm_ip ip) = 4 \<and> ip_and (uint32_bytes p) (cidr_bytes 4 len) = ip_and (norm_ip ip) (cidr_bytes 4 len)"
    by (simp add: contains_def nm norm_ip_def Let_def)
  show ?thesis
  proof (cases "length (norm_ip ip) = 4")
    case True
    then obtain w where w: "norm_ip ip = uint32_bytes w" using bytes_ip_num [of "norm_ip ip"] by metis
    have "ip_and (uint32_bytes p) (cidr_bytes 4 len) = ip_and (uint32_bytes w) (cidr_bytes 4 len) \<longleftrightarrow> in_net32 p len w"
      using assms ip_and_cidr_eq_iff [of "uint32_bytes p" 4 "uint32_bytes w" len]
      by (simp add: bits_eq_iff_drop drop_bit_word_iff in_net32_def eq_commute)
    then show ?thesis using c w by simp
  qed (simp add: c)
qed

lemma contains_net32_bytes: "len \<le> 32 \<Longrightarrow> contains (net32 p len) (uint32_bytes w) \<longleftrightarrow> in_net32 p len w"
  by (simp add: contains_net32 norm_ip_def To4_def)

lemma bits_of_cidr: "n \<le> 8 * l \<Longrightarrow> bits_of (cidr_bytes l n) = replicate n True @ replicate (8 * l - n) False"
proof -
  assume n: "n \<le> 8 * l"
  have "ip_and (replicate l 0xff) m = m" if "length m = l" for m :: bytes
    using that by (induction m arbitrary: l) (auto simp: byte_and_ff and.commute [of "0xff :: byte"])
  moreover have "bits_of (replicate l 0xff) = replicate (8 * l) True"
  proof (induction l)
    case (Suc l)
    have "byte_bits 0xff = replicate 8 True"
      by (rule nth_equalityI) (simp_all add: byte_bits_nth bit_ff del: bit_numeral_word_iff)
    with Suc show ?case by (simp add: replicate_add)
  qed simp
  ultimately show ?thesis using bits_of_masked [of n "replicate l 0xff"] n by simp
qed

lemma mask_net32: "len \<le> 32 \<Longrightarrow> uint32ToIpv4Mask (push_bit (32 - len) (push_bit len 1 - 1)) = cidr_bytes 4 len"
proof -
  assume len: "len \<le> 32"
  let ?w = "push_bit (32 - len) (push_bit len 1 - 1) :: uint32"
  have "push_bit len 1 - 1 = (mask len :: uint32)" by (simp add: mask_eq_exp_minus_1)
  then have w: "bit ?w n \<longleftrightarrow> 32 - len \<le> n \<and> n < 32" for n
    using len by (auto simp only: bit_push_bit_iff bit_mask_iff) auto
  have "bits_of (uint32_bytes ?w) = bits_of (cidr_bytes 4 len)"
    unfolding bits_uint32_bytes bits_of_cidr [of len 4, simplified, OF len]
    using len by (intro nth_equalityI) (auto simp only: w length_map length_upt length_append length_replicate nth_map nth_upt nth_append nth_replicate split: if_splits)
  then show ?thesis
    by (simp add: uint32ToIpv4Mask_def bits_of_inject)
qed

lemma net32_prefix: "len \<le> 32 \<Longrightarrow> mask_size (Mask (net32 p len)) = (len, 32)"
  by (simp add: net32_def mask_size_cidr)

section \<open>The network of a host\<close>

lemma convertToHostIPPart_mod: "unat (convertToHostIPPart h n) = unat h mod 2 ^ unat n"
proof -
  have "convertToHostIPPart h n = take_bit (unat n) h"
    by (simp add: convertToHostIPPart_def mask_eq_exp_minus_1 [symmetric] push_bit_of_1 take_bit_eq_mask)
  then have "unat (convertToHostIPPart h n) = take_bit (unat n) (unat h)" by (simp only: unsigned_take_bit_eq)
  then show ?thesis by (simp only: take_bit_eq_mod)
qed

lemma host_part_bound:
  assumes "sl < nl" "nl \<le> (32 :: nat)" "S mod 2 ^ (32 - sl) = 0" "S < (2 :: nat) ^ 32" "H < (2 :: nat) ^ (nl - sl)"
  shows "S + H * 2 ^ (32 - nl) < 2 ^ 32" "(S + H * 2 ^ (32 - nl)) div 2 ^ (32 - sl) = S div 2 ^ (32 - sl)"
    "(S + H * 2 ^ (32 - nl)) mod 2 ^ (32 - nl) = 0"
    "(S + H * 2 ^ (32 - nl)) div 2 ^ (32 - nl) = S div 2 ^ (32 - nl) + H"
proof -
  have split: "(2 :: nat) ^ (32 - sl) = 2 ^ (nl - sl) * 2 ^ (32 - nl)"
    using assms(1,2) by (simp add: power_add [symmetric])
  have small: "H * 2 ^ (32 - nl) < 2 ^ (32 - sl)"
    unfolding split using assms(5) by (rule mult_strict_right_mono) simp
  obtain q where q: "S = 2 ^ (32 - sl) * q" using assms(3) by (auto simp: mod_eq_0_iff_dvd)
  have "S + 2 ^ (32 - sl) \<le> 2 ^ 32"
  proof -
    have e: "(2 :: nat) ^ 32 = 2 ^ (32 - sl) * 2 ^ sl" using assms(1,2) by (simp add: power_add [symmetric])
    have "2 ^ (32 - sl) * q < 2 ^ (32 - sl) * 2 ^ sl" using assms(4) unfolding q e .
    then have "q < 2 ^ sl" by simp
    then have "Suc q \<le> 2 ^ sl" by simp
    then have "2 ^ (32 - sl) * Suc q \<le> 2 ^ (32 - sl) * (2 :: nat) ^ sl" by (rule mult_le_mono2)
    then show ?thesis using e q by simp
  qed
  with small show "S + H * 2 ^ (32 - nl) < 2 ^ 32" by linarith
  show "(S + H * 2 ^ (32 - nl)) div 2 ^ (32 - sl) = S div 2 ^ (32 - sl)"
    using small q by simp
  have s: "S = 2 ^ (32 - nl) * (2 ^ (nl - sl) * q)" using q split by simp
  show "(S + H * 2 ^ (32 - nl)) mod 2 ^ (32 - nl) = 0" unfolding s by simp
  show "(S + H * 2 ^ (32 - nl)) div 2 ^ (32 - nl) = S div 2 ^ (32 - nl) + H" unfolding s by simp
qed

definition aligned :: "uint32 \<Rightarrow> nat \<Rightarrow> bool" where
  "aligned p len \<longleftrightarrow> unat p mod 2 ^ (32 - len) = 0"

lemma unat_plus_shift:
  assumes "unat s + unat h * 2 ^ k < 2 ^ 32" "k \<le> 32"
  shows "unat (s + push_bit k (ucast (h :: uint8)) :: uint32) = unat s + unat h * 2 ^ k"
proof -
  have "s + push_bit k (ucast h) = of_nat (unat s + unat h * 2 ^ k)"
    by (simp add: push_bit_eq_mult)
  moreover have "unat (of_nat n :: uint32) = n" if "n < 2 ^ 32" for n
    using that by (simp add: unat_of_nat)
  ultimately show ?thesis using assms(1) by (simp only:)
qed

lemma applyHostID_net32:
  assumes "sl < unat nl" "unat nl \<le> 32" "aligned s sl"
  shows "\<exists>p. applyHostID (net32 s sl) h nl = Inr (net32 p (unat nl)) \<and>
    unat p = unat s + (unat h mod 2 ^ (unat nl - sl)) * 2 ^ (32 - unat nl) \<and> aligned p (unat nl)"
proof -
  have sl: "unat (of_nat sl :: uint8) = sl" using assms by (simp add: unat_of_nat)
  have bits: "unat (nl - of_nat sl) = unat nl - sl" using assms sl by (simp add: unat_sub word_le_nat_alt)
  have shift: "unat (32 - nl) = 32 - unat nl" using assms(2) by (simp add: unat_sub word_le_nat_alt)
  let ?h = "convertToHostIPPart h (nl - of_nat sl)"
  have h: "unat ?h = unat h mod 2 ^ (unat nl - sl)" by (simp add: convertToHostIPPart_mod bits)
  have S: "unat s mod 2 ^ (32 - sl) = 0" "unat s < 2 ^ 32"
    using assms(3) unsigned_less [of s, where 'a = nat] by (simp_all add: aligned_def)
  have H: "unat ?h < 2 ^ (unat nl - sl)" by (simp add: h)
  note b = host_part_bound [OF assms(1,2) S H]
  let ?p = "s + push_bit (32 - unat nl) (ucast ?h)"
  have p: "unat ?p = unat s + unat ?h * 2 ^ (32 - unat nl)" using unat_plus_shift [OF b(1)] by simp
  have "ipv4ToUint32 (uint32_bytes s) = Inr s" by (simp add: ipv4ToUint32_4)
  then have "applyHostID (net32 s sl) h nl = Inr (net32 ?p (unat nl))"
    using assms mask_net32 [OF assms(2)]
    by (simp add: applyHostID_def net32_prefix [of sl] Let_def) (simp add: net32_def shift)
  moreover have "aligned ?p (unat nl)" using b(3) by (simp add: aligned_def p)
  ultimately show ?thesis using p h by (intro exI [of _ ?p]) simp
qed

section \<open>Parsed subnets\<close>

lemma cidr_bytes_nth_zero: "n \<le> 8 * k \<Longrightarrow> k < l \<Longrightarrow> cidr_bytes l n ! k = 0"
proof (induction l arbitrary: n k)
  case (Suc l)
  have z: "NOT (drop_bit 0 0xff) = (0 :: byte)" by simp
  show ?case
  proof (cases k)
    case 0
    with Suc z show ?thesis by simp
  next
    case (Suc k')
    with Suc.IH [of "n - 8" k'] Suc.IH [of 0 k'] Suc.prems show ?thesis by auto
  qed
qed simp

lemma ParseCIDR_forms:
  assumes "ParseCIDR s = Some (ip, n)"
  obtains (v4) k a b c d where "k \<le> 32" "n = \<lparr>IP = ip_and [a, b, c, d] (cidr_bytes 4 k), Mask = cidr_bytes 4 k\<rparr>"
  | (v6) k where "k \<le> 128" "n = \<lparr>IP = ip_mask ip (cidr_bytes 16 k), Mask = cidr_bytes 16 k\<rparr>"
proof -
  define addr where "addr = takeWhile (\<lambda>c. c \<noteq> CHR ''/'') s"
  define ms where "ms = tl (dropWhile (\<lambda>c. c \<noteq> CHR ''/'') s)"
  obtain k rest ok where d: "dtoi ms = (k, rest, ok)" by (cases "dtoi ms") auto
  show thesis
  proof (cases "parseIPv4 addr")
    case (Some ip4)
    then obtain a b c d where ip4: "ip4 = IPv4 a b c d"
      by (auto simp: parseIPv4_def split: option.splits prod.splits list.splits)
    have "k \<le> 32" "n = \<lparr>IP = ip_mask ip4 (cidr_bytes 4 k), Mask = cidr_bytes 4 k\<rparr>"
      using assms Some d by (auto simp: ParseCIDR_def addr_def [symmetric] ms_def [symmetric] Let_def CIDRMask_def split: if_splits)
    moreover have "ip_mask (IPv4 a b c d) (cidr_bytes 4 k) = ip_and [a, b, c, d] (cidr_bytes 4 k)"
      by (simp add: ip_mask_def IPv4_def v4InV6Prefix_def)
    ultimately show thesis using v4 ip4 by simp
  next
    case None
    have "k \<le> 128" "n = \<lparr>IP = ip_mask ip (cidr_bytes 16 k), Mask = cidr_bytes 16 k\<rparr>"
      using assms None d by (auto simp: ParseCIDR_def addr_def [symmetric] ms_def [symmetric] Let_def CIDRMask_def split: if_splits option.splits)
    then show thesis using v6 by simp
  qed
qed

lemma masked_not_v4:
  assumes "k < 32"
  shows "To4 (ip_mask ip (cidr_bytes 16 k)) = None"
proof -
  let ?m = "cidr_bytes 16 k"
  have z: "?m ! 10 = 0" using assms by (simp add: cidr_bytes_nth_zero)
  have "\<not> list_all (\<lambda>b. b = 0xff) (take 12 ?m)"
  proof
    assume "list_all (\<lambda>b. b = 0xff) (take 12 ?m)"
    then have "take 12 ?m ! 10 = 0xff" by (simp add: list_all_length)
    with z show False by simp
  qed
  then have ip: "ip_mask ip ?m = (if length ip = 16 then ip_and ip ?m else [])"
    by (auto simp: ip_mask_def)
  have "take 12 (ip_and ip ?m) \<noteq> v4InV6Prefix" if "length ip = 16"
  proof
    assume "take 12 (ip_and ip ?m) = v4InV6Prefix"
    then have "take 12 (ip_and ip ?m) ! 10 = v4InV6Prefix ! 10" by simp
    then have "ip_and ip ?m ! 10 = 0xff" by (simp add: v4InV6Prefix_def)
    moreover have "ip_and ip ?m ! 10 = 0" using that z by (simp add: ip_and_def)
    ultimately show False by simp
  qed
  then show ?thesis by (simp add: ip To4_def)
qed

lemma masked_aligned:
  assumes "k \<le> 32" "length ip = 4"
  shows "aligned (ip_num (ip_and ip (cidr_bytes 4 k))) k"
proof -
  let ?w = "ip_num (ip_and ip (cidr_bytes 4 k))"
  have "uint32_bytes ?w = ip_and ip (cidr_bytes 4 k)" using assms(2) by (simp add: bytes_ip_num)
  then have bits: "map (\<lambda>j. bit ?w (31 - j)) [0..<32] = take k (bits_of ip) @ replicate (32 - k) False"
    using bits_of_masked [of k ip] bits_uint32_bytes [of ?w] assms by simp
  have "\<not> bit ?w m" if m: "m < 32 - k" for m
  proof -
    have a: "31 - (31 - m) = m" "31 - m < 32" "\<not> 31 - m < k" "31 - m - k < 32 - k" using m assms(1) by auto
    have "map (\<lambda>j. bit ?w (31 - j)) [0..<32] ! (31 - m) = bit ?w m" using a(1,2) by (simp only: nth_map length_upt nth_upt diff_zero add_0)
    moreover have "(take k (bits_of ip) @ replicate (32 - k) False) ! (31 - m) = False"
      using a assms by (simp add: nth_append)
    ultimately show ?thesis unfolding bits by blast
  qed
  then have "take_bit (32 - k) ?w = 0"
    by (intro bit_eqI) (auto simp: bit_take_bit_iff)
  then have "take_bit (32 - k) (unat ?w) = 0" using unsigned_take_bit_eq [of "32 - k" ?w, where 'a = nat] by simp
  then show ?thesis by (simp add: aligned_def take_bit_eq_mod)
qed

lemma parsed_net32:
  assumes "ParseCIDR s = Some (ip, n)" "fst (mask_size (Mask n)) < 32" "ipv4ToUint32 (IP n) = Inr w"
  shows "n = net32 w (fst (mask_size (Mask n))) \<and> aligned w (fst (mask_size (Mask n)))"
  using assms(1)
proof (cases rule: ParseCIDR_forms)
  case (v4 k a b c d)
  then have "fst (mask_size (Mask n)) = k" by (simp add: mask_size_cidr)
  moreover have "w = ip_num (ip_and [a, b, c, d] (cidr_bytes 4 k))"
    using v4 assms(3) by (simp add: ipv4ToUint32_4)
  ultimately show ?thesis
    using v4 masked_aligned [of k "[a, b, c, d]"] bytes_ip_num [of "ip_and [a, b, c, d] (cidr_bytes 4 k)"] by (simp add: net32_def)
next
  case (v6 k)
  then have "fst (mask_size (Mask n)) = k" by (simp add: mask_size_cidr)
  then have "To4 (IP n) = None" using masked_not_v4 [of k ip] v6 assms(2) by simp
  then show ?thesis using assms(3) by (simp add: ipv4ToUint32_def)
qed

section \<open>The module after New\<close>

lemma ipam_New_pods:
  assumes "ipam_New h config = Inr i"
  shows "convertConfigNotation (PodSubnetCIDR config) (PodNetworkPrefixLen config) h = Inr (podSubnetIPPrefix i, podNetworkIPPrefix i)"
    and "assignedPodIPs i = []"
    and "\<exists>p. ipv4ToUint32 (IP (podNetworkIPPrefix i)) = Inr p \<and> podNetworkGatewayIP i = uint32ToIpv4 (p + of_nat gatewayPodSeqID)"
  using assms
  by (auto simp: ipam_New_def initializePodsIPAM_def initializeVSwitchIPAM_def initializeHostNodeIPAM_def split: sum.splits option.splits)

lemma map_sum_Inr: "map_sum f g x = Inr y \<longleftrightarrow> (\<exists>z. x = Inr z \<and> g z = y)"
  by (cases x) auto

lemma convertConfigNotation_net32:
  assumes "convertConfigNotation cidr nl h = Inr (subnet, network)" "nl \<le> 32"
  obtains s sl p where "subnet = net32 s sl" "sl < unat nl" "aligned s sl" "network = net32 p (unat nl)" "aligned p (unat nl)"
    "unat p = unat s + (unat h mod 2 ^ (unat nl - sl)) * 2 ^ (32 - unat nl)"
proof -
  have nl: "unat nl \<le> 32" using assms(2) by (simp add: word_le_nat_alt)
  obtain ip where parse: "ParseCIDR cidr = Some (ip, subnet)"
    and gt: "\<not> nl \<le> of_nat (fst (mask_size (Mask subnet)))" and app: "applyHostID subnet h nl = Inr network"
    using assms(1) by (auto simp: convertConfigNotation_def Let_def map_sum_Inr split: option.splits if_splits prod.splits)
  let ?sl = "fst (mask_size (Mask subnet))"
  have "?sl \<le> 128"
    using parse by (cases rule: ParseCIDR_forms) (simp_all add: mask_size_cidr)
  then have sl: "?sl < unat nl" using gt by (simp add: word_le_nat_alt unat_of_nat)
  obtain s where "ipv4ToUint32 (IP subnet) = Inr s"
    using app by (auto simp: applyHostID_def Let_def split: sum.splits)
  then have sub: "subnet = net32 s ?sl" "aligned s ?sl"
    using parsed_net32 [OF parse] sl nl by auto
  obtain p where "applyHostID (net32 s ?sl) h nl = Inr (net32 p (unat nl))"
    "unat p = unat s + (unat h mod 2 ^ (unat nl - ?sl)) * 2 ^ (32 - unat nl)" "aligned p (unat nl)"
    using applyHostID_net32 [OF sl nl sub(2)] by blast
  with app sub sl that show thesis by simp
qed

lemma newIP_4 [simp]: "length ip = 4 \<Longrightarrow> newIP ip = Some ip"
  by (auto simp: newIP_def length_4 To4_def IPv4_def v4InV6Prefix_def)

lemma newIPNet_net32: "newIPNet (net32 p len) = Some (net32 p len)"
proof -
  obtain a b c d where "cidr_bytes 4 len = [a, b, c, d]" using length_4 [of "cidr_bytes 4 len"] by auto
  then show ?thesis by (simp add: newIPNet_def net32_def)
qed

text \<open>Numbers of a network of \<open>host_part_bound\<close>.\<close>

lemma in_net32_sub:
  assumes "sl < nl" "nl \<le> 32" "aligned s sl" "unat p = unat s + H * 2 ^ (32 - nl)" "H < 2 ^ (nl - sl)" "in_net32 p nl w"
  shows "in_net32 s sl w"
proof -
  have S: "unat s mod 2 ^ (32 - sl) = 0" "unat s < 2 ^ 32"
    using assms(3) unsigned_less [of s, where 'a = nat] by (simp_all add: aligned_def)
  note b = host_part_bound [OF assms(1,2) S assms(5)]
  have "(2 :: nat) ^ (32 - sl) = 2 ^ (32 - nl) * 2 ^ (nl - sl)"
    using assms(1,2) by (simp add: power_add [symmetric])
  then have "n div 2 ^ (32 - sl) = n div 2 ^ (32 - nl) div 2 ^ (nl - sl)" for n :: nat
    by (simp only: div_mult2_eq)
  then show ?thesis using assms(4,6) b(2) by (simp add: in_net32_def)
qed

lemma in_net32_host:
  assumes "sl < nl" "nl \<le> 32" "aligned s sl"
    and "unat p1 = unat s + H1 * 2 ^ (32 - nl)" "H1 < 2 ^ (nl - sl)" "unat p2 = unat s + H2 * 2 ^ (32 - nl)" "H2 < 2 ^ (nl - sl)"
    and "in_net32 p1 nl w" "in_net32 p2 nl w"
  shows "H1 = H2"
proof -
  have S: "unat s mod 2 ^ (32 - sl) = 0" "unat s < 2 ^ 32"
    using assms(3) unsigned_less [of s, where 'a = nat] by (simp_all add: aligned_def)
  show ?thesis
    using host_part_bound(4) [OF assms(1,2) S assms(5)] host_part_bound(4) [OF assms(1,2) S assms(7)] assms(4,6,8,9)
    by (simp add: in_net32_def)
qed

lemma in_net32_seq:
  assumes "aligned p len" "len \<le> 32" "j < 2 ^ (32 - len)"
  shows "in_net32 p len (p + of_nat j)" "unat (p + of_nat j) = unat p + j"
proof -
  let ?k = "(2 :: nat) ^ (32 - len)"
  obtain q where q: "unat p = ?k * q" using assms(1) by (auto simp: aligned_def mod_eq_0_iff_dvd)
  have e: "(2 :: nat) ^ 32 = ?k * 2 ^ len" using assms(2) by (simp add: power_add [symmetric])
  have "?k * q < ?k * 2 ^ len" using unsigned_less [of p, where 'a = nat] unfolding q [symmetric] e [symmetric] by simp
  then have "Suc q \<le> 2 ^ len" by simp
  then have "?k * Suc q \<le> ?k * 2 ^ len" by (rule mult_le_mono2)
  then have b: "unat p + j < 2 ^ 32" using assms(3) q e by simp
  have "p + of_nat j = of_nat (unat p + j)" by simp
  then show u: "unat (p + of_nat j) = unat p + j" using b by (simp only: unat_of_nat) simp
  show "in_net32 p len (p + of_nat j)" using assms(3) unfolding in_net32_def u q by simp
qed

text \<open>C18: when \<^verbatim>\<open>New\<close> accepts a configuration with a pod network prefix of at most 32 bits, the pod network of the host
  lies within the pod subnet and is what every other host computes with \<^verbatim>\<open>OtherHostPodNetwork\<close>; two hosts whose
  identifiers differ in the bits left for the host have disjoint networks; and the gateway is in the network
  when the prefix leaves at least one bit.\<close>

theorem pod_networks:
  assumes "ipam_New h1 config = Inr i1" "ipam_New h2 config = Inr i2" "PodNetworkPrefixLen config \<le> 32"
  defines "bits \<equiv> unat (PodNetworkPrefixLen config) - fst (mask_size (Mask (podSubnetIPPrefix i1)))"
  shows "OtherHostPodNetwork i1 h2 = Some (Inr (podNetworkIPPrefix i2)) \<and>
    (contains (podNetworkIPPrefix i1) ip \<longrightarrow> contains (podSubnetIPPrefix i1) ip) \<and>
    (contains (podNetworkIPPrefix i1) ip \<and> contains (podNetworkIPPrefix i2) ip \<longrightarrow> unat h1 mod 2 ^ bits = unat h2 mod 2 ^ bits) \<and>
    (PodNetworkPrefixLen config < 32 \<longrightarrow> contains (podNetworkIPPrefix i1) (podNetworkGatewayIP i1))"
proof -
  let ?nl = "PodNetworkPrefixLen config"
  have nl: "unat ?nl \<le> 32" using assms(3) by (simp add: word_le_nat_alt)
  obtain s sl p1 where 1: "podSubnetIPPrefix i1 = net32 s sl" "sl < unat ?nl" "aligned s sl"
    "podNetworkIPPrefix i1 = net32 p1 (unat ?nl)" "aligned p1 (unat ?nl)"
    "unat p1 = unat s + (unat h1 mod 2 ^ (unat ?nl - sl)) * 2 ^ (32 - unat ?nl)"
    using convertConfigNotation_net32 [OF ipam_New_pods(1) [OF assms(1)] assms(3)] by blast
  have sub: "podSubnetIPPrefix i2 = podSubnetIPPrefix i1"
    using ipam_New_pods(1) [OF assms(1)] ipam_New_pods(1) [OF assms(2)]
    by (auto simp: convertConfigNotation_def Let_def map_sum_Inr split: option.splits if_splits)
  have sl: "sl \<le> 32" using 1(2) nl by simp
  have bits: "bits = unat ?nl - sl" using sl by (simp add: bits_def 1(1) net32_prefix)
  obtain p2 where p2: "applyHostID (net32 s sl) h2 ?nl = Inr (net32 p2 (unat ?nl))"
    "unat p2 = unat s + (unat h2 mod 2 ^ (unat ?nl - sl)) * 2 ^ (32 - unat ?nl)" "aligned p2 (unat ?nl)"
    using applyHostID_net32 [OF 1(2) nl 1(3)] by blast
  have n2: "podNetworkIPPrefix i2 = net32 p2 (unat ?nl)"
    using ipam_New_pods(1) [OF assms(2)] p2(1) sub 1(1)
    by (auto simp: convertConfigNotation_def Let_def map_sum_Inr split: option.splits if_splits)
  have other: "OtherHostPodNetwork i1 h2 = Some (Inr (podNetworkIPPrefix i2))"
    using p2(1) nl by (simp add: OtherHostPodNetwork_def other_network_def 1(1,4) net32_prefix n2 newIPNet_net32)
  have H: "unat h mod 2 ^ (unat ?nl - sl) < 2 ^ (unat ?nl - sl)" for h :: uint8 by simp
  have inside: "contains (podSubnetIPPrefix i1) ip" if "contains (podNetworkIPPrefix i1) ip"
    using that in_net32_sub [OF 1(2) nl 1(3,6) H] unfolding 1(1,4) contains_net32 [OF nl] contains_net32 [OF sl] by blast
  have same: "unat h1 mod 2 ^ bits = unat h2 mod 2 ^ bits"
    if "contains (podNetworkIPPrefix i1) ip" "contains (podNetworkIPPrefix i2) ip"
    using that in_net32_host [OF 1(2) nl 1(3,6) H p2(2) H] unfolding 1(4) n2 contains_net32 [OF nl] bits by blast
  have gw: "contains (podNetworkIPPrefix i1) (podNetworkGatewayIP i1)" if "?nl < 32"
  proof -
    have "0 < 32 - unat ?nl" using that by (simp add: word_less_nat_alt)
    then have "(1 :: nat) < 2 ^ (32 - unat ?nl)" by (intro one_less_power) simp_all
    then have "in_net32 p1 (unat ?nl) (p1 + of_nat 1)" using in_net32_seq [OF 1(5) nl] by blast
    moreover have "podNetworkGatewayIP i1 = uint32_bytes (p1 + of_nat 1)"
      using ipam_New_pods(3) [OF assms(1)] by (auto simp: 1(4) net32_def ipv4ToUint32_4 gatewayPodSeqID_def)
    ultimately show ?thesis using nl by (simp only: 1(4) contains_net32_bytes)
  qed
  show ?thesis using other inside same gw by blast
qed

definition ex_config :: ipam_config where
  "ex_config = \<lparr>PodSubnetCIDR = ''10.1.0.0/16'', PodNetworkPrefixLen = 24, VSwitchSubnetCIDR = ''172.30.0.0/16'',
     VSwitchNetworkPrefixLen = 24, HostNodeSubnetCidr = ''192.168.16.0/24''\<rparr>"

lemmas ipam_eval = ex_config_def ipam_New_def initializePodsIPAM_def initializeVSwitchIPAM_def initializeHostNodeIPAM_def
  convertConfigNotation_def applyHostID_def ipv4ToUint32_def uint32ToIpv4Mask_def uint32_bytes_def convertToHostIPPart_def

lemma ex_New:
  "\<exists>i. ipam_New 1 ex_config = Inr i \<and> fst (mask_size (Mask (podSubnetIPPrefix i))) = 16"
  "\<exists>i. ipam_New 2 ex_config = Inr i"
  by (simp_all add: ipam_eval go_eval)

lemma pod_networks_witness:
  "\<exists>i1 i2. ipam_New 1 ex_config = Inr i1 \<and> ipam_New 2 ex_config = Inr i2 \<and>
     OtherHostPodNetwork i1 2 = Some (Inr (podNetworkIPPrefix i2)) \<and>
     \<not> (contains (podNetworkIPPrefix i1) [10, 1, 1, 7] \<and> contains (podNetworkIPPrefix i2) [10, 1, 1, 7])"
proof -
  obtain i1 where i1: "ipam_New 1 ex_config = Inr i1" "fst (mask_size (Mask (podSubnetIPPrefix i1))) = 16"
    using ex_New(1) by blast
  obtain i2 where i2: "ipam_New 2 ex_config = Inr i2" using ex_New(2) by blast
  have "PodNetworkPrefixLen ex_config \<le> 32" by (simp add: ex_config_def)
  from pod_networks [OF i1(1) i2 this, of "[10, 1, 1, 7]"] i1 i2 show ?thesis
    by (simp add: ex_config_def)
qed

end
