(* ===== verification/IpamPool.thy ===== *)
theory IpamPool
  imports IpamNets
begin

text \<open>
  The pool of pod addresses of the IPAM module under any sequence of allocations and releases.
\<close>

section \<open>The search for a free address\<close>

lemma next_seq_Some:
  "next_seq asg p m j = Some k \<Longrightarrow> j \<le> k \<and> k < m \<and> k \<noteq> gatewayPodSeqID \<and> map_of asg (p + of_nat k) = None"
proof (induction asg p m j rule: next_seq.induct)
  case (1 asg p m j)
  then show ?case
    using next_seq.simps [of asg p m j] by (auto split: if_splits)
qed

lemma next_seq_None:
  "next_seq asg p m j = None \<Longrightarrow> j \<le> k \<Longrightarrow> k < m \<Longrightarrow> k \<noteq> gatewayPodSeqID \<Longrightarrow> map_of asg (p + of_nat k) \<noteq> None"
proof (induction asg p m j rule: next_seq.induct)
  case (1 asg p m j)
  have j: "j < m" using 1 by simp
  have taken: "j = gatewayPodSeqID \<or> map_of asg (p + of_nat j) \<noteq> None"
    using 1(3) j next_seq.simps [of asg p m j] by (metis option.distinct(1))
  have rest: "next_seq asg p m (j + 1) = None"
    using 1(3) j taken next_seq.simps [of asg p m j] by metis
  show ?case
  proof (cases "j = k")
    case True
    with taken 1(6) show ?thesis by simp
  next
    case False
    with 1(4) have "j + 1 \<le> k" by simp
    with taken 1(1,2) j rest 1(5,6) show ?thesis by (cases "j = gatewayPodSeqID") simp_all
  qed
qed

section \<open>The invariant\<close>

inductive ipam_reach :: "uint8 \<Rightarrow> ipam_config \<Rightarrow> ipam \<Rightarrow> bool" for h config where
  start: "ipam_New h config = Inr i \<Longrightarrow> ipam_reach h config i"
| alloc: "ipam_reach h config i \<Longrightarrow> NextPodIP i podID = (i', res) \<Longrightarrow> ipam_reach h config i'"
| release: "ipam_reach h config i \<Longrightarrow> ReleasePodIP i podID = (i', err) \<Longrightarrow> ipam_reach h config i'"

definition pool_ok :: "nat \<Rightarrow> uint32 \<Rightarrow> ipam \<Rightarrow> bool" where
  "pool_ok len p i \<longleftrightarrow> len \<le> 32 \<and> podNetworkIPPrefix i = net32 p len \<and> aligned p len \<and>
     podNetworkGatewayIP i = uint32_bytes (p + 1) \<and> distinct (map fst (assignedPodIPs i)) \<and>
     (\<forall>(a, podID)\<in>set (assignedPodIPs i). podID \<noteq> [] \<and> a \<in> (\<lambda>j. p + of_nat j) ` {2..<2 ^ (32 - len)})"

lemma pool_ok_New:
  assumes "ipam_New h config = Inr i" "PodNetworkPrefixLen config \<le> 32"
  shows "\<exists>p. pool_ok (unat (PodNetworkPrefixLen config)) p i"
proof -
  obtain p where p: "podNetworkIPPrefix i = net32 p (unat (PodNetworkPrefixLen config))" "aligned p (unat (PodNetworkPrefixLen config))"
    using convertConfigNotation_net32 [OF ipam_New_pods(1) [OF assms(1)] assms(2)] by blast
  have "podNetworkGatewayIP i = uint32_bytes (p + 1)"
    using ipam_New_pods(3) [OF assms(1)] by (auto simp: p net32_def ipv4ToUint32_4 gatewayPodSeqID_def)
  with p assms(2) ipam_New_pods(2) [OF assms(1)] show ?thesis
    by (auto simp: pool_ok_def word_le_nat_alt)
qed

lemma pool_numbers: "pool_ok len p i \<Longrightarrow> ipv4ToUint32 (IP (podNetworkIPPrefix i)) = Inr p \<and> mask_size (Mask (podNetworkIPPrefix i)) = (len, 32)"
  by (simp add: pool_ok_def net32_prefix) (simp add: net32_def ipv4ToUint32_4)

lemma NextPodIP_pool:
  assumes "pool_ok len p i" "podID \<noteq> []"
  shows "NextPodIP i podID =
    (case next_seq (assignedPodIPs i) p (2 ^ (32 - len)) 1 of
       Some j \<Rightarrow> (i\<lparr>assignedPodIPs := AList.update (p + of_nat j) podID (assignedPodIPs i)\<rparr>, Inr (uint32_bytes (p + of_nat j)))
     | None \<Rightarrow> (i, Inl (NoFreeIP (podNetworkIPPrefix i))))"
  using assms(2) pool_numbers [OF assms(1)] by (simp add: NextPodIP_def Let_def split: option.split)

lemma update_fresh: "map_of l k = None \<Longrightarrow> AList.update k v l = l @ [(k, v)]"
  by (induction l) auto

lemma set_delete: "distinct (map fst l) \<Longrightarrow> set (AList.delete k l) = {(a, b) \<in> set l. a \<noteq> k}"
  by (auto simp: AList.delete_eq)

lemma pool_ok_Next:
  assumes "pool_ok len p i" "NextPodIP i podID = (i', res)"
  shows "pool_ok len p i'"
proof (cases "podID = []")
  case False
  show ?thesis
  proof (cases "next_seq (assignedPodIPs i) p (2 ^ (32 - len)) 1")
    case (Some j)
    note j = next_seq_Some [OF Some]
    have "i' = i\<lparr>assignedPodIPs := assignedPodIPs i @ [(p + of_nat j, podID)]\<rparr>"
      using NextPodIP_pool [OF assms(1) False] assms(2) Some j by (simp add: update_fresh)
    moreover have "p + of_nat j \<notin> fst ` set (assignedPodIPs i)" using j by (simp add: map_of_eq_None_iff)
    moreover have "j \<in> {2..<2 ^ (32 - len)}" using j by (auto simp: gatewayPodSeqID_def)
    ultimately show ?thesis using assms(1) False by (auto simp: pool_ok_def)
  qed (use assms NextPodIP_pool [OF assms(1) False] in simp)
qed (use assms in \<open>simp add: NextPodIP_def\<close>)

lemma pool_ok_Release:
  assumes "pool_ok len p i" "ReleasePodIP i podID = (i', err)"
  shows "pool_ok len p i'"
  using assms by (auto simp: pool_ok_def ReleasePodIP_def set_delete distinct_delete split: if_splits sum.splits)

lemma ipam_reach_pool:
  assumes "ipam_reach h config i" "PodNetworkPrefixLen config \<le> 32"
  shows "\<exists>p. pool_ok (unat (PodNetworkPrefixLen config)) p i"
  using assms by (induction rule: ipam_reach.induct) (blast intro: pool_ok_New pool_ok_Next pool_ok_Release)+

section \<open>Properties of the pool\<close>

lemma seq_inj: "aligned p len \<Longrightarrow> len \<le> 32 \<Longrightarrow> inj_on (\<lambda>j. p + of_nat j) {..<2 ^ (32 - len)}"
  by (rule inj_onI) (metis in_net32_seq(2) lessThan_iff add_left_cancel)

lemma pool_ok_entry:
  assumes "pool_ok len p i" "(a, podID) \<in> set (assignedPodIPs i)"
  shows "podID \<noteq> []" "contains (podNetworkIPPrefix i) (uint32_bytes a)" "uint32_bytes a \<noteq> podNetworkGatewayIP i"
    "uint32_bytes a \<noteq> IP (podNetworkIPPrefix i)"
proof -
  have ok: "len \<le> 32" "podNetworkIPPrefix i = net32 p len" "aligned p len" "podNetworkGatewayIP i = uint32_bytes (p + 1)"
    using assms(1) by (simp_all add: pool_ok_def)
  obtain j where j: "a = p + of_nat j" "2 \<le> j" "j < 2 ^ (32 - len)" and "podID \<noteq> []"
    using assms by (auto simp: pool_ok_def)
  then show "podID \<noteq> []" by simp
  show "contains (podNetworkIPPrefix i) (uint32_bytes a)"
    unfolding ok(2) contains_net32_bytes [OF ok(1)] j(1) using in_net32_seq(1) [OF ok(3,1) j(3)] .
  have inj: "p + of_nat k = a \<longleftrightarrow> k = j" if "k < 2 ^ (32 - len)" for k
    using inj_on_eq_iff [OF seq_inj [OF ok(3,1)], of k j] that j by simp
  have bytes: "uint32_bytes x = uint32_bytes y \<longleftrightarrow> x = y" for x y
    by (metis ip_num_bytes)
  show "uint32_bytes a \<noteq> podNetworkGatewayIP i"
    unfolding ok(4) bytes using inj [of 1] j(2,3) by auto
  show "uint32_bytes a \<noteq> IP (podNetworkIPPrefix i)"
    using inj [of 0] j(2,3) by (auto simp: ok(2) net32_def bytes)
qed

text \<open>C7: under any sequence of allocations and releases, every assigned address lies in the pod network of the host, is
  neither its network address nor its gateway, belongs to a pod with a non-empty identifier, and is
  assigned only once.\<close>

theorem assigned_addresses_valid:
  assumes "ipam_reach h config i" "PodNetworkPrefixLen config \<le> 32"
  shows "distinct (map fst (assignedPodIPs i)) \<and>
    ((a, podID) \<in> set (assignedPodIPs i) \<longrightarrow>
       podID \<noteq> [] \<and> contains (podNetworkIPPrefix i) (uint32ToIpv4 a) \<and> uint32ToIpv4 a \<noteq> podNetworkGatewayIP i \<and>
       uint32ToIpv4 a \<noteq> IP (podNetworkIPPrefix i))"
proof -
  obtain p where ok: "pool_ok (unat (PodNetworkPrefixLen config)) p i" using ipam_reach_pool [OF assms] by blast
  then show ?thesis using pool_ok_entry [OF ok] by (auto simp: pool_ok_def)
qed

lemma next_seq_full:
  assumes "pool_ok len p i"
  shows "next_seq (assignedPodIPs i) p (2 ^ (32 - len)) 1 = None \<longleftrightarrow> length (assignedPodIPs i) \<ge> 2 ^ (32 - len) - 2"
proof -
  let ?J = "{2..<(2 :: nat) ^ (32 - len)}" and ?f = "\<lambda>j. p + of_nat j" and ?keys = "fst ` set (assignedPodIPs i)"
  have ok: "len \<le> 32" "aligned p len" "distinct (map fst (assignedPodIPs i))" "?keys \<subseteq> ?f ` ?J"
    using assms by (auto simp: pool_ok_def)
  have inj: "inj_on ?f ?J" by (rule inj_on_subset [OF seq_inj [OF ok(2,1)]]) auto
  have card: "card (?f ` ?J) = 2 ^ (32 - len) - 2" using card_image [OF inj] by simp
  have keys: "card ?keys = length (assignedPodIPs i)"
    using ok(3) distinct_card [of "map fst (assignedPodIPs i)"] by simp
  have "next_seq (assignedPodIPs i) p (2 ^ (32 - len)) 1 = None \<longleftrightarrow> ?f ` ?J \<subseteq> ?keys"
  proof
    assume n: "next_seq (assignedPodIPs i) p (2 ^ (32 - len)) 1 = None"
    show "?f ` ?J \<subseteq> ?keys"
    proof
      fix a assume "a \<in> ?f ` ?J"
      then obtain j where "a = ?f j" "2 \<le> j" "j < 2 ^ (32 - len)" by auto
      then show "a \<in> ?keys"
        using next_seq_None [OF n, of j] by (simp add: gatewayPodSeqID_def map_of_eq_None_iff)
    qed
  next
    assume sub: "?f ` ?J \<subseteq> ?keys"
    show "next_seq (assignedPodIPs i) p (2 ^ (32 - len)) 1 = None"
    proof (rule ccontr)
      assume "next_seq (assignedPodIPs i) p (2 ^ (32 - len)) 1 \<noteq> None"
      then obtain j where "next_seq (assignedPodIPs i) p (2 ^ (32 - len)) 1 = Some j" by blast
      from next_seq_Some [OF this] have "j \<in> ?J" "?f j \<notin> ?keys"
        by (auto simp: gatewayPodSeqID_def map_of_eq_None_iff)
      with sub show False by blast
    qed
  qed
  also have "\<dots> \<longleftrightarrow> length (assignedPodIPs i) \<ge> 2 ^ (32 - len) - 2"
  proof
    assume "?f ` ?J \<subseteq> ?keys"
    then show "length (assignedPodIPs i) \<ge> 2 ^ (32 - len) - 2"
      using card_mono [of ?keys "?f ` ?J"] card keys by simp
  next
    assume "length (assignedPodIPs i) \<ge> 2 ^ (32 - len) - 2"
    then show "?f ` ?J \<subseteq> ?keys"
      using card_seteq [OF _ ok(4)] card keys by simp
  qed
  finally show ?thesis .
qed

text \<open>C26: an allocation for a pod with a non-empty identifier succeeds as long as fewer than all addresses of the network
  but two are assigned, and then returns an address that was free and records it for the pod; it fails, with
  the state unchanged, exactly when all are assigned.\<close>

theorem NextPodIP_allocates:
  assumes "ipam_reach h config i" "PodNetworkPrefixLen config \<le> 32" "podID \<noteq> []"
  shows "if length (assignedPodIPs i) < 2 ^ (32 - unat (PodNetworkPrefixLen config)) - 2
    then \<exists>a. map_of (assignedPodIPs i) a = None \<and> contains (podNetworkIPPrefix i) (uint32ToIpv4 a) \<and> uint32ToIpv4 a \<noteq> podNetworkGatewayIP i \<and>
      NextPodIP i podID = (i\<lparr>assignedPodIPs := assignedPodIPs i @ [(a, podID)]\<rparr>, Inr (uint32ToIpv4 a))
    else NextPodIP i podID = (i, Inl (NoFreeIP (podNetworkIPPrefix i)))"
proof -
  let ?len = "unat (PodNetworkPrefixLen config)"
  obtain p where ok: "pool_ok ?len p i" using ipam_reach_pool [OF assms(1,2)] by blast
  note nx = NextPodIP_pool [OF ok assms(3)]
  show ?thesis
  proof (cases "next_seq (assignedPodIPs i) p (2 ^ (32 - ?len)) 1")
    case None
    then show ?thesis using nx next_seq_full [OF ok] by simp
  next
    case (Some j)
    note j = next_seq_Some [OF Some]
    let ?i = "i\<lparr>assignedPodIPs := assignedPodIPs i @ [(p + of_nat j, podID)]\<rparr>"
    have n: "NextPodIP i podID = (?i, Inr (uint32_bytes (p + of_nat j)))"
      using nx Some j by (simp add: update_fresh)
    have "contains (podNetworkIPPrefix i) (uint32_bytes (p + of_nat j))" "uint32_bytes (p + of_nat j) \<noteq> podNetworkGatewayIP i"
      using pool_ok_entry(2,3) [OF pool_ok_Next [OF ok n], of "p + of_nat j" podID] by simp_all
    moreover have "length (assignedPodIPs i) < 2 ^ (32 - ?len) - 2"
      using next_seq_full [OF ok] Some by simp
    ultimately show ?thesis using n j by auto
  qed
qed

text \<open>Releasing the address of a pod that held none before undoes its allocation: the pool is the one before, so that
  the address is handed out again next.\<close>

lemma release_undoes_allocation:
  assumes "NextPodIP i podID = (i', Inr ip)" "podID \<notin> snd ` set (assignedPodIPs i)"
  shows "ReleasePodIP i' podID = (i, None)"
proof -
  obtain p j where i': "i' = i\<lparr>assignedPodIPs := assignedPodIPs i @ [(p + of_nat j, podID)]\<rparr>" and "podID \<noteq> []"
    and fresh: "map_of (assignedPodIPs i) (p + of_nat j) = None"
    using assms(1) next_seq_Some [of "assignedPodIPs i"]
    by (auto simp: NextPodIP_def Let_def update_fresh split: if_splits sum.splits option.splits prod.splits)
  have "findIP (l @ [(a, podID)]) podID = Inr a" if "podID \<notin> snd ` set l" for l a
    using that by (induction l) (auto split: if_splits)
  moreover have "AList.delete a (l @ [(a, podID)]) = l" if "map_of l a = None" for l :: "(uint32 \<times> string) list" and a
    using that by (induction l) (auto simp: AList.delete_eq split: if_splits)
  ultimately show ?thesis
    using \<open>podID \<noteq> []\<close> assms(2) fresh by (simp add: ReleasePodIP_def i')
qed

lemma findIP_key: "findIP l podID = Inr a \<Longrightarrow> a \<in> fst ` set l"
  by (induction l podID rule: findIP.induct) (auto split: if_splits)

lemma findIP_found: "podID \<in> snd ` set l \<Longrightarrow> \<exists>a. findIP l podID = Inr a"
  by (induction l podID rule: findIP.induct) auto

lemma delete_fresh: "a \<notin> fst ` set l \<Longrightarrow> AList.delete a l = l"
  by (induction l) (auto simp: AList.delete_eq)

lemma filter_delete:
  "distinct (map fst l) \<Longrightarrow> findIP l podID = Inr a \<Longrightarrow>
   Suc (length (filter (\<lambda>(x, q). q = podID) (AList.delete a l))) = length (filter (\<lambda>(x, q). q = podID) l)"
proof (induction l podID rule: findIP.induct)
  case (2 x q l podID)
  show ?case
  proof (cases "q = podID")
    case True
    with 2 show ?thesis by (simp add: delete_fresh)
  next
    case False
    then have "x \<noteq> a" using 2 findIP_key [of l podID a] by auto
    with False 2 show ?thesis by simp
  qed
qed simp

text \<open>A pod that was given several addresses (its identifier is the network namespace, and a repeated request is not
  recognised) gets back only one of them per release: the others stay assigned.\<close>

lemma release_frees_one:
  assumes "ipam_reach h config i" "PodNetworkPrefixLen config \<le> 32" "podID \<in> snd ` set (assignedPodIPs i)"
  shows "\<exists>i'. ReleasePodIP i podID = (i', None) \<and>
    Suc (length (filter (\<lambda>(a, q). q = podID) (assignedPodIPs i'))) = length (filter (\<lambda>(a, q). q = podID) (assignedPodIPs i))"
proof -
  obtain p where ok: "pool_ok (unat (PodNetworkPrefixLen config)) p i" using ipam_reach_pool [OF assms(1,2)] by blast
  then have d: "distinct (map fst (assignedPodIPs i))" "podID \<noteq> []" using assms(3) by (auto simp: pool_ok_def)
  obtain a where "findIP (assignedPodIPs i) podID = Inr a" using findIP_found [OF assms(3)] by blast
  then show ?thesis using d filter_delete [OF d(1)] by (simp add: ReleasePodIP_def)
qed

section \<open>Examples\<close>

definition ex_ipam :: ipam where
  "ex_ipam = \<lparr>ipam_hostID = 1, podSubnetIPPrefix = \<lparr>IP = [10, 1, 0, 0], Mask = [255, 255, 0, 0]\<rparr>,
     podNetworkIPPrefix = \<lparr>IP = [10, 1, 1, 0], Mask = [255, 255, 255, 0]\<rparr>, podNetworkGatewayIP = [10, 1, 1, 1],
     assignedPodIPs = [], vSwitchSubnetIPPrefix = \<lparr>IP = [172, 30, 0, 0], Mask = [255, 255, 0, 0]\<rparr>,
     vSwitchNetworkIPPrefix = \<lparr>IP = [172, 30, 1, 0], Mask = [255, 255, 255, 0]\<rparr>, vethVPPEndIP = [172, 30, 1, 1],
     vethHostEndIP = [172, 30, 1, 2], hostNodeNetworkIPPrefix = \<lparr>IP = [192, 168, 16, 0], Mask = [255, 255, 255, 0]\<rparr>\<rparr>"

lemma ex_ipam_New: "ipam_New 1 ex_config = Inr ex_ipam"
  by (simp add: ipam_eval ex_ipam_def new_ipam_def gatewayPodSeqID_def vethVPPEndIPHostSeqID_def vethHostEndIPHostSeqID_def go_eval)

lemma ex_reach: "ipam_reach 1 ex_config ex_ipam"
  by (rule ipam_reach.start [OF ex_ipam_New])

lemma ex_prefix: "PodNetworkPrefixLen ex_config \<le> 32" "unat (PodNetworkPrefixLen ex_config) = 24"
  by (simp_all add: ex_config_def)

lemma ex_Next: "NextPodIP ex_ipam ''ns1'' = (ex_ipam\<lparr>assignedPodIPs := [(0x0A010102, ''ns1'')]\<rparr>, Inr [10, 1, 1, 2])"
proof -
  have "next_seq [] 0x0A010100 256 1 = Some 2"
    by (simp add: next_seq.simps [of "[]" "0x0A010100" 256] gatewayPodSeqID_def)
  then show ?thesis
    by (simp add: NextPodIP_def ex_ipam_def ipv4ToUint32_def uint32_bytes_def go_eval)
qed

lemma ex_reach_Next: "ipam_reach 1 ex_config (ex_ipam\<lparr>assignedPodIPs := [(0x0A010102, ''ns1'')]\<rparr>)"
  by (rule ipam_reach.alloc [OF ex_reach ex_Next])

lemma assigned_addresses_valid_witness:
  "contains (podNetworkIPPrefix ex_ipam) (uint32ToIpv4 0x0A010102) \<and> uint32ToIpv4 0x0A010102 \<noteq> podNetworkGatewayIP ex_ipam"
  using assigned_addresses_valid [OF ex_reach_Next ex_prefix(1), of "0x0A010102" "''ns1''"] by simp

lemma NextPodIP_allocates_witness:
  "\<exists>a. contains (podNetworkIPPrefix ex_ipam) (uint32ToIpv4 a) \<and>
     NextPodIP ex_ipam ''ns1'' = (ex_ipam\<lparr>assignedPodIPs := [(a, ''ns1'')]\<rparr>, Inr (uint32ToIpv4 a))"
proof -
  have "assignedPodIPs ex_ipam = []" by (simp add: ex_ipam_def)
  then show ?thesis
    using NextPodIP_allocates [OF ex_reach ex_prefix(1), of "''ns1''"] by (auto simp: ex_prefix(2))
qed

end
