(* ===== verification/NodeId.thy ===== *)
theory NodeId
  imports Prelude
begin

text \<open>
  Allocation of node identifiers, \<^verbatim>\<open>src/plugins/contiv/node_id_allocator.go\<close>. An allocated identifier is an
  entry of the data store under a key made from the identifier. Each access to the data store is one step;
  between two steps other nodes may change the store. The data store is a parameter: what its operations
  return is an argument of the allocator, and the cluster of allocators works on one shared map of entries.
\<close>

section \<open>Keys\<close>

text \<open>\<^verbatim>\<open>strconv.Atoi\<close>: an optional sign and decimal digits, in the range of a 64-bit integer.\<close>

fun digits_val :: "string \<Rightarrow> nat \<Rightarrow> nat option" where
  "digits_val [] n = Some n"
| "digits_val (c # cs) n =
     (let d = of_char c in
      if 48 \<le> d \<and> d \<le> (57 :: nat) then digits_val cs (10 * n + (d - 48)) else None)"

definition Atoi :: "string \<Rightarrow> int option" where
  "Atoi s =
     (let neg = (case s of c # _ \<Rightarrow> c = CHR ''-'' | [] \<Rightarrow> False);
          plus = (case s of c # _ \<Rightarrow> c = CHR ''+'' | [] \<Rightarrow> False);
          ds = (if neg \<or> plus then tl s else s)
      in if ds = [] then None
         else case digits_val ds 0 of
                None \<Rightarrow> None
              | Some n \<Rightarrow>
                  if neg then (if n \<le> 2 ^ 63 then Some (- int n) else None)
                  else if n < 2 ^ 63 then Some (int n) else None)"

datatype id_error = errInvalidKey | errUnableToAllocateID | errNoIDallocated | errAtoi string | errStore string

definition allocatedIDsKeyPrefix :: string where
  "allocatedIDsKeyPrefix = ''allocatedIDs/''"

definition maxAttempts :: nat where
  "maxAttempts = 10"

definition createKey :: "uint32 \<Rightarrow> string" where
  "createKey index = allocatedIDsKeyPrefix @ itoa (unat index)"

definition extractIndexFromKey :: "string \<Rightarrow> id_error + int" where
  "extractIndexFromKey key =
     (if has_prefix key allocatedIDsKeyPrefix then
        (case Atoi (trim_prefix key allocatedIDsKeyPrefix) of
           None \<Rightarrow> Inl (errAtoi key)
         | Some i \<Rightarrow> Inr i)
      else Inl errInvalidKey)"

section \<open>The allocator\<close>

text \<open>An entry of the store, and the allocator of one node.\<close>

record uid_identifier =
  Id_Name :: string
  Id_Id :: uint32

record idAllocator =
  serviceLabel :: string
  allocated :: bool
  ia_ID :: uint32

definition newIDAllocator :: "string \<Rightarrow> idAllocator" where
  "newIDAllocator label = \<lparr>serviceLabel = label, allocated = False, ia_ID = 0\<rparr>"

fun findFirst_loop :: "int list \<Rightarrow> int \<Rightarrow> int" where
  "findFirst_loop [] res = res"
| "findFirst_loop (v # ids) res = (if res = v then findFirst_loop ids (res + 1) else res)"

definition findFirstAvailableIndex :: "int list \<Rightarrow> int" where
  "findFirstAvailableIndex ids = findFirst_loop ids 1"

fun listIDs_loop :: "string list \<Rightarrow> int list \<Rightarrow> id_error + int list" where
  "listIDs_loop [] ids = Inr ids"
| "listIDs_loop (key # keys) ids =
     (case extractIndexFromKey key of
        Inl err \<Rightarrow> Inl err
      | Inr i \<Rightarrow> listIDs_loop keys (ids @ [i]))"

definition listAllIDs :: "string + string list \<Rightarrow> id_error + int list" where
  "listAllIDs listed = (case listed of Inl err \<Rightarrow> Inl (errStore err) | Inr keys \<Rightarrow> listIDs_loop keys [])"

text \<open>The values of the store: an error for a value that does not decode.\<close>

fun findEntry_loop :: "(string + uid_identifier) list \<Rightarrow> string \<Rightarrow> id_error + uid_identifier option" where
  "findEntry_loop [] label = Inr None"
| "findEntry_loop (kv # kvs) label =
     (case kv of
        Inl err \<Rightarrow> Inl (errStore err)
      | Inr item \<Rightarrow> if Id_Name item = label then Inr (Some item) else findEntry_loop kvs label)"

definition findExistingEntry :: "string + (string + uid_identifier) list \<Rightarrow> string \<Rightarrow> id_error + uid_identifier option" where
  "findExistingEntry vals label =
     (case vals of Inl err \<Rightarrow> Inl (errStore err) | Inr kvs \<Rightarrow> findEntry_loop kvs label)"

text \<open>What the data store answers to one call of \<^verbatim>\<open>getID\<close>: the listed values, the keys listed in each
  attempt, and the result of \<^verbatim>\<open>PutIfNotExists\<close> in each attempt.\<close>

record store_answers =
  list_values :: "string + (string + uid_identifier) list"
  list_keys :: "nat \<Rightarrow> string + string list"
  put_result :: "nat \<Rightarrow> string \<Rightarrow> uid_identifier \<Rightarrow> string + bool"

definition writeIfNotExists :: "store_answers \<Rightarrow> nat \<Rightarrow> idAllocator \<Rightarrow> uint32 \<Rightarrow> string + bool" where
  "writeIfNotExists store k ia i = put_result store k (createKey i) \<lparr>Id_Name = serviceLabel ia, Id_Id = i\<rparr>"

function alloc_loop :: "store_answers \<Rightarrow> idAllocator \<Rightarrow> nat \<Rightarrow> idAllocator \<times> (id_error + uint8)" where
  "alloc_loop store ia attempts =
     (case listAllIDs (list_keys store attempts) of
        Inl err \<Rightarrow> (ia, Inl err)
      | Inr ids \<Rightarrow>
          let ia' = ia\<lparr>ia_ID := of_int (findFirstAvailableIndex (sort ids))\<rparr>
          in (case writeIfNotExists store attempts ia' (ia_ID ia') of
                Inl err \<Rightarrow> (ia', Inl (errStore err))
              | Inr True \<Rightarrow> (ia'\<lparr>allocated := True\<rparr>, Inr (ucast (ia_ID ia')))
              | Inr False \<Rightarrow>
                  if attempts + 1 > maxAttempts then (ia', Inl errUnableToAllocateID)
                  else alloc_loop store ia' (attempts + 1)))"
  by pat_completeness auto
termination
  by (relation "measure (\<lambda>(store, ia, attempts). maxAttempts - attempts)") auto

declare alloc_loop.simps [simp del]

definition getID :: "store_answers \<Rightarrow> idAllocator \<Rightarrow> idAllocator \<times> (id_error + uint8)" where
  "getID store ia =
     (if allocated ia then (ia, Inr (ucast (ia_ID ia)))
      else case findExistingEntry (list_values store) (serviceLabel ia) of
             Inl err \<Rightarrow> (ia, Inl err)
           | Inr (Some existingEntry) \<Rightarrow>
               (ia\<lparr>allocated := True, ia_ID := Id_Id existingEntry\<rparr>, Inr (ucast (Id_Id existingEntry)))
           | Inr None \<Rightarrow> alloc_loop store ia 0)"

text \<open>Release: the key deleted, if any, and the error; \<^verbatim>\<open>deleted\<close> is the answer of the store.\<close>

definition releaseID :: "string option \<Rightarrow> idAllocator \<Rightarrow> idAllocator \<times> string option \<times> id_error option" where
  "releaseID deleted ia =
     (if \<not> allocated ia then (ia, None, Some errNoIDallocated)
      else case deleted of
             None \<Rightarrow> (ia\<lparr>allocated := False\<rparr>, Some (createKey (ia_ID ia)), None)
           | Some err \<Rightarrow> (ia, Some (createKey (ia_ID ia)), Some (errStore err)))"

section \<open>Keys and indices\<close>

lemma digits_val_append: "digits_val (a @ b) n = Option.bind (digits_val a n) (digits_val b)"
  by (induction a arbitrary: n) (auto simp: Let_def)

lemma digits_val_itoa: "digits_val (itoa n) 0 = Some n"
proof (induction n rule: itoa.induct)
  case (1 n)
  have d: "digits_val [digit_char k] m = Some (10 * m + k)" if "k < 10" for k m
    using that of_char_digit [of k] by (simp add: Let_def)
  show ?case
  proof (cases "n < 10")
    case True
    then show ?thesis using d [of n 0] by (simp add: itoa.simps [of n])
  next
    case False
    then show ?thesis using 1 d [of "n mod 10" "n div 10"] by (simp add: itoa.simps [of n] digits_val_append)
  qed
qed

lemma extract_createKey: "extractIndexFromKey (createKey i) = Inr (int (unat i))"
proof -
  have sign: "(of_char c :: nat) \<noteq> 43 \<and> (of_char c :: nat) \<noteq> 45" if "c \<in> set (itoa n)" for c n
    using itoa_digits [OF that] by auto
  have ne: "hd (itoa n) \<noteq> CHR ''-'' \<and> hd (itoa n) \<noteq> CHR ''+''" for n
    using sign [of "hd (itoa n)" n] by auto
  have "unat i < 2 ^ 63" using unsigned_less [of i, where 'a = nat] by simp
  moreover obtain c cs where "itoa (unat i) = c # cs" "c \<noteq> CHR ''-''" "c \<noteq> CHR ''+''"
    using ne [of "unat i"] itoa_nonempty [of "unat i"] by (cases "itoa (unat i)") simp_all
  ultimately have "Atoi (itoa (unat i)) = Some (int (unat i))"
    using digits_val_itoa [of "unat i"] by (simp add: Atoi_def Let_def)
  then show ?thesis by (simp add: extractIndexFromKey_def createKey_def trim_prefix_def)
qed

lemma createKey_inject: "createKey i = createKey j \<longleftrightarrow> i = j"
proof
  assume "createKey i = createKey j"
  then have "int (unat i) = int (unat j)" using extract_createKey [of i] extract_createKey [of j] by simp
  then show "i = j" by (simp only: of_nat_eq_iff word_unat_eq_iff)
qed simp

lemma listIDs_loop_keys: "listIDs_loop (map createKey is) ids = Inr (ids @ map (\<lambda>i. int (unat i)) is)"
  by (induction "is" arbitrary: ids) (simp_all add: extract_createKey)

lemma findFirst_loop_least:
  assumes "sorted_wrt (<) ids" "\<forall>v\<in>set ids. res \<le> v"
  shows "res \<le> findFirst_loop ids res \<and> findFirst_loop ids res \<notin> set ids \<and> (\<forall>k. res \<le> k \<and> k < findFirst_loop ids res \<longrightarrow> k \<in> set ids)"
  using assms
proof (induction ids res rule: findFirst_loop.induct)
  case (2 v ids res)
  show ?case
  proof (cases "res = v")
    case True
    have "\<forall>w\<in>set ids. res + 1 \<le> w" using 2(2) True by auto
    with 2 True have ih: "res + 1 \<le> findFirst_loop ids (res + 1)" "findFirst_loop ids (res + 1) \<notin> set ids"
      "\<forall>k. res + 1 \<le> k \<and> k < findFirst_loop ids (res + 1) \<longrightarrow> k \<in> set ids" by auto
    have "k = res \<or> res + 1 \<le> k" if "res \<le> k" for k :: int using that by auto
    with ih True show ?thesis by force
  next
    case False
    with 2(2,3) have "v > res" "\<forall>w\<in>set ids. w > res" by force+
    with False show ?thesis by auto
  qed
qed simp

section \<open>Attempts\<close>

lemma alloc_loop_bounded:
  assumes "\<And>k. attempts \<le> k \<Longrightarrow> k \<le> maxAttempts \<Longrightarrow> list_keys s1 k = list_keys s2 k"
    and "\<And>k. attempts \<le> k \<Longrightarrow> k \<le> maxAttempts \<Longrightarrow> put_result s1 k = put_result s2 k"
    and "attempts \<le> maxAttempts"
  shows "alloc_loop s1 ia attempts = alloc_loop s2 ia attempts"
  using assms
proof (induction s1 ia attempts rule: alloc_loop.induct)
  case (1 s1 ia attempts)
  have eq: "list_keys s1 attempts = list_keys s2 attempts" "writeIfNotExists s1 attempts = writeIfNotExists s2 attempts"
    using 1 by (auto simp: writeIfNotExists_def fun_eq_iff)
  show ?case
    unfolding alloc_loop.simps [of s1 ia attempts] alloc_loop.simps [of s2 ia attempts] eq
    using 1 by (auto split: sum.split bool.split simp: eq Let_def)
qed

section \<open>A store that nobody else changes\<close>

definition answers_of :: "(uint32 \<times> string) list \<Rightarrow> store_answers" where
  "answers_of st = \<lparr>list_values = Inr (map (\<lambda>(i, label). Inr \<lparr>Id_Name = label, Id_Id = i\<rparr>) st),
     list_keys = (\<lambda>k. Inr (map (\<lambda>(i, label). createKey i) st)),
     put_result = (\<lambda>k key v. Inr (key \<notin> createKey ` fst ` set st))\<rparr>"

lemma findEntry_absent:
  "label \<notin> snd ` set st \<Longrightarrow> findEntry_loop (map (\<lambda>(i, label). Inr \<lparr>Id_Name = label, Id_Id = i\<rparr>) st) label = Inr None"
  by (induction st) auto

lemma findEntry_present:
  assumes "distinct (map snd st)" "(i, label) \<in> set st"
  shows "findEntry_loop (map (\<lambda>(i, label). Inr \<lparr>Id_Name = label, Id_Id = i\<rparr>) st) label = Inr (Some \<lparr>Id_Name = label, Id_Id = i\<rparr>)"
  using assms by (induction st) force+

lemma alloc_loop_put:
  assumes "listAllIDs (list_keys s k) = Inr ids" "of_int (findFirstAvailableIndex (sort ids)) = i"
    and "put_result s k (createKey i) \<lparr>Id_Name = serviceLabel ia, Id_Id = i\<rparr> = Inr True"
  shows "alloc_loop s ia k = (ia\<lparr>ia_ID := i, allocated := True\<rparr>, Inr (ucast i))"
  using assms by (simp add: alloc_loop.simps [of s ia k] writeIfNotExists_def Let_def)

lemma first_index_word:
  fixes ids :: "uint32 list"
  assumes "distinct ids" "0 \<notin> set ids" "length ids < 2 ^ 32 - 1"
  defines "f \<equiv> findFirstAvailableIndex (sort (map (\<lambda>i. int (unat i)) ids))"
  shows "0 < (of_int f :: uint32) \<and> of_int f \<notin> set ids \<and> (\<forall>k. 0 < k \<and> k < (of_int f :: uint32) \<longrightarrow> k \<in> set ids)"
proof -
  let ?l = "map (\<lambda>i. int (unat i)) ids"
  have dist: "distinct ?l" using assms(1) by (auto simp: distinct_map inj_on_def word_uint_eq_iff)
  have sorted: "sorted_wrt (<) (sort ?l)"
    using dist by (simp add: strict_sorted_iff)
  have pos: "\<forall>v\<in>set (sort ?l). 1 \<le> v"
  proof
    fix v assume "v \<in> set (sort ?l)"
    then obtain i where "i \<in> set ids" "v = int (unat i)" by auto
    then show "1 \<le> v" using assms(2) unat_eq_zero [of i] by (cases "unat i") auto
  qed
  have f: "1 \<le> f" "f \<notin> set ?l" "\<forall>k. 1 \<le> k \<and> k < f \<longrightarrow> k \<in> set ?l"
    using findFirst_loop_least [OF sorted pos] by (simp_all add: f_def findFirstAvailableIndex_def)
  have "{1..<f} \<subseteq> set ?l" using f(3) by auto
  then have "card {1..<f} \<le> length ?l" using card_mono [of "set ?l"] card_length [of ?l] by (meson List.finite_set le_trans)
  then have b: "f < 2 ^ 32" using assms(3) by simp
  have u: "int (unat (of_int f :: uint32)) = f" using f(1) b by (simp add: uint_word_of_int)
  have "inj (\<lambda>i :: uint32. int (unat i))" by (auto simp: inj_def word_uint_eq_iff)
  then have mem: "k \<in> set ids \<longleftrightarrow> int (unat k) \<in> set ?l" for k
    using inj_image_mem_iff [of "\<lambda>i :: uint32. int (unat i)" k "set ids"] by simp
  have "int (unat (of_int f :: uint32)) \<noteq> int (unat (0 :: uint32))" using u f(1) by simp
  then have "0 < (of_int f :: uint32)" by (metis word_gt_0)
  moreover have "of_int f \<notin> set ids" using f(2) u mem by metis
  moreover have "k \<in> set ids" if "0 < k" "k < (of_int f :: uint32)" for k
  proof -
    have "unat k < unat (of_int f :: uint32)" "0 < unat k" using that by (simp_all add: word_less_nat_alt)
    then have "1 \<le> int (unat k) \<and> int (unat k) < f" using u by linarith
    then show ?thesis using f(3) mem by blast
  qed
  ultimately show ?thesis by blast
qed

text \<open>C27: with a store of entries under distinct non-zero identifiers that no other node changes meanwhile, a node without
  an entry is given the smallest positive identifier that is not taken, in one attempt; a node with an entry is
  given the identifier of its entry, and the store is not written.\<close>

theorem getID_allocates:
  assumes "distinct (map fst st)" "distinct (map snd st)" "0 \<notin> fst ` set st" "length st < 2 ^ 32 - 1"
  shows "if label \<in> snd ` set st
    then \<exists>i. (i, label) \<in> set st \<and> getID (answers_of st) (newIDAllocator label) = (\<lparr>serviceLabel = label, allocated = True, ia_ID = i\<rparr>, Inr (ucast i))
    else \<exists>i. getID (answers_of st) (newIDAllocator label) = (\<lparr>serviceLabel = label, allocated = True, ia_ID = i\<rparr>, Inr (ucast i)) \<and>
      0 < i \<and> i \<notin> fst ` set st \<and> (\<forall>k. 0 < k \<and> k < i \<longrightarrow> k \<in> fst ` set st)"
proof (cases "label \<in> snd ` set st")
  case True
  then obtain i where i: "(i, label) \<in> set st" by auto
  from findEntry_present [OF assms(2) i] i True show ?thesis
    by (auto simp: getID_def newIDAllocator_def answers_of_def findExistingEntry_def)
next
  case False
  let ?ids = "map fst st"
  define i where "i = (of_int (findFirstAvailableIndex (sort (map (\<lambda>i. int (unat i)) ?ids))) :: uint32)"
  have i: "0 < i" "i \<notin> set ?ids" "\<forall>k. 0 < k \<and> k < i \<longrightarrow> k \<in> set ?ids"
    using first_index_word [of ?ids] assms by (simp_all add: i_def)
  have keys: "map (\<lambda>(i, label). createKey i) st = map createKey ?ids" by auto
  have ids: "listAllIDs (list_keys (answers_of st) 0) = Inr (map (\<lambda>i. int (unat i)) ?ids)"
    by (simp only: listAllIDs_def answers_of_def store_answers.simps keys sum.case listIDs_loop_keys append_Nil)
  have "createKey i \<notin> createKey ` fst ` set st" using i(2) by (force simp: createKey_inject)
  then have "alloc_loop (answers_of st) (newIDAllocator label) 0 = (\<lparr>serviceLabel = label, allocated = True, ia_ID = i\<rparr>, Inr (ucast i))"
    using alloc_loop_put [OF ids i_def [symmetric], of "newIDAllocator label"] by (simp add: newIDAllocator_def answers_of_def)
  then show ?thesis
    using False i findEntry_absent [OF False] by (simp add: getID_def findExistingEntry_def answers_of_def newIDAllocator_def)
qed

lemma alloc_loop_retry:
  assumes "listAllIDs (list_keys s k) = Inr ids" "\<And>key v. put_result s k key v = Inr False"
  shows "alloc_loop s ia k =
    (if k + 1 > maxAttempts then (ia\<lparr>ia_ID := of_int (findFirstAvailableIndex (sort ids))\<rparr>, Inl errUnableToAllocateID)
     else alloc_loop s (ia\<lparr>ia_ID := of_int (findFirstAvailableIndex (sort ids))\<rparr>) (k + 1))"
  unfolding alloc_loop.simps [of s ia k] assms(1) sum.case Let_def writeIfNotExists_def assms(2) bool.case by (rule refl)

lemma alloc_loop_refused:
  assumes "\<And>k. k \<le> maxAttempts \<Longrightarrow> \<exists>ids. listAllIDs (list_keys s k) = Inr ids"
    and "\<And>k key v. k \<le> maxAttempts \<Longrightarrow> put_result s k key v = Inr False"
  shows "attempts \<le> maxAttempts \<Longrightarrow> snd (alloc_loop s ia attempts) = Inl errUnableToAllocateID"
proof (induction "maxAttempts - attempts" arbitrary: ia attempts)
  case 0
  obtain ids where ids: "listAllIDs (list_keys s attempts) = Inr ids" using assms(1) 0 by blast
  show ?case using 0 alloc_loop_retry [OF ids assms(2), of ia] by simp
next
  case (Suc d)
  obtain ids where ids: "listAllIDs (list_keys s attempts) = Inr ids" using assms(1) Suc by blast
  have "d = maxAttempts - (attempts + 1)" "attempts + 1 \<le> maxAttempts" using Suc(2) by auto
  from Suc(1) [OF this] Suc(2,3) show ?case using alloc_loop_retry [OF ids assms(2), of ia] by simp
qed

text \<open>A call of \<^verbatim>\<open>getID\<close> makes at most eleven attempts, whatever the store answers: the answers to later attempts do not
  matter, and when other nodes take every identifier it tries, eleven times, it returns the error of exhausted
  attempts.\<close>

lemma getID_attempts:
  assumes "list_values s1 = list_values s2" "\<forall>k\<le>maxAttempts. list_keys s1 k = list_keys s2 k \<and> put_result s1 k = put_result s2 k"
  shows "getID s1 ia = getID s2 ia \<and>
    (\<not> allocated ia \<and> findExistingEntry (list_values s1) (serviceLabel ia) = Inr None \<and>
     (\<forall>k\<le>maxAttempts. (\<exists>ids. listAllIDs (list_keys s1 k) = Inr ids) \<and> (\<forall>key v. put_result s1 k key v = Inr False)) \<longrightarrow>
     snd (getID s1 ia) = Inl errUnableToAllocateID)"
proof
  have "alloc_loop s1 ia 0 = alloc_loop s2 ia 0" using assms by (intro alloc_loop_bounded) auto
  then show "getID s1 ia = getID s2 ia" by (simp add: getID_def assms(1) split: sum.split option.split)
  show "\<not> allocated ia \<and> findExistingEntry (list_values s1) (serviceLabel ia) = Inr None \<and>
     (\<forall>k\<le>maxAttempts. (\<exists>ids. listAllIDs (list_keys s1 k) = Inr ids) \<and> (\<forall>key v. put_result s1 k key v = Inr False)) \<longrightarrow>
     snd (getID s1 ia) = Inl errUnableToAllocateID"
    using alloc_loop_refused [of s1 0 ia] by (simp add: getID_def)
qed

lemma getID_allocates_witness:
  "\<exists>i. getID (answers_of [(1, ''a''), (3, ''c'')]) (newIDAllocator ''b'') = (\<lparr>serviceLabel = ''b'', allocated = True, ia_ID = i\<rparr>, Inr (ucast i)) \<and>
     0 < i \<and> i \<notin> {1, 3}"
  using getID_allocates [of "[(1, ''a''), (3, ''c'')]" "''b''"] by (simp del: split_paired_Ex) blast

section \<open>A cluster of nodes\<close>

text \<open>
  Every node runs one allocator. A call of \<^verbatim>\<open>getID\<close> is split at its accesses to the store: the scan for an
  existing entry, then in each attempt the listing of the keys and the conditional write. The node can restart
  at any point, which loses the state of its allocator but not its entry in the store.
\<close>

datatype phase = Idle | Scanned nat | Listed nat "string list"

record cluster =
  entries :: "string \<rightharpoonup> uid_identifier"
  node :: "string \<Rightarrow> idAllocator"
  pc :: "string \<Rightarrow> phase"

definition cluster_init :: cluster where
  "cluster_init = \<lparr>entries = Map.empty, node = newIDAllocator, pc = (\<lambda>_. Idle)\<rparr>"

inductive cluster_step :: "cluster \<Rightarrow> cluster \<Rightarrow> bool" where
  scan_found: "pc c n = Idle \<Longrightarrow> \<not> allocated (node c n) \<Longrightarrow> set vals = ran (entries c) \<Longrightarrow>
    findExistingEntry (Inr (map Inr vals)) n = Inr (Some e) \<Longrightarrow>
    cluster_step c (c\<lparr>node := (node c)(n := (node c n)\<lparr>allocated := True, ia_ID := Id_Id e\<rparr>)\<rparr>)"
| scan_none: "pc c n = Idle \<Longrightarrow> \<not> allocated (node c n) \<Longrightarrow> set vals = ran (entries c) \<Longrightarrow>
    findExistingEntry (Inr (map Inr vals)) n = Inr None \<Longrightarrow>
    cluster_step c (c\<lparr>pc := (pc c)(n := Scanned 0)\<rparr>)"
| list: "pc c n = Scanned k \<Longrightarrow> set keys = dom (entries c) \<Longrightarrow>
    cluster_step c (c\<lparr>pc := (pc c)(n := Listed k keys)\<rparr>)"
| put: "pc c n = Listed k keys \<Longrightarrow> listAllIDs (Inr keys) = Inr ids \<Longrightarrow>
    i = of_int (findFirstAvailableIndex (sort ids)) \<Longrightarrow> entries c (createKey i) = None \<Longrightarrow>
    cluster_step c (c\<lparr>entries := (entries c)(createKey i \<mapsto> \<lparr>Id_Name = n, Id_Id = i\<rparr>),
      node := (node c)(n := (node c n)\<lparr>allocated := True, ia_ID := i\<rparr>), pc := (pc c)(n := Idle)\<rparr>)"
| put_refused: "pc c n = Listed k keys \<Longrightarrow> listAllIDs (Inr keys) = Inr ids \<Longrightarrow>
    i = of_int (findFirstAvailableIndex (sort ids)) \<Longrightarrow> entries c (createKey i) \<noteq> None \<Longrightarrow>
    cluster_step c (c\<lparr>node := (node c)(n := (node c n)\<lparr>ia_ID := i\<rparr>),
      pc := (pc c)(n := if k + 1 > maxAttempts then Idle else Scanned (k + 1))\<rparr>)"
| remove: "pc c n = Idle \<Longrightarrow> releaseID None (node c n) = (ia, Some key, None) \<Longrightarrow>
    cluster_step c (c\<lparr>entries := (entries c)(key := None), node := (node c)(n := ia)\<rparr>)"
| restart: "cluster_step c (c\<lparr>node := (node c)(n := newIDAllocator n), pc := (pc c)(n := Idle)\<rparr>)"

inductive cluster_reach :: "cluster \<Rightarrow> bool" where
  init: "cluster_reach cluster_init"
| step: "cluster_reach c \<Longrightarrow> cluster_step c c' \<Longrightarrow> cluster_reach c'"

definition cluster_inv :: "cluster \<Rightarrow> bool" where
  "cluster_inv c \<longleftrightarrow>
     (\<forall>key e. entries c key = Some e \<longrightarrow> key = createKey (Id_Id e)) \<and>
     (\<forall>n. allocated (node c n) \<longrightarrow> entries c (createKey (ia_ID (node c n))) = Some \<lparr>Id_Name = n, Id_Id = ia_ID (node c n)\<rparr>) \<and>
     (\<forall>n. pc c n \<noteq> Idle \<longrightarrow> \<not> allocated (node c n))"

lemma findEntry_name: "findEntry_loop (map Inr vals) n = Inr (Some e) \<Longrightarrow> e \<in> set vals \<and> Id_Name e = n"
  by (induction vals) (auto split: if_splits)

lemma cluster_invD:
  assumes "cluster_inv c"
  shows "entries c key = Some e \<Longrightarrow> key = createKey (Id_Id e)"
    and "allocated (node c n) \<Longrightarrow> entries c (createKey (ia_ID (node c n))) = Some \<lparr>Id_Name = n, Id_Id = ia_ID (node c n)\<rparr>"
    and "pc c n \<noteq> Idle \<Longrightarrow> \<not> allocated (node c n)"
  using assms by (simp_all add: cluster_inv_def)

lemma cluster_invI:
  assumes "\<And>key e. entries c key = Some e \<Longrightarrow> key = createKey (Id_Id e)"
    and "\<And>n. allocated (node c n) \<Longrightarrow> entries c (createKey (ia_ID (node c n))) = Some \<lparr>Id_Name = n, Id_Id = ia_ID (node c n)\<rparr>"
    and "\<And>n. pc c n \<noteq> Idle \<Longrightarrow> \<not> allocated (node c n)"
  shows "cluster_inv c"
  using assms by (simp add: cluster_inv_def)

lemma cluster_step_inv: "cluster_step c c' \<Longrightarrow> cluster_inv c \<Longrightarrow> cluster_inv c'"
proof (induction rule: cluster_step.induct)
  case (scan_found c n vals e)
  note inv = cluster_invD [OF scan_found.prems]
  have e: "e \<in> ran (entries c)" "Id_Name e = n" using scan_found.hyps(3,4) findEntry_name [of vals n e] by (simp_all add: findExistingEntry_def)
  then obtain key where "entries c key = Some e" by (auto simp: ran_def)
  with inv(1) [OF this] have entry: "entries c (createKey (Id_Id e)) = Some e" by simp
  have "e = \<lparr>Id_Name = n, Id_Id = Id_Id e\<rparr>" using e(2) by (cases e) simp
  with entry have own: "entries c (createKey (Id_Id e)) = Some \<lparr>Id_Name = n, Id_Id = Id_Id e\<rparr>" by simp
  show ?case
  proof (rule cluster_invI)
    fix m assume "pc (c\<lparr>node := (node c)(n := (node c n)\<lparr>allocated := True, ia_ID := Id_Id e\<rparr>)\<rparr>) m \<noteq> Idle"
    then have "pc c m \<noteq> Idle" "m \<noteq> n" using scan_found.hyps(1) by auto
    then show "\<not> allocated (node (c\<lparr>node := (node c)(n := (node c n)\<lparr>allocated := True, ia_ID := Id_Id e\<rparr>)\<rparr>) m)" using inv(3) by simp
  qed (use inv own in \<open>simp_all split: if_splits\<close>)
next
  case (scan_none c n vals)
  note inv = cluster_invD [OF scan_none.prems]
  show ?case by (rule cluster_invI) (use inv scan_none.hyps(2) in \<open>simp_all split: if_splits\<close>)
next
  case (list c n k keys)
  note inv = cluster_invD [OF list.prems]
  show ?case by (rule cluster_invI) (use inv inv(3) [of n] list.hyps(1) in \<open>simp_all split: if_splits\<close>)
next
  case (put c n k keys ids i)
  note inv = cluster_invD [OF put.prems]
  have "createKey (ia_ID (node c m)) \<noteq> createKey i" if "allocated (node c m)" for m
    using inv(2) [OF that] put.hyps(4) by auto
  then show ?case
    using inv by (intro cluster_invI) (clarsimp simp: createKey_inject split: if_splits)+
next
  case (put_refused c n k keys ids i)
  note inv = cluster_invD [OF put_refused.prems]
  have "\<not> allocated (node c n)" using inv(3) [of n] put_refused.hyps(1) by simp
  then show ?case by (intro cluster_invI) (use inv in \<open>simp_all split: if_splits\<close>)
next
  case (remove c n ia key)
  note inv = cluster_invD [OF remove.prems]
  have r: "allocated (node c n)" "ia = (node c n)\<lparr>allocated := False\<rparr>" "key = createKey (ia_ID (node c n))"
    using remove.hyps(2) by (auto simp: releaseID_def split: if_splits)
  have "createKey (ia_ID (node c m)) \<noteq> key" if "m \<noteq> n" "allocated (node c m)" for m
    using inv(2) [OF that(2)] inv(2) [OF r(1)] that(1) r(3) by auto
  then show ?case by (intro cluster_invI) (use inv r(2) in \<open>simp_all split: if_splits\<close>)
next
  case (restart c n)
  note inv = cluster_invD [OF restart.prems]
  show ?case by (rule cluster_invI) (use inv in \<open>simp_all add: newIDAllocator_def split: if_splits\<close>)
qed

lemma cluster_reach_inv: "cluster_reach c \<Longrightarrow> cluster_inv c"
proof (induction rule: cluster_reach.induct)
  case init
  show ?case by (simp add: cluster_inv_def cluster_init_def newIDAllocator_def)
next
  case (step c c')
  then show ?case by (blast intro: cluster_step_inv)
qed


text \<open>A cluster in which one node has allocated its identifier.\<close>

definition ex_a :: cluster where
  "ex_a = \<lparr>entries = [createKey 1 \<mapsto> \<lparr>Id_Name = ''a'', Id_Id = 1\<rparr>],
     node = newIDAllocator(''a'' := \<lparr>serviceLabel = ''a'', allocated = True, ia_ID = 1\<rparr>), pc = (\<lambda>_. Idle)\<rparr>"

lemma ex_a_reach: "cluster_reach ex_a"
proof -
  let ?c1 = "cluster_init\<lparr>pc := (pc cluster_init)(''a'' := Scanned 0)\<rparr>"
  let ?c2 = "?c1\<lparr>pc := (pc ?c1)(''a'' := Listed 0 [])\<rparr>"
  have "cluster_step cluster_init ?c1"
    by (rule cluster_step.scan_none [where vals = "[]"]) (simp_all add: cluster_init_def newIDAllocator_def findExistingEntry_def)
  moreover have "cluster_step ?c1 ?c2"
    by (rule cluster_step.list) (simp_all add: cluster_init_def)
  moreover have "cluster_step ?c2 ex_a"
  proof -
    have "cluster_step ?c2 (?c2\<lparr>entries := (entries ?c2)(createKey 1 \<mapsto> \<lparr>Id_Name = ''a'', Id_Id = 1\<rparr>),
      node := (node ?c2)(''a'' := (node ?c2 ''a'')\<lparr>allocated := True, ia_ID := 1\<rparr>), pc := (pc ?c2)(''a'' := Idle)\<rparr>)"
      by (rule cluster_step.put [where k = 0 and keys = "[]" and ids = "[]"])
        (simp_all add: cluster_init_def listAllIDs_def findFirstAvailableIndex_def)
    moreover have "?c2\<lparr>entries := (entries ?c2)(createKey 1 \<mapsto> \<lparr>Id_Name = ''a'', Id_Id = 1\<rparr>),
      node := (node ?c2)(''a'' := (node ?c2 ''a'')\<lparr>allocated := True, ia_ID := 1\<rparr>), pc := (pc ?c2)(''a'' := Idle)\<rparr> = ex_a"
      by (simp add: ex_a_def cluster_init_def newIDAllocator_def fun_eq_iff)
    ultimately show ?thesis by simp
  qed
  ultimately show ?thesis
    using cluster_reach.init cluster_reach.step by metis
qed


end
