(* ===== verification/Configurator.thy ===== *)
theory Configurator
  imports ContivRule "HOL-Library.Product_Lexorder" "HOL-Library.Multiset"
begin

unbundle bit_operations_syntax

text \<open>
  The policy configurator, \<^verbatim>\<open>src/plugins/policy/configurator\<close>: Contiv policies, the translation
  \<^verbatim>\<open>generateRules\<close> of a list of policies into Contiv rules, and the transaction that renders
  the rules of every pod. \<^verbatim>\<open>generateRules\<close> is shown to implement the meaning of the policies on
  packets, \<^verbatim>\<open>subtractSubnet\<close> the difference of networks, and \<^verbatim>\<open>Commit\<close> to hand each renderer the
  rules of each pod's own policies.
\<close>

section \<open>Policies\<close>

datatype policy_type = PolicyIngress | PolicyEgress | PolicyAll

datatype match_type = MatchIngress | MatchEgress

record port =
  PortProtocol :: protocol
  Number :: uint16

record ip_block =
  Network :: ipnet
  Except :: "ipnet list"

text \<open>The fields \<^verbatim>\<open>Pods\<close> and \<^verbatim>\<open>IPBlocks\<close> are compared with nil, \<^verbatim>\<open>Ports\<close> only by its length.\<close>

record contiv_match =
  Match_Type :: match_type
  Pods :: "pod_id list option"
  IPBlocks :: "ip_block list option"
  Ports :: "port list"

record contiv_policy =
  Policy_ID :: policy_id
  Policy_Type :: policy_type
  Matches :: "contiv_match list"

definition Port_String :: "port \<Rightarrow> string" where
  "Port_String port =
     (let protocol = (if PortProtocol port = UDP then ''UDP'' else ''TCP'') in
      if Number port = 0 then protocol @ '':ANY'' else protocol @ '':'' @ itoa (unat (Number port)))"

text \<open>The result of \<^verbatim>\<open>Cache.LookupPod\<close>: the flag, and the pod data or nil.\<close>

type_synonym pod_lookup = "pod_id \<Rightarrow> bool \<times> pod option"

section \<open>Subtraction of networks\<close>

text \<open>
  The slices of subnets hold pointers. A pointer taken with \<^verbatim>\<open>&block.Network\<close> refers to the
  variable of the loop over the IP blocks, so what it points to is the network of the block that
  the variable holds at the time of the dereference; all other pointers refer to fresh networks.
\<close>

datatype net_ref = BlockNetwork | Fresh ipnet

primrec deref :: "ipnet \<Rightarrow> net_ref \<Rightarrow> ipnet" where
  "deref blk BlockNetwork = blk"
| "deref blk (Fresh n) = n"

text \<open>\<^verbatim>\<open>subnet.IP[bit/8] ^= byte(1 << uint(7-(bit%8)))\<close>\<close>

definition flip_ip_bit :: "nat \<Rightarrow> ip \<Rightarrow> ip option" where
  "flip_ip_bit b ip =
     (if b div 8 < length ip
      then Some (ip[b div 8 := (ip ! (b div 8)) XOR push_bit (7 - b mod 8) 1])
      else None)"

definition split_subnet :: "ipnet \<Rightarrow> nat \<Rightarrow> ipnet option" where
  "split_subnet net2 b =
     (let m = CIDRMask (b + 1) (length (Mask net2) * 8) in
      map_option (\<lambda>ip. \<lparr>IP = ip, Mask = m\<rparr>) (flip_ip_bit b (ip_mask (IP net2) m)))"

definition subtractSubnet :: "ipnet \<Rightarrow> net_ref \<Rightarrow> ipnet \<Rightarrow> net_ref list option" where
  "subtractSubnet blk net1 net2 =
     (let net1MaskSize = fst (mask_size (Mask (deref blk net1)));
          net2MaskSize = fst (mask_size (Mask net2))
      in if net1MaskSize > net2MaskSize then
           (if \<not> contains net2 (IP (deref blk net1)) then Some [net1] else Some [])
         else if net1MaskSize = net2MaskSize then
           (if \<not> ip_equal (IP (deref blk net1)) (IP net2) then Some [net1] else Some [])
         else if \<not> contains (deref blk net1) (IP net2) then Some [net1]
         else map_option (map Fresh) (those (map (split_subnet net2) [net1MaskSize..<net2MaskSize])))"

section \<open>Generating rules\<close>

text \<open>Collect IP addresses of all pod peers.\<close>

fun collect_peers :: "pod_lookup \<Rightarrow> pod_id list \<Rightarrow> (pod_id \<times> ipnet) list option" where
  "collect_peers lookup [] = Some []"
| "collect_peers lookup (peer # pods) =
     (case lookup peer of
        (False, _) \<Rightarrow> collect_peers lookup pods
      | (True, None) \<Rightarrow> None
      | (True, Some peerData) \<Rightarrow>
          if IpAddress peerData = '''' then collect_peers lookup pods
          else (case GetOneHostSubnet (IpAddress peerData) of
                  None \<Rightarrow> collect_peers lookup pods
                | Some peerIPNet \<Rightarrow> map_option ((#) (peer, peerIPNet)) (collect_peers lookup pods)))"

text \<open>Collect all subnets from IPBlocks.\<close>

fun block_subnets :: "ipnet \<Rightarrow> net_ref list \<Rightarrow> ipnet list \<Rightarrow> net_ref list option" where
  "block_subnets blk subnets [] = Some subnets"
| "block_subnets blk subnets (except # es) =
     (case those (map (\<lambda>subnet. subtractSubnet blk subnet except) subnets) of
        None \<Rightarrow> None
      | Some subtracted \<Rightarrow> block_subnets blk (concat subtracted) es)"

fun collect_subnets :: "ip_block list \<Rightarrow> net_ref list option" where
  "collect_subnets [] = Some []"
| "collect_subnets (block # blocks) =
     (case block_subnets (Network block) [BlockNetwork] (Except block) of
        None \<Rightarrow> None
      | Some subnets \<Rightarrow> map_option ((@) subnets) (collect_subnets blocks))"

definition allSubnets :: "ip_block list \<Rightarrow> ipnet list option" where
  "allSubnets blocks = map_option (map (deref (Network (last blocks)))) (collect_subnets blocks)"

definition permit_rule :: "string \<Rightarrow> ipnet \<Rightarrow> ipnet \<Rightarrow> protocol \<Rightarrow> uint16 \<Rightarrow> contiv_rule" where
  "permit_rule rid src dst proto dport =
     \<lparr>ID = rid, Action = ActionPermit, SrcNetwork = src, DestNetwork = dst,
      Protocol = proto, SrcPort = 0, DestPort = dport\<rparr>"

definition deny_rule :: "string \<Rightarrow> protocol \<Rightarrow> contiv_rule" where
  "deny_rule rid proto =
     \<lparr>ID = rid, Action = ActionDeny, SrcNetwork = empty_net, DestNetwork = empty_net,
      Protocol = proto, SrcPort = 0, DestPort = 0\<rparr>"

text \<open>The rules for one network (empty: any address) combined with the ports of the match.\<close>

definition src_of :: "match_type \<Rightarrow> ipnet \<Rightarrow> ipnet" where
  "src_of direction n = (if direction = MatchIngress then n else empty_net)"

definition dst_of :: "match_type \<Rightarrow> ipnet \<Rightarrow> ipnet" where
  "dst_of direction n = (if direction = MatchIngress then empty_net else n)"

definition net_rules :: "match_type \<Rightarrow> string \<Rightarrow> ipnet \<Rightarrow> port list \<Rightarrow> contiv_rule list" where
  "net_rules direction pre n ports =
     (if length ports = 0 then
        [permit_rule (pre @ ''-TCP:ANY'') (src_of direction n) (dst_of direction n) TCP 0,
         permit_rule (pre @ ''-UDP:ANY'') (src_of direction n) (dst_of direction n) UDP 0]
      else
        map (\<lambda>port. permit_rule (pre @ ''-'' @ Port_String port) (src_of direction n) (dst_of direction n)
               (if PortProtocol port = TCP then TCP else UDP) (Number port)) ports)"

definition appendRule :: "contiv_rule list \<Rightarrow> contiv_rule \<Rightarrow> contiv_rule list" where
  "appendRule rules newRule =
     (if list_ex (\<lambda>rule. ID rule = ID newRule) rules then rules else rules @ [newRule])"

definition appendRules :: "contiv_rule list \<Rightarrow> contiv_rule list \<Rightarrow> contiv_rule list" where
  "appendRules rules newRules = fold (\<lambda>newRule rs. appendRule rs newRule) newRules rules"

text \<open>The rules that one match appends, in order, and whether it sets \<^verbatim>\<open>allAllowed\<close>.\<close>

definition match_rules ::
  "pod_lookup \<Rightarrow> match_type \<Rightarrow> policy_id \<Rightarrow> contiv_match \<Rightarrow> (contiv_rule list \<times> bool) option" where
  "match_rules lookup direction pid m =
     (case collect_peers lookup (case Pods m of None \<Rightarrow> [] | Some pods \<Rightarrow> pods) of
        None \<Rightarrow> None
      | Some peers \<Rightarrow>
          (case allSubnets (case IPBlocks m of None \<Rightarrow> [] | Some blocks \<Rightarrow> blocks) of
             None \<Rightarrow> None
           | Some subnets \<Rightarrow>
               let anyL3 = (Pods m = None \<and> IPBlocks m = None);
                   anyRules = (if anyL3 then net_rules direction (ID_String pid) empty_net (Ports m) else []);
                   peerRules = concat (map (\<lambda>(peer, n).
                       net_rules direction (ID_String pid @ ''-'' @ ID_String peer) n (Ports m)) peers);
                   subnetRules = concat (map (\<lambda>n.
                       net_rules direction (ID_String pid @ ''-'' @ ipnet_string n) n (Ports m)) subnets)
               in Some (anyRules @ peerRules @ subnetRules, anyL3 \<and> length (Ports m) = 0)))"

fun matches_loop ::
  "pod_lookup \<Rightarrow> match_type \<Rightarrow> policy_id \<Rightarrow> contiv_match list \<Rightarrow> contiv_rule list \<times> bool \<Rightarrow> (contiv_rule list \<times> bool) option" where
  "matches_loop lookup direction pid [] acc = Some acc"
| "matches_loop lookup direction pid (m # ms) acc =
     (if Match_Type m \<noteq> direction then matches_loop lookup direction pid ms acc
      else case match_rules lookup direction pid m of
             None \<Rightarrow> None
           | Some (new, all) \<Rightarrow>
               matches_loop lookup direction pid ms (appendRules (fst acc) new, snd acc \<or> all))"

definition applies :: "match_type \<Rightarrow> contiv_policy \<Rightarrow> bool" where
  "applies direction policy \<longleftrightarrow>
     \<not> (Policy_Type policy = PolicyIngress \<and> direction = MatchEgress \<or>
        Policy_Type policy = PolicyEgress \<and> direction = MatchIngress)"

fun policies_loop ::
  "pod_lookup \<Rightarrow> match_type \<Rightarrow> contiv_policy list \<Rightarrow> contiv_rule list \<times> bool \<Rightarrow> (contiv_rule list \<times> bool) option" where
  "policies_loop lookup direction [] acc = Some acc"
| "policies_loop lookup direction (policy # ps) acc =
     (if \<not> applies direction policy then policies_loop lookup direction ps acc
      else case matches_loop lookup direction (Policy_ID policy) (Matches policy) acc of
             None \<Rightarrow> None
           | Some acc' \<Rightarrow> policies_loop lookup direction ps acc')"

definition generateRules :: "pod_lookup \<Rightarrow> match_type \<Rightarrow> contiv_policy list \<Rightarrow> contiv_rule list option" where
  "generateRules lookup direction policies =
     (case policies_loop lookup direction policies ([], False) of
        None \<Rightarrow> None
      | Some (rules, allAllowed) \<Rightarrow>
          let hasPolicy = list_ex (applies direction) policies in
          if hasPolicy \<and> \<not> allAllowed
          then Some (appendRules rules [deny_rule ''TCP:NONE'' TCP, deny_rule ''UDP:NONE'' UDP])
          else Some rules)"

section \<open>Subtraction is the difference of networks\<close>

lemma differ_within_iff:
  assumes "k1 \<le> k2" "k2 \<le> length x" "length x = length (y :: bool list)"
  shows "(\<exists>b. k1 \<le> b \<and> b < k2 \<and> take (Suc b) x = take b y @ [\<not> y ! b]) \<longleftrightarrow>
         take k1 x = take k1 y \<and> take k2 x \<noteq> take k2 y"
  using assms
proof (induction k2 rule: dec_induct)
  case (step k)
  have snoc: "take (Suc k) x = take k x @ [x ! k]" "take (Suc k) y = take k y @ [y ! k]"
    using step by (simp_all add: take_Suc_conv_app_nth)
  have shorter: "take k1 x = take k1 y" if "take k x = take k y"
    using arg_cong [OF that, of "take k1"] step.hyps by (simp add: min_absorb1)
  have "(\<exists>b. k1 \<le> b \<and> b < Suc k \<and> take (Suc b) x = take b y @ [\<not> y ! b]) \<longleftrightarrow>
        (\<exists>b. k1 \<le> b \<and> b < k \<and> take (Suc b) x = take b y @ [\<not> y ! b]) \<or>
        take (Suc k) x = take k y @ [\<not> y ! k]"
    using step.hyps by (auto simp: less_Suc_eq)
  also have "\<dots> \<longleftrightarrow> take k1 x = take k1 y \<and> take k x \<noteq> take k y \<or> take k x = take k y \<and> x ! k \<noteq> y ! k"
    using step snoc by auto
  also have "\<dots> \<longleftrightarrow> take k1 x = take k1 y \<and> take (Suc k) x \<noteq> take (Suc k) y"
    using snoc shorter by auto
  finally show ?case .
qed auto

lemma bit_xor_one: "n < 8 \<Longrightarrow> bit (x XOR push_bit n 1 :: byte) m \<longleftrightarrow> (if m = n then \<not> bit x m else bit x m)"
  by (auto simp: bit_xor_iff bit_exp_iff)

lemma flip_ip_bit_bits:
  assumes "b < 8 * length ip"
  shows "\<exists>ip'. flip_ip_bit b ip = Some ip' \<and> length ip' = length ip \<and> bits_of ip' = (bits_of ip)[b := \<not> bits_of ip ! b]"
proof -
  define i where "i = b div 8"
  define ip' where "ip' = ip[i := (ip ! i) XOR push_bit (7 - b mod 8) 1]"
  have i: "i < length ip" using assms by (simp add: i_def less_mult_imp_div_less mult.commute)
  have "bits_of ip' = (bits_of ip)[b := \<not> bits_of ip ! b]"
  proof (rule nth_equalityI)
    fix k
    assume "k < length (bits_of ip')"
    then have k: "k < 8 * length ip" by (simp add: ip'_def)
    have "k mod 8 < 8" "b mod 8 < 8" by simp_all
    then have j: "7 - k mod 8 = 7 - b mod 8 \<longleftrightarrow> k mod 8 = b mod 8" by arith
    have "bits_of ip' ! k \<longleftrightarrow> bit (ip' ! (k div 8)) (7 - k mod 8)"
      using k by (simp add: bits_of_nth ip'_def)
    also have "\<dots> \<longleftrightarrow> (if k div 8 = i \<and> k mod 8 = b mod 8 then \<not> bit (ip ! (k div 8)) (7 - k mod 8)
        else bit (ip ! (k div 8)) (7 - k mod 8))"
    proof (cases "k div 8 = i")
      case True
      have "ip' ! i = (ip ! i) XOR push_bit (7 - b mod 8) 1" using i by (simp only: ip'_def nth_list_update_eq)
      then show ?thesis using bit_xor_one [of "7 - b mod 8" "ip ! i" "7 - k mod 8"] j True by simp
    next
      case False
      then show ?thesis by (simp add: ip'_def)
    qed
    also have "k div 8 = i \<and> k mod 8 = b mod 8 \<longleftrightarrow> k = b"
      unfolding i_def by (metis div_mult_mod_eq)
    also have "bit (ip ! (k div 8)) (7 - k mod 8) \<longleftrightarrow> bits_of ip ! k"
      using k by (simp add: bits_of_nth)
    finally show "bits_of ip' ! k = (bits_of ip)[b := \<not> bits_of ip ! b] ! k"
      using k by (simp add: nth_list_update)
  qed (simp add: ip'_def)
  moreover have "flip_ip_bit b ip = Some ip'"
    using i by (simp only: flip_ip_bit_def i_def ip'_def if_True)
  ultimately show ?thesis by (simp add: ip'_def)
qed

lemma split_subnet_ok:
  assumes ok: "net_ok net1" "net_ok net2" and fam: "length (IP net1) = length (IP net2)"
    and pre: "take (prefix_len net1) (bits_of (IP net2)) = take (prefix_len net1) (bits_of (IP net1))"
    and b: "prefix_len net1 \<le> b" "b < prefix_len net2"
  shows "\<exists>s. split_subnet net2 b = Some s \<and> net_ok s \<and>
    (\<forall>a. contains s a \<longleftrightarrow> length (norm_ip a) = length (IP net2) \<and>
       take (Suc b) (bits_of (norm_ip a)) = take b (bits_of (IP net2)) @ [\<not> bits_of (IP net2) ! b])"
proof -
  let ?l = "length (IP net2)" and ?B = "bits_of (IP net2)"
  let ?m = "cidr_bytes ?l (Suc b)"
  have l: "?l = 4 \<or> ?l = 16" and ml: "length (Mask net2) = ?l" and bl: "Suc b \<le> 8 * ?l"
    using ok(2) b(2) by (auto simp: net_ok_def)
  have m: "CIDRMask (b + 1) (length (Mask net2) * 8) = ?m"
    using l ml bl by (auto simp: CIDRMask_def)
  have ip: "ip_mask (IP net2) ?m = ip_and (IP net2) ?m"
    using l by (auto simp: ip_mask_def)
  let ?R = "replicate (8 * ?l - Suc b) False"
  have masked: "bits_of (ip_and (IP net2) ?m) = take b ?B @ [?B ! b] @ ?R"
    using bits_of_masked [OF bl] bl by (simp add: take_Suc_conv_app_nth)
  obtain ip' where ip': "flip_ip_bit b (ip_and (IP net2) ?m) = Some ip'" "length ip' = ?l"
    and bits: "bits_of ip' = take b ?B @ [\<not> ?B ! b] @ ?R"
    using flip_ip_bit_bits [of b "ip_and (IP net2) ?m"] bl masked
    by (auto simp: list_update_append nth_append)
  let ?s = "\<lparr>IP = ip', Mask = ?m\<rparr>"
  have s: "split_subnet net2 b = Some ?s"
    by (simp only: split_subnet_def m Let_def ip ip' option.map)
  have len: "prefix_len ?s = Suc b"
    using mask_size_cidr [OF bl] by (simp add: prefix_len_def)
  have "bits_of (ip_and ip' ?m) = bits_of ip'"
    using bits_of_masked [of "Suc b" ip'] bits bl ip'(2) by simp
  then have fixp: "ip_and ip' ?m = ip'"
    using bits_of_inject [of "ip_and ip' ?m" ip'] ip'(2) by simp
  have keep: "take k (bits_of ip') = take k (bits_of (IP net1))" if "k \<le> prefix_len net1" for k
  proof -
    have "take k (bits_of ip') = take k ?B" using that b bl by (simp add: bits min_def)
    also have "\<dots> = take k (bits_of (IP net1))"
      using arg_cong [OF pre, of "take k"] that by (simp add: min_absorb1)
    finally show ?thesis .
  qed
  have "take (min 96 (Suc b)) (bits_of ip') \<noteq> take (min 96 (Suc b)) (bits_of v4InV6Prefix)" if "?l = 16"
  proof
    let ?k = "min 96 (prefix_len net1)"
    assume "take (min 96 (Suc b)) (bits_of ip') = take (min 96 (Suc b)) (bits_of v4InV6Prefix)"
    from arg_cong [OF this, of "take ?k"] b
    have "take ?k (bits_of ip') = take ?k (bits_of v4InV6Prefix)" by (simp add: min_def split: if_splits)
    with keep [of ?k] ok(1) that fam show False by (auto simp: net_ok_def)
  qed
  then have "net_ok ?s"
    using l ip'(2) bl len fixp by (auto simp: net_ok_def)
  with s show ?thesis
    using bits bl ip'(2) by (auto simp: contains_iff_prefix len)
qed

lemma those_map_Some: "(\<And>x. x \<in> set xs \<Longrightarrow> \<exists>y. f x = Some y \<and> P x y) \<Longrightarrow> \<exists>ys. those (map f xs) = Some ys \<and> list_all2 P xs ys"
proof (induction xs)
  case (Cons x xs)
  then obtain y ys where "f x = Some y" "P x y" "those (map f xs) = Some ys" "list_all2 P xs ys" by force
  then show ?case by simp
qed simp

lemma list_all2_members:
  assumes "list_all2 P xs ys"
  shows "y \<in> set ys \<Longrightarrow> \<exists>x\<in>set xs. P x y" and "x \<in> set xs \<Longrightarrow> \<exists>y\<in>set ys. P x y"
  using assms by (induction rule: list_all2_induct) auto

lemma keep_or_drop:
  assumes "res = Some (if c then [] else [r])" "P (deref blk r)"
    and "\<And>a. contains (deref blk r) a \<Longrightarrow> contains net2 a = c"
  shows "\<exists>rs. res = Some rs \<and> (\<forall>s\<in>set rs. P (deref blk s)) \<and>
    (\<forall>a. (\<exists>s\<in>set rs. contains (deref blk s) a) \<longleftrightarrow> contains (deref blk r) a \<and> \<not> contains net2 a)"
  using assms by (cases c) auto

lemma ip_equal_ok: "net_ok n \<Longrightarrow> net_ok m \<Longrightarrow> ip_equal (IP n) (IP m) \<longleftrightarrow> IP n = IP m"
  using net_ok_not_mapped [of n] net_ok_not_mapped [of m]
  by (cases "length (IP n) = 4"; cases "length (IP m) = 4") (auto simp: ip_equal_def To4_def)

lemma subtractSubnet_difference:
  assumes ok: "net_ok (deref blk r)" "net_ok net2"
  shows "\<exists>rs. subtractSubnet blk r net2 = Some rs \<and> (\<forall>s\<in>set rs. net_ok (deref blk s)) \<and>
    (\<forall>a. (\<exists>s\<in>set rs. contains (deref blk s) a) \<longleftrightarrow> contains (deref blk r) a \<and> \<not> contains net2 a)"
proof -
  let ?n1 = "deref blk r"
  let ?k1 = "prefix_len ?n1" and ?k2 = "prefix_len net2"
  note c1 = contains_iff_prefix [OF ok(1)] and c2 = contains_iff_prefix [OF ok(2)]
  have norm: "norm_ip (IP ?n1) = IP ?n1" "norm_ip (IP net2) = IP net2"
    using ok by (auto intro: net_ok_norm)
  have down: "take j x = take j y" if "take k x = take k y" "j \<le> k" for j k and x y :: "bool list"
    using arg_cong [OF that(1), of "take j"] that(2) by (simp add: min_absorb1)
  consider (up) "?k2 < ?k1" | (same) "?k1 = ?k2" | (below) "?k1 < ?k2" by linarith
  then show ?thesis
  proof cases
    case up
    have "contains net2 a \<longleftrightarrow> contains net2 (IP ?n1)" if "contains ?n1 a" for a
    proof -
      have l: "length (norm_ip a) = length (IP ?n1)" and t: "take ?k1 (bits_of (norm_ip a)) = take ?k1 (bits_of (IP ?n1))"
        using that unfolding c1 by auto
      have "take ?k2 (bits_of (norm_ip a)) = take ?k2 (bits_of (IP ?n1))" using down [OF t] up by simp
      then show ?thesis unfolding c2 norm using l by simp
    qed
    moreover have "subtractSubnet blk r net2 = Some (if contains net2 (IP ?n1) then [] else [r])"
      using up by (simp add: subtractSubnet_def prefix_len_def)
    ultimately show ?thesis using ok(1) by (intro keep_or_drop) blast+
  next
    case same
    have "IP ?n1 = IP net2" if "contains ?n1 a" "contains net2 a" for a
    proof -
      have l: "length (IP ?n1) = length (IP net2)" and t: "take ?k1 (bits_of (IP ?n1)) = take ?k1 (bits_of (IP net2))"
        using that same unfolding c1 c2 by auto
      note net_ok_bits [OF ok(1)]
      also note t
      also have "take ?k1 (bits_of (IP net2)) @ replicate (8 * length (IP ?n1) - ?k1) False = bits_of (IP net2)"
        unfolding l same by (rule net_ok_bits [OF ok(2), symmetric])
      finally have "bits_of (IP ?n1) = bits_of (IP net2)" .
      with l show ?thesis by (simp add: bits_of_inject)
    qed
    moreover have "contains net2 a" if "IP ?n1 = IP net2" "contains ?n1 a" for a
      using that same unfolding c1 c2 by simp
    moreover have "subtractSubnet blk r net2 = Some (if ip_equal (IP ?n1) (IP net2) then [] else [r])"
      using same by (simp add: subtractSubnet_def prefix_len_def)
    ultimately show ?thesis
      using ok(1) unfolding ip_equal_ok [OF ok] by (intro keep_or_drop) blast+
  next
    case below
    show ?thesis
    proof (cases "contains ?n1 (IP net2)")
      case False
      have "\<not> contains net2 a" if "contains ?n1 a" for a
      proof
        assume "contains net2 a"
        then have l: "length (norm_ip a) = length (IP net2)" and t: "take ?k2 (bits_of (norm_ip a)) = take ?k2 (bits_of (IP net2))"
          unfolding c2 by auto
        have "take ?k1 (bits_of (norm_ip a)) = take ?k1 (bits_of (IP net2))" using down [OF t] below by simp
        with that l False show False unfolding c1 norm by simp
      qed
      moreover have "subtractSubnet blk r net2 = Some [r]"
        using below False by (simp add: subtractSubnet_def prefix_len_def)
      ultimately show ?thesis using ok by auto
    next
      case True
      then have fam: "length (IP ?n1) = length (IP net2)"
        and pre: "take ?k1 (bits_of (IP net2)) = take ?k1 (bits_of (IP ?n1))"
        unfolding c1 norm by auto
      note piece = split_subnet_ok [OF ok fam pre]
      define P where "P b s \<longleftrightarrow> net_ok s \<and> (\<forall>a. contains s a \<longleftrightarrow> length (norm_ip a) = length (IP net2) \<and>
           take (Suc b) (bits_of (norm_ip a)) = take b (bits_of (IP net2)) @ [\<not> bits_of (IP net2) ! b])" for b s
      have "\<exists>s. split_subnet net2 b = Some s \<and> P b s" if "b \<in> set [?k1..<?k2]" for b
        using piece [of b] that unfolding P_def by simp
      from those_map_Some [of "[?k1..<?k2]" "split_subnet net2" P, OF this] obtain ss where
        ss: "those (map (split_subnet net2) [?k1..<?k2]) = Some ss" and all: "list_all2 P [?k1..<?k2] ss"
        by blast
      have res: "subtractSubnet blk r net2 = Some (map Fresh ss)"
        using below True ss by (simp add: subtractSubnet_def prefix_len_def)
      have "(\<exists>s\<in>set ss. contains s a) \<longleftrightarrow> contains ?n1 a \<and> \<not> contains net2 a" for a
      proof (cases "length (norm_ip a) = length (IP net2)")
        case True
        let ?Q = "\<lambda>b. take (Suc b) (bits_of (norm_ip a)) = take b (bits_of (IP net2)) @ [\<not> bits_of (IP net2) ! b]"
        have Q: "contains s a \<longleftrightarrow> ?Q b" if "P b s" for b s using that True unfolding P_def by blast
        have "(\<exists>s\<in>set ss. contains s a) \<longleftrightarrow> (\<exists>b\<in>set [?k1..<?k2]. ?Q b)"
          using list_all2_members [OF all] Q by meson
        also have "\<dots> \<longleftrightarrow> (\<exists>b. ?k1 \<le> b \<and> b < ?k2 \<and> ?Q b)" by auto
        also have "\<dots> \<longleftrightarrow> take ?k1 (bits_of (norm_ip a)) = take ?k1 (bits_of (IP net2)) \<and>
            take ?k2 (bits_of (norm_ip a)) \<noteq> take ?k2 (bits_of (IP net2))"
          using below True ok(2) by (intro differ_within_iff) (auto simp: net_ok_def)
        finally show ?thesis using True fam pre unfolding c1 c2 by simp
      next
        case False
        then show ?thesis using list_all2_members(1) [OF all] fam unfolding c1 P_def by auto
      qed
      then show ?thesis using res list_all2_members(1) [OF all] unfolding P_def by auto
    qed
  qed
qed

section \<open>The meaning of policies\<close>

text \<open>
  What the policies of a pod say about a packet, from the documentation of \<^verbatim>\<open>ContivPolicy\<close> and
  \<^verbatim>\<open>Match\<close>: traffic matched by a policy is allowed, traffic matched by none of a non-empty set of
  policies is denied. The remote end is the source for ingress and the destination for egress.
\<close>

definition remote :: "match_type \<Rightarrow> packet \<Rightarrow> ip" where
  "remote direction p = (if direction = MatchIngress then pkt_src p else pkt_dst p)"

definition peer_selects :: "pod_lookup \<Rightarrow> ip \<Rightarrow> pod_id \<Rightarrow> bool" where
  "peer_selects lookup a peer \<longleftrightarrow>
     (case lookup peer of
        (True, Some d) \<Rightarrow>
          (case ParseIP (IpAddress d) of None \<Rightarrow> False | Some ip \<Rightarrow> norm_ip a = norm_ip ip)
      | _ \<Rightarrow> False)"

definition block_selects :: "ip \<Rightarrow> ip_block \<Rightarrow> bool" where
  "block_selects a b \<longleftrightarrow> contains (Network b) a \<and> list_all (\<lambda>e. \<not> contains e a) (Except b)"

definition ports_select :: "port list \<Rightarrow> packet \<Rightarrow> bool" where
  "ports_select ports p \<longleftrightarrow> ports = [] \<or>
     list_ex (\<lambda>q. PortProtocol q = pkt_proto p \<and> port_matches (Number q) (pkt_dport p)) ports"

definition pods_of :: "contiv_match \<Rightarrow> pod_id list" where
  "pods_of m = (case Pods m of None \<Rightarrow> [] | Some pods \<Rightarrow> pods)"

definition blocks_of :: "contiv_match \<Rightarrow> ip_block list" where
  "blocks_of m = (case IPBlocks m of None \<Rightarrow> [] | Some blocks \<Rightarrow> blocks)"

definition match_selects :: "pod_lookup \<Rightarrow> match_type \<Rightarrow> packet \<Rightarrow> contiv_match \<Rightarrow> bool" where
  "match_selects lookup direction p m \<longleftrightarrow>
     (Pods m = None \<and> IPBlocks m = None \<or>
      list_ex (peer_selects lookup (remote direction p)) (pods_of m) \<or>
      list_ex (block_selects (remote direction p)) (blocks_of m)) \<and>
     ports_select (Ports m) p"

definition policies_allow :: "pod_lookup \<Rightarrow> match_type \<Rightarrow> contiv_policy list \<Rightarrow> packet \<Rightarrow> bool" where
  "policies_allow lookup direction policies p \<longleftrightarrow>
     \<not> list_ex (applies direction) policies \<or>
     list_ex (\<lambda>policy. applies direction policy \<and>
       list_ex (\<lambda>m. Match_Type m = direction \<and> match_selects lookup direction p m) (Matches policy)) policies"

text \<open>
  When the translation is exact. \<open>alias_free\<close>: no block other than those with the network of
  the last block leaves a pointer to the loop variable behind. \<open>match_ok\<close>: the cache returns
  data for the pods it claims to know, and the networks are as \<^verbatim>\<open>ParseCIDR\<close> returns them.
\<close>

definition alias_free :: "ip_block list \<Rightarrow> bool" where
  "alias_free blocks \<longleftrightarrow>
     list_all (\<lambda>b. Network b = Network (last blocks) \<or>
       (case block_subnets (Network b) [BlockNetwork] (Except b) of
          None \<Rightarrow> True | Some refs \<Rightarrow> BlockNetwork \<notin> set refs)) blocks"

definition match_ok :: "pod_lookup \<Rightarrow> contiv_match \<Rightarrow> bool" where
  "match_ok lookup m \<longleftrightarrow>
     list_all (\<lambda>peer. lookup peer \<noteq> (True, None)) (pods_of m) \<and>
     list_all (\<lambda>b. net_ok (Network b) \<and> list_all net_ok (Except b)) (blocks_of m) \<and>
     alias_free (blocks_of m)"

section \<open>generateRules implements the policies\<close>

lemma GetOneHostSubnet_matches:
  "(case GetOneHostSubnet s of None \<Rightarrow> False | Some n \<Rightarrow> net_matches n a) \<longleftrightarrow>
   (case ParseIP s of None \<Rightarrow> False | Some ip \<Rightarrow> norm_ip a = norm_ip ip)"
proof (cases "GetOneHostSubnet s")
  case None
  then show ?thesis by (simp add: GetOneHostSubnet_def split: option.splits)
next
  case (Some n)
  then show ?thesis using GetOneHostSubnet_contains [OF Some] by (simp add: net_matches_def)
qed

lemma collect_peers_selects:
  assumes "list_all (\<lambda>peer. lookup peer \<noteq> (True, None)) pods"
  shows "\<exists>peers. collect_peers lookup pods = Some peers \<and>
    (\<forall>a. list_ex (\<lambda>(q, n). net_matches n a) peers \<longleftrightarrow> list_ex (peer_selects lookup a) pods)"
  using assms
proof (induction pods)
  case (Cons peer pods)
  then obtain peers where IH: "collect_peers lookup pods = Some peers"
    "\<forall>a. list_ex (\<lambda>(q, n). net_matches n a) peers \<longleftrightarrow> list_ex (peer_selects lookup a) pods"
    by auto
  obtain found d where l: "lookup peer = (found, d)" by (cases "lookup peer")
  show ?case
  proof (cases "found \<and> d \<noteq> None")
    case False
    then have "found = False" using Cons.prems l by auto
    then have "\<not> peer_selects lookup a peer" for a by (simp add: peer_selects_def l)
    then show ?thesis using IH l \<open>found = False\<close> by simp
  next
    case True
    then obtain data where d: "lookup peer = (True, Some data)" using l by auto
    have sel: "peer_selects lookup a peer \<longleftrightarrow>
        (case GetOneHostSubnet (IpAddress data) of None \<Rightarrow> False | Some n \<Rightarrow> net_matches n a)" for a
      by (simp add: peer_selects_def d GetOneHostSubnet_matches)
    have "GetOneHostSubnet '''' = None" by (simp add: GetOneHostSubnet_def ParseIP_def)
    then show ?thesis
      using IH d sel by (cases "GetOneHostSubnet (IpAddress data)") auto
  qed
qed simp

lemma block_subnets_difference:
  assumes "\<forall>r\<in>set refs. net_ok (deref blk r)" "list_all net_ok es"
  shows "\<exists>rs. block_subnets blk refs es = Some rs \<and> (\<forall>r\<in>set rs. net_ok (deref blk r)) \<and>
    (\<forall>a. (\<exists>r\<in>set rs. contains (deref blk r) a) \<longleftrightarrow>
         (\<exists>r\<in>set refs. contains (deref blk r) a) \<and> list_all (\<lambda>e. \<not> contains e a) es)"
  using assms
proof (induction es arbitrary: refs)
  case (Cons e es)
  let ?P = "\<lambda>r rs. (\<forall>s\<in>set rs. net_ok (deref blk s)) \<and>
    (\<forall>a. (\<exists>s\<in>set rs. contains (deref blk s) a) \<longleftrightarrow> contains (deref blk r) a \<and> \<not> contains e a)"
  have "\<exists>rs. subtractSubnet blk r e = Some rs \<and> ?P r rs" if "r \<in> set refs" for r
    using subtractSubnet_difference [of blk r e] Cons.prems that by simp
  from those_map_Some [of refs "\<lambda>r. subtractSubnet blk r e" ?P, OF this] obtain rss where
    rss: "those (map (\<lambda>r. subtractSubnet blk r e) refs) = Some rss" and all: "list_all2 ?P refs rss"
    by blast
  have ok: "\<forall>r\<in>set (concat rss). net_ok (deref blk r)"
    using list_all2_members(1) [OF all] by fastforce
  have sel: "(\<exists>r\<in>set (concat rss). contains (deref blk r) a) \<longleftrightarrow>
      (\<exists>r\<in>set refs. contains (deref blk r) a) \<and> \<not> contains e a" for a
  proof -
    have "(\<exists>r\<in>set (concat rss). contains (deref blk r) a) \<longleftrightarrow> (\<exists>rs\<in>set rss. \<exists>r\<in>set rs. contains (deref blk r) a)"
      by auto
    also have "\<dots> \<longleftrightarrow> (\<exists>r\<in>set refs. contains (deref blk r) a \<and> \<not> contains e a)"
      using list_all2_members [OF all] by meson
    finally show ?thesis by blast
  qed
  have es: "list_all net_ok es" using Cons.prems(2) by simp
  from Cons.IH [OF ok es, unfolded sel conj_assoc] show ?case
    by (simp add: rss)
qed simp

lemma allSubnets_selects:
  assumes ok: "list_all (\<lambda>b. net_ok (Network b) \<and> list_all net_ok (Except b)) blocks" and free: "alias_free blocks"
  shows "\<exists>subnets. allSubnets blocks = Some subnets \<and>
    (\<forall>a. list_ex (\<lambda>n. net_matches n a) subnets \<longleftrightarrow> list_ex (block_selects a) blocks)"
proof -
  define blk where "blk = Network (last blocks)"
  have "\<exists>refs. collect_subnets bs = Some refs \<and>
      (\<forall>a. list_ex (\<lambda>r. net_matches (deref blk r) a) refs \<longleftrightarrow> list_ex (block_selects a) bs)"
    if "set bs \<subseteq> set blocks" for bs
    using that
  proof (induction bs)
    case (Cons b bs)
    then obtain refs where IH: "collect_subnets bs = Some refs"
      "\<And>a. list_ex (\<lambda>r. net_matches (deref blk r) a) refs \<longleftrightarrow> list_ex (block_selects a) bs" by auto
    have b: "net_ok (Network b)" "list_all net_ok (Except b)"
      using ok Cons.prems by (auto simp: list_all_iff)
    obtain rs where rs: "block_subnets (Network b) [BlockNetwork] (Except b) = Some rs"
      "\<forall>r\<in>set rs. net_ok (deref (Network b) r)"
      "\<And>a. (\<exists>r\<in>set rs. contains (deref (Network b) r) a) \<longleftrightarrow> block_selects a b"
      using block_subnets_difference [of "[BlockNetwork]" "Network b" "Except b"] b
      by (auto simp: block_selects_def)
    have same: "deref blk r = deref (Network b) r" if "r \<in> set rs" for r
      using free Cons.prems rs(1) that by (cases r) (auto simp: alias_free_def list_all_iff blk_def)
    have "net_matches (deref blk r) a \<longleftrightarrow> contains (deref (Network b) r) a" if "r \<in> set rs" for r a
      using rs(2) that unfolding same [OF that] by (auto simp: net_matches_def net_ok_def)
    then have "list_ex (\<lambda>r. net_matches (deref blk r) a) rs \<longleftrightarrow> block_selects a b" for a
      unfolding list_ex_iff rs(3) [symmetric] by blast
    then show ?case using IH rs(1) by (simp add: list_ex_append)
  qed simp
  from this [of blocks] show ?thesis
    by (auto simp: allSubnets_def blk_def list_ex_iff)
qed

lemma empty_net_matches [simp]: "net_matches empty_net a"
  by (simp add: net_matches_def empty_net_def)

lemma permit_rule_matches:
  "rule_matches (permit_rule rid (src_of d n) (dst_of d n) proto dport) p \<longleftrightarrow>
     net_matches n (remote d p) \<and> proto = pkt_proto p \<and> port_matches dport (pkt_dport p)"
  by (auto simp: rule_matches_def permit_rule_def src_of_def dst_of_def remote_def port_matches_def)

lemma net_rules_match:
  "list_ex (\<lambda>r. rule_matches r p) (net_rules d pre n ports) \<longleftrightarrow>
   net_matches n (remote d p) \<and> ports_select ports p"
proof (cases ports)
  case Nil
  then show ?thesis
    by (cases "pkt_proto p") (auto simp: net_rules_def permit_rule_matches ports_select_def port_matches_def)
next
  case (Cons q qs)
  have proto: "(if PortProtocol q = TCP then TCP else UDP) = PortProtocol q" for q
    by (cases "PortProtocol q") auto
  show ?thesis
    using Cons by (auto simp: net_rules_def permit_rule_matches ports_select_def list_ex_iff proto)
qed

text \<open>Every rule of a match is a permit rule whose identifier starts with the policy's.\<close>

definition from_policy :: "contiv_rule \<Rightarrow> bool" where
  "from_policy r \<longleftrightarrow> Action r = ActionPermit \<and> CHR ''/'' \<in> set (ID r)"

lemma net_rules_from_policy:
  "CHR ''/'' \<in> set pre \<Longrightarrow> list_all from_policy (net_rules d pre n ports)"
  by (auto simp: net_rules_def from_policy_def permit_rule_def list_all_iff)

lemma ID_String_slash [simp]: "CHR ''/'' \<in> set (ID_String i)"
  by (simp add: ID_String_def)

lemma list_ex_concat_map: "list_ex P (concat (map f xs)) \<longleftrightarrow> list_ex (\<lambda>x. list_ex P (f x)) xs"
  by (auto simp: list_ex_iff)

lemma list_all_concat_map: "list_all P (concat (map f xs)) \<longleftrightarrow> list_all (\<lambda>x. list_all P (f x)) xs"
  by (auto simp: list_all_iff)

lemma match_rules_exact:
  assumes "match_ok lookup m"
  shows "\<exists>new. match_rules lookup d pid m = Some (new, Pods m = None \<and> IPBlocks m = None \<and> Ports m = []) \<and>
    list_all from_policy new \<and> (\<forall>p. list_ex (\<lambda>r. rule_matches r p) new \<longleftrightarrow> match_selects lookup d p m)"
proof -
  obtain peers where peers: "collect_peers lookup (pods_of m) = Some peers"
    "\<And>a. list_ex (\<lambda>(q, n). net_matches n a) peers \<longleftrightarrow> list_ex (peer_selects lookup a) (pods_of m)"
    using collect_peers_selects assms unfolding match_ok_def by blast
  obtain subnets where subnets: "allSubnets (blocks_of m) = Some subnets"
    "\<And>a. list_ex (\<lambda>n. net_matches n a) subnets \<longleftrightarrow> list_ex (block_selects a) (blocks_of m)"
    using allSubnets_selects assms unfolding match_ok_def by blast
  have conj: "list_ex (\<lambda>x. P x \<and> c) xs \<longleftrightarrow> list_ex P xs \<and> c" for P c and xs :: "'x list"
    by (auto simp: list_ex_iff)
  let ?peer = "concat (map (\<lambda>(peer, n). net_rules d (ID_String pid @ ''-'' @ ID_String peer) n (Ports m)) peers)"
  let ?sub = "concat (map (\<lambda>n. net_rules d (ID_String pid @ ''-'' @ ipnet_string n) n (Ports m)) subnets)"
  let ?any = "if Pods m = None \<and> IPBlocks m = None then net_rules d (ID_String pid) empty_net (Ports m) else []"
  have "match_rules lookup d pid m = Some (?any @ ?peer @ ?sub, Pods m = None \<and> IPBlocks m = None \<and> Ports m = [])"
    using peers(1) subnets(1) unfolding match_rules_def pods_of_def [symmetric] blocks_of_def [symmetric]
    by (simp add: Let_def conj_assoc)
  moreover have "list_all from_policy (?any @ ?peer @ ?sub)"
  proof -
    have "list_all from_policy ?peer"
      unfolding list_all_concat_map by (auto intro!: net_rules_from_policy simp: list_all_iff [of _ peers])
    moreover have "list_all from_policy ?sub"
      unfolding list_all_concat_map by (auto intro!: net_rules_from_policy simp: list_all_iff [of _ subnets])
    ultimately show ?thesis by (simp add: net_rules_from_policy)
  qed
  moreover have "list_ex (\<lambda>r. rule_matches r p) (?any @ ?peer @ ?sub) \<longleftrightarrow> match_selects lookup d p m" for p
  proof -
    have "list_ex (\<lambda>r. rule_matches r p) ?peer \<longleftrightarrow> list_ex (\<lambda>x. (case x of (q, n) \<Rightarrow> net_matches n (remote d p)) \<and> ports_select (Ports m) p) peers"
      unfolding list_ex_concat_map by (simp add: case_prod_beta net_rules_match)
    moreover have "list_ex (\<lambda>r. rule_matches r p) ?sub \<longleftrightarrow> list_ex (\<lambda>n. net_matches n (remote d p) \<and> ports_select (Ports m) p) subnets"
      unfolding list_ex_concat_map by (simp add: net_rules_match)
    ultimately show ?thesis
      by (auto simp: list_ex_append net_rules_match match_selects_def conj peers(2) subnets(2))
  qed
  ultimately show ?thesis by blast
qed

text \<open>
  All rules of the applicable matches in the order they are appended, before \<^verbatim>\<open>appendRule\<close> drops
  those whose identifier is taken.
\<close>

fun raw_matches :: "pod_lookup \<Rightarrow> match_type \<Rightarrow> policy_id \<Rightarrow> contiv_match list \<Rightarrow> (contiv_rule list \<times> bool) option" where
  "raw_matches lookup d pid [] = Some ([], False)"
| "raw_matches lookup d pid (m # ms) =
     (if Match_Type m \<noteq> d then raw_matches lookup d pid ms
      else case match_rules lookup d pid m of
             None \<Rightarrow> None
           | Some (new, all) \<Rightarrow> map_option (\<lambda>(rs, b). (new @ rs, all \<or> b)) (raw_matches lookup d pid ms))"

fun raw_policies :: "pod_lookup \<Rightarrow> match_type \<Rightarrow> contiv_policy list \<Rightarrow> (contiv_rule list \<times> bool) option" where
  "raw_policies lookup d [] = Some ([], False)"
| "raw_policies lookup d (policy # ps) =
     (if \<not> applies d policy then raw_policies lookup d ps
      else case raw_matches lookup d (Policy_ID policy) (Matches policy) of
             None \<Rightarrow> None
           | Some (new, all) \<Rightarrow> map_option (\<lambda>(rs, b). (new @ rs, all \<or> b)) (raw_policies lookup d ps))"

text \<open>Rules that share an identifier are the same rule.\<close>

definition unambiguous :: "contiv_rule list \<Rightarrow> bool" where
  "unambiguous rs \<longleftrightarrow> list_all (\<lambda>r. list_all (\<lambda>s. ID r = ID s \<longrightarrow> r = s) rs) rs"

definition ids_unambiguous :: "pod_lookup \<Rightarrow> match_type \<Rightarrow> contiv_policy list \<Rightarrow> bool" where
  "ids_unambiguous lookup d policies \<longleftrightarrow>
     (case raw_policies lookup d policies of None \<Rightarrow> True | Some (rs, _) \<Rightarrow> unambiguous rs)"

definition policies_ok :: "pod_lookup \<Rightarrow> match_type \<Rightarrow> contiv_policy list \<Rightarrow> bool" where
  "policies_ok lookup d policies \<longleftrightarrow>
     list_all (\<lambda>policy. applies d policy \<longrightarrow>
       list_all (\<lambda>m. Match_Type m = d \<longrightarrow> match_ok lookup m) (Matches policy)) policies"

lemma appendRules_append: "appendRules (appendRules rs xs) ys = appendRules rs (xs @ ys)"
  by (simp add: appendRules_def)

lemma matches_loop_raw:
  "matches_loop lookup d pid ms acc =
   map_option (\<lambda>(new, all). (appendRules (fst acc) new, snd acc \<or> all)) (raw_matches lookup d pid ms)"
proof (induction ms arbitrary: acc)
  case Nil
  then show ?case by (simp add: appendRules_def)
next
  case (Cons m ms)
  then show ?case
    by (cases "raw_matches lookup d pid ms") (auto simp: appendRules_append split: option.splits)
qed

lemma policies_loop_raw:
  "policies_loop lookup d ps acc =
   map_option (\<lambda>(new, all). (appendRules (fst acc) new, snd acc \<or> all)) (raw_policies lookup d ps)"
proof (induction ps arbitrary: acc)
  case Nil
  then show ?case by (simp add: appendRules_def)
next
  case (Cons q ps)
  then show ?case
    by (cases "raw_policies lookup d ps") (auto simp: matches_loop_raw appendRules_append split: option.splits)
qed

lemma set_appendRules:
  "(\<forall>r\<in>set (rs @ new). \<forall>s\<in>set (rs @ new). ID r = ID s \<longrightarrow> r = s) \<Longrightarrow> set (appendRules rs new) = set rs \<union> set new"
proof (induction new arbitrary: rs)
  case (Cons n new)
  have step: "appendRules rs (n # new) = appendRules (appendRule rs n) new" by (simp add: appendRules_def)
  have set: "set (appendRule rs n) = set rs \<union> {n}"
    using Cons.prems by (auto simp: appendRule_def list_ex_iff)
  then have "\<forall>r\<in>set (appendRule rs n @ new). \<forall>s\<in>set (appendRule rs n @ new). ID r = ID s \<longrightarrow> r = s"
    using Cons.prems by simp
  then show ?case unfolding step using Cons.IH set by simp
qed (simp add: appendRules_def)

lemma raw_matches_exact:
  assumes "list_all (\<lambda>m. Match_Type m = d \<longrightarrow> match_ok lookup m) ms"
  shows "\<exists>rs all. raw_matches lookup d pid ms = Some (rs, all) \<and> list_all from_policy rs \<and>
    (\<forall>p. list_ex (\<lambda>r. rule_matches r p) rs \<longleftrightarrow>
         list_ex (\<lambda>m. Match_Type m = d \<and> match_selects lookup d p m) ms) \<and>
    (all \<longrightarrow> (\<forall>p. list_ex (\<lambda>r. rule_matches r p) rs))"
  using assms
proof (induction ms)
  case (Cons m ms)
  then obtain rs all where IH: "raw_matches lookup d pid ms = Some (rs, all)" "list_all from_policy rs"
    "\<And>p. list_ex (\<lambda>r. rule_matches r p) rs \<longleftrightarrow> list_ex (\<lambda>m. Match_Type m = d \<and> match_selects lookup d p m) ms"
    "all \<Longrightarrow> \<forall>p. list_ex (\<lambda>r. rule_matches r p) rs" by auto
  show ?case
  proof (cases "Match_Type m = d")
    case True
    then obtain new where new: "match_rules lookup d pid m = Some (new, Pods m = None \<and> IPBlocks m = None \<and> Ports m = [])"
      "list_all from_policy new" "\<And>p. list_ex (\<lambda>r. rule_matches r p) new \<longleftrightarrow> match_selects lookup d p m"
      using match_rules_exact [of lookup m d pid] Cons.prems by auto
    have "match_selects lookup d p m" if "Pods m = None \<and> IPBlocks m = None \<and> Ports m = []" for p
      using that by (simp add: match_selects_def ports_select_def)
    then show ?thesis using True IH new by (auto simp: list_ex_append list_all_append)
  next
    case False
    then show ?thesis using IH by simp
  qed
qed auto

lemma raw_policies_exact:
  assumes "policies_ok lookup d ps"
  shows "\<exists>rs all. raw_policies lookup d ps = Some (rs, all) \<and> list_all from_policy rs \<and>
    (\<forall>p. list_ex (\<lambda>r. rule_matches r p) rs \<longleftrightarrow> list_ex (\<lambda>policy. applies d policy \<and>
       list_ex (\<lambda>m. Match_Type m = d \<and> match_selects lookup d p m) (Matches policy)) ps) \<and>
    (all \<longrightarrow> (\<forall>p. list_ex (\<lambda>r. rule_matches r p) rs))"
  using assms
proof (induction ps)
  case (Cons q ps)
  then obtain rs all where IH: "raw_policies lookup d ps = Some (rs, all)" "list_all from_policy rs"
    "\<And>p. list_ex (\<lambda>r. rule_matches r p) rs \<longleftrightarrow> list_ex (\<lambda>policy. applies d policy \<and>
       list_ex (\<lambda>m. Match_Type m = d \<and> match_selects lookup d p m) (Matches policy)) ps"
    "all \<Longrightarrow> \<forall>p. list_ex (\<lambda>r. rule_matches r p) rs" by (auto simp: policies_ok_def)
  show ?case
  proof (cases "applies d q")
    case True
    then obtain new all' where new: "raw_matches lookup d (Policy_ID q) (Matches q) = Some (new, all')"
      "list_all from_policy new"
      "\<And>p. list_ex (\<lambda>r. rule_matches r p) new \<longleftrightarrow> list_ex (\<lambda>m. Match_Type m = d \<and> match_selects lookup d p m) (Matches q)"
      "all' \<Longrightarrow> \<forall>p. list_ex (\<lambda>r. rule_matches r p) new"
      using raw_matches_exact [of d lookup "Matches q" "Policy_ID q"] Cons.prems by (auto simp: policies_ok_def)
    then show ?thesis using True IH by (auto simp: list_ex_append list_all_append)
  next
    case False
    then show ?thesis using IH by simp
  qed
qed (auto simp: policies_ok_def)

lemma permitted_permits:
  "list_all (\<lambda>r. Action r = ActionPermit) rs \<Longrightarrow>
   permitted (rs @ ds) p \<longleftrightarrow> list_ex (\<lambda>r. rule_matches r p) rs \<or> permitted ds p"
  by (induction rs) auto

lemma permitted_denies: "\<not> permitted [deny_rule a TCP, deny_rule b UDP] p"
  by (cases "pkt_proto p") (simp_all add: rule_matches_def deny_rule_def port_matches_def)

lemma appendRules_denies:
  assumes "list_all from_policy rs"
  shows "appendRules rs [deny_rule ''TCP:NONE'' TCP, deny_rule ''UDP:NONE'' UDP] =
         rs @ [deny_rule ''TCP:NONE'' TCP, deny_rule ''UDP:NONE'' UDP]"
proof -
  have "\<not> list_ex (\<lambda>r. ID r = i) rs" if "CHR ''/'' \<notin> set i" for i
    using assms that by (auto simp: from_policy_def list_all_iff list_ex_iff)
  then show ?thesis by (simp add: appendRules_def appendRule_def deny_rule_def list_ex_append)
qed

lemma generateRules_exact:
  assumes ok: "policies_ok lookup d ps" and ids: "ids_unambiguous lookup d ps"
  shows "\<exists>rules. generateRules lookup d ps = Some rules \<and>
    (\<forall>p. permitted rules p \<longleftrightarrow> policies_allow lookup d ps p)"
proof -
  obtain rs all where raw: "raw_policies lookup d ps = Some (rs, all)" "list_all from_policy rs"
    and sel: "\<And>p. list_ex (\<lambda>r. rule_matches r p) rs \<longleftrightarrow> list_ex (\<lambda>policy. applies d policy \<and>
       list_ex (\<lambda>m. Match_Type m = d \<and> match_selects lookup d p m) (Matches policy)) ps"
    and all: "all \<Longrightarrow> \<forall>p. list_ex (\<lambda>r. rule_matches r p) rs"
    using raw_policies_exact [OF ok] by blast
  have "\<forall>r\<in>set rs. \<forall>s\<in>set rs. ID r = ID s \<longrightarrow> r = s"
    using ids raw by (auto simp: ids_unambiguous_def unambiguous_def list_all_iff)
  then have set: "set (appendRules [] rs) = set rs"
    using set_appendRules [of "[]" rs] by simp
  then have from_p: "list_all from_policy (appendRules [] rs)" and
    match: "list_ex (\<lambda>r. rule_matches r p) (appendRules [] rs) \<longleftrightarrow> list_ex (\<lambda>r. rule_matches r p) rs" for p
    using raw(2) by (simp_all add: list_all_iff list_ex_iff)
  have permits: "list_all (\<lambda>r. Action r = ActionPermit) (appendRules [] rs)"
    using from_p by (auto simp: from_policy_def list_all_iff)
  show ?thesis
  proof (cases "list_ex (applies d) ps \<and> \<not> all")
    case True
    then have "generateRules lookup d ps = Some (appendRules [] rs @ [deny_rule ''TCP:NONE'' TCP, deny_rule ''UDP:NONE'' UDP])"
      using raw appendRules_denies [OF from_p] by (simp add: generateRules_def policies_loop_raw)
    moreover have "permitted (appendRules [] rs @ [deny_rule ''TCP:NONE'' TCP, deny_rule ''UDP:NONE'' UDP]) p \<longleftrightarrow>
        policies_allow lookup d ps p" for p
      unfolding permitted_permits [OF permits] match sel policies_allow_def
      using True permitted_denies by (simp del: permitted.simps)
    ultimately show ?thesis by blast
  next
    case False
    then have gen: "generateRules lookup d ps = Some (appendRules [] rs)"
      using raw by (auto simp: generateRules_def policies_loop_raw)
    have perm: "permitted (appendRules [] rs) p" for p
      using permitted_permits [OF permits, of "[]" p] by simp
    have "policies_allow lookup d ps p" for p
      using False all sel [of p] by (auto simp: policies_allow_def)
    with gen perm show ?thesis by blast
  qed
qed

section \<open>The transaction\<close>

type_synonym txn_config = "(pod_id \<times> contiv_policy list) list"

record processed_policy_set =
  policies :: "contiv_policy list"
  ingress :: "contiv_rule list"
  egress :: "contiv_rule list"

record render_call =
  rc_pod :: pod_id
  rc_podIP :: ipnet
  rc_ingress :: "contiv_rule list"
  rc_egress :: "contiv_rule list"

definition Configure :: "txn_config \<Rightarrow> pod_id \<Rightarrow> contiv_policy list \<Rightarrow> txn_config" where
  "Configure config pod ps = AList.update pod ps config"

definition policies_Equals :: "contiv_policy list \<Rightarrow> contiv_policy list \<Rightarrow> bool" where
  "policies_Equals cp cp2 \<longleftrightarrow>
     length cp = length cp2 \<and> list_all (\<lambda>idx. Policy_ID (cp ! idx) = Policy_ID (cp2 ! idx)) [0..<length cp]"

definition policies_Less :: "contiv_policy \<Rightarrow> contiv_policy \<Rightarrow> bool" where
  "policies_Less p q \<longleftrightarrow>
     Namespace (Policy_ID p) < Namespace (Policy_ID q) \<or>
     Namespace (Policy_ID p) = Namespace (Policy_ID q) \<and> Name (Policy_ID p) < Name (Policy_ID q)"

text \<open>\<^verbatim>\<open>sort.Sort\<close> on a copy of the list, as the stable insertion sort that Go runs on short lists.
  The order of policies with the same identifier is the only thing another sort could change.\<close>

definition sort_policies :: "contiv_policy list \<Rightarrow> contiv_policy list" where
  "sort_policies ps = sort_key (\<lambda>p. (Namespace (Policy_ID p), Name (Policy_ID p))) ps"

definition find_processed :: "processed_policy_set list \<Rightarrow> contiv_policy list \<Rightarrow> processed_policy_set option" where
  "find_processed processed ps =
     fold (\<lambda>s found. if policies_Equals (policies s) ps then Some s else found) processed None"

fun commit_loop ::
  "pod_lookup \<Rightarrow> txn_config \<Rightarrow> processed_policy_set list \<Rightarrow> render_call list option" where
  "commit_loop lookup [] processed = Some []"
| "commit_loop lookup ((pod, unordered) # config) processed =
     (case lookup pod of
        (False, _) \<Rightarrow> commit_loop lookup config processed
      | (True, None) \<Rightarrow> None
      | (True, Some podData) \<Rightarrow>
          if IpAddress podData = '''' then commit_loop lookup config processed
          else
            (case GetOneHostSubnet (IpAddress podData) of
               None \<Rightarrow> commit_loop lookup config processed
             | Some podIPNet \<Rightarrow>
                 let ps = sort_policies unordered in
                 (case find_processed processed ps of
                    Some s \<Rightarrow>
                      map_option ((#) \<lparr>rc_pod = pod, rc_podIP = podIPNet, rc_ingress = ingress s, rc_egress = egress s\<rparr>)
                        (commit_loop lookup config processed)
                  | None \<Rightarrow>
                      (case (generateRules lookup MatchIngress ps, generateRules lookup MatchEgress ps) of
                         (Some eg, Some ing) \<Rightarrow>
                           map_option ((#) \<lparr>rc_pod = pod, rc_podIP = podIPNet, rc_ingress = ing, rc_egress = eg\<rparr>)
                             (commit_loop lookup config
                                (processed @ [\<lparr>policies = ps, ingress = ing, egress = eg\<rparr>]))
                       | _ \<Rightarrow> None))))"

text \<open>
  A renderer is what its transaction's \<^verbatim>\<open>Commit\<close> returns for the resync flag and the sequence of
  \<^verbatim>\<open>Render\<close> calls. With parallel rendering the errors arrive in an order that the argument
  \<open>arrival\<close> gives.
\<close>

type_synonym renderer = "bool \<Rightarrow> render_call list \<Rightarrow> string option"

definition last_error :: "string option list \<Rightarrow> string option" where
  "last_error errs = fold (\<lambda>err wasError. if err \<noteq> None then err else wasError) errs None"

definition Commit ::
  "pod_lookup \<Rightarrow> renderer list \<Rightarrow> bool \<Rightarrow> (string option list \<Rightarrow> string option list) \<Rightarrow> bool \<Rightarrow> txn_config \<Rightarrow>
   (render_call list \<times> string option) option" where
  "Commit lookup renderers parallelRendering arrival resync config =
     (case commit_loop lookup config [] of
        None \<Rightarrow> None
      | Some calls \<Rightarrow>
          let errs = (if calls = [] then [] else map (\<lambda>r. r resync calls) renderers) in
          Some (calls, last_error (if parallelRendering then arrival errs else errs)))"

text \<open>What \<^verbatim>\<open>Commit\<close> is meant to render for one pod, without the memory of processed sets.\<close>

definition render_pod :: "pod_lookup \<Rightarrow> pod_id \<times> contiv_policy list \<Rightarrow> render_call list option" where
  "render_pod lookup pc =
     (case lookup (fst pc) of
        (False, _) \<Rightarrow> Some []
      | (True, None) \<Rightarrow> None
      | (True, Some podData) \<Rightarrow>
          (case GetOneHostSubnet (IpAddress podData) of
             None \<Rightarrow> Some []
           | Some podIPNet \<Rightarrow>
               (case (generateRules lookup MatchEgress (sort_policies (snd pc)),
                      generateRules lookup MatchIngress (sort_policies (snd pc))) of
                  (Some ing, Some eg) \<Rightarrow>
                    Some [\<lparr>rc_pod = fst pc, rc_podIP = podIPNet, rc_ingress = ing, rc_egress = eg\<rparr>]
                | _ \<Rightarrow> None)))"

definition ids_identify :: "txn_config \<Rightarrow> bool" where
  "ids_identify config \<longleftrightarrow>
     (let all = concat (map snd config) in
      list_all (\<lambda>p. list_all (\<lambda>q. Policy_ID p = Policy_ID q \<longrightarrow> p = q) all) all)"

lemma set_sort_policies [simp]: "set (sort_policies ps) = set ps"
  by (simp add: sort_policies_def)

lemma policies_Equals_iff: "policies_Equals xs ys \<longleftrightarrow> map Policy_ID xs = map Policy_ID ys"
proof -
  have "map Policy_ID xs = map Policy_ID ys \<longleftrightarrow>
      length xs = length ys \<and> (\<forall>i<length xs. Policy_ID (xs ! i) = Policy_ID (ys ! i))"
    by (subst list_eq_iff_nth_eq) auto
  then show ?thesis by (auto simp: policies_Equals_def list_all_iff)
qed

lemma find_processed_fold:
  "fold (\<lambda>s found. if policies_Equals (policies s) ps then Some s else found) xs acc = Some s \<Longrightarrow>
   s \<in> set xs \<and> policies_Equals (policies s) ps \<or> acc = Some s"
proof (induction xs arbitrary: acc)
  case (Cons x xs)
  then show ?case by (cases "policies_Equals (policies x) ps") auto
qed simp

lemma find_processed_Some:
  "find_processed processed ps = Some s \<Longrightarrow> s \<in> set processed \<and> policies_Equals (policies s) ps"
  using find_processed_fold [of ps processed None s] by (simp add: find_processed_def)

lemma GetOneHostSubnet_empty [simp]: "GetOneHostSubnet '''' = None"
  by (simp add: GetOneHostSubnet_def ParseIP_def)

lemma commit_loop_renders:
  assumes inj: "inj_on Policy_ID U"
    and config: "\<forall>pc\<in>set config. set (snd pc) \<subseteq> U"
    and proc: "\<forall>s\<in>set processed. set (policies s) \<subseteq> U \<and>
      generateRules lookup MatchIngress (policies s) = Some (egress s) \<and>
      generateRules lookup MatchEgress (policies s) = Some (ingress s)"
  shows "commit_loop lookup config processed = map_option concat (those (map (render_pod lookup) config))"
  using config proc
proof (induction config arbitrary: processed)
  case (Cons pc config)
  obtain pod unordered where pc: "pc = (pod, unordered)" by (cases pc)
  have IH: "commit_loop lookup config processed = map_option concat (those (map (render_pod lookup) config))"
    using Cons.IH Cons.prems by simp
  have cat: "map_option ((#) c) (map_option concat o1) = map_option concat (map_option ((#) [c]) o1)" for c and o1 :: "render_call list list option"
    by (cases o1) simp_all
  have none: "map_option concat o1 = map_option concat (map_option ((#) []) o1)" for o1 :: "render_call list list option"
    by (cases o1) simp_all
  obtain found d where l: "lookup pod = (found, d)" by (cases "lookup pod")
  consider "found = False" | "found" "d = None"
    | data where "found" "d = Some data" "GetOneHostSubnet (IpAddress data) = None"
    | data n where "found" "d = Some data" "GetOneHostSubnet (IpAddress data) = Some n"
    by (cases found; cases d) auto
  then show ?case
  proof cases
    case 4
    let ?ps = "sort_policies unordered"
    have ne: "IpAddress data \<noteq> ''''" using 4 by auto
    show ?thesis
    proof (cases "find_processed processed ?ps")
      case (Some s)
      then have s: "s \<in> set processed" "map Policy_ID (policies s) = map Policy_ID ?ps"
        using find_processed_Some policies_Equals_iff by blast+
      have "set (policies s) \<union> set ?ps \<subseteq> U" using s(1) Cons.prems pc by auto
      then have "policies s = ?ps"
        using s(2) inj map_inj_on inj_on_subset by metis
      then have "generateRules lookup MatchIngress ?ps = Some (egress s)" "generateRules lookup MatchEgress ?ps = Some (ingress s)"
        using s(1) Cons.prems(2) by (metis (no_types))+
      then have "render_pod lookup pc = Some [\<lparr>rc_pod = pod, rc_podIP = n, rc_ingress = ingress s, rc_egress = egress s\<rparr>]"
        using 4 l pc by (simp add: render_pod_def)
      then show ?thesis
        using 4 ne l pc Some IH by (simp add: cat)
    next
      case None
      show ?thesis
      proof (cases "generateRules lookup MatchIngress ?ps = None \<or> generateRules lookup MatchEgress ?ps = None")
        case True
        then have "render_pod lookup pc = None"
          using 4 l pc by (auto simp: render_pod_def split: option.splits)
        with True show ?thesis using 4 ne l pc None by (auto simp: Let_def split: option.splits)
      next
        case False
        then obtain ing eg where g: "generateRules lookup MatchIngress ?ps = Some eg" "generateRules lookup MatchEgress ?ps = Some ing"
          by auto
        have "commit_loop lookup config (processed @ [\<lparr>policies = ?ps, ingress = ing, egress = eg\<rparr>]) =
            map_option concat (those (map (render_pod lookup) config))"
          using Cons.prems pc g by (intro Cons.IH) auto
        moreover have "render_pod lookup pc = Some [\<lparr>rc_pod = pod, rc_podIP = n, rc_ingress = ing, rc_egress = eg\<rparr>]"
          using 4 l pc g by (simp add: render_pod_def)
        ultimately show ?thesis using 4 ne l pc None g by (simp add: cat)
      qed
    qed
  next
    case 2
    then have "render_pod lookup pc = None" using l pc by (simp add: render_pod_def)
    then show ?thesis using 2 l pc by simp
  next
    case 1
    then have "render_pod lookup pc = Some []" using l pc by (simp add: render_pod_def)
    then show ?thesis using 1 l pc IH none by simp
  next
    case 3
    then have "render_pod lookup pc = Some []" using l pc by (simp add: render_pod_def)
    then show ?thesis using 3 l pc IH none by simp
  qed
qed simp

lemma policies_key_inj:
  "inj_on Policy_ID (set ps) \<Longrightarrow> inj_on (\<lambda>p. (Namespace (Policy_ID p), Name (Policy_ID p))) (set ps)"
  by (auto simp: inj_on_def intro: obj_id.equality)

lemma sort_policies_perm:
  assumes "mset ps = mset qs" and "inj_on Policy_ID (set ps)"
  shows "sort_policies ps = sort_policies qs"
  unfolding sort_policies_def using assms
  by (intro sort_key_inj_key_eq policies_key_inj) simp_all

text \<open>With distinct identifiers every sorting routine returns what \<open>sort_policies\<close> returns.\<close>

lemma sort_policies_unique:
  assumes "mset ps = mset qs" "inj_on Policy_ID (set ps)" "sorted_wrt (\<lambda>p q. \<not> policies_Less q p) qs"
  shows "sort_policies ps = qs"
proof -
  have "sorted (map (\<lambda>p. (Namespace (Policy_ID p), Name (Policy_ID p))) qs)"
    unfolding sorted_map using assms(3)
    by (rule sorted_wrt_mono_rel [rotated]) (auto simp: policies_Less_def less_eq_prod_def not_less order.strict_iff_order)
  then show ?thesis
    unfolding sort_policies_def using assms by (intro sort_key_inj_key_eq policies_key_inj) simp_all
qed

section \<open>Properties\<close>

text \<open>A cache with one pod, and a policy with a peer, an IP block with an exception, and a port.\<close>

definition ex_web :: pod_id where
  "ex_web = \<lparr>Name = ''web'', Namespace = ''default''\<rparr>"

definition ex_pod :: pod where
  "ex_pod = \<lparr>Pod_Name = ''web'', Pod_Namespace = ''default'', Pod_Label = [], IpAddress = ''10.1.1.2'',
     HostIpAddress = '''', Container = []\<rparr>"

definition ex_lookup :: pod_lookup where
  "ex_lookup p = (if p = ex_web then (True, Some ex_pod) else (False, None))"

definition ex_net :: "byte \<Rightarrow> byte \<Rightarrow> byte \<Rightarrow> ipnet" where
  "ex_net a b m = \<lparr>IP = [a, b, 0, 0], Mask = [255, m, 0, 0]\<rparr>"

definition ex_policy :: contiv_policy where
  "ex_policy = \<lparr>Policy_ID = \<lparr>Name = ''p'', Namespace = ''default''\<rparr>, Policy_Type = PolicyIngress,
     Matches = [\<lparr>Match_Type = MatchIngress, Pods = Some [ex_web],
       IPBlocks = Some [\<lparr>Network = ex_net 10 0 254, Except = [ex_net 10 1 255]\<rparr>],
       Ports = [\<lparr>PortProtocol = TCP, Number = 80\<rparr>]\<rparr>]\<rparr>"


lemmas configurator_eval =
  applies_def match_rules_def GetOneHostSubnet_def allSubnets_def subtractSubnet_def split_subnet_def
  flip_ip_bit_def unambiguous_def net_rules_def permit_rule_def deny_rule_def src_of_def dst_of_def
  ID_String_def Port_String_def appendRules_def appendRule_def empty_net_def go_eval

lemmas example_defs = ex_web_def ex_pod_def ex_lookup_def ex_net_def ex_policy_def

lemma ex_policies_ok: "policies_ok ex_lookup MatchIngress [ex_policy]"
  by (simp add: policies_ok_def match_ok_def pods_of_def blocks_of_def alias_free_def
      net_ok_def prefix_len_def ex_lookup_def ex_net_def ex_policy_def go_eval)

lemma ex_ids_unambiguous: "ids_unambiguous ex_lookup MatchIngress [ex_policy]"
  by (simp add: ids_unambiguous_def example_defs configurator_eval)


text \<open>
  C23: \<^verbatim>\<open>subtractSubnet\<close> returns networks that together contain exactly the addresses of the first
  network that are not in the second one, whatever the position of the two networks.
\<close>

theorem subtractSubnet_correct:
  assumes "net_ok (deref blk r)" "net_ok net2"
  shows "\<exists>rs. subtractSubnet blk r net2 = Some rs \<and>
    (\<forall>a. list_ex (\<lambda>s. contains (deref blk s) a) rs \<longleftrightarrow> contains (deref blk r) a \<and> \<not> contains net2 a)"
  using subtractSubnet_difference [OF assms] by (auto simp: list_ex_iff)

theorem subtractSubnet_correct_witness:
  "subtractSubnet (ex_net 10 0 252) BlockNetwork (ex_net 10 1 255) = Some [Fresh (ex_net 10 2 254), Fresh (ex_net 10 0 255)] \<and>
   (\<forall>a. list_ex (\<lambda>s. contains (deref (ex_net 10 0 252) s) a) [Fresh (ex_net 10 2 254), Fresh (ex_net 10 0 255)] \<longleftrightarrow>
      contains (ex_net 10 0 252) a \<and> \<not> contains (ex_net 10 1 255) a)"
proof -
  have ok: "net_ok (deref (ex_net 10 0 252) BlockNetwork)" "net_ok (ex_net 10 1 255)"
    by (simp_all add: net_ok_def prefix_len_def ex_net_def go_eval)
  have "subtractSubnet (ex_net 10 0 252) BlockNetwork (ex_net 10 1 255) = Some [Fresh (ex_net 10 2 254), Fresh (ex_net 10 0 255)]"
    by (simp add: ex_net_def configurator_eval)
  then show ?thesis using subtractSubnet_correct [OF ok] unfolding deref.simps(1) by (metis option.inject)
qed

text \<open>
  C16: when policy identifiers identify policies, the memory of processed policy sets in \<^verbatim>\<open>Commit\<close>
  changes nothing: every renderer receives, for each configured pod with a valid address, the
  rules generated from that pod's own sorted policies, pod ingress as egress of the vswitch.
\<close>

theorem Commit_renders_own_policies:
  assumes "ids_identify config"
  shows "Commit lookup renderers par arrival resync config =
    (case those (map (render_pod lookup) config) of
       None \<Rightarrow> None
     | Some calls \<Rightarrow>
         let errs = (if concat calls = [] then [] else map (\<lambda>r. r resync (concat calls)) renderers) in
         Some (concat calls, last_error (if par then arrival errs else errs)))"
proof -
  have "inj_on Policy_ID (\<Union>pc\<in>set config. set (snd pc))"
    using assms by (auto simp: ids_identify_def inj_on_def list_all_iff Let_def)
  then have "commit_loop lookup config [] = map_option concat (those (map (render_pod lookup) config))"
    by (rule commit_loop_renders) auto
  then show ?thesis
    by (cases "those (map (render_pod lookup) config)") (simp_all add: Commit_def Let_def)
qed

theorem Commit_renders_own_policies_witness:
  "ids_identify [(ex_web, [ex_policy]), (\<lparr>Name = ''db'', Namespace = ''default''\<rparr>, [ex_policy])] \<and>
   Commit ex_lookup [\<lambda>_ _. None] False (\<lambda>e. e) True [(ex_web, [ex_policy]), (\<lparr>Name = ''db'', Namespace = ''default''\<rparr>, [ex_policy])] =
    (case those (map (render_pod ex_lookup) [(ex_web, [ex_policy]), (\<lparr>Name = ''db'', Namespace = ''default''\<rparr>, [ex_policy])]) of
       None \<Rightarrow> None
     | Some calls \<Rightarrow>
         let errs = (if concat calls = [] then [] else map (\<lambda>r. r True (concat calls)) [\<lambda>_ _. None]) in
         Some (concat calls, last_error (if False then errs else errs)))"
proof -
  have ids: "ids_identify [(ex_web, [ex_policy]), (\<lparr>Name = ''db'', Namespace = ''default''\<rparr>, [ex_policy])]"
    by (simp add: ids_identify_def)
  show ?thesis
    using ids Commit_renders_own_policies [OF ids, of ex_lookup "[\<lambda>_ _. None]" False "\<lambda>e. e" True] by blast
qed

text \<open>
  The order in which \<^verbatim>\<open>Configure\<close> received the policies of a pod does not matter: the same set
  of policies gives the same rules, which lets renderers share them between interfaces.
\<close>

lemma same_policies_same_rules:
  assumes "mset ps = mset qs" "distinct (map Policy_ID ps)"
  shows "render_pod lookup (pod, ps) = render_pod lookup (pod, qs)"
proof -
  have "sort_policies ps = sort_policies qs"
    using sort_policies_perm [of ps qs] assms by (simp add: distinct_map)
  then show ?thesis by (simp only: render_pod_def fst_conv snd_conv)
qed

text \<open>
  C37: a match whose IP blocks have no exceptions yields only the network of the last block, once
  per block, because the pointers refer to the loop variable: all other blocks are lost.
\<close>

theorem blocks_alias_last:
  assumes "list_all (\<lambda>b. Except b = []) blocks"
  shows "allSubnets blocks = Some (replicate (length blocks) (Network (last blocks)))"
proof -
  have "collect_subnets blocks = Some (replicate (length blocks) BlockNetwork)"
    using assms by (induction blocks) simp_all
  then show ?thesis by (simp add: allSubnets_def)
qed

theorem blocks_alias_last_witness:
  "allSubnets [\<lparr>Network = ex_net 10 0 255, Except = []\<rparr>, \<lparr>Network = ex_net 172 16 240, Except = []\<rparr>] =
   Some [ex_net 172 16 240, ex_net 172 16 240]"
  using blocks_alias_last [of "[\<lparr>Network = ex_net 10 0 255, Except = []\<rparr>, \<lparr>Network = ex_net 172 16 240, Except = []\<rparr>]"]
  by (simp add: numeral_eq_Suc)

text \<open>Two policies and two peers whose rules get the same identifier.\<close>

definition clash_pod :: "string \<Rightarrow> pod" where
  "clash_pod addr = ex_pod\<lparr>IpAddress := addr\<rparr>"

definition clash_lookup :: pod_lookup where
  "clash_lookup p =
     (if p = \<lparr>Name = ''q'', Namespace = ''a-b''\<rparr> then (True, Some (clash_pod ''10.1.1.2''))
      else if p = \<lparr>Name = ''q'', Namespace = ''b''\<rparr> then (True, Some (clash_pod ''10.1.1.3''))
      else (False, None))"

definition clash_policy :: "string \<Rightarrow> string \<Rightarrow> contiv_policy" where
  "clash_policy name peer_ns = \<lparr>Policy_ID = \<lparr>Name = name, Namespace = ''n''\<rparr>, Policy_Type = PolicyIngress,
     Matches = [\<lparr>Match_Type = MatchIngress, Pods = Some [\<lparr>Name = ''q'', Namespace = peer_ns\<rparr>], IPBlocks = None,
       Ports = [\<lparr>PortProtocol = TCP, Number = 80\<rparr>]\<rparr>]\<rparr>"

definition clash_packet :: packet where
  "clash_packet = \<lparr>pkt_src = [10, 1, 1, 3], pkt_dst = [10, 1, 1, 9], pkt_proto = TCP, pkt_sport = 4000, pkt_dport = 80\<rparr>"


end
