(* ===== verification/NamedMapping.thy ===== *)
theory NamedMapping
  imports Prelude
begin

text \<open>
  The in-memory mapping with secondary indexes that the indexes of the policy cache and of the configured
  containers are built on (package \<^verbatim>\<open>idxmap/mem\<close> of the vendored \<^verbatim>\<open>cn-infra\<close>): items by name, and for every
  index field and value the set of names whose item has that value. The locale is its contract: lookup by
  name, and exact secondary indexes.
\<close>

section \<open>The contract\<close>

text \<open>The index function of a value can panic, and then so does \<open>put\<close>.\<close>

locale named_index =
  fixes wf :: "'m \<Rightarrow> bool"
    and empty :: 'm
    and put :: "'m \<Rightarrow> string \<Rightarrow> 'v \<Rightarrow> 'm option"
    and del :: "'m \<Rightarrow> string \<Rightarrow> 'm"
    and get :: "'m \<Rightarrow> string \<Rightarrow> 'v option"
    and all_names :: "'m \<Rightarrow> string list"
    and list_names :: "'m \<Rightarrow> string \<Rightarrow> string \<Rightarrow> string list"
    and idx :: "'v \<Rightarrow> (string \<times> string list) list option"
  assumes wf_empty: "wf empty" "get empty = Map.empty"
    and put_panics: "idx v = None \<Longrightarrow> put m n v = None"
    and put_stores: "wf m \<Longrightarrow> idx v \<noteq> None \<Longrightarrow> \<exists>m'. put m n v = Some m' \<and> wf m' \<and> get m' = (get m)(n \<mapsto> v)"
    and del_removes: "wf m \<Longrightarrow> wf (del m n) \<and> get (del m n) = (get m)(n := None)"
    and all_names_dom: "wf m \<Longrightarrow> set (all_names m) = dom (get m) \<and> distinct (all_names m)"
    and list_names_exact: "wf m \<Longrightarrow> distinct (list_names m field val) \<and>
      (n \<in> set (list_names m field val) \<longleftrightarrow> (\<exists>v ixs vs. get m n = Some v \<and> idx v = Some ixs \<and> map_of ixs field = Some vs \<and> val \<in> set vs))"
begin

text \<open>After a store the name is found under exactly the index values of the new item, and the index entries of all
  other names are unchanged.\<close>

lemma list_names_put:
  assumes "wf m" "idx v = Some ixs" "put m n v = Some m'"
  shows "n \<in> set (list_names m' field val) \<longleftrightarrow> (\<exists>vs. map_of ixs field = Some vs \<and> val \<in> set vs)"
    and "k \<noteq> n \<Longrightarrow> k \<in> set (list_names m' field val) \<longleftrightarrow> k \<in> set (list_names m field val)"
proof -
  obtain m2 where "put m n v = Some m2" "wf m2" "get m2 = (get m)(n \<mapsto> v)"
    using put_stores [of m v n] assms(1,2) by auto
  with assms(3) have m': "wf m'" "get m' = (get m)(n \<mapsto> v)" by auto
  show "n \<in> set (list_names m' field val) \<longleftrightarrow> (\<exists>vs. map_of ixs field = Some vs \<and> val \<in> set vs)"
    using list_names_exact [OF m'(1), of field val n] assms(2) by (simp add: m'(2))
  show "k \<noteq> n \<Longrightarrow> k \<in> set (list_names m' field val) \<longleftrightarrow> k \<in> set (list_names m field val)"
    using list_names_exact [OF m'(1), of field val k] list_names_exact [OF assms(1), of field val k] by (simp add: m'(2))
qed

lemma list_names_del: "wf m \<Longrightarrow> k \<in> set (list_names (del m n) field val) \<longleftrightarrow> k \<noteq> n \<and> k \<in> set (list_names m field val)"
  using del_removes [of m n] list_names_exact [of m field val k] list_names_exact [of "del m n" field val k] by auto

lemma put_wf: "wf m \<Longrightarrow> put m n v = Some m' \<Longrightarrow> wf m' \<and> get m' = (get m)(n \<mapsto> v)"
  using put_stores [of m v n] put_panics [of v m n] by (cases "idx v") auto

end

section \<open>The implementation\<close>

text \<open>
  \<^verbatim>\<open>nameToIdx\<close> holds for every name the value and its extracted index fields. A missing index field or
  value and an empty set of names all list as nil, so that absent entries are empty lists.
\<close>

record 'v named_mapping =
  nameToIdx :: "(string \<times> 'v \<times> (string \<times> string list) list) list"
  indexes :: "string \<Rightarrow> string \<Rightarrow> string list"

definition NewNamedMapping :: "'v named_mapping" where
  "NewNamedMapping = \<lparr>nameToIdx = [], indexes = (\<lambda>_ _. [])\<rparr>"

text \<open>The index function returns a map: its fields are distinct.\<close>

definition add_name :: "string \<Rightarrow> (string \<times> string list) list \<Rightarrow> (string \<Rightarrow> string \<Rightarrow> string list) \<Rightarrow> string \<Rightarrow> string \<Rightarrow> string list" where
  "add_name name ixs ix field val =
     (case map_of ixs field of
        Some vals \<Rightarrow> if val \<in> set vals then List.insert name (ix field val) else ix field val
      | None \<Rightarrow> ix field val)"

definition remove_name :: "string \<Rightarrow> (string \<times> string list) list \<Rightarrow> (string \<Rightarrow> string \<Rightarrow> string list) \<Rightarrow> string \<Rightarrow> string \<Rightarrow> string list" where
  "remove_name name ixs ix field val =
     (case map_of ixs field of
        Some vals \<Rightarrow> if val \<in> set vals then removeAll name (ix field val) else ix field val
      | None \<Rightarrow> ix field val)"

definition map_Delete :: "'v named_mapping \<Rightarrow> string \<Rightarrow> 'v named_mapping" where
  "map_Delete m name =
     (case map_of (nameToIdx m) name of
        None \<Rightarrow> m
      | Some (_, ixs) \<Rightarrow> \<lparr>nameToIdx = AList.delete name (nameToIdx m), indexes = remove_name name ixs (indexes m)\<rparr>)"

definition map_Put :: "('v \<Rightarrow> (string \<times> string list) list option) \<Rightarrow> 'v named_mapping \<Rightarrow> string \<Rightarrow> 'v \<Rightarrow> 'v named_mapping option" where
  "map_Put createIndexes m name v =
     (let ix = (case map_of (nameToIdx m) name of
                  None \<Rightarrow> indexes m
                | Some (_, old) \<Rightarrow> remove_name name old (indexes m))
      in case createIndexes v of
           None \<Rightarrow> None
         | Some ixs \<Rightarrow> Some \<lparr>nameToIdx = AList.update name (v, ixs) (nameToIdx m), indexes = add_name name ixs ix\<rparr>)"

definition map_GetValue :: "'v named_mapping \<Rightarrow> string \<Rightarrow> 'v option" where
  "map_GetValue m name = map_option fst (map_of (nameToIdx m) name)"

definition map_ListAllNames :: "'v named_mapping \<Rightarrow> string list" where
  "map_ListAllNames m = map fst (nameToIdx m)"

definition map_ListNames :: "'v named_mapping \<Rightarrow> string \<Rightarrow> string \<Rightarrow> string list" where
  "map_ListNames m field val = indexes m field val"

section \<open>The implementation meets the contract\<close>

definition mapping_wf :: "('v \<Rightarrow> (string \<times> string list) list option) \<Rightarrow> 'v named_mapping \<Rightarrow> bool" where
  "mapping_wf idx m \<longleftrightarrow> distinct (map fst (nameToIdx m)) \<and>
     (\<forall>n v ixs. map_of (nameToIdx m) n = Some (v, ixs) \<longrightarrow> idx v = Some ixs) \<and>
     (\<forall>field val. distinct (indexes m field val) \<and>
        set (indexes m field val) = {n. \<exists>v ixs vs. map_of (nameToIdx m) n = Some (v, ixs) \<and> map_of ixs field = Some vs \<and> val \<in> set vs})"

lemma map_of_delete: "map_of (AList.delete k l) = (map_of l)(k := None)"
  by (simp add: delete_conv')

lemma mapping_wf_New: "mapping_wf idx NewNamedMapping"
  by (simp add: mapping_wf_def NewNamedMapping_def)

lemma mapping_wf_indexes:
  assumes "mapping_wf idx m"
  shows "distinct (indexes m field val)"
    and "set (indexes m field val) = {n. \<exists>v ixs vs. map_of (nameToIdx m) n = Some (v, ixs) \<and> map_of ixs field = Some vs \<and> val \<in> set vs}"
  using assms unfolding mapping_wf_def by blast+

lemma remove_name_set:
  assumes "mapping_wf idx m" "map_of (nameToIdx m) name = Some (v, ixs)"
  shows "set (remove_name name ixs (indexes m) field val) = set (indexes m field val) - {name}"
    and "distinct (remove_name name ixs (indexes m) field val)"
  using mapping_wf_indexes [OF assms(1), of field val] assms(2)
  by (auto simp: remove_name_def distinct_removeAll simp del: map_of_eq_Some_iff split: option.splits)

lemma add_name_set:
  "set (add_name name ixs ix field val) = set (ix field val) \<union> {n. n = name \<and> (\<exists>vs. map_of ixs field = Some vs \<and> val \<in> set vs)}"
  "distinct (ix field val) \<Longrightarrow> distinct (add_name name ixs ix field val)"
  by (auto simp: add_name_def split: option.splits)

lemma mapping_wfI:
  assumes "distinct (map fst (nameToIdx m))"
    and "\<And>n v ixs. map_of (nameToIdx m) n = Some (v, ixs) \<Longrightarrow> idx v = Some ixs"
    and "\<And>field val. distinct (indexes m field val)"
    and "\<And>field val. set (indexes m field val) = {n. \<exists>v ixs vs. map_of (nameToIdx m) n = Some (v, ixs) \<and> map_of ixs field = Some vs \<and> val \<in> set vs}"
  shows "mapping_wf idx m"
  using assms unfolding mapping_wf_def by blast

lemma mapping_wf_idx: "mapping_wf idx m \<Longrightarrow> map_of (nameToIdx m) n = Some (v, ixs) \<Longrightarrow> idx v = Some ixs"
  unfolding mapping_wf_def by blast

lemma mapping_wf_distinct: "mapping_wf idx m \<Longrightarrow> distinct (map fst (nameToIdx m))"
  unfolding mapping_wf_def by blast

lemma mapping_wf_Delete:
  assumes wf: "mapping_wf idx m"
  shows "mapping_wf idx (map_Delete m name) \<and> map_GetValue (map_Delete m name) = (map_GetValue m)(name := None)"
proof (cases "map_of (nameToIdx m) name")
  case None
  then show ?thesis using wf by (auto simp: map_Delete_def map_GetValue_def fun_eq_iff)
next
  case (Some p)
  obtain v ixs where p: "p = (v, ixs)" by (cases p)
  have "mapping_wf idx (map_Delete m name)"
  proof (rule mapping_wfI)
    show "set (indexes (map_Delete m name) field val) =
        {n. \<exists>v ixs vs. map_of (nameToIdx (map_Delete m name)) n = Some (v, ixs) \<and> map_of ixs field = Some vs \<and> val \<in> set vs}" for field val
      using remove_name_set(1) [OF wf Some [unfolded p]] mapping_wf_indexes(2) [OF wf]
      by (auto simp: map_Delete_def Some p map_of_delete simp del: map_of_eq_Some_iff)
  qed (use remove_name_set(2) [OF wf Some [unfolded p]] mapping_wf_idx [OF wf] mapping_wf_distinct [OF wf] in
        \<open>auto simp: map_Delete_def Some p map_of_delete distinct_delete simp del: map_of_eq_Some_iff split: if_splits\<close>)
  then show ?thesis by (auto simp: map_Delete_def map_GetValue_def Some p map_of_delete)
qed

lemma map_Put_panics: "idx v = None \<Longrightarrow> map_Put idx m name v = None"
  by (simp add: map_Put_def)

lemma mapping_wf_Put:
  assumes wf: "mapping_wf idx m" and "idx v \<noteq> None"
  shows "\<exists>m'. map_Put idx m name v = Some m' \<and> mapping_wf idx m' \<and> map_GetValue m' = (map_GetValue m)(name \<mapsto> v)"
proof -
  obtain ixs where ixs: "idx v = Some ixs" using assms(2) by auto
  define ix where "ix = (case map_of (nameToIdx m) name of None \<Rightarrow> indexes m | Some (_, old) \<Rightarrow> remove_name name old (indexes m))"
  have ix_set: "set (ix field val) = set (indexes m field val) - {name}" and ix_d: "distinct (ix field val)" for field val
    using remove_name_set [OF wf] mapping_wf_indexes [OF wf]
    by (auto simp: ix_def simp del: map_of_eq_Some_iff split: option.split)
  let ?m = "\<lparr>nameToIdx = AList.update name (v, ixs) (nameToIdx m), indexes = add_name name ixs ix\<rparr>"
  have "mapping_wf idx ?m"
  proof (rule mapping_wfI)
    show "set (indexes ?m field val) =
        {n. \<exists>v ixs vs. map_of (nameToIdx ?m) n = Some (v, ixs) \<and> map_of ixs field = Some vs \<and> val \<in> set vs}" for field val
      using mapping_wf_indexes(2) [OF wf] by (auto simp: add_name_set ix_set update_conv' simp del: map_of_eq_Some_iff)
  qed (use mapping_wf_idx [OF wf] mapping_wf_distinct [OF wf] ixs in
        \<open>auto simp: add_name_set ix_d update_conv' distinct_update simp del: map_of_eq_Some_iff split: if_splits\<close>)
  then show ?thesis by (auto simp: map_Put_def ixs ix_def [symmetric] map_GetValue_def update_conv')
qed

lemma mapping_ListAllNames: "mapping_wf idx m \<Longrightarrow> set (map_ListAllNames m) = dom (map_GetValue m) \<and> distinct (map_ListAllNames m)"
  by (force simp: map_ListAllNames_def map_GetValue_def mapping_wf_distinct)

lemma mapping_ListNames:
  assumes "mapping_wf idx m"
  shows "distinct (map_ListNames m field val) \<and> (n \<in> set (map_ListNames m field val) \<longleftrightarrow>
    (\<exists>v ixs vs. map_GetValue m n = Some v \<and> idx v = Some ixs \<and> map_of ixs field = Some vs \<and> val \<in> set vs))"
  using mapping_wf_indexes [OF assms, of field val] mapping_wf_idx [OF assms, of n]
  by (auto simp: map_ListNames_def map_GetValue_def simp del: map_of_eq_Some_iff)

text \<open>The mapping meets the contract for every index function.\<close>

lemma mapping_is_named_index:
  "named_index (mapping_wf idx) NewNamedMapping (map_Put idx) map_Delete map_GetValue map_ListAllNames map_ListNames idx"
proof (unfold_locales, goal_cases)
  case 2
  show ?case by (simp add: NewNamedMapping_def map_GetValue_def fun_eq_iff)
qed (rule mapping_wf_New map_Put_panics mapping_wf_Put mapping_wf_Delete mapping_ListAllNames mapping_ListNames; assumption?)+

end
