(* ===== verification/PolicyModel.thy ===== *)
theory PolicyModel
  imports KsrModel
begin

text \<open>
  The protobuf messages of Kubernetes network policies and namespaces, \<^verbatim>\<open>src/plugins/ksr/model/policy\<close> and
  \<^verbatim>\<open>src/plugins/ksr/model/namespace\<close>. A pointer to a message is an option, a repeated field is a list.
\<close>

section \<open>Policies\<close>

datatype k8s_policy_type = Policy_DEFAULT | Policy_INGRESS | Policy_EGRESS | Policy_INGRESS_AND_EGRESS

datatype expr_operator = Expr_IN | Expr_NOT_IN | Expr_EXISTS | Expr_DOES_NOT_EXIST

datatype policy_port_protocol = Policy_Port_TCP | Policy_Port_UDP

datatype port_ref_type = Port_NUMBER | Port_NAME

record label_expression =
  Expr_Key :: string
  Operator :: expr_operator
  Expr_Value :: "string list"

record label_selector =
  MatchLabel :: "label list"
  MatchExpression :: "label_expression list"

record port_name_or_number =
  Ref_Type :: port_ref_type
  Ref_Number :: "32 word"
  Ref_Name :: string

record policy_port =
  Pol_Protocol :: policy_port_protocol
  Pol_Port :: "port_name_or_number option"

record peer_ip_block =
  Cidr :: string
  Block_Except :: "string list"

record policy_peer =
  Peer_Pods :: "label_selector option"
  Peer_Namespaces :: "label_selector option"
  IpBlock :: "peer_ip_block option"

record policy_ingress_rule =
  Ingress_Port :: "policy_port list"
  From :: "policy_peer list"

record policy_egress_rule =
  Egress_Port :: "policy_port list"
  To :: "policy_peer list"

record k8s_policy =
  Pol_Name :: string
  Pol_Namespace :: string
  Pol_Label :: "label list"
  Pol_Pods :: "label_selector option"
  Pol_PolicyType :: k8s_policy_type
  IngressRule :: "policy_ingress_rule list"
  EgressRule :: "policy_egress_rule list"

section \<open>Namespaces\<close>

type_synonym namespace_id = string

record k8s_namespace =
  Ns_Name :: string
  Ns_Label :: "label list"

section \<open>Identifiers\<close>

definition policy_GetID :: "k8s_policy option \<Rightarrow> policy_id" where
  "policy_GetID policy =
     (case policy of Some p \<Rightarrow> \<lparr>Name = Pol_Name p, Namespace = Pol_Namespace p\<rparr> | None \<Rightarrow> \<lparr>Name = '''', Namespace = ''''\<rparr>)"

definition pod_GetID :: "pod option \<Rightarrow> pod_id" where
  "pod_GetID pod =
     (case pod of Some p \<Rightarrow> \<lparr>Name = Pod_Name p, Namespace = Pod_Namespace p\<rparr> | None \<Rightarrow> \<lparr>Name = '''', Namespace = ''''\<rparr>)"

definition namespace_GetID :: "k8s_namespace option \<Rightarrow> namespace_id" where
  "namespace_GetID ns = (case ns of Some n \<Rightarrow> Ns_Name n | None \<Rightarrow> '''')"

end
