(* ===== verification/PolicyCache.thy ===== *)
theory PolicyCache
  imports NamedMapping PolicyModel Utils
begin

text \<open>
  The cache of the Kubernetes state, \<^verbatim>\<open>src/plugins/policy/cache\<close>: three named mappings with the pods, policies and
  namespaces, the lookups by label selector, and the change and resync events that update the cache
  and notify its watchers. Lookups return \<open>None\<close> where the code panics.
\<close>

section \<open>Index functions\<close>

definition podLabelSelectorKey :: string where "podLabelSelectorKey = ''podLabelSelectorKey''"

definition podKeySelectorKey :: string where "podKeySelectorKey = ''podKeySelectorKey''"

definition podNSKeySelectorKey :: string where "podNSKeySelectorKey = ''podNamespaceKey''"

definition podNSLabelSelectorKey :: string where "podNSLabelSelectorKey = ''podNamespaceLabelKey''"

definition podNamespace :: string where "podNamespace = ''podNamespace''"

text \<open>The order in which the duplicates are removed does not matter to an index, which is a set.\<close>

definition pod_IndexFunction :: "pod \<Rightarrow> (string \<times> string list) list option" where
  "pod_IndexFunction config =
     (let ns = Pod_Namespace config;
          labels = map (\<lambda>v. Label_Key v @ ''/'' @ Label_Value v) (Pod_Label config);
          keys = map Label_Key (Pod_Label config);
          nsLabels = map (\<lambda>v. ns @ ''/'' @ Label_Key v @ ''/'' @ Label_Value v) (Pod_Label config);
          nsKeys = map (\<lambda>v. ns @ ''/'' @ Label_Key v) (Pod_Label config)
      in Some [(podLabelSelectorKey, labels), (podKeySelectorKey, RemoveDuplicates (\<lambda>ks. ks) keys), (podNamespace, [ns]),
               (podNSLabelSelectorKey, nsLabels), (podNSKeySelectorKey, RemoveDuplicates (\<lambda>ks. ks) nsKeys)])"

definition policyPodLabelKey :: string where "policyPodLabelKey = ''policyPodLabelKey''"

definition policyPodNSLabelKey :: string where "policyPodNSLabelKey = ''policyPodNSLabelKey''"

text \<open>The selector is dereferenced without a check.\<close>

definition policy_IndexFunction :: "k8s_policy \<Rightarrow> (string \<times> string list) list option" where
  "policy_IndexFunction config =
     (case Pol_Pods config of
        None \<Rightarrow> None
      | Some sel \<Rightarrow>
          Some [(policyPodLabelKey, map (\<lambda>v. Label_Key v @ ''/'' @ Label_Value v) (MatchLabel sel)),
                (policyPodNSLabelKey, map (\<lambda>v. Pol_Namespace config @ ''/'' @ Label_Key v @ ''/'' @ Label_Value v) (MatchLabel sel))])"

definition namespaceLabelSelectorKey :: string where "namespaceLabelSelectorKey = ''namespaceLabelSelectorKey''"

definition namespace_IndexFunction :: "k8s_namespace \<Rightarrow> (string \<times> string list) list option" where
  "namespace_IndexFunction config =
     Some [(namespaceLabelSelectorKey, map (\<lambda>v. Label_Key v @ ''/'' @ Label_Value v) (Ns_Label config))]"

interpretation pod_index: named_index "mapping_wf pod_IndexFunction" NewNamedMapping "map_Put pod_IndexFunction" map_Delete
    map_GetValue map_ListAllNames map_ListNames pod_IndexFunction
  by (rule mapping_is_named_index)

interpretation policy_index: named_index "mapping_wf policy_IndexFunction" NewNamedMapping "map_Put policy_IndexFunction" map_Delete
    map_GetValue map_ListAllNames map_ListNames policy_IndexFunction
  by (rule mapping_is_named_index)

interpretation namespace_index: named_index "mapping_wf namespace_IndexFunction" NewNamedMapping "map_Put namespace_IndexFunction" map_Delete
    map_GetValue map_ListAllNames map_ListNames namespace_IndexFunction
  by (rule mapping_is_named_index)

section \<open>The configuration indexes\<close>

type_synonym pod_idx = "pod named_mapping"
type_synonym policy_idx = "k8s_policy named_mapping"
type_synonym namespace_idx = "k8s_namespace named_mapping"

definition RegisterPod :: "pod_idx \<Rightarrow> string \<Rightarrow> pod \<Rightarrow> pod_idx option" where
  "RegisterPod ci podID dat = map_Put pod_IndexFunction ci podID dat"

definition UnregisterPod :: "pod_idx \<Rightarrow> string \<Rightarrow> pod_idx" where
  "UnregisterPod ci podID = map_Delete ci podID"

definition idx_LookupPod :: "pod_idx \<Rightarrow> string \<Rightarrow> pod option" where
  "idx_LookupPod ci podID = map_GetValue ci podID"

definition idx_LookupPodsByLabelSelector :: "pod_idx \<Rightarrow> string \<Rightarrow> string list" where
  "idx_LookupPodsByLabelSelector ci podLabelSelector = map_ListNames ci podLabelSelectorKey podLabelSelector"

definition idx_LookupPodsByLabelKey :: "pod_idx \<Rightarrow> string \<Rightarrow> string list" where
  "idx_LookupPodsByLabelKey ci podKeySelector = map_ListNames ci podKeySelectorKey podKeySelector"

text \<open>The parameter \<^verbatim>\<open>podNamespace\<close> hides the constant with the name of the index field.\<close>

definition idx_LookupPodsByNamespace :: "pod_idx \<Rightarrow> string \<Rightarrow> string list" where
  "idx_LookupPodsByNamespace ci ns = map_ListNames ci ns ns"

definition idx_LookupPodsByNSLabelSelector :: "pod_idx \<Rightarrow> string \<Rightarrow> string list" where
  "idx_LookupPodsByNSLabelSelector ci podNSLabelSelector = map_ListNames ci podNSLabelSelectorKey podNSLabelSelector"

definition idx_LookupPodsByNSKey :: "pod_idx \<Rightarrow> string \<Rightarrow> string list" where
  "idx_LookupPodsByNSKey ci podNSKeySelector = map_ListNames ci podNSKeySelectorKey podNSKeySelector"

definition RegisterPolicy :: "policy_idx \<Rightarrow> string \<Rightarrow> k8s_policy \<Rightarrow> policy_idx option" where
  "RegisterPolicy ci policyID dat = map_Put policy_IndexFunction ci policyID dat"

definition UnregisterPolicy :: "policy_idx \<Rightarrow> string \<Rightarrow> policy_idx" where
  "UnregisterPolicy ci policyID = map_Delete ci policyID"

definition idx_LookupPolicy :: "policy_idx \<Rightarrow> string \<Rightarrow> k8s_policy option" where
  "idx_LookupPolicy ci policyID = map_GetValue ci policyID"

definition LookupPolicyByLabelSelector :: "policy_idx \<Rightarrow> string \<Rightarrow> string list" where
  "LookupPolicyByLabelSelector ci policyLabelSelector = map_ListNames ci policyPodLabelKey policyLabelSelector"

definition LookupPolicyByNSLabelSelector :: "policy_idx \<Rightarrow> string \<Rightarrow> string list" where
  "LookupPolicyByNSLabelSelector ci policyNSLabelSelector = map_ListNames ci policyPodNSLabelKey policyNSLabelSelector"

definition RegisterNamespace :: "namespace_idx \<Rightarrow> string \<Rightarrow> k8s_namespace \<Rightarrow> namespace_idx option" where
  "RegisterNamespace ci namespaceID dat = map_Put namespace_IndexFunction ci namespaceID dat"

definition UnRegisterNamespace :: "namespace_idx \<Rightarrow> string \<Rightarrow> namespace_idx" where
  "UnRegisterNamespace ci namespaceID = map_Delete ci namespaceID"

definition idx_LookupNamespace :: "namespace_idx \<Rightarrow> string \<Rightarrow> k8s_namespace option" where
  "idx_LookupNamespace ci namespaceID = map_GetValue ci namespaceID"

definition idx_LookupNamespacesByLabelSelector :: "namespace_idx \<Rightarrow> string \<Rightarrow> string list" where
  "idx_LookupNamespacesByLabelSelector ci sel = map_ListNames ci namespaceLabelSelectorKey sel"

section \<open>The cache\<close>

record policy_cache =
  configuredPolicies :: policy_idx
  configuredPods :: pod_idx
  configuredNamespaces :: namespace_idx

definition cache_Init :: policy_cache where
  "cache_Init = \<lparr>configuredPolicies = NewNamedMapping, configuredPods = NewNamedMapping, configuredNamespaces = NewNamedMapping\<rparr>"

text \<open>A missing object is reported as found, with no data.\<close>

definition LookupPod :: "policy_cache \<Rightarrow> pod_id \<Rightarrow> bool \<times> pod option" where
  "LookupPod pc pod =
     (case idx_LookupPod (configuredPods pc) (ID_String pod) of
        None \<Rightarrow> (True, None)
      | Some dat \<Rightarrow> (True, Some dat))"

definition LookupPolicy :: "policy_cache \<Rightarrow> policy_id \<Rightarrow> bool \<times> k8s_policy option" where
  "LookupPolicy pc policy =
     (case idx_LookupPolicy (configuredPolicies pc) (ID_String policy) of
        None \<Rightarrow> (True, None)
      | Some dat \<Rightarrow> (True, Some dat))"

definition LookupNamespace :: "policy_cache \<Rightarrow> namespace_id \<Rightarrow> bool \<times> k8s_namespace option" where
  "LookupNamespace pc namespace =
     (case idx_LookupNamespace (configuredNamespaces pc) namespace of
        None \<Rightarrow> (True, None)
      | Some dat \<Rightarrow> (True, Some dat))"

subsection \<open>Match labels\<close>

definition ns_label :: "string \<Rightarrow> label \<Rightarrow> string" where
  "ns_label namespace l = namespace @ ''/'' @ Label_Key l @ ''/'' @ Label_Value l"

fun ns_label_loop :: "policy_cache \<Rightarrow> string \<Rightarrow> string list \<Rightarrow> string list \<Rightarrow> label list \<Rightarrow> bool \<times> string list" where
  "ns_label_loop pc namespace prevPodSet newPodSet [] = (True, newPodSet)"
| "ns_label_loop pc namespace prevPodSet newPodSet (l # labels) =
     (let newSet = idx_LookupPodsByNSLabelSelector (configuredPods pc) (ns_label namespace l);
          tmp = Intersect prevPodSet newSet
      in if tmp = [] then (False, []) else ns_label_loop pc namespace newSet tmp labels)"

definition getPodsByNSLabelSelector :: "policy_cache \<Rightarrow> string \<Rightarrow> label list \<Rightarrow> (bool \<times> string list) option" where
  "getPodsByNSLabelSelector pc namespace labels =
     (case labels of
        [] \<Rightarrow> None
      | l # ls \<Rightarrow>
          let prevPodSet = idx_LookupPodsByNSLabelSelector (configuredPods pc) (ns_label namespace l)
          in if ls = [] then Some (True, prevPodSet) else Some (ns_label_loop pc namespace prevPodSet [] ls))"

fun label_loop :: "policy_cache \<Rightarrow> string list \<Rightarrow> string list \<Rightarrow> label list \<Rightarrow> bool \<times> string list" where
  "label_loop pc prevPodSet newPodSet [] = (True, newPodSet)"
| "label_loop pc prevPodSet newPodSet (l # labels) =
     (let newSet = idx_LookupPodsByLabelSelector (configuredPods pc) (Label_Key l @ ''/'' @ Label_Value l);
          tmp = Intersect prevPodSet newSet
      in if tmp = [] then (False, []) else label_loop pc newSet tmp labels)"

definition getPodsByLabelSelector :: "policy_cache \<Rightarrow> string \<Rightarrow> label list \<Rightarrow> (bool \<times> string list) option" where
  "getPodsByLabelSelector pc namespace labels =
     (case labels of
        [] \<Rightarrow> None
      | l # ls \<Rightarrow>
          let prevPodSet = idx_LookupPodsByLabelSelector (configuredPods pc) (Label_Key l @ ''/'' @ Label_Value l)
          in if ls = [] then Some (True, prevPodSet) else Some (label_loop pc prevPodSet [] ls))"

subsection \<open>Match expressions\<close>

definition ConstructLabels :: "string \<Rightarrow> string list \<Rightarrow> label list" where
  "ConstructLabels key vals = map (\<lambda>v. \<lparr>Label_Key = key, Label_Value = v\<rparr>) vals"

record expr_sets =
  inPodSet :: "string list"
  notInPodSet :: "string list"
  existsPodSet :: "string list"
  notExistPodSet :: "string list"

text \<open>
  One iteration of the loop over the expressions: a panic, \<open>Inl\<close> of the early return \<^verbatim>\<open>false, nil\<close>, or \<open>Inr\<close> of the
  updated sets. A slice that was only appended to is nil exactly when it is empty, and so is the list of an index.
\<close>

definition expression_step :: "policy_cache \<Rightarrow> string \<Rightarrow> label_expression \<Rightarrow> expr_sets \<Rightarrow> (unit + expr_sets) option" where
  "expression_step pc namespace expression s =
     (let podNamespaceAll = idx_LookupPodsByNamespace (configuredPods pc) namespace;
          keyPods = idx_LookupPodsByNSKey (configuredPods pc) (namespace @ ''/'' @ Expr_Key expression);
          labelled = getPodsByNSLabelSelector pc namespace (ConstructLabels (Expr_Key expression) (Expr_Value expression))
      in case Operator expression of
           Expr_IN \<Rightarrow>
             (case labelled of
                None \<Rightarrow> None
              | Some (isMatch, podSet) \<Rightarrow>
                  if \<not> isMatch then Some (Inl ()) else Some (Inr (s\<lparr>inPodSet := inPodSet s @ podSet\<rparr>)))
         | Expr_NOT_IN \<Rightarrow>
             (case labelled of
                None \<Rightarrow> None
              | Some (isMatch, podSet) \<Rightarrow>
                  if \<not> isMatch then
                    if podNamespaceAll = [] then Some (Inl ())
                    else Some (Inr (s\<lparr>notInPodSet := notInPodSet s @ podNamespaceAll\<rparr>))
                  else
                    let pods = notInPodSet s @ Difference podNamespaceAll podSet in
                    if pods = [] then Some (Inl ()) else Some (Inr (s\<lparr>notInPodSet := pods\<rparr>)))
         | Expr_EXISTS \<Rightarrow>
             if keyPods = [] then Some (Inl ()) else Some (Inr (s\<lparr>existsPodSet := existsPodSet s @ keyPods\<rparr>))
         | Expr_DOES_NOT_EXIST \<Rightarrow>
             if keyPods = [] then
               if podNamespaceAll = [] then Some (Inl ())
               else Some (Inr (s\<lparr>notExistPodSet := notExistPodSet s @ podNamespaceAll\<rparr>))
             else
               let pods = notExistPodSet s @ Difference podNamespaceAll keyPods in
               if pods = [] then Some (Inl ()) else Some (Inr (s\<lparr>notExistPodSet := pods\<rparr>)))"

fun expressions_loop :: "policy_cache \<Rightarrow> string \<Rightarrow> label_expression list \<Rightarrow> expr_sets \<Rightarrow> (unit + expr_sets) option" where
  "expressions_loop pc namespace [] s = Some (Inr s)"
| "expressions_loop pc namespace (e # es) s =
     (case expression_step pc namespace e s of
        None \<Rightarrow> None
      | Some (Inl u) \<Rightarrow> Some (Inl u)
      | Some (Inr s') \<Rightarrow> expressions_loop pc namespace es s')"

text \<open>All four sets are replaced by the first one; \<^verbatim>\<open>Intersect\<close> never returns nil.\<close>

definition getMatchExpressionPods ::
  "(string list \<Rightarrow> string list) \<Rightarrow> policy_cache \<Rightarrow> string \<Rightarrow> label_expression list \<Rightarrow> (bool \<times> string list) option" where
  "getMatchExpressionPods iter pc namespace expressions =
     (case expressions_loop pc namespace expressions \<lparr>inPodSet = [], notInPodSet = [], existsPodSet = [], notExistPodSet = []\<rparr> of
        None \<Rightarrow> None
      | Some (Inl _) \<Rightarrow> Some (False, [])
      | Some (Inr s) \<Rightarrow>
          let inPods = RemoveDuplicates iter (inPodSet s);
              notInPods = RemoveDuplicates iter inPods;
              existsPods = RemoveDuplicates iter inPods;
              notExistPods = RemoveDuplicates iter inPods;
              inMatcher = Intersect inPods notInPods;
              existsMatcher = Intersect existsPods notExistPods
          in Some (True, Intersect inMatcher existsMatcher))"

subsection \<open>Lookups\<close>

definition LookupPodsByNSLabelSelector ::
  "(string list \<Rightarrow> string list) \<Rightarrow> policy_cache \<Rightarrow> string \<Rightarrow> label_selector option \<Rightarrow> pod_id list option" where
  "LookupPodsByNSLabelSelector iter pc policyNamespace podLabelSelector =
     (case podLabelSelector of
        None \<Rightarrow> UnstringPodID (idx_LookupPodsByNamespace (configuredPods pc) policyNamespace)
      | Some sel \<Rightarrow>
          let matchLabels = MatchLabel sel; matchExpressions = MatchExpression sel in
          if matchLabels \<noteq> [] \<and> matchExpressions = [] then
            (case getPodsByNSLabelSelector pc policyNamespace matchLabels of
               None \<Rightarrow> None
             | Some (found, pods) \<Rightarrow> if \<not> found then Some [] else UnstringPodID pods)
          else if matchLabels = [] \<and> matchExpressions \<noteq> [] then
            (case getMatchExpressionPods iter pc policyNamespace matchExpressions of
               None \<Rightarrow> None
             | Some (found, pods) \<Rightarrow> if \<not> found then Some [] else UnstringPodID pods)
          else if matchLabels \<noteq> [] \<and> matchExpressions \<noteq> [] then
            (case getPodsByNSLabelSelector pc policyNamespace matchLabels of
               None \<Rightarrow> None
             | Some (foundMlPods, mlPods) \<Rightarrow>
                 if \<not> foundMlPods then Some []
                 else
                   (case getMatchExpressionPods iter pc policyNamespace matchExpressions of
                      None \<Rightarrow> None
                    | Some (foundMePods, mePods) \<Rightarrow>
                        if \<not> foundMePods then Some [] else UnstringPodID (Intersect mlPods mePods)))
          else Some [])"

definition LookupPodsByLabelSelector :: "policy_cache \<Rightarrow> label_selector option \<Rightarrow> pod_id list" where
  "LookupPodsByLabelSelector pc podLabelSelector = []"

definition LookupPodsByNamespace :: "policy_cache \<Rightarrow> namespace_id \<Rightarrow> pod_id list option" where
  "LookupPodsByNamespace pc namespace = UnstringPodID (idx_LookupPodsByNamespace (configuredPods pc) namespace)"

definition ListAllPods :: "policy_cache \<Rightarrow> pod_id list option" where
  "ListAllPods pc = UnstringPodID (map_ListAllNames (configuredPods pc))"

definition ListAllPolicies :: "policy_cache \<Rightarrow> policy_id list option" where
  "ListAllPolicies pc = UnstringPolicyID (map_ListAllNames (configuredPolicies pc))"

definition UnstringNamespaceID :: "string list \<Rightarrow> namespace_id list" where
  "UnstringNamespaceID namespaces = map (\<lambda>namespace. namespace) namespaces"

definition ListAllNamespaces :: "policy_cache \<Rightarrow> namespace_id list" where
  "ListAllNamespaces pc = UnstringNamespaceID (map_ListAllNames (configuredNamespaces pc))"

definition LookupNamespacesByLabelSelector :: "policy_cache \<Rightarrow> label_selector option \<Rightarrow> namespace_id list" where
  "LookupNamespacesByLabelSelector pc nsLabelSelector = []"

text \<open>The policies whose selector lists a label of the pod, collected in a map.\<close>

definition label_policies :: "policy_cache \<Rightarrow> pod \<Rightarrow> (string \<times> k8s_policy) list" where
  "label_policies pc podData =
     fold (\<lambda>podLabel. fold (\<lambda>policyID policyMap.
             case idx_LookupPolicy (configuredPolicies pc) policyID of
               Some policyData \<Rightarrow> AList.update policyID policyData policyMap
             | None \<Rightarrow> policyMap)
           (LookupPolicyByNSLabelSelector (configuredPolicies pc) (ns_label (Pod_Namespace podData) podLabel)))
       (Pod_Label podData) []"

fun policies_selecting ::
  "(string list \<Rightarrow> string list) \<Rightarrow> policy_cache \<Rightarrow> pod_id \<Rightarrow> (string \<times> k8s_policy) list \<Rightarrow> policy_id list option" where
  "policies_selecting iter pc pod [] = Some []"
| "policies_selecting iter pc pod ((k, v) # policyMap) =
     (case LookupPodsByNSLabelSelector iter pc (Pol_Namespace v) (Pol_Pods v) of
        None \<Rightarrow> None
      | Some podByNS \<Rightarrow>
          (case those (map (\<lambda>_. UnstringID k) (filter (\<lambda>podID. podID = pod) podByNS)) of
             None \<Rightarrow> None
           | Some ids \<Rightarrow> map_option ((@) ids) (policies_selecting iter pc pod policyMap)))"

definition LookupPoliciesByPod :: "(string list \<Rightarrow> string list) \<Rightarrow> policy_cache \<Rightarrow> pod_id \<Rightarrow> policy_id list option" where
  "LookupPoliciesByPod iter pc pod =
     (case idx_LookupPod (configuredPods pc) (ID_String pod) of
        None \<Rightarrow> Some []
      | Some podData \<Rightarrow> policies_selecting iter pc pod (label_policies pc podData))"

section \<open>Events\<close>

record data_resync_event =
  Re_Namespaces :: "k8s_namespace list"
  Re_Pods :: "pod list"
  Re_Policies :: "k8s_policy list"

definition NewDataResyncEvent :: data_resync_event where
  "NewDataResyncEvent = \<lparr>Re_Namespaces = [], Re_Pods = [], Re_Policies = []\<rparr>"

datatype notification =
    Resync_n data_resync_event |
    AddPod_n pod | DelPod_n pod | UpdatePod_n pod pod
  | AddPolicy_n k8s_policy | DelPolicy_n k8s_policy | UpdatePolicy_n k8s_policy k8s_policy
  | AddNamespace_n k8s_namespace | DelNamespace_n k8s_namespace | UpdateNamespace_n k8s_namespace k8s_namespace

text \<open>A watcher reads the cache, changes its own state and may fail with an error; \<open>None\<close> is a panic.\<close>

type_synonym 'w watcher = "policy_cache \<Rightarrow> notification \<Rightarrow> 'w \<Rightarrow> ('w \<times> string option) option"

fun notify :: "'w watcher list \<Rightarrow> notification \<Rightarrow> policy_cache \<times> 'w \<Rightarrow> ((policy_cache \<times> 'w) \<times> string option) option" where
  "notify [] n (pc, w) = Some ((pc, w), None)"
| "notify (watcher # ws) n (pc, w) =
     (case watcher pc n w of
        None \<Rightarrow> None
      | Some (w', Some err) \<Rightarrow> Some ((pc, w'), Some err)
      | Some (w', None) \<Rightarrow> notify ws n (pc, w'))"

datatype change_type = Put_change | Delete_change

text \<open>A change event of the data store: what \<^verbatim>\<open>GetValue\<close> and \<^verbatim>\<open>GetPrevValue\<close> give for each type of message.\<close>

record change_event =
  ev_Key :: string
  ev_ChangeType :: change_type
  ev_policy :: "string + k8s_policy"
  ev_prev_policy :: "string + bool \<times> k8s_policy"
  ev_pod :: "string + pod"
  ev_prev_pod :: "string + bool \<times> pod"
  ev_namespace :: "string + k8s_namespace"
  ev_prev_namespace :: "string + bool \<times> k8s_namespace"

text \<open>
  The code has the following sequence once for every type of message. A changed object is unregistered
  under its old identifier, registered, announced as updated, and then registered and announced as
  added as well, because the branch does not return.
\<close>

definition propagate ::
  "('v \<Rightarrow> string) \<Rightarrow> (policy_cache \<Rightarrow> string \<Rightarrow> policy_cache) \<Rightarrow> (policy_cache \<Rightarrow> string \<Rightarrow> 'v \<Rightarrow> policy_cache option) \<Rightarrow>
   ('v \<Rightarrow> notification) \<Rightarrow> ('v \<Rightarrow> 'v \<Rightarrow> notification) \<Rightarrow> ('v \<Rightarrow> notification) \<Rightarrow>
   'w watcher list \<Rightarrow> change_type \<Rightarrow> string + 'v \<Rightarrow> string + bool \<times> 'v \<Rightarrow> policy_cache \<times> 'w \<Rightarrow>
   ((policy_cache \<times> 'w) \<times> string option) option" where
  "propagate ident unregister register added updated deleted watchers change getValue getPrevValue = (\<lambda>(pc, w).
     case getValue of
       Inl err \<Rightarrow> Some ((pc, w), Some err)
     | Inr val \<Rightarrow>
         (case getPrevValue of
            Inl err \<Rightarrow> Some ((pc, w), Some err)
          | Inr (diff, prevValue) \<Rightarrow>
              let add = (\<lambda>(pc, w). case register pc (ident val) val of
                           None \<Rightarrow> None
                         | Some pc' \<Rightarrow> notify watchers (added val) (pc', w))
              in if change = Delete_change then notify watchers (deleted prevValue) (unregister pc (ident prevValue), w)
                 else if diff then
                   (case register (unregister pc (ident prevValue)) (ident val) val of
                      None \<Rightarrow> None
                    | Some pc' \<Rightarrow>
                        (case notify watchers (updated prevValue val) (pc', w) of
                           None \<Rightarrow> None
                         | Some (s, Some err) \<Rightarrow> Some (s, Some err)
                         | Some (s, None) \<Rightarrow> add s))
                 else add (pc, w)))"

definition policy_change :: "'w watcher list \<Rightarrow> change_event \<Rightarrow> policy_cache \<times> 'w \<Rightarrow> ((policy_cache \<times> 'w) \<times> string option) option" where
  "policy_change watchers ev =
     propagate (\<lambda>v. ID_String (policy_GetID (Some v)))
       (\<lambda>pc i. pc\<lparr>configuredPolicies := UnregisterPolicy (configuredPolicies pc) i\<rparr>)
       (\<lambda>pc i v. map_option (\<lambda>m. pc\<lparr>configuredPolicies := m\<rparr>) (RegisterPolicy (configuredPolicies pc) i v))
       AddPolicy_n UpdatePolicy_n DelPolicy_n watchers (ev_ChangeType ev) (ev_policy ev) (ev_prev_policy ev)"

definition pod_change :: "'w watcher list \<Rightarrow> change_event \<Rightarrow> policy_cache \<times> 'w \<Rightarrow> ((policy_cache \<times> 'w) \<times> string option) option" where
  "pod_change watchers ev =
     propagate (\<lambda>v. ID_String (pod_GetID (Some v)))
       (\<lambda>pc i. pc\<lparr>configuredPods := UnregisterPod (configuredPods pc) i\<rparr>)
       (\<lambda>pc i v. map_option (\<lambda>m. pc\<lparr>configuredPods := m\<rparr>) (RegisterPod (configuredPods pc) i v))
       AddPod_n UpdatePod_n DelPod_n watchers (ev_ChangeType ev) (ev_pod ev) (ev_prev_pod ev)"

definition namespace_change :: "'w watcher list \<Rightarrow> change_event \<Rightarrow> policy_cache \<times> 'w \<Rightarrow> ((policy_cache \<times> 'w) \<times> string option) option" where
  "namespace_change watchers ev =
     propagate Ns_Name
       (\<lambda>pc i. pc\<lparr>configuredNamespaces := UnRegisterNamespace (configuredNamespaces pc) i\<rparr>)
       (\<lambda>pc i v. map_option (\<lambda>m. pc\<lparr>configuredNamespaces := m\<rparr>) (RegisterNamespace (configuredNamespaces pc) i v))
       AddNamespace_n UpdateNamespace_n DelNamespace_n watchers (ev_ChangeType ev) (ev_namespace ev) (ev_prev_namespace ev)"

definition changePropagateEvent :: "'w watcher list \<Rightarrow> change_event \<Rightarrow> policy_cache \<times> 'w \<Rightarrow> ((policy_cache \<times> 'w) \<times> string option) option" where
  "changePropagateEvent watchers ev s =
     (if has_prefix (ev_Key ev) NamespacePrefix then
        (case ParsePolicyFromKey (ev_Key ev) of
           Inr _ \<Rightarrow> policy_change watchers ev s
         | Inl _ \<Rightarrow>
             (case ParsePodFromKey (ev_Key ev) of
                Inr _ \<Rightarrow> pod_change watchers ev s
              | Inl _ \<Rightarrow> namespace_change watchers ev s))
      else Some (s, None))"

definition cache_Update :: "'w watcher list \<Rightarrow> change_event \<Rightarrow> policy_cache \<times> 'w \<Rightarrow> ((policy_cache \<times> 'w) \<times> string option) option" where
  "cache_Update watchers ev s = changePropagateEvent watchers ev s"

text \<open>A resync event: for every key prefix the key-value pairs under it, with what \<^verbatim>\<open>GetValue\<close> gives for each type of message.\<close>

record key_val =
  kv_Key :: string
  kv_policy :: "string + k8s_policy"
  kv_pod :: "string + pod"
  kv_namespace :: "string + k8s_namespace"

definition parse_key_val :: "key_val \<Rightarrow> data_resync_event \<Rightarrow> data_resync_event" where
  "parse_key_val evData event =
     (case ParsePolicyFromKey (kv_Key evData) of
        Inr _ \<Rightarrow>
          (case kv_policy evData of Inr v \<Rightarrow> event\<lparr>Re_Policies := Re_Policies event @ [v]\<rparr> | Inl _ \<Rightarrow> event)
      | Inl _ \<Rightarrow>
          (case ParsePodFromKey (kv_Key evData) of
             Inr _ \<Rightarrow>
               (case kv_pod evData of Inr v \<Rightarrow> event\<lparr>Re_Pods := Re_Pods event @ [v]\<rparr> | Inl _ \<Rightarrow> event)
           | Inl _ \<Rightarrow>
               (case kv_namespace evData of Inr v \<Rightarrow> event\<lparr>Re_Namespaces := Re_Namespaces event @ [v]\<rparr> | Inl _ \<Rightarrow> event)))"

definition resyncParseEvent :: "(string \<times> key_val list) list \<Rightarrow> data_resync_event" where
  "resyncParseEvent resyncEv =
     fold (\<lambda>(key, resyncData) event. if has_prefix key NamespacePrefix then fold parse_key_val resyncData event else event)
       resyncEv NewDataResyncEvent"

text \<open>The errors of the watchers are dropped.\<close>

fun resync_watchers :: "'w watcher list \<Rightarrow> data_resync_event \<Rightarrow> policy_cache \<times> 'w \<Rightarrow> (policy_cache \<times> 'w) option" where
  "resync_watchers [] ev s = Some s"
| "resync_watchers (watcher # ws) ev (pc, w) =
     (case watcher pc (Resync_n ev) w of
        None \<Rightarrow> None
      | Some (w', _) \<Rightarrow> resync_watchers ws ev (pc, w'))"

definition cache_Resync :: "'w watcher list \<Rightarrow> (string \<times> key_val list) list \<Rightarrow> policy_cache \<times> 'w \<Rightarrow> ((policy_cache \<times> 'w) \<times> string option) option" where
  "cache_Resync watchers resyncEv s = map_option (\<lambda>s'. (s', None)) (resync_watchers watchers (resyncParseEvent resyncEv) s)"

end
