(* ===== verification/PolicyCacheSpec.thy ===== *)
theory PolicyCacheSpec
  imports PolicyCache
begin

text \<open>
  What the policy cache promises. Its contents refine the state of the data store that the change events
  describe; the lookups by match labels are exact for up to two labels and look at the last two labels
  otherwise; lookups by namespace and by any match expression other than \<^verbatim>\<open>IN\<close> find nothing.
\<close>

section \<open>The state of the cluster\<close>

record cluster =
  cl_policies :: "string \<rightharpoonup> k8s_policy"
  cl_pods :: "string \<rightharpoonup> pod"
  cl_namespaces :: "string \<rightharpoonup> k8s_namespace"

definition cluster_of :: "policy_cache \<Rightarrow> cluster" where
  "cluster_of pc = \<lparr>cl_policies = map_GetValue (configuredPolicies pc), cl_pods = map_GetValue (configuredPods pc),
     cl_namespaces = map_GetValue (configuredNamespaces pc)\<rparr>"

definition empty_cluster :: cluster where
  "empty_cluster = \<lparr>cl_policies = Map.empty, cl_pods = Map.empty, cl_namespaces = Map.empty\<rparr>"

text \<open>What a change does to the objects of one type: an event that cannot be decoded changes nothing.\<close>

definition spec_objects :: "('v \<Rightarrow> string) \<Rightarrow> change_type \<Rightarrow> string + 'v \<Rightarrow> string + bool \<times> 'v \<Rightarrow> (string \<rightharpoonup> 'v) \<Rightarrow> (string \<rightharpoonup> 'v)" where
  "spec_objects ident change getValue getPrevValue m =
     (case (getValue, getPrevValue) of
        (Inr val, Inr (diff, prev)) \<Rightarrow>
          if change = Delete_change then m(ident prev := None)
          else (if diff then m(ident prev := None) else m)(ident val \<mapsto> val)
      | _ \<Rightarrow> m)"

definition spec_change :: "change_event \<Rightarrow> cluster \<Rightarrow> cluster" where
  "spec_change ev c =
     (if \<not> has_prefix (ev_Key ev) NamespacePrefix then c
      else if \<exists>r. ParsePolicyFromKey (ev_Key ev) = Inr r then
        c\<lparr>cl_policies := spec_objects (\<lambda>v. ID_String (policy_GetID (Some v))) (ev_ChangeType ev) (ev_policy ev) (ev_prev_policy ev) (cl_policies c)\<rparr>
      else if \<exists>r. ParsePodFromKey (ev_Key ev) = Inr r then
        c\<lparr>cl_pods := spec_objects (\<lambda>v. ID_String (pod_GetID (Some v))) (ev_ChangeType ev) (ev_pod ev) (ev_prev_pod ev) (cl_pods c)\<rparr>
      else
        c\<lparr>cl_namespaces := spec_objects Ns_Name (ev_ChangeType ev) (ev_namespace ev) (ev_prev_namespace ev) (cl_namespaces c)\<rparr>)"

section \<open>The invariant\<close>

text \<open>The indexes are exact, and every object is stored under its own identifier.\<close>

definition keyed :: "('v \<Rightarrow> string) \<Rightarrow> (string \<rightharpoonup> 'v) \<Rightarrow> bool" where
  "keyed ident m \<longleftrightarrow> (\<forall>n v. m n = Some v \<longrightarrow> n = ident v)"

definition cache_inv :: "policy_cache \<Rightarrow> bool" where
  "cache_inv pc \<longleftrightarrow>
     mapping_wf policy_IndexFunction (configuredPolicies pc) \<and> mapping_wf pod_IndexFunction (configuredPods pc) \<and>
     mapping_wf namespace_IndexFunction (configuredNamespaces pc) \<and>
     keyed (\<lambda>v. ID_String (policy_GetID (Some v))) (map_GetValue (configuredPolicies pc)) \<and>
     keyed (\<lambda>v. ID_String (pod_GetID (Some v))) (map_GetValue (configuredPods pc)) \<and>
     keyed Ns_Name (map_GetValue (configuredNamespaces pc))"

lemma keyed_put: "keyed ident m \<Longrightarrow> n = ident v \<Longrightarrow> keyed ident (m(n \<mapsto> v))"
  by (simp add: keyed_def)

lemma keyed_del: "keyed ident m \<Longrightarrow> keyed ident (m(n := None))"
  by (simp add: keyed_def)

lemma notify_cache: "notify ws n (pc, w) = Some ((pc', w'), err) \<Longrightarrow> pc' = pc"
  by (induction ws n "(pc, w)" arbitrary: w rule: notify.induct) (auto split: option.splits)

text \<open>
  The contract between the propagation of a change and the operations on one of the three indexes: \<open>sel\<close> reads the
  index of the type of message, and registering and unregistering act on it as on a map.
\<close>

locale object_store =
  fixes ident :: "'v \<Rightarrow> string"
    and unregister :: "policy_cache \<Rightarrow> string \<Rightarrow> policy_cache"
    and register :: "policy_cache \<Rightarrow> string \<Rightarrow> 'v \<Rightarrow> policy_cache option"
    and sel :: "policy_cache \<Rightarrow> string \<rightharpoonup> 'v"
    and upd :: "(string \<rightharpoonup> 'v) \<Rightarrow> cluster \<Rightarrow> cluster"
  assumes unregister_inv: "cache_inv pc \<Longrightarrow> cache_inv (unregister pc n)"
    and unregister_cluster: "cache_inv pc \<Longrightarrow> cluster_of (unregister pc n) = upd ((sel pc)(n := None)) (cluster_of pc)"
    and register_inv: "cache_inv pc \<Longrightarrow> register pc (ident v) v = Some pc' \<Longrightarrow> cache_inv pc'"
    and register_cluster: "cache_inv pc \<Longrightarrow> register pc (ident v) v = Some pc' \<Longrightarrow>
      cluster_of pc' = upd ((sel pc)(ident v \<mapsto> v)) (cluster_of pc)"
    and sel_upd: "cluster_of pc' = upd m (cluster_of pc) \<Longrightarrow> sel pc' = m"
    and upd_upd: "upd m (upd m' c) = upd m c"
    and upd_sel: "upd (sel pc) (cluster_of pc) = cluster_of pc"
begin

lemma propagate_refines:
  assumes inv: "cache_inv pc"
    and p: "propagate ident unregister register added updated deleted ws change getValue getPrevValue (pc, w) = Some ((pc', w'), err)"
  shows "cache_inv pc' \<and> cluster_of pc' = upd (spec_objects ident change getValue getPrevValue (sel pc)) (cluster_of pc)"
proof (cases "(\<exists>e. getValue = Inl e) \<or> (\<exists>e. getPrevValue = Inl e)")
  case True
  then show ?thesis using inv p
    by (auto simp: propagate_def spec_objects_def upd_sel split: sum.splits)
next
  case False
  then obtain v diff prev where g: "getValue = Inr v" "getPrevValue = Inr (diff, prev)"
    by (metis surj_pair sum.exhaust)
  note p' = p [unfolded propagate_def g sum.case prod.case Let_def]
  let ?un = "unregister pc (ident prev)"
  have un: "cache_inv ?un" "cluster_of ?un = upd ((sel pc)(ident prev := None)) (cluster_of pc)" "sel ?un = (sel pc)(ident prev := None)"
    using unregister_inv [OF inv] unregister_cluster [OF inv] sel_upd by blast+
  consider "change = Delete_change" | "change \<noteq> Delete_change" "\<not> diff" | "change \<noteq> Delete_change" "diff" by blast
  then show ?thesis
  proof cases
    case 1
    with p' have "pc' = ?un" by (auto dest: notify_cache)
    then show ?thesis using 1 un g by (simp add: spec_objects_def)
  next
    case 2
    then obtain pc1 where "register pc (ident v) v = Some pc1" "pc' = pc1"
      using p' by (auto split: option.splits dest: notify_cache)
    then show ?thesis using 2 g register_inv [OF inv] register_cluster [OF inv] by (simp add: spec_objects_def)
  next
    case 3
    then obtain pc1 where r1: "register ?un (ident v) v = Some pc1"
      and rest: "pc' = pc1 \<or> register pc1 (ident v) v = Some pc'"
      using p' by (auto split: option.splits) (metis notify_cache)+
    have pc1: "cache_inv pc1" "cluster_of pc1 = upd ((sel pc)(ident prev := None, ident v \<mapsto> v)) (cluster_of pc)"
      using register_inv [OF un(1) r1] register_cluster [OF un(1) r1] by (simp_all add: un upd_upd)
    then have "cache_inv pc' \<and> cluster_of pc' = upd ((sel pc)(ident prev := None, ident v \<mapsto> v)) (cluster_of pc)"
      using rest register_inv [OF pc1(1)] register_cluster [OF pc1(1)] sel_upd [OF pc1(2)] by (auto simp: upd_upd)
    then show ?thesis using 3 g by (simp add: spec_objects_def)
  qed
qed

end
lemmas cache_inv_defs = cache_inv_def cluster_of_def keyed_put keyed_del

lemma policy_put:
  assumes "cache_inv pc" "RegisterPolicy (configuredPolicies pc) (ID_String (policy_GetID (Some v))) v = Some m"
  shows "mapping_wf policy_IndexFunction m \<and> map_GetValue m = (map_GetValue (configuredPolicies pc))(ID_String (policy_GetID (Some v)) \<mapsto> v)"
  using assms policy_index.put_wf by (auto simp: RegisterPolicy_def cache_inv_def)

lemma pod_put:
  assumes "cache_inv pc" "RegisterPod (configuredPods pc) (ID_String (pod_GetID (Some v))) v = Some m"
  shows "mapping_wf pod_IndexFunction m \<and> map_GetValue m = (map_GetValue (configuredPods pc))(ID_String (pod_GetID (Some v)) \<mapsto> v)"
  using assms pod_index.put_wf by (auto simp: RegisterPod_def cache_inv_def)

lemma namespace_put:
  assumes "cache_inv pc" "RegisterNamespace (configuredNamespaces pc) (Ns_Name v) v = Some m"
  shows "mapping_wf namespace_IndexFunction m \<and> map_GetValue m = (map_GetValue (configuredNamespaces pc))(Ns_Name v \<mapsto> v)"
  using assms namespace_index.put_wf by (auto simp: RegisterNamespace_def cache_inv_def)

lemma policy_del: "cache_inv pc \<Longrightarrow> mapping_wf policy_IndexFunction (UnregisterPolicy (configuredPolicies pc) n) \<and>
    map_GetValue (UnregisterPolicy (configuredPolicies pc) n) = (map_GetValue (configuredPolicies pc))(n := None)"
  using policy_index.del_removes by (auto simp: UnregisterPolicy_def cache_inv_def)

lemma pod_del: "cache_inv pc \<Longrightarrow> mapping_wf pod_IndexFunction (UnregisterPod (configuredPods pc) n) \<and>
    map_GetValue (UnregisterPod (configuredPods pc) n) = (map_GetValue (configuredPods pc))(n := None)"
  using pod_index.del_removes by (auto simp: UnregisterPod_def cache_inv_def)

lemma namespace_del: "cache_inv pc \<Longrightarrow> mapping_wf namespace_IndexFunction (UnRegisterNamespace (configuredNamespaces pc) n) \<and>
    map_GetValue (UnRegisterNamespace (configuredNamespaces pc) n) = (map_GetValue (configuredNamespaces pc))(n := None)"
  using namespace_index.del_removes by (auto simp: UnRegisterNamespace_def cache_inv_def)

interpretation policy_store: object_store "\<lambda>v. ID_String (policy_GetID (Some v))"
    "\<lambda>pc i. pc\<lparr>configuredPolicies := UnregisterPolicy (configuredPolicies pc) i\<rparr>"
    "\<lambda>pc i v. map_option (\<lambda>m. pc\<lparr>configuredPolicies := m\<rparr>) (RegisterPolicy (configuredPolicies pc) i v)"
    "\<lambda>pc. map_GetValue (configuredPolicies pc)" "\<lambda>m c. c\<lparr>cl_policies := m\<rparr>"
proof (unfold_locales, goal_cases)
  case 1 then show ?case using policy_del by (simp add: cache_inv_defs)
next
  case 2 then show ?case using policy_del by (simp add: cache_inv_defs)
next
  case (3 pc v pc')
  from 3(2) obtain m where m: "RegisterPolicy (configuredPolicies pc) (ID_String (policy_GetID (Some v))) v = Some m"
      "pc' = pc\<lparr>configuredPolicies := m\<rparr>" by auto
  show ?case using 3(1) policy_put [OF 3(1) m(1)] m(2) by (simp add: cache_inv_defs)
next
  case (4 pc v pc')
  from 4(2) obtain m where m: "RegisterPolicy (configuredPolicies pc) (ID_String (policy_GetID (Some v))) v = Some m"
      "pc' = pc\<lparr>configuredPolicies := m\<rparr>" by auto
  show ?case using 4(1) policy_put [OF 4(1) m(1)] m(2) by (simp add: cache_inv_defs)
qed (simp_all add: cluster_of_def)

interpretation pod_store: object_store "\<lambda>v. ID_String (pod_GetID (Some v))"
    "\<lambda>pc i. pc\<lparr>configuredPods := UnregisterPod (configuredPods pc) i\<rparr>"
    "\<lambda>pc i v. map_option (\<lambda>m. pc\<lparr>configuredPods := m\<rparr>) (RegisterPod (configuredPods pc) i v)"
    "\<lambda>pc. map_GetValue (configuredPods pc)" "\<lambda>m c. c\<lparr>cl_pods := m\<rparr>"
proof (unfold_locales, goal_cases)
  case 1 then show ?case using pod_del by (simp add: cache_inv_defs)
next
  case 2 then show ?case using pod_del by (simp add: cache_inv_defs)
next
  case (3 pc v pc')
  from 3(2) obtain m where m: "RegisterPod (configuredPods pc) (ID_String (pod_GetID (Some v))) v = Some m"
      "pc' = pc\<lparr>configuredPods := m\<rparr>" by auto
  show ?case using 3(1) pod_put [OF 3(1) m(1)] m(2) by (simp add: cache_inv_defs)
next
  case (4 pc v pc')
  from 4(2) obtain m where m: "RegisterPod (configuredPods pc) (ID_String (pod_GetID (Some v))) v = Some m"
      "pc' = pc\<lparr>configuredPods := m\<rparr>" by auto
  show ?case using 4(1) pod_put [OF 4(1) m(1)] m(2) by (simp add: cache_inv_defs)
qed (simp_all add: cluster_of_def)

interpretation namespace_store: object_store Ns_Name
    "\<lambda>pc i. pc\<lparr>configuredNamespaces := UnRegisterNamespace (configuredNamespaces pc) i\<rparr>"
    "\<lambda>pc i v. map_option (\<lambda>m. pc\<lparr>configuredNamespaces := m\<rparr>) (RegisterNamespace (configuredNamespaces pc) i v)"
    "\<lambda>pc. map_GetValue (configuredNamespaces pc)" "\<lambda>m c. c\<lparr>cl_namespaces := m\<rparr>"
proof (unfold_locales, goal_cases)
  case 1 then show ?case using namespace_del by (simp add: cache_inv_defs)
next
  case 2 then show ?case using namespace_del by (simp add: cache_inv_defs)
next
  case (3 pc v pc')
  from 3(2) obtain m where m: "RegisterNamespace (configuredNamespaces pc) (Ns_Name v) v = Some m"
      "pc' = pc\<lparr>configuredNamespaces := m\<rparr>" by auto
  show ?case using 3(1) namespace_put [OF 3(1) m(1)] m(2) by (simp add: cache_inv_defs)
next
  case (4 pc v pc')
  from 4(2) obtain m where m: "RegisterNamespace (configuredNamespaces pc) (Ns_Name v) v = Some m"
      "pc' = pc\<lparr>configuredNamespaces := m\<rparr>" by auto
  show ?case using 4(1) namespace_put [OF 4(1) m(1)] m(2) by (simp add: cache_inv_defs)
qed (simp_all add: cluster_of_def)

section \<open>Changes\<close>

lemma cache_inv_Init: "cache_inv cache_Init" "cluster_of cache_Init = empty_cluster"
  by (simp_all add: cache_inv_def cache_Init_def mapping_wf_New policy_index.wf_empty keyed_def cluster_of_def empty_cluster_def
      pod_index.wf_empty(2) policy_index.wf_empty(2) namespace_index.wf_empty(2))

lemma changePropagateEvent_refines:
  assumes inv: "cache_inv pc" and p: "changePropagateEvent ws ev (pc, w) = Some ((pc', w'), err)"
  shows "cache_inv pc' \<and> cluster_of pc' = spec_change ev (cluster_of pc)"
proof -
  have sel: "cl_policies (cluster_of pc) = map_GetValue (configuredPolicies pc)" "cl_pods (cluster_of pc) = map_GetValue (configuredPods pc)"
      "cl_namespaces (cluster_of pc) = map_GetValue (configuredNamespaces pc)"
    by (simp_all add: cluster_of_def)
  consider "\<not> has_prefix (ev_Key ev) NamespacePrefix" | r where "has_prefix (ev_Key ev) NamespacePrefix" "ParsePolicyFromKey (ev_Key ev) = Inr r"
    | e r where "has_prefix (ev_Key ev) NamespacePrefix" "ParsePolicyFromKey (ev_Key ev) = Inl e" "ParsePodFromKey (ev_Key ev) = Inr r"
    | e e' where "has_prefix (ev_Key ev) NamespacePrefix" "ParsePolicyFromKey (ev_Key ev) = Inl e" "ParsePodFromKey (ev_Key ev) = Inl e'"
    by (meson sum.exhaust)
  then show ?thesis
  proof cases
    case 1 then show ?thesis using inv p by (simp add: changePropagateEvent_def spec_change_def)
  next
    case 2 then show ?thesis using p policy_store.propagate_refines [OF inv]
      by (simp add: changePropagateEvent_def spec_change_def sel policy_change_def)
  next
    case 3 then show ?thesis using p pod_store.propagate_refines [OF inv]
      by (simp add: changePropagateEvent_def spec_change_def sel pod_change_def)
  next
    case 4 then show ?thesis using p namespace_store.propagate_refines [OF inv]
      by (simp add: changePropagateEvent_def spec_change_def sel namespace_change_def)
  qed
qed

lemma resync_watchers_cache: "resync_watchers ws ev (pc, w) = Some (pc', w') \<Longrightarrow> pc' = pc"
  by (induction ws ev "(pc, w)" arbitrary: w rule: resync_watchers.induct) (auto split: option.splits)

section \<open>Match labels\<close>

text \<open>Namespaces, names and label values contain no slash; label keys may.\<close>

definition tidy :: "string \<Rightarrow> bool" where
  "tidy s \<longleftrightarrow> CHR ''/'' \<notin> set s"

definition tidy_labels :: "label list \<Rightarrow> bool" where
  "tidy_labels ls \<longleftrightarrow> list_all (\<lambda>l. tidy (Label_Value l)) ls"

definition tidy_pod :: "pod \<Rightarrow> bool" where
  "tidy_pod p \<longleftrightarrow> tidy (Pod_Name p) \<and> tidy (Pod_Namespace p) \<and> tidy_labels (Pod_Label p)"

definition pods_tidy :: "policy_cache \<Rightarrow> bool" where
  "pods_tidy pc \<longleftrightarrow> (\<forall>n p. map_GetValue (configuredPods pc) n = Some p \<longrightarrow> tidy_pod p)"

text \<open>The names of the pods of a namespace that have all the labels.\<close>

definition pods_with :: "policy_cache \<Rightarrow> string \<Rightarrow> label list \<Rightarrow> string set" where
  "pods_with pc ns ls = {n. \<exists>p. map_GetValue (configuredPods pc) n = Some p \<and> Pod_Namespace p = ns \<and> set ls \<subseteq> set (Pod_Label p)}"

fun pairs_common :: "policy_cache \<Rightarrow> string \<Rightarrow> label list \<Rightarrow> bool" where
  "pairs_common pc ns (a # b # ls) \<longleftrightarrow> pods_with pc ns [a, b] \<noteq> {} \<and> pairs_common pc ns (b # ls)"
| "pairs_common pc ns _ \<longleftrightarrow> True"

lemma split_at_first: "tidy a \<Longrightarrow> tidy b \<Longrightarrow> a @ CHR ''/'' # s = b @ CHR ''/'' # t \<longleftrightarrow> a = b \<and> s = t"
  unfolding tidy_def by (auto simp: append_eq_append_conv2 append_eq_Cons_conv Cons_eq_append_conv)

lemma split_at_last: "tidy a \<Longrightarrow> tidy b \<Longrightarrow> s @ CHR ''/'' # a = t @ CHR ''/'' # b \<longleftrightarrow> a = b \<and> s = t"
  unfolding tidy_def by (auto simp: append_eq_append_conv2 append_eq_Cons_conv Cons_eq_append_conv)

lemma ns_label_eq:
  assumes "tidy ns" "tidy ns'" "tidy (Label_Value l)" "tidy (Label_Value l')"
  shows "ns_label ns l = ns_label ns' l' \<longleftrightarrow> ns = ns' \<and> l = l'"
proof -
  have "ns_label ns l = ns_label ns' l' \<longleftrightarrow> ns = ns' \<and> Label_Key l @ CHR ''/'' # Label_Value l = Label_Key l' @ CHR ''/'' # Label_Value l'"
    using split_at_first [OF assms(1,2)] by (simp add: ns_label_def)
  also have "\<dots> \<longleftrightarrow> ns = ns' \<and> l = l'"
    using split_at_last [OF assms(3,4)] by (auto intro: label.equality)
  finally show ?thesis .
qed

lemma tidy_labelsD: "tidy_labels ls \<Longrightarrow> l \<in> set ls \<Longrightarrow> tidy (Label_Value l)"
  by (simp add: tidy_labels_def list_all_iff)

lemma pod_index_fields:
  assumes "pod_IndexFunction p = Some ixs"
  shows "map_of ixs podNSLabelSelectorKey = Some (map (ns_label (Pod_Namespace p)) (Pod_Label p))"
    and "field \<notin> {podLabelSelectorKey, podKeySelectorKey, podNSKeySelectorKey, podNSLabelSelectorKey, podNamespace} \<Longrightarrow> map_of ixs field = None"
  using assms unfolding pod_IndexFunction_def Let_def
  by (auto simp: podLabelSelectorKey_def podKeySelectorKey_def podNSKeySelectorKey_def podNSLabelSelectorKey_def podNamespace_def ns_label_def)

lemma ns_label_pods:
  assumes "cache_inv pc" "pods_tidy pc" "tidy ns" "tidy (Label_Value l)"
  shows "set (idx_LookupPodsByNSLabelSelector (configuredPods pc) (ns_label ns l)) = pods_with pc ns [l]"
proof -
  have wf: "mapping_wf pod_IndexFunction (configuredPods pc)" using assms(1) by (simp add: cache_inv_def)
  have names: "n \<in> set (idx_LookupPodsByNSLabelSelector (configuredPods pc) (ns_label ns l)) \<longleftrightarrow>
      (\<exists>p. map_GetValue (configuredPods pc) n = Some p \<and> ns_label ns l \<in> ns_label (Pod_Namespace p) ` set (Pod_Label p))" for n
    using pod_index.list_names_exact [OF wf, of podNSLabelSelectorKey "ns_label ns l" n]
    by (auto simp: idx_LookupPodsByNSLabelSelector_def pod_index_fields pod_IndexFunction_def Let_def simp del: map_of.simps)
  have labels: "ns_label ns l \<in> ns_label (Pod_Namespace p) ` set (Pod_Label p) \<longleftrightarrow> Pod_Namespace p = ns \<and> l \<in> set (Pod_Label p)"
    if "map_GetValue (configuredPods pc) n = Some p" for n p
  proof -
    have "tidy_pod p" using assms(2) that by (simp add: pods_tidy_def)
    then show ?thesis using ns_label_eq [OF assms(3) _ assms(4)] tidy_labelsD by (auto simp: tidy_pod_def)
  qed
  have "n \<in> set (idx_LookupPodsByNSLabelSelector (configuredPods pc) (ns_label ns l)) \<longleftrightarrow> n \<in> pods_with pc ns [l]" for n
    using labels [of n] by (cases "map_GetValue (configuredPods pc) n") (simp_all add: names pods_with_def)
  then show ?thesis by blast
qed

lemma pods_with_Int: "pods_with pc ns ls \<inter> pods_with pc ns ls' = pods_with pc ns (ls @ ls')"
  by (auto simp: pods_with_def)

lemma ns_label_loop_result:
  assumes inv: "cache_inv pc" "pods_tidy pc" "tidy ns" and "tidy_labels (l # ls)" "ls \<noteq> []"
    and "set prev = pods_with pc ns [l]" "ns_label_loop pc ns prev new ls = (ok, r)"
  shows "(ok \<longleftrightarrow> pairs_common pc ns (l # ls)) \<and> (ok \<longrightarrow> set r = pods_with pc ns (drop (length ls - 1) (l # ls)))"
  using assms(4-)
proof (induction ls arbitrary: l prev new)
  case (Cons l' ls)
  let ?new = "idx_LookupPodsByNSLabelSelector (configuredPods pc) (ns_label ns l')"
  have new: "set ?new = pods_with pc ns [l']"
    using Cons.prems(1) by (intro ns_label_pods [OF inv]) (simp add: tidy_labels_def)
  have tmp: "set (Intersect prev ?new) = pods_with pc ns [l, l']"
    using Cons.prems(3) pods_with_Int [of pc ns "[l]" "[l']"] by (simp add: new)
  show ?case
  proof (cases "Intersect prev ?new = []")
    case True
    with tmp have "pods_with pc ns [l, l'] = {}" by simp
    then show ?thesis using True Cons.prems(4) by (simp add: Let_def)
  next
    case ne: False
    then have ne': "pods_with pc ns [l, l'] \<noteq> {}" using tmp by (metis set_empty)
    have step: "ns_label_loop pc ns ?new (Intersect prev ?new) ls = (ok, r)" using ne Cons.prems(4) by (simp add: Let_def)
    show ?thesis
    proof (cases "ls = []")
      case True
      then show ?thesis using step ne' tmp by auto
    next
      case False
      have "tidy_labels (l' # ls)" using Cons.prems(1) by (simp add: tidy_labels_def)
      then show ?thesis
        using Cons.IH [OF _ False new step] ne' False by (cases ls) auto
    qed
  qed
qed simp

lemma getPodsByNSLabelSelector_result:
  assumes "cache_inv pc" "pods_tidy pc" "tidy ns" "tidy_labels labels" "labels \<noteq> []"
  shows "\<exists>ok r. getPodsByNSLabelSelector pc ns labels = Some (ok, r) \<and> (ok \<longleftrightarrow> pairs_common pc ns labels) \<and>
    (ok \<longrightarrow> set r = pods_with pc ns (drop (length labels - 2) labels))"
proof (cases labels)
  case (Cons l ls)
  have l: "set (idx_LookupPodsByNSLabelSelector (configuredPods pc) (ns_label ns l)) = pods_with pc ns [l]"
    using assms(4) Cons by (intro ns_label_pods [OF assms(1-3)]) (simp add: tidy_labels_def)
  show ?thesis
  proof (cases "ls = []")
    case False
    let ?r = "ns_label_loop pc ns (idx_LookupPodsByNSLabelSelector (configuredPods pc) (ns_label ns l)) [] ls"
    have "(fst ?r \<longleftrightarrow> pairs_common pc ns labels) \<and> (fst ?r \<longrightarrow> set (snd ?r) = pods_with pc ns (drop (length ls - 1) (l # ls)))"
      using ns_label_loop_result [OF assms(1-3) _ False l, of "[]" "fst ?r" "snd ?r"] assms(4) Cons by simp
    moreover have "getPodsByNSLabelSelector pc ns labels = Some (fst ?r, snd ?r)"
      using Cons False by (simp add: getPodsByNSLabelSelector_def)
    moreover have "drop (length ls - 1) (l # ls) = drop (length labels - 2) labels" using Cons by simp
    ultimately show ?thesis by (intro exI [of _ "fst ?r"] exI [of _ "snd ?r"]) simp
  qed (auto simp: Cons getPodsByNSLabelSelector_def l)
qed (simp add: assms(5) [simplified])

section \<open>Identifiers of the pods found\<close>

text \<open>The identifiers of the pods with the labels.\<close>

definition ids_with :: "policy_cache \<Rightarrow> string \<Rightarrow> label list \<Rightarrow> pod_id set" where
  "ids_with pc ns ls = {i. \<exists>n p. map_GetValue (configuredPods pc) n = Some p \<and> i = pod_GetID (Some p) \<and>
     Pod_Namespace p = ns \<and> set ls \<subseteq> set (Pod_Label p)}"

lemma those_map: "(\<And>x. x \<in> set xs \<Longrightarrow> f x = Some (g x)) \<Longrightarrow> those (map f xs) = Some (map g xs)"
  by (induction xs) auto

lemma UnstringID_pod: "tidy_pod p \<Longrightarrow> UnstringID (ID_String (pod_GetID (Some p))) = Some (pod_GetID (Some p))"
  by (rule UnstringID_String) (simp_all add: pod_GetID_def tidy_pod_def tidy_def)

lemma stored_pod:
  assumes "cache_inv pc" "pods_tidy pc" "map_GetValue (configuredPods pc) n = Some p"
  shows "n = ID_String (pod_GetID (Some p))" "UnstringID n = Some (pod_GetID (Some p))"
proof -
  show n: "n = ID_String (pod_GetID (Some p))" using assms(1,3) by (simp add: cache_inv_def keyed_def)
  show "UnstringID n = Some (pod_GetID (Some p))" using assms(2,3) UnstringID_pod unfolding n pods_tidy_def by blast
qed

lemma UnstringPodID_stored:
  assumes "cache_inv pc" "pods_tidy pc" "set ns \<subseteq> dom (map_GetValue (configuredPods pc))"
  shows "\<exists>ids. UnstringPodID ns = Some ids \<and> set ids = {i. \<exists>n\<in>set ns. \<exists>p. map_GetValue (configuredPods pc) n = Some p \<and> i = pod_GetID (Some p)}"
proof -
  have "UnstringID n = Some (pod_GetID (map_GetValue (configuredPods pc) n))" if "n \<in> set ns" for n
  proof -
    from assms(3) that obtain p where p: "map_GetValue (configuredPods pc) n = Some p" by blast
    then show ?thesis using stored_pod(2) [OF assms(1,2) p] by simp
  qed
  then have "UnstringPodID ns = Some (map (\<lambda>n. pod_GetID (map_GetValue (configuredPods pc) n)) ns)"
    unfolding UnstringPodID_def by (rule those_map)
  moreover have "set (map (\<lambda>n. pod_GetID (map_GetValue (configuredPods pc) n)) ns) =
      {i. \<exists>n\<in>set ns. \<exists>p. map_GetValue (configuredPods pc) n = Some p \<and> i = pod_GetID (Some p)}"
    using assms(3) by (force simp: subset_iff)
  ultimately show ?thesis by blast
qed

lemma label_lookup_ids:
  assumes "cache_inv pc" "pods_tidy pc" "tidy ns" "tidy_labels labels" "labels \<noteq> []"
  shows "\<exists>pods. LookupPodsByNSLabelSelector iter pc ns (Some \<lparr>MatchLabel = labels, MatchExpression = []\<rparr>) = Some pods \<and>
    set pods = (if pairs_common pc ns labels then ids_with pc ns (drop (length labels - 2) labels) else {})"
proof -
  obtain ok r where g: "getPodsByNSLabelSelector pc ns labels = Some (ok, r)" "ok \<longleftrightarrow> pairs_common pc ns labels"
      "ok \<longrightarrow> set r = pods_with pc ns (drop (length labels - 2) labels)"
    using getPodsByNSLabelSelector_result [OF assms] by blast
  show ?thesis
  proof (cases ok)
    case True
    have "set r \<subseteq> dom (map_GetValue (configuredPods pc))" using g(3) True by (auto simp: pods_with_def)
    then obtain ids where "UnstringPodID r = Some ids"
        "set ids = {i. \<exists>n\<in>set r. \<exists>p. map_GetValue (configuredPods pc) n = Some p \<and> i = pod_GetID (Some p)}"
      using UnstringPodID_stored [OF assms(1,2)] by blast
    moreover have "{i. \<exists>n\<in>set r. \<exists>p. map_GetValue (configuredPods pc) n = Some p \<and> i = pod_GetID (Some p)} =
        ids_with pc ns (drop (length labels - 2) labels)"
      using g(3) True by (auto simp: pods_with_def ids_with_def) blast
    ultimately show ?thesis using g True assms(5) by (simp add: LookupPodsByNSLabelSelector_def)
  qed (use g assms(5) in \<open>simp add: LookupPodsByNSLabelSelector_def\<close>)
qed

lemma ids_with_pairs: "ids_with pc ns labels \<noteq> {} \<Longrightarrow> pairs_common pc ns labels"
proof (induction pc ns labels rule: pairs_common.induct)
  case (1 pc ns a b ls)
  then show ?case by (fastforce simp: ids_with_def pods_with_def)
qed simp_all

lemma ids_with_mono: "set ls' \<subseteq> set ls \<Longrightarrow> ids_with pc ns ls \<subseteq> ids_with pc ns ls'"
  by (auto simp: ids_with_def)

lemma ids_with_two: "length labels = 2 \<Longrightarrow> \<not> pairs_common pc ns labels \<Longrightarrow> ids_with pc ns labels = {}"
  using ids_with_pairs by blast

lemma label_lookup_exact:
  assumes "cache_inv pc" "pods_tidy pc" "tidy ns" "tidy_labels labels" "labels \<noteq> []" "length labels \<le> 2"
  shows "\<exists>pods. LookupPodsByNSLabelSelector iter pc ns (Some \<lparr>MatchLabel = labels, MatchExpression = []\<rparr>) = Some pods \<and>
    set pods = ids_with pc ns labels"
  using label_lookup_ids [OF assms(1-5), of iter] ids_with_pairs [of pc ns labels] assms(6) by (auto split: if_splits)

lemma stored_unique:
  assumes "cache_inv pc" "pods_tidy pc" "map_GetValue (configuredPods pc) (ID_String i) = Some p"
    "map_GetValue (configuredPods pc) n = Some p'" "i = pod_GetID (Some p')"
  shows "p' = p"
  using stored_pod(1) [OF assms(1,2,4)] assms(3-5) by simp

section \<open>Match expressions\<close>

lemma expression_step_in:
  "expression_step pc ns e s = Some (Inr s') \<Longrightarrow> Operator e \<noteq> Expr_IN \<Longrightarrow> inPodSet s' = inPodSet s"
  by (cases "Operator e") (auto simp: expression_step_def Let_def split: option.splits if_splits)

lemma expressions_loop_in:
  "expressions_loop pc ns es s = Some (Inr s') \<Longrightarrow> list_all (\<lambda>e. Operator e \<noteq> Expr_IN) es \<Longrightarrow> inPodSet s' = inPodSet s"
  by (induction pc ns es s rule: expressions_loop.induct) (auto split: option.splits sum.splits dest: expression_step_in)

lemma getMatchExpressionPods_in:
  assumes "\<And>ks. set (iter ks) = set ks" "list_all (\<lambda>e. Operator e \<noteq> Expr_IN) es" "getMatchExpressionPods iter pc ns es = Some (found, pods)"
  shows "pods = []"
proof -
  have "RemoveDuplicates iter [] = []" using RemoveDuplicates_set [OF assms(1), of "[]"] by simp
  then show ?thesis using assms(3) expressions_loop_in [OF _ assms(2)]
    by (auto simp: getMatchExpressionPods_def Let_def Intersect_def split: option.splits sum.splits)
qed

text \<open>Looking up the pods of a namespace uses the namespace as the name of the index.\<close>

lemma pods_by_namespace:
  assumes "cache_inv pc" "ns \<notin> {podLabelSelectorKey, podKeySelectorKey, podNSKeySelectorKey, podNSLabelSelectorKey, podNamespace}"
  shows "idx_LookupPodsByNamespace (configuredPods pc) ns = []"
proof -
  have wf: "mapping_wf pod_IndexFunction (configuredPods pc)" using assms(1) by (simp add: cache_inv_def)
  have "n \<notin> set (idx_LookupPodsByNamespace (configuredPods pc) ns)" for n
    using pod_index.list_names_exact [OF wf, of ns ns n] pod_index_fields(2) [OF _ assms(2)]
    unfolding idx_LookupPodsByNamespace_def by fastforce
  then show ?thesis by (metis list.set_intros(1) neq_Nil_conv)
qed

section \<open>Policies of a pod\<close>

definition tidy_policy :: "k8s_policy \<Rightarrow> bool" where
  "tidy_policy q \<longleftrightarrow> tidy (Pol_Name q) \<and> tidy (Pol_Namespace q) \<and>
     (case Pol_Pods q of Some sel \<Rightarrow> tidy_labels (MatchLabel sel) | None \<Rightarrow> True)"

definition policies_tidy :: "policy_cache \<Rightarrow> bool" where
  "policies_tidy pc \<longleftrightarrow> (\<forall>n q. map_GetValue (configuredPolicies pc) n = Some q \<longrightarrow> tidy_policy q)"

text \<open>A label of the pod is in the selector of the policy, in the namespace of the pod.\<close>

definition shares_label :: "pod \<Rightarrow> k8s_policy \<Rightarrow> bool" where
  "shares_label p q \<longleftrightarrow> Pol_Namespace q = Pod_Namespace p \<and>
     (\<exists>sel. Pol_Pods q = Some sel \<and> set (MatchLabel sel) \<inter> set (Pod_Label p) \<noteq> {})"

lemma policy_index_fields:
  assumes "policy_IndexFunction q = Some ixs"
  shows "map_of ixs policyPodNSLabelKey = Some (map (ns_label (Pol_Namespace q)) (MatchLabel (the (Pol_Pods q))))"
  using assms by (auto simp: policy_IndexFunction_def policyPodNSLabelKey_def policyPodLabelKey_def ns_label_def split: option.splits)

lemma stored_selector: "cache_inv pc \<Longrightarrow> map_GetValue (configuredPolicies pc) n = Some q \<Longrightarrow> Pol_Pods q \<noteq> None"
proof
  assume inv: "cache_inv pc" and q: "map_GetValue (configuredPolicies pc) n = Some q" and none: "Pol_Pods q = None"
  obtain ixs where "map_of (nameToIdx (configuredPolicies pc)) n = Some (q, ixs)"
    using q by (auto simp: map_GetValue_def simp del: map_of_eq_Some_iff)
  then have "policy_IndexFunction q = Some ixs" by (rule mapping_wf_idx [rotated]) (use inv in \<open>simp add: cache_inv_def\<close>)
  then show False using none by (simp add: policy_IndexFunction_def)
qed

lemma ns_label_policies:
  assumes "cache_inv pc" "policies_tidy pc" "tidy ns" "tidy (Label_Value l)"
  shows "n \<in> set (LookupPolicyByNSLabelSelector (configuredPolicies pc) (ns_label ns l)) \<longleftrightarrow>
    (\<exists>q sel. map_GetValue (configuredPolicies pc) n = Some q \<and> Pol_Namespace q = ns \<and> Pol_Pods q = Some sel \<and> l \<in> set (MatchLabel sel))"
proof (cases "map_GetValue (configuredPolicies pc) n")
  case None
  have wf: "mapping_wf policy_IndexFunction (configuredPolicies pc)" using assms(1) by (simp add: cache_inv_def)
  show ?thesis
    using policy_index.list_names_exact [OF wf, of policyPodNSLabelKey "ns_label ns l" n] None
    by (simp add: LookupPolicyByNSLabelSelector_def)
next
  case (Some q)
  have wf: "mapping_wf policy_IndexFunction (configuredPolicies pc)" using assms(1) by (simp add: cache_inv_def)
  obtain sel where sel: "Pol_Pods q = Some sel" using stored_selector [OF assms(1) Some] by blast
  obtain ixs where ixs: "policy_IndexFunction q = Some ixs" using sel by (simp add: policy_IndexFunction_def)
  have t: "tidy (Pol_Namespace q)" "tidy_labels (MatchLabel sel)"
    using assms(2) Some sel unfolding policies_tidy_def tidy_policy_def by fastforce+
  have "n \<in> set (LookupPolicyByNSLabelSelector (configuredPolicies pc) (ns_label ns l)) \<longleftrightarrow>
      ns_label ns l \<in> ns_label (Pol_Namespace q) ` set (MatchLabel sel)"
    using policy_index.list_names_exact [OF wf, of policyPodNSLabelKey "ns_label ns l" n] Some policy_index_fields [OF ixs] ixs sel
    by (simp add: LookupPolicyByNSLabelSelector_def)
  also have "\<dots> \<longleftrightarrow> Pol_Namespace q = ns \<and> l \<in> set (MatchLabel sel)"
    using ns_label_eq [OF assms(3) t(1) assms(4)] tidy_labelsD [OF t(2)] by auto
  finally show ?thesis using Some sel by simp
qed

lemma fold_update_lookup:
  "map_of (fold (\<lambda>i m. case f i of Some v \<Rightarrow> AList.update i v m | None \<Rightarrow> m) is m) n =
   (if n \<in> set is \<and> f n \<noteq> None then f n else map_of m n)"
  by (induction "is" arbitrary: m) (auto simp: update_conv' split: option.splits)

lemma fold_update_distinct:
  "distinct (map fst m) \<Longrightarrow> distinct (map fst (fold (\<lambda>i m. case f i of Some v \<Rightarrow> AList.update i v m | None \<Rightarrow> m) is m))"
  by (induction "is" arbitrary: m) (auto simp: distinct_update split: option.splits)

lemma folds_update_lookup:
  "map_of (fold (\<lambda>l. fold (\<lambda>i m. case f i of Some v \<Rightarrow> AList.update i v m | None \<Rightarrow> m) (g l)) ls m) n =
   (if (\<exists>l\<in>set ls. n \<in> set (g l)) \<and> f n \<noteq> None then f n else map_of m n)"
  by (induction ls arbitrary: m) (auto simp: fold_update_lookup)

lemma folds_update_distinct:
  "distinct (map fst m) \<Longrightarrow>
   distinct (map fst (fold (\<lambda>l. fold (\<lambda>i m. case f i of Some v \<Rightarrow> AList.update i v m | None \<Rightarrow> m) (g l)) ls m))"
  by (induction ls arbitrary: m) (auto simp: fold_update_distinct)

lemma label_policies_lookup:
  assumes "cache_inv pc" "policies_tidy pc" "tidy_pod p"
  shows "(n, q) \<in> set (label_policies pc p) \<longleftrightarrow> map_GetValue (configuredPolicies pc) n = Some q \<and> shares_label p q"
proof -
  have "distinct (map fst (label_policies pc p))" unfolding label_policies_def by (rule folds_update_distinct) simp
  then have "(n, q) \<in> set (label_policies pc p) \<longleftrightarrow> map_of (label_policies pc p) n = Some q" by simp
  also have "\<dots> \<longleftrightarrow> (\<exists>l\<in>set (Pod_Label p). n \<in> set (LookupPolicyByNSLabelSelector (configuredPolicies pc) (ns_label (Pod_Namespace p) l))) \<and>
      map_GetValue (configuredPolicies pc) n = Some q"
    unfolding label_policies_def idx_LookupPolicy_def folds_update_lookup by auto
  also have "\<dots> \<longleftrightarrow> map_GetValue (configuredPolicies pc) n = Some q \<and> shares_label p q"
  proof -
    have "n \<in> set (LookupPolicyByNSLabelSelector (configuredPolicies pc) (ns_label (Pod_Namespace p) l)) \<longleftrightarrow>
        (\<exists>q sel. map_GetValue (configuredPolicies pc) n = Some q \<and> Pol_Namespace q = Pod_Namespace p \<and> Pol_Pods q = Some sel \<and> l \<in> set (MatchLabel sel))"
      if "l \<in> set (Pod_Label p)" for l
      using assms(3) tidy_labelsD [OF _ that] by (intro ns_label_policies [OF assms(1,2)]) (simp_all add: tidy_pod_def)
    then show ?thesis by (auto simp: shares_label_def)
  qed
  finally show ?thesis .
qed

lemma those_const: "those (map (\<lambda>_. x) xs) = Some ys \<Longrightarrow> i \<in> set ys \<longleftrightarrow> xs \<noteq> [] \<and> x = Some i"
  by (induction xs arbitrary: ys) (auto split: option.splits)

lemma policies_selecting_result:
  "policies_selecting iter pc pod m = Some ids \<Longrightarrow>
   i \<in> set ids \<longleftrightarrow> (\<exists>k q pods. (k, q) \<in> set m \<and> LookupPodsByNSLabelSelector iter pc (Pol_Namespace q) (Pol_Pods q) = Some pods \<and>
     pod \<in> set pods \<and> UnstringID k = Some i)"
proof (induction iter pc pod m arbitrary: ids rule: policies_selecting.induct)
  case (2 iter pc pod k v policyMap)
  then obtain podByNS hits rest where e: "LookupPodsByNSLabelSelector iter pc (Pol_Namespace v) (Pol_Pods v) = Some podByNS"
      "those (map (\<lambda>_. UnstringID k) (filter (\<lambda>podID. podID = pod) podByNS)) = Some hits"
      "policies_selecting iter pc pod policyMap = Some rest" "ids = hits @ rest"
    by (auto split: option.splits)
  have "i \<in> set hits \<longleftrightarrow> pod \<in> set podByNS \<and> UnstringID k = Some i"
    using those_const [OF e(2), of i] by (auto simp: filter_empty_conv)
  moreover have "i \<in> set rest \<longleftrightarrow> (\<exists>k q pods. (k, q) \<in> set policyMap \<and>
      LookupPodsByNSLabelSelector iter pc (Pol_Namespace q) (Pol_Pods q) = Some pods \<and> pod \<in> set pods \<and> UnstringID k = Some i)"
    using 2(1) [OF e(1,2)] e(3) by blast
  ultimately show ?case using e(1,4) by auto
qed simp

lemma stored_policy:
  assumes "cache_inv pc" "policies_tidy pc" "map_GetValue (configuredPolicies pc) n = Some q"
  shows "n = ID_String (policy_GetID (Some q))" "UnstringID n = Some (policy_GetID (Some q))"
proof -
  show n: "n = ID_String (policy_GetID (Some q))" using assms(1,3) by (simp add: cache_inv_def keyed_def)
  have "tidy_policy q" using assms(2,3) by (simp add: policies_tidy_def)
  then show "UnstringID n = Some (policy_GetID (Some q))"
    unfolding n by (intro UnstringID_String) (simp_all add: policy_GetID_def tidy_policy_def tidy_def)
qed

lemma LookupPoliciesByPod_result:
  assumes "cache_inv pc" "pods_tidy pc" "policies_tidy pc"
    and p: "map_GetValue (configuredPods pc) (ID_String i) = Some p"
    and q: "map_GetValue (configuredPolicies pc) n = Some q"
    and ids: "LookupPoliciesByPod iter pc i = Some ids"
  shows "policy_GetID (Some q) \<in> set ids \<longleftrightarrow> shares_label p q \<and>
    (\<exists>pods. LookupPodsByNSLabelSelector iter pc (Pol_Namespace q) (Pol_Pods q) = Some pods \<and> i \<in> set pods)"
proof -
  have tp: "tidy_pod p" using assms(2) p by (simp add: pods_tidy_def)
  have "policies_selecting iter pc i (label_policies pc p) = Some ids"
    using ids p by (simp add: LookupPoliciesByPod_def idx_LookupPod_def)
  note r = policies_selecting_result [OF this, of "policy_GetID (Some q)", unfolded label_policies_lookup [OF assms(1,3) tp]]
  have same: "k = n \<and> q' = q" if k: "map_GetValue (configuredPolicies pc) k = Some q'" "UnstringID k = Some (policy_GetID (Some q))" for k q'
  proof -
    have "policy_GetID (Some q') = policy_GetID (Some q)" using stored_policy(2) [OF assms(1,3) k(1)] k(2) by simp
    then have "k = n" using stored_policy(1) [OF assms(1,3) k(1)] stored_policy(1) [OF assms(1,3) q] by simp
    then show ?thesis using k(1) q by simp
  qed
  show ?thesis using r same q stored_policy(2) [OF assms(1,3) q] by blast
qed

section \<open>Properties\<close>

text \<open>The events that the plugin hands to the cache, with the errors of the watchers ignored.\<close>

datatype cache_event = Change change_event | Resync "(string \<times> key_val list) list"

definition handle_event :: "'w watcher list \<Rightarrow> cache_event \<Rightarrow> policy_cache \<times> 'w \<Rightarrow> ((policy_cache \<times> 'w) \<times> string option) option" where
  "handle_event ws e s = (case e of Change ev \<Rightarrow> cache_Update ws ev s | Resync r \<Rightarrow> cache_Resync ws r s)"

fun handle_events :: "'w watcher list \<Rightarrow> cache_event list \<Rightarrow> policy_cache \<times> 'w \<Rightarrow> (policy_cache \<times> 'w) option" where
  "handle_events ws [] s = Some s"
| "handle_events ws (e # es) s = (case handle_event ws e s of None \<Rightarrow> None | Some (s', _) \<Rightarrow> handle_events ws es s')"

definition spec_event :: "cache_event \<Rightarrow> cluster \<Rightarrow> cluster" where
  "spec_event e c = (case e of Change ev \<Rightarrow> spec_change ev c | Resync _ \<Rightarrow> c)"

lemma handle_event_refines:
  assumes "cache_inv pc" "handle_event ws e (pc, w) = Some ((pc', w'), err)"
  shows "cache_inv pc' \<and> cluster_of pc' = spec_event e (cluster_of pc)"
proof (cases e)
  case (Change ev)
  then show ?thesis using assms changePropagateEvent_refines by (simp add: handle_event_def cache_Update_def spec_event_def)
next
  case (Resync r)
  then have "resync_watchers ws (resyncParseEvent r) (pc, w) = Some (pc', w')"
    using assms(2) by (auto simp: handle_event_def cache_Resync_def)
  then show ?thesis using assms(1) Resync by (auto simp: spec_event_def dest: resync_watchers_cache)
qed

lemma handle_events_refines:
  "cache_inv pc \<Longrightarrow> handle_events ws es (pc, w) = Some (pc', w') \<Longrightarrow>
   cache_inv pc' \<and> cluster_of pc' = fold spec_event es (cluster_of pc)"
proof (induction es arbitrary: pc w)
  case (Cons e es)
  then obtain pc1 w1 err where h: "handle_event ws e (pc, w) = Some ((pc1, w1), err)" "handle_events ws es (pc1, w1) = Some (pc', w')"
    by (auto split: option.splits)
  show ?case using handle_event_refines [OF Cons.prems(1) h(1)] Cons.IH [OF _ h(2)] by simp
qed simp

text \<open>
  An example: three pods of the namespace \<^verbatim>\<open>default\<close> with different sets of labels, and a policy that selects by
  two labels, all received in change events by a cache without watchers.
\<close>

definition lab :: "string \<Rightarrow> label" where
  "lab k = \<lparr>Label_Key = k, Label_Value = ''x''\<rparr>"

definition ex_k8s_pod :: "string \<Rightarrow> string list \<Rightarrow> pod" where
  "ex_k8s_pod n ks = \<lparr>Pod_Name = n, Pod_Namespace = ''default'', Pod_Label = map lab ks, IpAddress = ''10.1.1.2'', HostIpAddress = '''', Container = []\<rparr>"

definition ex_k8s_policy :: "label list \<Rightarrow> k8s_policy" where
  "ex_k8s_policy ls = \<lparr>Pol_Name = ''allow'', Pol_Namespace = ''default'', Pol_Label = [], Pol_Pods = Some \<lparr>MatchLabel = ls, MatchExpression = []\<rparr>,
     Pol_PolicyType = Policy_INGRESS, IngressRule = [], EgressRule = []\<rparr>"

definition put_event :: "string \<Rightarrow> pod \<Rightarrow> k8s_policy \<Rightarrow> change_event" where
  "put_event key p q = \<lparr>ev_Key = key, ev_ChangeType = Put_change, ev_policy = Inr q, ev_prev_policy = Inr (False, q),
     ev_pod = Inr p, ev_prev_pod = Inr (False, p), ev_namespace = Inl ''bad'', ev_prev_namespace = Inl ''bad''\<rparr>"

definition ex_events :: "cache_event list" where
  "ex_events =
     (let put = (\<lambda>p. Change (put_event (pod_Key (Pod_Name p) ''default'') p (ex_k8s_policy []))) in
      [put (ex_k8s_pod ''a'' [''k'', ''m'']), put (ex_k8s_pod ''b'' [''k'', ''m'', ''n'']), put (ex_k8s_pod ''c'' [''m'', ''n'']),
       Change (put_event (policy_Key ''allow'' ''default'') (ex_k8s_pod ''a'' []) (ex_k8s_policy [lab ''k'', lab ''m'']))])"

definition ex_cache :: policy_cache where
  "ex_cache = (case handle_events ([] :: unit watcher list) ex_events (cache_Init, ()) of Some (pc, _) \<Rightarrow> pc | None \<Rightarrow> cache_Init)"

lemmas ex_cache_eval = ex_cache_def ex_events_def Let_def handle_event_def cache_Update_def changePropagateEvent_def put_event_def
  policy_change_def pod_change_def namespace_change_def propagate_def key_shape has_prefix_def ParsePolicyFromKey_def ParsePodFromKey_def
  trim_prefix_def NamespacePrefix_def RegisterPod_def RegisterPolicy_def ID_String_def pod_GetID_def policy_GetID_def
  ex_k8s_pod_def ex_k8s_policy_def lab_def cache_Init_def map_Put_def NewNamedMapping_def pod_IndexFunction_def policy_IndexFunction_def

lemma ex_run: "handle_events ([] :: unit watcher list) ex_events (cache_Init, ()) = Some (ex_cache, ())"
  by (simp add: ex_cache_eval)

lemma ex_inv: "cache_inv ex_cache"
  using handle_events_refines [OF cache_inv_Init(1) ex_run] by simp

lemma ex_objects:
  "map_GetValue (configuredPods ex_cache) = [''default/a'' \<mapsto> ex_k8s_pod ''a'' [''k'', ''m''],
     ''default/b'' \<mapsto> ex_k8s_pod ''b'' [''k'', ''m'', ''n''], ''default/c'' \<mapsto> ex_k8s_pod ''c'' [''m'', ''n'']]"
  "map_GetValue (configuredPolicies ex_cache) = [''default/allow'' \<mapsto> ex_k8s_policy [lab ''k'', lab ''m'']]"
  by (simp_all add: map_GetValue_def fun_eq_iff ex_cache_eval)

lemma ex_tidy: "pods_tidy ex_cache" "policies_tidy ex_cache"
  by (auto simp: pods_tidy_def policies_tidy_def ex_objects tidy_pod_def tidy_policy_def tidy_labels_def tidy_def ex_k8s_pod_def ex_k8s_policy_def lab_def
      split: if_splits)

text \<open>
  C13: The cache refines the state of the data store. After any sequence of events the policies, pods and
  namespaces it holds are those that the change events describe, each stored under its own identifier with
  exact secondary indexes, whether or not the watchers fail. A resync event changes nothing in the cache.
\<close>

theorem cache_tracks_store:
  assumes "handle_events ws es (cache_Init, w) = Some (pc, w')"
  shows "cache_inv pc \<and> cluster_of pc = fold spec_event es empty_cluster"
  using handle_events_refines [OF cache_inv_Init(1) assms] by (simp add: cache_inv_Init)

theorem cache_tracks_store_witness:
  "cluster_of ex_cache = fold spec_event ex_events empty_cluster \<and> cl_pods (cluster_of ex_cache) ''default/a'' \<noteq> None"
proof
  show "cluster_of ex_cache = fold spec_event ex_events empty_cluster" using cache_tracks_store [OF ex_run] by blast
  show "cl_pods (cluster_of ex_cache) ''default/a'' \<noteq> None" by (simp add: cluster_of_def ex_objects)
qed



text \<open>
  C34: No pod is selected by a missing selector, by an empty one, or by one whose expressions are all of the
  kinds NOT_IN, EXISTS and DOES_NOT_EXIST, in any namespace whose name is not the name of an index.
\<close>

theorem selectors_without_pods:
  assumes "cache_inv pc" "ns \<notin> {podLabelSelectorKey, podKeySelectorKey, podNSKeySelectorKey, podNSLabelSelectorKey, podNamespace}"
    and "\<And>ks. set (iter ks) = set ks"
    and "list_all (\<lambda>e. Operator e \<noteq> Expr_IN) es" "es \<noteq> []"
    and "LookupPodsByNSLabelSelector iter pc ns (Some \<lparr>MatchLabel = ls, MatchExpression = es\<rparr>) = Some pods"
  shows "LookupPodsByNSLabelSelector iter pc ns None = Some [] \<and>
    LookupPodsByNSLabelSelector iter pc ns (Some \<lparr>MatchLabel = [], MatchExpression = []\<rparr>) = Some [] \<and> pods = []"
proof -
  have "pods = []"
    using assms(5,6)
    by (auto simp: LookupPodsByNSLabelSelector_def UnstringPodID_def Intersect_def split: option.splits if_splits
        dest!: getMatchExpressionPods_in [OF assms(3,4)])
  then show ?thesis
    using pods_by_namespace [OF assms(1,2)] by (simp add: LookupPodsByNSLabelSelector_def UnstringPodID_def)
qed

theorem selectors_without_pods_witness:
  "LookupPodsByNSLabelSelector (\<lambda>ks. ks) ex_cache ''default'' None = Some []"
proof -
  let ?e = "\<lparr>Expr_Key = ''k'', Operator = Expr_EXISTS, Expr_Value = []\<rparr>"
  have "LookupPodsByNSLabelSelector (\<lambda>ks. ks) ex_cache ''default'' (Some \<lparr>MatchLabel = [], MatchExpression = [?e]\<rparr>) = Some []"
    by (simp add: LookupPodsByNSLabelSelector_def getMatchExpressionPods_def expression_step_def Let_def RemoveDuplicates_def Intersect_def
        UnstringPodID_def)
  then show ?thesis
    using selectors_without_pods [OF ex_inv, of "''default''" "\<lambda>ks. ks" "[?e]" "[]" "[]"]
    by (simp add: podLabelSelectorKey_def podKeySelectorKey_def podNSKeySelectorKey_def podNSLabelSelectorKey_def podNamespace_def)
qed

text \<open>
  C33: The policies of a pod, for policies that select pods by one or two match labels only, are exactly those of
  the namespace of the pod whose labels the pod has. A policy without match labels is found for no pod.
\<close>

theorem policies_of_pod:
  assumes "cache_inv pc" "pods_tidy pc" "policies_tidy pc"
    and "map_GetValue (configuredPods pc) (ID_String i) = Some p" "map_GetValue (configuredPolicies pc) n = Some q"
    and "LookupPoliciesByPod iter pc i = Some ids" "Pol_Pods q = Some sel" "i = pod_GetID (Some p)"
  shows "(MatchExpression sel = [] \<and> MatchLabel sel \<noteq> [] \<and> length (MatchLabel sel) \<le> 2 \<longrightarrow>
      (policy_GetID (Some q) \<in> set ids \<longleftrightarrow> Pol_Namespace q = Pod_Namespace p \<and> set (MatchLabel sel) \<subseteq> set (Pod_Label p))) \<and>
    (MatchLabel sel = [] \<longrightarrow> policy_GetID (Some q) \<notin> set ids)"
proof -
  note r = LookupPoliciesByPod_result [OF assms(1-6)]
  have "tidy_policy q" using assms(3,5) by (simp add: policies_tidy_def)
  then have t: "tidy (Pol_Namespace q)" "tidy_labels (MatchLabel sel)" using assms(7) by (simp_all add: tidy_policy_def)
  have none: "MatchLabel sel = [] \<Longrightarrow> \<not> shares_label p q" using assms(7) by (simp add: shares_label_def)
  have "policy_GetID (Some q) \<in> set ids \<longleftrightarrow> Pol_Namespace q = Pod_Namespace p \<and> set (MatchLabel sel) \<subseteq> set (Pod_Label p)"
    if s: "MatchExpression sel = []" "MatchLabel sel \<noteq> []" "length (MatchLabel sel) \<le> 2"
  proof -
    have sel: "sel = \<lparr>MatchLabel = MatchLabel sel, MatchExpression = []\<rparr>" using s(1) by simp
    obtain pods where p: "LookupPodsByNSLabelSelector iter pc (Pol_Namespace q) (Pol_Pods q) = Some pods"
        "set pods = ids_with pc (Pol_Namespace q) (MatchLabel sel)"
      using label_lookup_exact [OF assms(1,2) t s(2,3), of iter] sel assms(7) by metis
    have "i \<in> ids_with pc (Pol_Namespace q) (MatchLabel sel) \<longleftrightarrow> Pol_Namespace q = Pod_Namespace p \<and> set (MatchLabel sel) \<subseteq> set (Pod_Label p)"
      using stored_unique [OF assms(1,2) assms(4)] assms(4,8) unfolding ids_with_def by fastforce
    moreover have "Pol_Namespace q = Pod_Namespace p \<and> set (MatchLabel sel) \<subseteq> set (Pod_Label p) \<Longrightarrow> shares_label p q"
      using s(2) assms(7) by (cases "MatchLabel sel") (auto simp: shares_label_def)
    ultimately show ?thesis using r p by auto
  qed
  then show ?thesis using r none by blast
qed

lemma ex_lookups:
  "idx_LookupPodsByNSLabelSelector (configuredPods ex_cache) (ns_label ''default'' (lab ''k'')) = [''default/b'', ''default/a'']"
  "idx_LookupPodsByNSLabelSelector (configuredPods ex_cache) (ns_label ''default'' (lab ''m'')) = [''default/c'', ''default/b'', ''default/a'']"
  "LookupPolicyByNSLabelSelector (configuredPolicies ex_cache) (ns_label ''default'' (lab ''k'')) = [''default/allow'']"
  "LookupPolicyByNSLabelSelector (configuredPolicies ex_cache) (ns_label ''default'' (lab ''m'')) = [''default/allow'']"
  "LookupPolicyByNSLabelSelector (configuredPolicies ex_cache) (ns_label ''default'' (lab ''n'')) = []"
  by (simp_all add: idx_LookupPodsByNSLabelSelector_def LookupPolicyByNSLabelSelector_def map_ListNames_def ex_cache_eval ns_label_def
      podLabelSelectorKey_def podKeySelectorKey_def podNSKeySelectorKey_def podNSLabelSelectorKey_def podNamespace_def
      policyPodLabelKey_def policyPodNSLabelKey_def add_name_def)

lemma ex_selected:
  "LookupPodsByNSLabelSelector (\<lambda>ks. ks) ex_cache ''default'' (Some \<lparr>MatchLabel = [lab ''k'', lab ''m''], MatchExpression = []\<rparr>) =
   Some [\<lparr>Name = ''b'', Namespace = ''default''\<rparr>, \<lparr>Name = ''a'', Namespace = ''default''\<rparr>]"
  by (simp add: LookupPodsByNSLabelSelector_def getPodsByNSLabelSelector_def ex_lookups Intersect_def UnstringPodID_def UnstringID_def)

lemma ex_policies:
  "LookupPoliciesByPod (\<lambda>ks. ks) ex_cache \<lparr>Name = ''a'', Namespace = ''default''\<rparr> = Some [\<lparr>Name = ''allow'', Namespace = ''default''\<rparr>]"
  "LookupPoliciesByPod (\<lambda>ks. ks) ex_cache \<lparr>Name = ''b'', Namespace = ''default''\<rparr> = Some [\<lparr>Name = ''allow'', Namespace = ''default''\<rparr>]"
proof -
  have l: "label_policies ex_cache (ex_k8s_pod ''a'' [''k'', ''m'']) = [(''default/allow'', ex_k8s_policy [lab ''k'', lab ''m''])]"
      "label_policies ex_cache (ex_k8s_pod ''b'' [''k'', ''m'', ''n'']) = [(''default/allow'', ex_k8s_policy [lab ''k'', lab ''m''])]"
    by (simp_all add: label_policies_def ex_k8s_pod_def ex_lookups idx_LookupPolicy_def ex_objects)
  have s: "policies_selecting (\<lambda>ks. ks) ex_cache i [(''default/allow'', ex_k8s_policy [lab ''k'', lab ''m''])] =
      Some (if i \<in> {\<lparr>Name = ''b'', Namespace = ''default''\<rparr>, \<lparr>Name = ''a'', Namespace = ''default''\<rparr>} then [\<lparr>Name = ''allow'', Namespace = ''default''\<rparr>] else [])" for i
    by (simp add: ex_k8s_policy_def ex_selected UnstringID_def)
  show "LookupPoliciesByPod (\<lambda>ks. ks) ex_cache \<lparr>Name = ''a'', Namespace = ''default''\<rparr> = Some [\<lparr>Name = ''allow'', Namespace = ''default''\<rparr>]"
    "LookupPoliciesByPod (\<lambda>ks. ks) ex_cache \<lparr>Name = ''b'', Namespace = ''default''\<rparr> = Some [\<lparr>Name = ''allow'', Namespace = ''default''\<rparr>]"
    by (simp_all add: LookupPoliciesByPod_def idx_LookupPod_def ID_String_def ex_objects l s del: policies_selecting.simps)
qed

theorem policies_of_pod_witness:
  "policy_GetID (Some (ex_k8s_policy [lab ''k'', lab ''m''])) \<in> set [\<lparr>Name = ''allow'', Namespace = ''default''\<rparr>]"
proof -
  let ?i = "\<lparr>Name = ''a'', Namespace = ''default''\<rparr>" and ?sel = "\<lparr>MatchLabel = [lab ''k'', lab ''m''], MatchExpression = []\<rparr>"
  have p: "map_GetValue (configuredPods ex_cache) (ID_String ?i) = Some (ex_k8s_pod ''a'' [''k'', ''m''])"
    by (simp add: ex_objects ID_String_def)
  have q: "map_GetValue (configuredPolicies ex_cache) ''default/allow'' = Some (ex_k8s_policy [lab ''k'', lab ''m''])"
    by (simp add: ex_objects)
  have sel: "Pol_Pods (ex_k8s_policy [lab ''k'', lab ''m'']) = Some ?sel" by (simp add: ex_k8s_policy_def)
  have i: "?i = pod_GetID (Some (ex_k8s_pod ''a'' [''k'', ''m'']))" by (simp add: pod_GetID_def ex_k8s_pod_def)
  have m: "MatchExpression ?sel = [] \<and> MatchLabel ?sel \<noteq> [] \<and> length (MatchLabel ?sel) \<le> 2" by simp
  have s: "Pol_Namespace (ex_k8s_policy [lab ''k'', lab ''m'']) = Pod_Namespace (ex_k8s_pod ''a'' [''k'', ''m'']) \<and>
      set (MatchLabel ?sel) \<subseteq> set (Pod_Label (ex_k8s_pod ''a'' [''k'', ''m'']))"
    by (simp add: ex_k8s_policy_def ex_k8s_pod_def)
  show ?thesis
    using conjunct1 [OF policies_of_pod [OF ex_inv ex_tidy p q ex_policies(1) sel i], THEN mp, OF m] s by (rule iffD2)
qed

end
