(* ===== verification/Processor.thy ===== *)
theory Processor
  imports Configurator PolicyCacheSpec
begin

text \<open>
  The policy processor, \<^verbatim>\<open>src/plugins/policy/processor\<close>: it translates the policies of a pod into the matches of the
  configurator, decides for every event which pods of this node have an outdated configuration, and configures
  them in one transaction. \<open>None\<close> is a panic.
\<close>

section \<open>Matching a pod against a selector\<close>

definition isMatchLabel :: "pod \<Rightarrow> label list \<Rightarrow> string \<Rightarrow> bool" where
  "isMatchLabel pod matchLabels policyNamespace =
     (let labelExists = map (ns_label (Pod_Namespace pod)) (Pod_Label pod) in
      list_all (\<lambda>matchLabel. ns_label policyNamespace matchLabel \<in> set labelExists) matchLabels)"

fun isMatchExpression :: "pod \<Rightarrow> label_expression list \<Rightarrow> string \<Rightarrow> bool" where
  "isMatchExpression pod [] policyNamespace = True"
| "isMatchExpression pod (expression # expressions) policyNamespace =
     (let labels = ConstructLabels (Expr_Key expression) (Expr_Value expression);
          hasKey = policyNamespace @ ''/'' @ Expr_Key expression \<in> set (map (\<lambda>l. Pod_Namespace pod @ ''/'' @ Label_Key l) (Pod_Label pod))
      in case Operator expression of
           Expr_IN \<Rightarrow> if \<not> isMatchLabel pod labels policyNamespace then False else isMatchExpression pod expressions policyNamespace
         | Expr_NOT_IN \<Rightarrow> if isMatchLabel pod labels policyNamespace then False else isMatchExpression pod expressions policyNamespace
         | Expr_EXISTS \<Rightarrow> if hasKey then True else isMatchExpression pod expressions policyNamespace
         | Expr_DOES_NOT_EXIST \<Rightarrow> if \<not> hasKey then False else isMatchExpression pod expressions policyNamespace)"

definition calculateLabelSelectorMatches :: "pod \<Rightarrow> label list \<Rightarrow> label_expression list \<Rightarrow> string \<Rightarrow> bool" where
  "calculateLabelSelectorMatches newPod matchLabels matchExpressions policyNamespace =
     (if matchLabels \<noteq> [] \<and> matchExpressions \<noteq> [] then
        isMatchLabel newPod matchLabels policyNamespace \<and> isMatchExpression newPod matchExpressions policyNamespace
      else if matchLabels = [] \<and> matchExpressions \<noteq> [] then isMatchExpression newPod matchExpressions policyNamespace
      else if matchLabels \<noteq> [] \<and> matchExpressions = [] then isMatchLabel newPod matchLabels policyNamespace
      else True)"

section \<open>Matches of a policy\<close>

text \<open>A CIDR that does not parse leaves a nil pointer, which is dereferenced.\<close>

definition parse_net :: "string \<Rightarrow> ipnet option" where
  "parse_net s = map_option snd (ParseCIDR s)"

definition peer_block :: "peer_ip_block \<Rightarrow> ip_block option" where
  "peer_block b =
     (case those (map parse_net (Block_Except b)) of
        None \<Rightarrow> None
      | Some excepts \<Rightarrow> map_option (\<lambda>cidr. \<lparr>Network = cidr, Except = excepts\<rparr>) (parse_net (Cidr b)))"

text \<open>The loop over the peers of a rule.\<close>

fun peers_loop ::
  "(string list \<Rightarrow> string list) \<Rightarrow> policy_cache \<Rightarrow> string \<Rightarrow> policy_peer list \<Rightarrow> pod_id list \<times> ip_block list \<Rightarrow> (pod_id list \<times> ip_block list) option" where
  "peers_loop iter pc namespace [] acc = Some acc"
| "peers_loop iter pc namespace (peer # peers) (pods, blocks) =
     (case LookupPodsByNSLabelSelector iter pc namespace (Peer_Pods peer) of
        None \<Rightarrow> None
      | Some found \<Rightarrow>
          (case IpBlock peer of
             None \<Rightarrow> peers_loop iter pc namespace peers (pods @ found, blocks)
           | Some b \<Rightarrow>
               (case peer_block b of
                  None \<Rightarrow> None
                | Some blk \<Rightarrow> peers_loop iter pc namespace peers (pods @ found, blocks @ [blk]))))"

text \<open>A port without a number is a nil pointer; the number is cut to its low 16 bits.\<close>

definition match_port :: "policy_port \<Rightarrow> port option" where
  "match_port p =
     (case Pol_Port p of
        None \<Rightarrow> None
      | Some ref \<Rightarrow> Some \<lparr>PortProtocol = (if Pol_Protocol p = Policy_Port_UDP then UDP else TCP), Number = ucast (Ref_Number ref)\<rparr>)"

definition rule_match ::
  "(string list \<Rightarrow> string list) \<Rightarrow> policy_cache \<Rightarrow> string \<Rightarrow> match_type \<Rightarrow> policy_peer list \<Rightarrow> policy_port list \<Rightarrow> contiv_match option" where
  "rule_match iter pc namespace matchType peers ports =
     (case (peers_loop iter pc namespace peers ([], []), those (map match_port ports)) of
        (Some (pods, blocks), Some ps) \<Rightarrow>
          Some \<lparr>Match_Type = matchType, Pods = (if peers = [] then None else Some pods),
                IPBlocks = (if peers = [] then None else Some blocks), Ports = ps\<rparr>
      | _ \<Rightarrow> None)"

definition calculateMatches :: "(string list \<Rightarrow> string list) \<Rightarrow> policy_cache \<Rightarrow> k8s_policy \<Rightarrow> contiv_match list option" where
  "calculateMatches iter pc policyData =
     (let namespace = Pol_Namespace policyData in
      case (those (map (\<lambda>r. rule_match iter pc namespace MatchIngress (From r) (Ingress_Port r)) (IngressRule policyData)),
            those (map (\<lambda>r. rule_match iter pc namespace MatchEgress (To r) (Egress_Port r)) (EgressRule policyData))) of
        (Some ingressMatches, Some egressMatches) \<Rightarrow> Some (ingressMatches @ egressMatches)
      | _ \<Rightarrow> None)"

section \<open>Processing\<close>

text \<open>The types 0, 1 and 2 of the configurator.\<close>

definition contiv_type :: "k8s_policy_type \<Rightarrow> policy_type" where
  "contiv_type t =
     (case t of
        Policy_INGRESS \<Rightarrow> PolicyIngress
      | Policy_EGRESS \<Rightarrow> PolicyEgress
      | Policy_INGRESS_AND_EGRESS \<Rightarrow> PolicyAll
      | Policy_DEFAULT \<Rightarrow> PolicyIngress)"

fun pod_policies :: "(string list \<Rightarrow> string list) \<Rightarrow> policy_cache \<Rightarrow> policy_id list \<Rightarrow> contiv_policy list option" where
  "pod_policies iter pc [] = Some []"
| "pod_policies iter pc (policyByPod # policiesByPod) =
     (case LookupPolicy pc policyByPod of
        (False, _) \<Rightarrow> pod_policies iter pc policiesByPod
      | (True, None) \<Rightarrow> None
      | (True, Some policyData) \<Rightarrow>
          (case calculateMatches iter pc policyData of
             None \<Rightarrow> None
           | Some ms \<Rightarrow>
               map_option ((#) \<lparr>Policy_ID = \<lparr>Name = Pol_Name policyData, Namespace = Pol_Namespace policyData\<rparr>,
                                Policy_Type = contiv_type (Pol_PolicyType policyData), Matches = ms\<rparr>)
                 (pod_policies iter pc policiesByPod)))"

fun process_loop :: "(string list \<Rightarrow> string list) \<Rightarrow> policy_cache \<Rightarrow> pod_id list \<Rightarrow> txn_config \<Rightarrow> txn_config option" where
  "process_loop iter pc [] txn = Some txn"
| "process_loop iter pc (pod # pods) txn =
     (case LookupPoliciesByPod iter pc pod of
        None \<Rightarrow> None
      | Some policiesByPod \<Rightarrow>
          if policiesByPod = [] then process_loop iter pc pods (Configure txn pod [])
          else
            (case pod_policies iter pc policiesByPod of
               None \<Rightarrow> None
             | Some ps \<Rightarrow> process_loop iter pc pods (Configure txn pod ps)))"

text \<open>The map order, the registered renderers and their scheduling, and the network of the pods of this node.\<close>

record processor_env =
  env_iter :: "string list \<Rightarrow> string list"
  env_renderers :: "renderer list"
  env_parallel :: bool
  env_arrival :: "string option list \<Rightarrow> string option list"
  env_podNetwork :: ipnet

text \<open>The transaction is never opened as a resync, whatever the argument.\<close>

definition Process :: "processor_env \<Rightarrow> policy_cache \<Rightarrow> bool \<Rightarrow> pod_id list \<Rightarrow> (render_call list \<times> string option) option" where
  "Process env pc resync pods =
     (case process_loop (env_iter env) pc pods [] of
        None \<Rightarrow> None
      | Some txn \<Rightarrow> Commit (LookupPod pc) (env_renderers env) (env_parallel env) (env_arrival env) False txn)"

section \<open>Event handlers\<close>

text \<open>The processor's own state, and the outcome of an event: the rendered calls and the error.\<close>

type_synonym pod_ip_map = "string \<rightharpoonup> string"

type_synonym outcome = "render_call list \<times> string option"

definition no_action :: outcome where
  "no_action = ([], None)"

text \<open>\<^verbatim>\<open>net.ParseIP\<close> of an invalid address is a nil address, which no network contains.\<close>

definition in_network :: "ipnet \<Rightarrow> string \<Rightarrow> bool" where
  "in_network n addr = contains n (case ParseIP addr of Some ip \<Rightarrow> ip | None \<Rightarrow> [])"

definition all_policies :: "policy_cache \<Rightarrow> k8s_policy option list option" where
  "all_policies pc =
     map_option (\<lambda>ids. map snd (filter fst (map (LookupPolicy pc) ids))) (ListAllPolicies pc)"

text \<open>The policies with a peer that selects the pod; \<open>added\<close> are the identifiers already in the list.\<close>

definition peer_selects_pod :: "pod \<Rightarrow> string \<Rightarrow> policy_peer \<Rightarrow> bool" where
  "peer_selects_pod pod namespace peer =
     (let (matchLabels, matchExpressions) =
        (case Peer_Pods peer of None \<Rightarrow> ([], []) | Some sel \<Rightarrow> (MatchLabel sel, MatchExpression sel))
      in calculateLabelSelectorMatches pod matchLabels matchExpressions namespace)"

definition add_policy :: "pod \<Rightarrow> k8s_policy \<Rightarrow> policy_peer \<Rightarrow> string list \<times> k8s_policy list \<Rightarrow> string list \<times> k8s_policy list" where
  "add_policy pod dataPolicy peer = (\<lambda>(added, ps).
     let i = ID_String (policy_GetID (Some dataPolicy)) in
     if peer_selects_pod pod (Pol_Namespace dataPolicy) peer \<and> i \<notin> set added then (i # added, ps @ [dataPolicy]) else (added, ps))"

fun scan_policies :: "pod \<Rightarrow> k8s_policy option list \<Rightarrow> string list \<times> k8s_policy list \<Rightarrow> (string list \<times> k8s_policy list) option" where
  "scan_policies pod [] acc = Some acc"
| "scan_policies pod (None # dataPolicies) acc = None"
| "scan_policies pod (Some dataPolicy # dataPolicies) acc =
     scan_policies pod dataPolicies
       (fold (add_policy pod dataPolicy) (concat (map To (EgressRule dataPolicy)))
         (fold (add_policy pod dataPolicy) (concat (map From (IngressRule dataPolicy))) acc))"

fun policies_pods :: "(string list \<Rightarrow> string list) \<Rightarrow> policy_cache \<Rightarrow> k8s_policy list \<Rightarrow> pod_id list \<Rightarrow> pod_id list option" where
  "policies_pods iter pc [] pods = Some pods"
| "policies_pods iter pc (policy # ps) pods =
     (case LookupPodsByNSLabelSelector iter pc (Pol_Namespace policy) (Pol_Pods policy) of
        None \<Rightarrow> None
      | Some policyPods \<Rightarrow> policies_pods iter pc ps (pods @ policyPods))"

text \<open>Pods of this node, by the address in the cache; the data of a pod that is not there is a nil pointer.\<close>

fun host_pods :: "ipnet \<Rightarrow> policy_cache \<Rightarrow> pod_id list \<Rightarrow> pod_id list option" where
  "host_pods hostNetwork pc [] = Some []"
| "host_pods hostNetwork pc (hostPod # pods) =
     (case LookupPod pc hostPod of
        (False, _) \<Rightarrow> host_pods hostNetwork pc pods
      | (True, None) \<Rightarrow> None
      | (True, Some hostPodData) \<Rightarrow>
          if \<not> in_network hostNetwork (IpAddress hostPodData) then host_pods hostNetwork pc pods
          else map_option ((#) hostPod) (host_pods hostNetwork pc pods))"

text \<open>The same for a deleted pod, by the addresses recorded by the processor.\<close>

definition host_pods_recorded :: "ipnet \<Rightarrow> policy_cache \<Rightarrow> pod_ip_map \<Rightarrow> pod_id list \<Rightarrow> pod_id list" where
  "host_pods_recorded hostNetwork pc ips pods =
     filter (\<lambda>hostPod.
       case LookupPod pc hostPod of
         (False, _) \<Rightarrow> False
       | (True, hostPodData) \<Rightarrow>
           in_network hostNetwork (case ips (ID_String (pod_GetID hostPodData)) of Some ip \<Rightarrow> ip | None \<Rightarrow> '''')) pods"

definition dedup_pods :: "(string list \<Rightarrow> string list) \<Rightarrow> pod_id list \<Rightarrow> pod_id list option" where
  "dedup_pods iter pods = UnstringPodID (RemoveDuplicates iter (StringPodID pods))"

definition processor_Resync :: "processor_env \<Rightarrow> policy_cache \<Rightarrow> data_resync_event \<Rightarrow> outcome option" where
  "processor_Resync env pc dat =
     (case ListAllPods pc of None \<Rightarrow> None | Some pods \<Rightarrow> Process env pc True pods)"

definition AddPod :: "pod \<Rightarrow> outcome option" where
  "AddPod pod =
     (if IpAddress pod = '''' then Some no_action
      else if Pod_Namespace pod = ''kube-system'' then Some no_action
      else Some no_action)"

definition DelPod :: "processor_env \<Rightarrow> policy_cache \<Rightarrow> pod_ip_map \<Rightarrow> pod \<Rightarrow> outcome option" where
  "DelPod env pc ips pod =
     (if Pod_Namespace pod = ''kube-system'' then Some no_action
      else
        (case all_policies pc of
           None \<Rightarrow> None
         | Some dataPolicies \<Rightarrow>
             (case scan_policies pod dataPolicies ([], []) of
                None \<Rightarrow> None
              | Some (_, ps) \<Rightarrow>
                  (case policies_pods (env_iter env) pc ps [] of
                     None \<Rightarrow> None
                   | Some pods \<Rightarrow>
                       (case dedup_pods (env_iter env) pods of
                          None \<Rightarrow> None
                        | Some pods \<Rightarrow>
                            let hostPods = host_pods_recorded (env_podNetwork env) pc ips pods in
                            if hostPods \<noteq> [] then Process env pc False hostPods else Some no_action)))))"

definition UpdatePod :: "processor_env \<Rightarrow> policy_cache \<Rightarrow> pod_ip_map \<Rightarrow> pod \<Rightarrow> pod \<Rightarrow> (pod_ip_map \<times> outcome) option" where
  "UpdatePod env pc ips oldPod newPod =
     (if Pod_Namespace newPod = ''kube-system'' then Some (ips, no_action)
      else if IpAddress newPod = '''' then Some (ips, no_action)
      else
        let newPodID = pod_GetID (Some newPod);
            ips' = ips(ID_String newPodID \<mapsto> IpAddress newPod)
        in case all_policies pc of
             None \<Rightarrow> None
           | Some dataPolicies \<Rightarrow>
               (case scan_policies oldPod dataPolicies ([], []) of
                  None \<Rightarrow> None
                | Some acc \<Rightarrow>
                    (case scan_policies newPod dataPolicies acc of
                       None \<Rightarrow> None
                     | Some (_, ps) \<Rightarrow>
                         (case policies_pods (env_iter env) pc ps [newPodID] of
                            None \<Rightarrow> None
                          | Some pods \<Rightarrow>
                              (case dedup_pods (env_iter env) pods of
                                 None \<Rightarrow> None
                               | Some pods \<Rightarrow>
                                   (case host_pods (env_podNetwork env) pc pods of
                                      None \<Rightarrow> None
                                    | Some hostPods \<Rightarrow>
                                        if hostPods \<noteq> [] then map_option (Pair ips') (Process env pc False hostPods)
                                        else Some (ips', no_action)))))))"

definition AddPolicy :: "processor_env \<Rightarrow> policy_cache \<Rightarrow> k8s_policy option \<Rightarrow> outcome option" where
  "AddPolicy env pc policy =
     (case policy of
        None \<Rightarrow> Some no_action
      | Some p \<Rightarrow>
          (case LookupPodsByNSLabelSelector (env_iter env) pc (Pol_Namespace p) (Pol_Pods p) of
             None \<Rightarrow> None
           | Some pods \<Rightarrow>
               (case host_pods (env_podNetwork env) pc pods of
                  None \<Rightarrow> None
                | Some hostPods \<Rightarrow> if hostPods \<noteq> [] then Process env pc False hostPods else Some no_action)))"

definition DelPolicy :: "processor_env \<Rightarrow> policy_cache \<Rightarrow> k8s_policy option \<Rightarrow> outcome option" where
  "DelPolicy env pc policy =
     (case policy of
        None \<Rightarrow> Some no_action
      | Some p \<Rightarrow>
          (case LookupPodsByNSLabelSelector (env_iter env) pc (Pol_Namespace p) (Pol_Pods p) of
             None \<Rightarrow> None
           | Some pods \<Rightarrow>
               (case host_pods (env_podNetwork env) pc pods of
                  None \<Rightarrow> None
                | Some hostPods \<Rightarrow> if pods \<noteq> [] then Process env pc False hostPods else Some no_action)))"

definition UpdatePolicy :: "processor_env \<Rightarrow> policy_cache \<Rightarrow> k8s_policy option \<Rightarrow> k8s_policy option \<Rightarrow> outcome option" where
  "UpdatePolicy env pc oldPolicy newPolicy =
     (case (newPolicy, oldPolicy) of
        (Some new, Some old) \<Rightarrow>
          (case (LookupPodsByNSLabelSelector (env_iter env) pc (Pol_Namespace old) (Pol_Pods old),
                 LookupPodsByNSLabelSelector (env_iter env) pc (Pol_Namespace new) (Pol_Pods new)) of
             (Some oldPods, Some newPods) \<Rightarrow>
               (case dedup_pods (env_iter env) (oldPods @ newPods) of
                  None \<Rightarrow> None
                | Some pods \<Rightarrow>
                    (case host_pods (env_podNetwork env) pc pods of
                       None \<Rightarrow> None
                     | Some hostPods \<Rightarrow> if pods \<noteq> [] then Process env pc False hostPods else Some no_action))
           | _ \<Rightarrow> None)
      | _ \<Rightarrow> Some no_action)"

definition AddNamespace :: "processor_env \<Rightarrow> policy_cache \<Rightarrow> k8s_namespace option \<Rightarrow> outcome option" where
  "AddNamespace env pc ns = (case ns of None \<Rightarrow> Some no_action | Some _ \<Rightarrow> Process env pc False [])"

definition DelNamespace :: "processor_env \<Rightarrow> policy_cache \<Rightarrow> k8s_namespace option \<Rightarrow> outcome option" where
  "DelNamespace env pc ns = (case ns of None \<Rightarrow> Some no_action | Some _ \<Rightarrow> Process env pc False [])"

definition UpdateNamespace :: "processor_env \<Rightarrow> policy_cache \<Rightarrow> k8s_namespace option \<Rightarrow> k8s_namespace option \<Rightarrow> outcome option" where
  "UpdateNamespace env pc oldNs newNs = (case newNs of None \<Rightarrow> Some no_action | Some _ \<Rightarrow> Process env pc False [])"

text \<open>The processor as a watcher of the cache: its state is the map of addresses and the log of the rendered transactions.\<close>

definition processor_watcher :: "processor_env \<Rightarrow> (pod_ip_map \<times> render_call list list) watcher" where
  "processor_watcher env pc n w =
     (let (ips, log) = w;
          finish = map_option (\<lambda>(calls, err). ((ips, log @ [calls]), err))
      in case n of
           Resync_n dat \<Rightarrow> finish (processor_Resync env pc dat)
         | AddPod_n p \<Rightarrow> finish (AddPod p)
         | DelPod_n p \<Rightarrow> finish (DelPod env pc ips p)
         | UpdatePod_n p q \<Rightarrow> map_option (\<lambda>(ips', calls, err). ((ips', log @ [calls]), err)) (UpdatePod env pc ips p q)
         | AddPolicy_n p \<Rightarrow> finish (AddPolicy env pc (Some p))
         | DelPolicy_n p \<Rightarrow> finish (DelPolicy env pc (Some p))
         | UpdatePolicy_n p q \<Rightarrow> finish (UpdatePolicy env pc (Some p) (Some q))
         | AddNamespace_n m \<Rightarrow> finish (AddNamespace env pc (Some m))
         | DelNamespace_n m \<Rightarrow> finish (DelNamespace env pc (Some m))
         | UpdateNamespace_n m k \<Rightarrow> finish (UpdateNamespace env pc (Some m) (Some k)))"

section \<open>The meaning of the matches\<close>

text \<open>What a rule of a policy allows, over the pods that its selectors find.\<close>

definition peer_allows :: "(string list \<Rightarrow> string list) \<Rightarrow> policy_cache \<Rightarrow> string \<Rightarrow> ip \<Rightarrow> policy_peer \<Rightarrow> bool" where
  "peer_allows iter pc ns a peer \<longleftrightarrow>
     (case LookupPodsByNSLabelSelector iter pc ns (Peer_Pods peer) of
        None \<Rightarrow> False | Some pods \<Rightarrow> list_ex (peer_selects (LookupPod pc) a) pods) \<or>
     (case IpBlock peer of
        None \<Rightarrow> False
      | Some b \<Rightarrow> (case peer_block b of None \<Rightarrow> False | Some blk \<Rightarrow> block_selects a blk))"

definition port_allows :: "packet \<Rightarrow> policy_port \<Rightarrow> bool" where
  "port_allows p q \<longleftrightarrow>
     (case Pol_Port q of
        None \<Rightarrow> False
      | Some ref \<Rightarrow> pkt_proto p = (if Pol_Protocol q = Policy_Port_UDP then UDP else TCP) \<and>
          port_matches (ucast (Ref_Number ref)) (pkt_dport p))"

definition rule_allows ::
  "(string list \<Rightarrow> string list) \<Rightarrow> policy_cache \<Rightarrow> string \<Rightarrow> match_type \<Rightarrow> packet \<Rightarrow> policy_peer list \<times> policy_port list \<Rightarrow> bool" where
  "rule_allows iter pc ns direction p r \<longleftrightarrow>
     (fst r = [] \<or> list_ex (peer_allows iter pc ns (remote direction p)) (fst r)) \<and> (snd r = [] \<or> list_ex (port_allows p) (snd r))"

definition rules_of :: "match_type \<Rightarrow> k8s_policy \<Rightarrow> (policy_peer list \<times> policy_port list) list" where
  "rules_of direction q =
     (case direction of
        MatchIngress \<Rightarrow> map (\<lambda>r. (From r, Ingress_Port r)) (IngressRule q)
      | MatchEgress \<Rightarrow> map (\<lambda>r. (To r, Egress_Port r)) (EgressRule q))"

definition type_applies :: "match_type \<Rightarrow> k8s_policy \<Rightarrow> bool" where
  "type_applies direction q \<longleftrightarrow>
     (case Pol_PolicyType q of
        Policy_INGRESS_AND_EGRESS \<Rightarrow> True
      | Policy_EGRESS \<Rightarrow> direction = MatchEgress
      | _ \<Rightarrow> direction = MatchIngress)"

definition k8s_allow :: "(string list \<Rightarrow> string list) \<Rightarrow> policy_cache \<Rightarrow> match_type \<Rightarrow> k8s_policy list \<Rightarrow> packet \<Rightarrow> bool" where
  "k8s_allow iter pc direction qs p \<longleftrightarrow>
     \<not> list_ex (type_applies direction) qs \<or>
     list_ex (\<lambda>q. type_applies direction q \<and> list_ex (rule_allows iter pc (Pol_Namespace q) direction p) (rules_of direction q)) qs"

lemma those_Cons: "those (x # xs) = Some ys \<longleftrightarrow> (\<exists>y ys'. x = Some y \<and> those xs = Some ys' \<and> ys = y # ys')"
  by (auto split: option.splits)

lemma those_eq_Some: "those (map f xs) = Some ys \<longleftrightarrow> list_all2 (\<lambda>x y. f x = Some y) xs ys"
  by (induction xs arbitrary: ys) (auto simp: list_all2_Cons1 split: option.splits)

lemma list_ex_all2: "list_all2 R xs ys \<Longrightarrow> (\<And>x y. R x y \<Longrightarrow> P x \<longleftrightarrow> Q y) \<Longrightarrow> list_ex P xs \<longleftrightarrow> list_ex Q ys"
  by (induction rule: list_all2_induct) auto

lemma peers_loop_allows:
  "peers_loop iter pc ns peers (pods, blocks) = Some (pods', blocks') \<Longrightarrow>
   list_ex (peer_selects (LookupPod pc) a) pods' \<or> list_ex (block_selects a) blocks' \<longleftrightarrow>
   list_ex (peer_selects (LookupPod pc) a) pods \<or> list_ex (block_selects a) blocks \<or> list_ex (peer_allows iter pc ns a) peers"
proof (induction peers arbitrary: pods blocks)
  case (Cons peer peers)
  from Cons.prems obtain found where f: "LookupPodsByNSLabelSelector iter pc ns (Peer_Pods peer) = Some found"
    by (auto split: option.splits)
  show ?case
  proof (cases "IpBlock peer")
    case None
    then show ?thesis using Cons.IH [of "pods @ found" blocks] Cons.prems f by (auto simp: peer_allows_def)
  next
    case (Some b)
    then obtain blk where blk: "peer_block b = Some blk" using Cons.prems f by (auto split: option.splits)
    then show ?thesis using Cons.IH [of "pods @ found" "blocks @ [blk]"] Cons.prems f Some by (auto simp: peer_allows_def)
  qed
qed simp

lemma match_ports_select:
  assumes "those (map match_port ports) = Some ps"
  shows "ports_select ps p \<longleftrightarrow> ports = [] \<or> list_ex (port_allows p) ports"
proof -
  have r: "list_all2 (\<lambda>x y. match_port x = Some y) ports ps" using assms by (simp only: those_eq_Some)
  have "list_ex (port_allows p) ports \<longleftrightarrow> list_ex (\<lambda>q. PortProtocol q = pkt_proto p \<and> port_matches (Number q) (pkt_dport p)) ps"
    by (rule list_ex_all2 [OF r]) (auto simp: match_port_def port_allows_def split: option.splits)
  moreover have "ports = [] \<longleftrightarrow> ps = []" using list_all2_lengthD [OF r] by auto
  ultimately show ?thesis by (simp add: ports_select_def)
qed

lemma rule_match_selects:
  assumes "rule_match iter pc ns mt peers ports = Some m"
  shows "Match_Type m = mt \<and> (match_selects (LookupPod pc) direction p m \<longleftrightarrow>
    (peers = [] \<or> list_ex (peer_allows iter pc ns (remote direction p)) peers) \<and> (ports = [] \<or> list_ex (port_allows p) ports))"
proof -
  obtain pods blocks ps where l: "peers_loop iter pc ns peers ([], []) = Some (pods, blocks)" "those (map match_port ports) = Some ps"
      "m = \<lparr>Match_Type = mt, Pods = (if peers = [] then None else Some pods), IPBlocks = (if peers = [] then None else Some blocks), Ports = ps\<rparr>"
    using assms by (auto simp: rule_match_def split: option.splits)
  show ?thesis
    using peers_loop_allows [OF l(1), of "remote direction p"] match_ports_select [OF l(2), of p]
    by (auto simp: match_selects_def l(3) pods_of_def blocks_of_def)
qed

lemma calculateMatches_selects:
  assumes "calculateMatches iter pc q = Some ms"
  shows "list_ex (\<lambda>m. Match_Type m = direction \<and> match_selects (LookupPod pc) direction p m) ms \<longleftrightarrow>
    list_ex (rule_allows iter pc (Pol_Namespace q) direction p) (rules_of direction q)"
proof -
  let ?ing = "\<lambda>r. rule_match iter pc (Pol_Namespace q) MatchIngress (From r) (Ingress_Port r)"
  let ?eg = "\<lambda>r. rule_match iter pc (Pol_Namespace q) MatchEgress (To r) (Egress_Port r)"
  obtain ims ems where m: "those (map ?ing (IngressRule q)) = Some ims" "those (map ?eg (EgressRule q)) = Some ems" "ms = ims @ ems"
    using assms by (auto simp: calculateMatches_def Let_def split: option.splits)
  have "list_ex (\<lambda>r. MatchIngress = direction \<and> rule_allows iter pc (Pol_Namespace q) direction p (From r, Ingress_Port r)) (IngressRule q) \<longleftrightarrow>
      list_ex (\<lambda>m. Match_Type m = direction \<and> match_selects (LookupPod pc) direction p m) ims"
    by (rule list_ex_all2 [OF m(1) [unfolded those_eq_Some]]) (use rule_match_selects in \<open>auto simp: rule_allows_def\<close>)
  moreover have "list_ex (\<lambda>r. MatchEgress = direction \<and> rule_allows iter pc (Pol_Namespace q) direction p (To r, Egress_Port r)) (EgressRule q) \<longleftrightarrow>
      list_ex (\<lambda>m. Match_Type m = direction \<and> match_selects (LookupPod pc) direction p m) ems"
    by (rule list_ex_all2 [OF m(2) [unfolded those_eq_Some]]) (use rule_match_selects in \<open>auto simp: rule_allows_def\<close>)
  ultimately show ?thesis
    unfolding m(3) by (cases direction; simp add: rules_of_def list_ex_iff bex_Un; blast)
qed

text \<open>The Contiv policy made of a Kubernetes policy.\<close>

definition translated :: "(string list \<Rightarrow> string list) \<Rightarrow> policy_cache \<Rightarrow> k8s_policy \<Rightarrow> contiv_policy \<Rightarrow> bool" where
  "translated iter pc q c \<longleftrightarrow>
     Policy_ID c = policy_GetID (Some q) \<and> Policy_Type c = contiv_type (Pol_PolicyType q) \<and> calculateMatches iter pc q = Some (Matches c)"

lemma pod_policies_translated:
  "pod_policies iter pc ids = Some cs \<Longrightarrow>
   \<exists>qs. map (LookupPolicy pc) ids = map (\<lambda>q. (True, Some q)) qs \<and> list_all2 (translated iter pc) qs cs"
proof (induction ids arbitrary: cs)
  case (Cons i ids)
  from Cons.prems obtain q ms rest where i: "LookupPolicy pc i = (True, Some q)" "calculateMatches iter pc q = Some ms"
      "pod_policies iter pc ids = Some rest"
      "cs = \<lparr>Policy_ID = \<lparr>Name = Pol_Name q, Namespace = Pol_Namespace q\<rparr>, Policy_Type = contiv_type (Pol_PolicyType q), Matches = ms\<rparr> # rest"
    by (auto split: prod.splits bool.splits option.splits simp: LookupPolicy_def)
  obtain qs where qs: "map (LookupPolicy pc) ids = map (\<lambda>q. (True, Some q)) qs" "list_all2 (translated iter pc) qs rest"
    using Cons.IH [OF i(3)] by blast
  have "translated iter pc q (hd cs)" using i by (simp add: translated_def policy_GetID_def)
  then show ?case using i qs by (intro exI [of _ "q # qs"]) simp
qed simp

lemma translated_applies: "translated iter pc q c \<Longrightarrow> applies direction c \<longleftrightarrow> type_applies direction q"
  by (cases direction; cases "Pol_PolicyType q") (auto simp: translated_def applies_def type_applies_def contiv_type_def)

lemma translated_allow:
  assumes "list_all2 (translated iter pc) qs cs"
  shows "policies_allow (LookupPod pc) direction cs p \<longleftrightarrow> k8s_allow iter pc direction qs p"
proof -
  have "list_ex (type_applies direction) qs \<longleftrightarrow> list_ex (applies direction) cs"
    by (rule list_ex_all2 [OF assms]) (simp add: translated_applies)
  moreover have "list_ex (\<lambda>q. type_applies direction q \<and> list_ex (rule_allows iter pc (Pol_Namespace q) direction p) (rules_of direction q)) qs \<longleftrightarrow>
      list_ex (\<lambda>c. applies direction c \<and> list_ex (\<lambda>m. Match_Type m = direction \<and> match_selects (LookupPod pc) direction p m) (Matches c)) cs"
    by (rule list_ex_all2 [OF assms]) (auto simp: translated_applies calculateMatches_selects translated_def)
  ultimately show ?thesis by (simp add: policies_allow_def k8s_allow_def)
qed

section \<open>The pods that are configured\<close>

text \<open>The pods for which a transaction renders rules: those with an address.\<close>

definition renderable :: "policy_cache \<Rightarrow> pod_id \<Rightarrow> bool" where
  "renderable pc i \<longleftrightarrow> (\<exists>d. LookupPod pc i = (True, Some d) \<and> ParseIP (IpAddress d) \<noteq> None)"

lemma GetOneHostSubnet_None: "GetOneHostSubnet s = None \<longleftrightarrow> ParseIP s = None"
  by (simp add: GetOneHostSubnet_def split: option.splits)

lemma commit_loop_pods:
  "commit_loop (LookupPod pc) config processed = Some calls \<Longrightarrow> rc_pod ` set calls = {i \<in> fst ` set config. renderable pc i}"
proof (induction config arbitrary: processed calls)
  case (Cons x config)
  obtain pod ps where x: "x = (pod, ps)" by (cases x)
  obtain d where d: "LookupPod pc pod = (True, Some d)"
    using Cons.prems x by (auto simp: LookupPod_def split: option.splits)
  show ?case
  proof (cases "GetOneHostSubnet (IpAddress d)")
    case None
    then have "\<not> renderable pc pod" by (simp add: renderable_def d GetOneHostSubnet_None)
    moreover have "commit_loop (LookupPod pc) config processed = Some calls"
      using Cons.prems x d None by (auto split: if_splits)
    ultimately show ?thesis using Cons.IH x by auto
  next
    case (Some n)
    then have r: "renderable pc pod" by (simp add: renderable_def d GetOneHostSubnet_None [symmetric])
    have ne: "IpAddress d \<noteq> ''''" using Some by auto
    obtain c rest processed' where c: "calls = c # rest" "rc_pod c = pod" "commit_loop (LookupPod pc) config processed' = Some rest"
      using Cons.prems [unfolded x commit_loop.simps d prod.case bool.case option.case Some if_not_P [OF ne] Let_def]
      by (simp only: map_option_eq_Some option.distinct split: option.splits prod.splits)
         (elim exE conjE, rule that [OF sym], assumption, simp only: render_call.simps, assumption)+
    show ?thesis using Cons.IH [OF c(3)] c x r by auto
  qed
qed simp

lemma process_loop_pods: "process_loop iter pc pods txn = Some txn' \<Longrightarrow> fst ` set txn' = fst ` set txn \<union> set pods"
proof (induction iter pc pods txn rule: process_loop.induct)
  case (2 iter pc pod pods txn)
  then show ?case by (auto simp: Configure_def dom_update split: option.splits if_splits)
qed simp

lemma Process_pods:
  assumes "Process env pc resync pods = Some (calls, err)"
  shows "rc_pod ` set calls = {i \<in> set pods. renderable pc i}"
proof -
  obtain txn where t: "process_loop (env_iter env) pc pods [] = Some txn" "commit_loop (LookupPod pc) txn [] = Some calls"
    using assms by (auto simp: Process_def Commit_def Let_def split: option.splits)
  show ?thesis using commit_loop_pods [OF t(2)] process_loop_pods [OF t(1)] by simp
qed

text \<open>The pods of this node, by their address in the cache.\<close>

definition local_pod :: "processor_env \<Rightarrow> policy_cache \<Rightarrow> pod_id \<Rightarrow> bool" where
  "local_pod env pc i \<longleftrightarrow> (\<exists>d. LookupPod pc i = (True, Some d) \<and> in_network (env_podNetwork env) (IpAddress d))"

lemma contains_nil: "net_ok n \<Longrightarrow> \<not> contains n []"
  by (auto simp: net_ok_def contains_def networkNumberAndMask_def To4_def Let_def split: option.splits if_splits)

lemma local_renderable: "net_ok (env_podNetwork env) \<Longrightarrow> local_pod env pc i \<Longrightarrow> renderable pc i"
  by (auto simp: local_pod_def renderable_def in_network_def contains_nil split: option.splits)

lemma host_pods_local: "host_pods (env_podNetwork env) pc pods = Some hs \<Longrightarrow> set hs = {i \<in> set pods. local_pod env pc i}"
proof (induction pods arbitrary: hs)
  case (Cons i pods)
  obtain d where d: "LookupPod pc i = (True, Some d)" using Cons.prems by (auto simp: LookupPod_def split: option.splits)
  show ?case
  proof (cases "in_network (env_podNetwork env) (IpAddress d)")
    case True
    then obtain hs' where "host_pods (env_podNetwork env) pc pods = Some hs'" "hs = i # hs'" using Cons.prems d by auto
    then show ?thesis using Cons.IH True d by (auto simp: local_pod_def)
  next
    case False
    then have "host_pods (env_podNetwork env) pc pods = Some hs" using Cons.prems d by auto
    then show ?thesis using Cons.IH False d by (auto simp: local_pod_def)
  qed
qed simp

lemma Process_local:
  assumes "net_ok (env_podNetwork env)" "host_pods (env_podNetwork env) pc pods = Some hs" "Process env pc False hs = Some (calls, err)"
  shows "rc_pod ` set calls = {i \<in> set pods. local_pod env pc i}"
  using Process_pods [OF assms(3)] host_pods_local [OF assms(2)] local_renderable [OF assms(1)] by auto

lemma UnstringID_tidy: "UnstringID s = Some i \<Longrightarrow> tidy (Name i) \<and> tidy (Namespace i)"
  using split_on_parts [of "split_on CHR ''/'' s ! 0" "CHR ''/''" s] split_on_parts [of "split_on CHR ''/'' s ! 1" "CHR ''/''" s]
  by (auto simp: UnstringID_def Let_def tidy_def split: if_splits)

lemma UnstringPodID_tidy: "UnstringPodID ss = Some ids \<Longrightarrow> i \<in> set ids \<Longrightarrow> tidy (Name i) \<and> tidy (Namespace i)"
  unfolding UnstringPodID_def those_eq_Some by (induction ss ids rule: list_all2_induct) (auto dest: UnstringID_tidy)

lemma selected_tidy:
  assumes "LookupPodsByNSLabelSelector iter pc ns sel = Some ids" "i \<in> set ids"
  shows "tidy (Name i) \<and> tidy (Namespace i)"
proof -
  have "\<exists>ss. UnstringPodID ss = Some ids"
    using assms by (auto simp: LookupPodsByNSLabelSelector_def Let_def split: option.splits if_splits)
  then show ?thesis using UnstringPodID_tidy assms(2) by blast
qed

lemma those_id: "(\<And>x. x \<in> set xs \<Longrightarrow> g (f x) = Some x) \<Longrightarrow> set ys = f ` set xs \<Longrightarrow> those (map g ys) = Some zs \<Longrightarrow> set zs = set xs"
proof -
  assume g: "\<And>x. x \<in> set xs \<Longrightarrow> g (f x) = Some x" and ys: "set ys = f ` set xs" and z: "those (map g ys) = Some zs"
  have "set (map g ys) = Some ` set zs"
    using z unfolding those_eq_Some by (induction ys zs rule: list_all2_induct) auto
  moreover have "set (map g ys) = Some ` set xs" using g ys by force
  ultimately show ?thesis by (metis inj_image_eq_iff inj_Some)
qed

lemma dedup_pods_set:
  assumes "\<And>ks. set (iter ks) = set ks" "\<And>i. i \<in> set pods \<Longrightarrow> tidy (Name i) \<and> tidy (Namespace i)" "dedup_pods iter pods = Some ps"
  shows "set ps = set pods"
proof (rule those_id [of pods UnstringID ID_String])
  show "UnstringID (ID_String i) = Some i" if "i \<in> set pods" for i
    using assms(2) [OF that] by (intro UnstringID_String) (simp_all add: tidy_def)
  show "set (RemoveDuplicates iter (StringPodID pods)) = ID_String ` set pods"
    by (simp add: RemoveDuplicates_set [OF assms(1)] StringPodID_def ID_String_def)
  show "those (map UnstringID (RemoveDuplicates iter (StringPodID pods))) = Some ps"
    using assms(3) by (simp add: dedup_pods_def UnstringPodID_def)
qed

section \<open>The policies affected by a pod\<close>

definition peers_of :: "k8s_policy \<Rightarrow> policy_peer list" where
  "peers_of q = concat (map From (IngressRule q)) @ concat (map To (EgressRule q))"

definition mentions :: "pod \<Rightarrow> k8s_policy \<Rightarrow> bool" where
  "mentions p q \<longleftrightarrow> list_ex (peer_selects_pod p (Pol_Namespace q)) (peers_of q)"

definition pol_key :: "k8s_policy \<Rightarrow> string" where
  "pol_key q = ID_String (policy_GetID (Some q))"

text \<open>The list of identifiers is that of the collected policies.\<close>

lemma add_policy_step:
  "add_policy p q peer (added, ps) =
     (if peer_selects_pod p (Pol_Namespace q) peer \<and> pol_key q \<notin> set added then (pol_key q # added, ps @ [q]) else (added, ps))"
  by (simp add: add_policy_def pol_key_def Let_def)

lemma add_policy_fold:
  assumes "set added = pol_key ` set ps" "inj_on pol_key (insert q (set ps))"
    and "fold (add_policy p q) peers (added, ps) = (added', ps')"
  shows "set added' = pol_key ` set ps' \<and> set ps' = set ps \<union> {x. x = q \<and> list_ex (peer_selects_pod p (Pol_Namespace q)) peers}"
  using assms
proof (induction peers arbitrary: added ps)
  case (Cons peer peers)
  have fresh: "pol_key q \<in> set added \<longleftrightarrow> q \<in> set ps" using Cons.prems(1,2) by (auto simp: inj_on_def)
  show ?case
  proof (cases "peer_selects_pod p (Pol_Namespace q) peer")
    case False
    then show ?thesis using Cons by (simp add: add_policy_step)
  next
    case sel: True
    show ?thesis
    proof (cases "pol_key q \<in> set added")
      case True
      then have "fold (add_policy p q) peers (added, ps) = (added', ps')"
        using Cons.prems(3) by (simp add: add_policy_step)
      then show ?thesis using Cons.IH [OF Cons.prems(1,2)] fresh True sel by auto
    next
      case False
      then have "fold (add_policy p q) peers (pol_key q # added, ps @ [q]) = (added', ps')"
        using Cons.prems(3) sel by (simp add: add_policy_step)
      from Cons.IH [OF _ _ this] Cons.prems(1,2) sel show ?thesis by auto
    qed
  qed
qed simp

lemma add_policy_folds:
  assumes "set added = pol_key ` set ps" "inj_on pol_key (insert q (set ps))"
    and "fold (add_policy p q) (concat (map To (EgressRule q))) (fold (add_policy p q) (concat (map From (IngressRule q))) (added, ps)) = (added', ps')"
  shows "set added' = pol_key ` set ps' \<and> set ps' = set ps \<union> {x. x = q \<and> mentions p q}"
proof -
  have "fold (add_policy p q) (peers_of q) (added, ps) = (added', ps')" using assms(3) by (simp add: peers_of_def)
  from add_policy_fold [OF assms(1,2) this] show ?thesis by (simp add: mentions_def)
qed

lemma scan_policies_set:
  assumes "set (fst acc) = pol_key ` set (snd acc)" "inj_on pol_key (set qs \<union> set (snd acc))"
  shows "\<exists>acc'. scan_policies p (map Some qs) acc = Some acc' \<and> set (fst acc') = pol_key ` set (snd acc') \<and>
    set (snd acc') = set (snd acc) \<union> {q \<in> set qs. mentions p q}"
  using assms
proof (induction qs arbitrary: acc)
  case (Cons q qs)
  obtain added' ps' where f: "fold (add_policy p q) (concat (map To (EgressRule q))) (fold (add_policy p q) (concat (map From (IngressRule q))) acc) = (added', ps')"
    by (meson surj_pair)
  have "set added' = pol_key ` set ps' \<and> set ps' = set (snd acc) \<union> {x. x = q \<and> mentions p q}"
    using add_policy_folds [of "fst acc" "snd acc" q p added' ps'] Cons.prems f by (auto simp: inj_on_def)
  then have s: "set added' = pol_key ` set ps'" "set ps' = set (snd acc) \<union> {x. x = q \<and> mentions p q}" by auto
  have "inj_on pol_key (set qs \<union> set ps')"
    by (rule inj_on_subset [OF Cons.prems(2)]) (auto simp: s(2))
  then obtain acc' where "scan_policies p (map Some qs) (added', ps') = Some acc'" "set (fst acc') = pol_key ` set (snd acc')"
      "set (snd acc') = set ps' \<union> {q \<in> set qs. mentions p q}"
    using Cons.IH [of "(added', ps')"] s(1) by auto
  then show ?case using f s(2) by auto
qed simp

text \<open>All policies of the cache.\<close>

definition stored_policies :: "policy_cache \<Rightarrow> k8s_policy set" where
  "stored_policies pc = ran (map_GetValue (configuredPolicies pc))"

lemma LookupPolicy_stored: "map_GetValue (configuredPolicies pc) (ID_String i) = Some q \<Longrightarrow> LookupPolicy pc i = (True, Some q)"
  by (simp add: LookupPolicy_def idx_LookupPolicy_def)

lemma all_policies_stored:
  assumes "cache_inv pc" "policies_tidy pc"
  shows "\<exists>qs. all_policies pc = Some (map Some qs) \<and> set qs = stored_policies pc \<and> inj_on pol_key (set qs)"
proof -
  let ?ns = "map_ListAllNames (configuredPolicies pc)" and ?get = "\<lambda>n. the (map_GetValue (configuredPolicies pc) n)"
  have wf: "mapping_wf policy_IndexFunction (configuredPolicies pc)" using assms(1) by (simp add: cache_inv_def)
  have stored: "map_GetValue (configuredPolicies pc) n = Some (?get n)" if "n \<in> set ?ns" for n
    using policy_index.all_names_dom [OF wf] that by auto
  have "those (map UnstringID ?ns) = Some (map (\<lambda>n. policy_GetID (Some (?get n))) ?ns)"
    by (rule those_map) (use stored_policy(2) [OF assms] stored in blast)
  moreover have "map (LookupPolicy pc) (map (\<lambda>n. policy_GetID (Some (?get n))) ?ns) = map (\<lambda>n. (True, Some (?get n))) ?ns"
  proof -
    have "LookupPolicy pc (policy_GetID (Some (?get n))) = (True, Some (?get n))" if "n \<in> set ?ns" for n
    proof -
      obtain q where q: "map_GetValue (configuredPolicies pc) n = Some q" using stored [OF \<open>n \<in> set ?ns\<close>] by blast
      have "map_GetValue (configuredPolicies pc) (ID_String (policy_GetID (Some q))) = Some q"
        using q stored_policy(1) [OF assms q] by simp
      then show ?thesis using LookupPolicy_stored q by simp
    qed
    then show ?thesis by simp
  qed
  ultimately have "all_policies pc = Some (map Some (map ?get ?ns))"
    by (simp add: all_policies_def ListAllPolicies_def UnstringPolicyID_def comp_def)
  moreover have "set (map ?get ?ns) = stored_policies pc"
    using policy_index.all_names_dom [OF wf] by (force simp: stored_policies_def ran_def)
  moreover have "inj_on pol_key (stored_policies pc)"
  proof (rule inj_onI)
    fix q q' assume "q \<in> stored_policies pc" "q' \<in> stored_policies pc" "pol_key q = pol_key q'"
    then obtain n n' where "map_GetValue (configuredPolicies pc) n = Some q" "map_GetValue (configuredPolicies pc) n' = Some q'"
      by (auto simp: stored_policies_def ran_def)
    then show "q = q'" using stored_policy(1) [OF assms] \<open>pol_key q = pol_key q'\<close> unfolding pol_key_def by (metis option.inject)
  qed
  ultimately show ?thesis by (metis (no_types))
qed

lemma policies_pods_set:
  "policies_pods iter pc qs pods = Some pods' \<Longrightarrow>
   set pods' = set pods \<union> {i. \<exists>q\<in>set qs. \<exists>ps. LookupPodsByNSLabelSelector iter pc (Pol_Namespace q) (Pol_Pods q) = Some ps \<and> i \<in> set ps}"
  by (induction qs arbitrary: pods) (auto split: option.splits)

section \<open>Properties\<close>

text \<open>The pods that a policy selects.\<close>

definition selected :: "(string list \<Rightarrow> string list) \<Rightarrow> policy_cache \<Rightarrow> k8s_policy \<Rightarrow> pod_id set" where
  "selected iter pc q = {i. \<exists>ps. LookupPodsByNSLabelSelector iter pc (Pol_Namespace q) (Pol_Pods q) = Some ps \<and> i \<in> set ps}"

lemma selected_tidy': "i \<in> selected iter pc q \<Longrightarrow> tidy (Name i) \<and> tidy (Namespace i)"
  unfolding selected_def using selected_tidy by blast


text \<open>
  C5: Adding or deleting a policy renders the configuration of exactly those pods of this node that the policy
  selects, and changing a policy that of the pods of this node selected by the old or the new policy.
\<close>

theorem policy_events_render:
  assumes "net_ok (env_podNetwork env)" "\<And>ks. set (env_iter env ks) = set ks"
  shows "(AddPolicy env pc (Some q) = Some (calls, err) \<longrightarrow> rc_pod ` set calls = {i \<in> selected (env_iter env) pc q. local_pod env pc i}) \<and>
    (DelPolicy env pc (Some q) = Some (calls, err) \<longrightarrow> rc_pod ` set calls = {i \<in> selected (env_iter env) pc q. local_pod env pc i}) \<and>
    (UpdatePolicy env pc (Some old) (Some q) = Some (calls, err) \<longrightarrow>
       rc_pod ` set calls = {i \<in> selected (env_iter env) pc old \<union> selected (env_iter env) pc q. local_pod env pc i})"
proof (intro conjI impI)
  assume "AddPolicy env pc (Some q) = Some (calls, err)"
  then obtain pods hs where p: "LookupPodsByNSLabelSelector (env_iter env) pc (Pol_Namespace q) (Pol_Pods q) = Some pods"
      "host_pods (env_podNetwork env) pc pods = Some hs" "hs \<noteq> [] \<and> Process env pc False hs = Some (calls, err) \<or> hs = [] \<and> calls = []"
    by (auto simp: AddPolicy_def no_action_def split: option.splits if_splits)
  show "rc_pod ` set calls = {i \<in> selected (env_iter env) pc q. local_pod env pc i}"
    using Process_local [OF assms(1) p(2)] host_pods_local [OF p(2)] p(1,3) by (auto simp: selected_def)
next
  assume "DelPolicy env pc (Some q) = Some (calls, err)"
  then obtain pods hs where p: "LookupPodsByNSLabelSelector (env_iter env) pc (Pol_Namespace q) (Pol_Pods q) = Some pods"
      "host_pods (env_podNetwork env) pc pods = Some hs" "pods \<noteq> [] \<and> Process env pc False hs = Some (calls, err) \<or> pods = [] \<and> calls = []"
    by (auto simp: DelPolicy_def no_action_def split: option.splits if_splits)
  show "rc_pod ` set calls = {i \<in> selected (env_iter env) pc q. local_pod env pc i}"
    using Process_local [OF assms(1) p(2)] p(1,3) by (auto simp: selected_def)
next
  assume "UpdatePolicy env pc (Some old) (Some q) = Some (calls, err)"
  then obtain ops nps pods hs where p: "LookupPodsByNSLabelSelector (env_iter env) pc (Pol_Namespace old) (Pol_Pods old) = Some ops"
      "LookupPodsByNSLabelSelector (env_iter env) pc (Pol_Namespace q) (Pol_Pods q) = Some nps"
      "dedup_pods (env_iter env) (ops @ nps) = Some pods" "host_pods (env_podNetwork env) pc pods = Some hs"
      "pods \<noteq> [] \<and> Process env pc False hs = Some (calls, err) \<or> pods = [] \<and> calls = []"
    by (auto simp: UpdatePolicy_def no_action_def split: option.splits if_splits)
  have "set pods = set ops \<union> set nps"
    unfolding set_append [symmetric] using selected_tidy [OF p(1)] selected_tidy [OF p(2)] by (intro dedup_pods_set [OF assms(2) _ p(3)]) auto
  moreover have "rc_pod ` set calls = {i \<in> set pods. local_pod env pc i}"
    using Process_local [OF assms(1) p(4)] p(5) by auto
  moreover have "selected (env_iter env) pc old = set ops" "selected (env_iter env) pc q = set nps" by (simp_all add: selected_def p(1,2))
  ultimately show "rc_pod ` set calls = {i \<in> selected (env_iter env) pc old \<union> selected (env_iter env) pc q. local_pod env pc i}" by simp
qed


text \<open>An example: the three pods and the policy of the cache example, all pods on this node.\<close>

definition ex_env :: processor_env where
  "ex_env = \<lparr>env_iter = (\<lambda>ks. ks), env_renderers = [], env_parallel = False, env_arrival = (\<lambda>es. es), env_podNetwork = ex_net 10 1 255\<rparr>"

definition ex_contiv :: contiv_policy where
  "ex_contiv = \<lparr>Policy_ID = \<lparr>Name = ''allow'', Namespace = ''default''\<rparr>, Policy_Type = PolicyIngress, Matches = []\<rparr>"

lemma ex_pod_policies: "pod_policies iter ex_cache [\<lparr>Name = ''allow'', Namespace = ''default''\<rparr>] = Some [ex_contiv]"
  by (simp add: LookupPolicy_def idx_LookupPolicy_def ID_String_def ex_objects ex_k8s_policy_def calculateMatches_def ex_contiv_def contiv_type_def)

lemma ex_contiv_ok: "policies_ok lookup d [ex_contiv]" "ids_unambiguous lookup d [ex_contiv]"
  by (simp_all add: policies_ok_def ex_contiv_def ids_unambiguous_def unambiguous_def)

lemma ex_LookupPod:
  "LookupPod ex_cache \<lparr>Name = ''a'', Namespace = ''default''\<rparr> = (True, Some (ex_k8s_pod ''a'' [''k'', ''m'']))"
  "LookupPod ex_cache \<lparr>Name = ''b'', Namespace = ''default''\<rparr> = (True, Some (ex_k8s_pod ''b'' [''k'', ''m'', ''n'']))"
  by (simp_all add: LookupPod_def idx_LookupPod_def ID_String_def ex_objects)

lemma ex_contiv_rules:
  "generateRules lookup MatchIngress [ex_contiv] = Some [deny_rule ''TCP:NONE'' TCP, deny_rule ''UDP:NONE'' UDP]"
  "generateRules lookup MatchEgress [ex_contiv] = Some []"
  by (simp_all add: generateRules_def ex_contiv_def applies_def appendRules_def appendRule_def deny_rule_def)

lemma ex_process_loop:
  "process_loop (\<lambda>ks. ks) ex_cache [\<lparr>Name = ''a'', Namespace = ''default''\<rparr>] [] = Some [(\<lparr>Name = ''a'', Namespace = ''default''\<rparr>, [ex_contiv])]"
  "process_loop (\<lambda>ks. ks) ex_cache [\<lparr>Name = ''b'', Namespace = ''default''\<rparr>, \<lparr>Name = ''a'', Namespace = ''default''\<rparr>] [] =
   Some [(\<lparr>Name = ''b'', Namespace = ''default''\<rparr>, [ex_contiv]), (\<lparr>Name = ''a'', Namespace = ''default''\<rparr>, [ex_contiv])]"
  by (simp_all add: ex_policies ex_pod_policies Configure_def del: pod_policies.simps)

lemma ex_commit_loop:
  "\<exists>calls. commit_loop (LookupPod ex_cache) [(\<lparr>Name = ''a'', Namespace = ''default''\<rparr>, [ex_contiv])] [] = Some calls"
  "\<exists>calls. commit_loop (LookupPod ex_cache) [(\<lparr>Name = ''b'', Namespace = ''default''\<rparr>, [ex_contiv]), (\<lparr>Name = ''a'', Namespace = ''default''\<rparr>, [ex_contiv])] [] = Some calls"
proof -
  have ip: "GetOneHostSubnet ''10.1.1.2'' = Some \<lparr>IP = [0,0,0,0,0,0,0,0,0,0,255,255,10,1,1,2], Mask = [255,255,255,255]\<rparr>"
    by (simp add: GetOneHostSubnet_def IPv4_def go_eval)
  note ev = ex_LookupPod ex_k8s_pod_def ip sort_policies_def find_processed_def policies_Equals_def ex_contiv_rules
  show "\<exists>calls. commit_loop (LookupPod ex_cache) [(\<lparr>Name = ''a'', Namespace = ''default''\<rparr>, [ex_contiv])] [] = Some calls"
    by (simp add: ev)
  show "\<exists>calls. commit_loop (LookupPod ex_cache) [(\<lparr>Name = ''b'', Namespace = ''default''\<rparr>, [ex_contiv]), (\<lparr>Name = ''a'', Namespace = ''default''\<rparr>, [ex_contiv])] [] = Some calls"
    by (simp add: ev)
qed

lemma ex_Process:
  "\<exists>calls. Process ex_env ex_cache False [\<lparr>Name = ''a'', Namespace = ''default''\<rparr>] = Some (calls, None)"
  "\<exists>calls. Process ex_env ex_cache False [\<lparr>Name = ''b'', Namespace = ''default''\<rparr>, \<lparr>Name = ''a'', Namespace = ''default''\<rparr>] = Some (calls, None)"
  using ex_commit_loop by (auto simp: Process_def ex_env_def ex_process_loop Commit_def last_error_def simp del: process_loop.simps commit_loop.simps)

lemma ex_env_ok: "net_ok (env_podNetwork ex_env)" "set (env_iter ex_env ks) = set ks"
  by (simp_all add: ex_env_def net_ok_def prefix_len_def ex_net_def go_eval)

lemma ex_host_pods:
  "host_pods (env_podNetwork ex_env) ex_cache [\<lparr>Name = ''a'', Namespace = ''default''\<rparr>] = Some [\<lparr>Name = ''a'', Namespace = ''default''\<rparr>]"
  "host_pods (env_podNetwork ex_env) ex_cache [\<lparr>Name = ''b'', Namespace = ''default''\<rparr>, \<lparr>Name = ''a'', Namespace = ''default''\<rparr>] =
   Some [\<lparr>Name = ''b'', Namespace = ''default''\<rparr>, \<lparr>Name = ''a'', Namespace = ''default''\<rparr>]"
  by (simp_all add: ex_LookupPod ex_k8s_pod_def in_network_def ex_env_def ex_net_def contains_def networkNumberAndMask_def go_eval)

theorem policy_events_render_witness:
  "\<exists>calls err. AddPolicy ex_env ex_cache (Some (ex_k8s_policy [lab ''k'', lab ''m''])) = Some (calls, err) \<and>
     rc_pod ` set calls = {i \<in> selected (env_iter ex_env) ex_cache (ex_k8s_policy [lab ''k'', lab ''m'']). local_pod ex_env ex_cache i}"
proof -
  obtain calls where p: "Process ex_env ex_cache False [\<lparr>Name = ''b'', Namespace = ''default''\<rparr>, \<lparr>Name = ''a'', Namespace = ''default''\<rparr>] = Some (calls, None)"
    using ex_Process(2) by blast
  have iter: "env_iter ex_env = (\<lambda>ks. ks)" by (simp add: ex_env_def)
  have q: "Pol_Namespace (ex_k8s_policy ls) = ''default''" "Pol_Pods (ex_k8s_policy ls) = Some \<lparr>MatchLabel = ls, MatchExpression = []\<rparr>" for ls
    by (simp_all add: ex_k8s_policy_def)
  have "AddPolicy ex_env ex_cache (Some (ex_k8s_policy [lab ''k'', lab ''m''])) = Some (calls, None)"
    using p by (simp add: AddPolicy_def iter q ex_selected ex_host_pods del: host_pods.simps)
  then show ?thesis using policy_events_render [OF ex_env_ok] by blast
qed



end
