(* ===== verification/PolicyPlugin.thy ===== *)
theory PolicyPlugin
  imports Processor
begin

text \<open>
  The policy plugin, \<^verbatim>\<open>src/plugins/policy/plugin_impl_policy.go\<close>: two goroutines receive the events of the data
  store and the start of a resync, and hand the events to the policy cache under a lock. Between the arrival of a
  resync event and the start of the resync all events are delayed. The lock makes each case of the two
  select statements one step.
\<close>

section \<open>State and handlers\<close>

record 'w plugin =
  pendingResync :: "(string \<times> key_val list) list option"
  pendingChanges :: "change_event list"
  policyCache :: "policy_cache \<times> 'w"

definition plugin_Init :: "'w \<Rightarrow> 'w plugin" where
  "plugin_Init w = \<lparr>pendingResync = None, pendingChanges = [], policyCache = (cache_Init, w)\<rparr>"

text \<open>The cases of \<^verbatim>\<open>watchEvents\<close>. The error of an update goes back to the sender of the event.\<close>

definition receive_resync :: "(string \<times> key_val list) list \<Rightarrow> 'w plugin \<Rightarrow> 'w plugin" where
  "receive_resync ev p = p\<lparr>pendingResync := Some ev, pendingChanges := []\<rparr>"

definition receive_change :: "'w watcher list \<Rightarrow> change_event \<Rightarrow> 'w plugin \<Rightarrow> ('w plugin \<times> string option) option" where
  "receive_change ws ev p =
     (if pendingResync p \<noteq> None then Some (p\<lparr>pendingChanges := pendingChanges p @ [ev]\<rparr>, None)
      else map_option (\<lambda>(s, err). (p\<lparr>policyCache := s\<rparr>, err)) (cache_Update ws ev (policyCache p)))"

text \<open>The delayed changes are applied until one of them fails.\<close>

fun apply_changes :: "'w watcher list \<Rightarrow> change_event list \<Rightarrow> policy_cache \<times> 'w \<Rightarrow> ((policy_cache \<times> 'w) \<times> string option) option" where
  "apply_changes ws [] s = Some (s, None)"
| "apply_changes ws (ev # evs) s =
     (case cache_Update ws ev s of
        None \<Rightarrow> None
      | Some (s', Some err) \<Rightarrow> Some (s', Some err)
      | Some (s', None) \<Rightarrow> apply_changes ws evs s')"

text \<open>The case of \<^verbatim>\<open>handleResync\<close> for a started resync; its error is logged.\<close>

definition resync_started :: "'w watcher list \<Rightarrow> 'w plugin \<Rightarrow> ('w plugin \<times> string option) option" where
  "resync_started ws p =
     (case pendingResync p of
        None \<Rightarrow> Some (p, None)
      | Some ev \<Rightarrow>
          (case cache_Resync ws ev (policyCache p) of
             None \<Rightarrow> None
           | Some (s, Some err) \<Rightarrow> Some (p\<lparr>policyCache := s, pendingResync := None, pendingChanges := []\<rparr>, Some err)
           | Some (s, None) \<Rightarrow>
               map_option (\<lambda>(s', err). (p\<lparr>policyCache := s', pendingResync := None, pendingChanges := []\<rparr>, err))
                 (apply_changes ws (pendingChanges p) s)))"

section \<open>Steps\<close>

datatype plugin_event = Rx_Resync "(string \<times> key_val list) list" | Rx_Change change_event | Started

inductive plugin_step :: "'w watcher list \<Rightarrow> 'w plugin \<Rightarrow> plugin_event \<Rightarrow> 'w plugin \<Rightarrow> bool" for ws where
  rx_resync: "plugin_step ws p (Rx_Resync ev) (receive_resync ev p)"
| rx_change: "receive_change ws ev p = Some (p', err) \<Longrightarrow> plugin_step ws p (Rx_Change ev) p'"
| started: "resync_started ws p = Some (p', err) \<Longrightarrow> plugin_step ws p Started p'"

inductive plugin_trace :: "'w watcher list \<Rightarrow> 'w plugin \<Rightarrow> plugin_event list \<Rightarrow> 'w plugin \<Rightarrow> bool" for ws p where
  trace_nil: "plugin_trace ws p [] p"
| trace_snoc: "plugin_trace ws p es p' \<Longrightarrow> plugin_step ws p' e p'' \<Longrightarrow> plugin_trace ws p (es @ [e]) p''"

inductive_simps plugin_step_simps: "plugin_step ws p (Rx_Resync ev) p'" "plugin_step ws p (Rx_Change ev) p'" "plugin_step ws p Started p'"

text \<open>The events received from the data store, and those the plugin still holds back.\<close>

fun received :: "plugin_event \<Rightarrow> cache_event list" where
  "received (Rx_Resync ev) = [Resync ev]"
| "received (Rx_Change ev) = [Change ev]"
| "received Started = []"

definition held_back :: "'w plugin \<Rightarrow> cache_event list" where
  "held_back p = (case pendingResync p of None \<Rightarrow> [] | Some ev \<Rightarrow> Resync ev # map Change (pendingChanges p))"

text \<open>No resync event arrives while another one waits for its start.\<close>

fun spaced :: "bool \<Rightarrow> plugin_event list \<Rightarrow> bool" where
  "spaced waiting [] = True"
| "spaced waiting (Rx_Resync ev # es) = (\<not> waiting \<and> spaced True es)"
| "spaced waiting (Rx_Change ev # es) = spaced waiting es"
| "spaced waiting (Started # es) = spaced False es"

fun waiting_after :: "bool \<Rightarrow> plugin_event list \<Rightarrow> bool" where
  "waiting_after waiting [] = waiting"
| "waiting_after waiting (Rx_Resync ev # es) = waiting_after True es"
| "waiting_after waiting (Rx_Change ev # es) = waiting_after waiting es"
| "waiting_after waiting (Started # es) = waiting_after False es"

lemma spaced_append: "spaced b (es @ es') \<longleftrightarrow> spaced b es \<and> spaced (waiting_after b es) es'"
  by (induction b es rule: spaced.induct) auto

lemma waiting_after_append: "waiting_after b (es @ es') = waiting_after (waiting_after b es) es'"
  by (induction b es rule: waiting_after.induct) auto

section \<open>Order of the events\<close>

text \<open>Watchers that never return an error.\<close>

definition reliable :: "'w watcher list \<Rightarrow> bool" where
  "reliable ws \<longleftrightarrow> (\<forall>watcher\<in>set ws. \<forall>pc n w w' err. watcher pc n w = Some (w', err) \<longrightarrow> err = None)"

lemma notify_reliable: "reliable ws \<Longrightarrow> notify ws n s = Some (s', err) \<Longrightarrow> err = None"
proof (induction ws n s arbitrary: s' rule: notify.induct)
  case (2 watcher ws n pc w)
  then show ?case by (force simp: reliable_def split: option.splits)
qed simp

lemma handle_events_append: "handle_events ws (xs @ ys) s = (case handle_events ws xs s of None \<Rightarrow> None | Some s' \<Rightarrow> handle_events ws ys s')"
  by (induction ws xs s rule: handle_events.induct) (auto split: option.splits)

text \<open>The event carries values of the type that its key announces.\<close>

definition decodable :: "change_event \<Rightarrow> bool" where
  "decodable ev \<longleftrightarrow>
     (case ParsePolicyFromKey (ev_Key ev) of
        Inr _ \<Rightarrow> \<not> isl (ev_policy ev) \<and> \<not> isl (ev_prev_policy ev)
      | Inl _ \<Rightarrow>
          (case ParsePodFromKey (ev_Key ev) of
             Inr _ \<Rightarrow> \<not> isl (ev_pod ev) \<and> \<not> isl (ev_prev_pod ev)
           | Inl _ \<Rightarrow> \<not> isl (ev_namespace ev) \<and> \<not> isl (ev_prev_namespace ev)))"

lemma propagate_reliable:
  assumes "reliable ws" "\<not> isl getValue" "\<not> isl getPrevValue"
    and "propagate ident unregister register added updated deleted ws change getValue getPrevValue s = Some (s', err)"
  shows "err = None"
proof -
  obtain v diff prev where g: "getValue = Inr v" "getPrevValue = Inr (diff, prev)"
    using assms(2,3) by (metis isl_def old.prod.exhaust sum.exhaust)
  obtain pc w where s: "s = (pc, w)" by (cases s)
  show ?thesis
    using assms(4)
    by (auto simp: propagate_def g s Let_def split: if_splits option.splits dest: notify_reliable [OF assms(1)])
qed

lemma cache_Update_reliable:
  assumes "reliable ws" "decodable ev" "cache_Update ws ev s = Some (s', err)"
  shows "err = None"
  using assms(2,3)
  by (auto simp: cache_Update_def changePropagateEvent_def decodable_def policy_change_def pod_change_def namespace_change_def
      split: if_splits sum.splits dest: propagate_reliable [OF assms(1)])

lemma apply_changes_handles:
  assumes "reliable ws" "list_all decodable evs" "apply_changes ws evs s = Some (s', err)"
  shows "handle_events ws (map Change evs) s = Some s'"
  using assms(2,3)
proof (induction evs arbitrary: s)
  case (Cons ev evs)
  then obtain s1 e where u: "cache_Update ws ev s = Some (s1, e)" by (auto split: option.splits)
  then have "e = None" using cache_Update_reliable [OF assms(1) _ u] Cons.prems(1) by simp
  with u Cons show ?case by (simp add: handle_event_def)
qed simp

definition trace_decodable :: "plugin_event list \<Rightarrow> bool" where
  "trace_decodable es \<longleftrightarrow> list_all (\<lambda>e. case e of Rx_Change ev \<Rightarrow> decodable ev | _ \<Rightarrow> True) es"

text \<open>The invariant of a trace: what was received is what was handed to the cache and what is held back.\<close>

definition delivered_inv :: "'w watcher list \<Rightarrow> 'w plugin \<Rightarrow> plugin_event list \<Rightarrow> 'w plugin \<Rightarrow> bool" where
  "delivered_inv ws p es p' \<longleftrightarrow>
     (\<exists>ds. handle_events ws ds (policyCache p) = Some (policyCache p') \<and> held_back p @ concat (map received es) = ds @ held_back p') \<and>
     (pendingResync p' \<noteq> None \<longleftrightarrow> waiting_after (pendingResync p \<noteq> None) es) \<and> list_all decodable (pendingChanges p')"

lemma step_delivers:
  assumes ws: "reliable ws" and inv: "delivered_inv ws p es p'"
    and e: "trace_decodable [e]" "spaced (pendingResync p' \<noteq> None) [e]" and step: "plugin_step ws p' e p''"
  shows "delivered_inv ws p (es @ [e]) p''"
proof -
  obtain ds where ds: "handle_events ws ds (policyCache p) = Some (policyCache p')" "held_back p @ concat (map received es) = ds @ held_back p'"
    and w: "pendingResync p' \<noteq> None \<longleftrightarrow> waiting_after (pendingResync p \<noteq> None) es" and dec: "list_all decodable (pendingChanges p')"
    using inv unfolding delivered_inv_def by blast
  have deliver: "delivered_inv ws p (es @ [e]) p''"
    if h: "handle_events ws xs (policyCache p') = Some (policyCache p'')" "held_back p' @ received e = xs @ held_back p''"
      "pendingResync p'' \<noteq> None \<longleftrightarrow> waiting_after (pendingResync p' \<noteq> None) [e]" "list_all decodable (pendingChanges p'')" for xs
    unfolding delivered_inv_def
  proof (intro conjI exI [of _ "ds @ xs"])
    show "handle_events ws (ds @ xs) (policyCache p) = Some (policyCache p'')" using ds(1) h(1) by (simp add: handle_events_append)
    show "held_back p @ concat (map received (es @ [e])) = (ds @ xs) @ held_back p''"
      using arg_cong [OF ds(2), of "\<lambda>l. l @ received e"] h(2) by simp
  qed (use h w in \<open>simp_all add: waiting_after_append\<close>)
  show ?thesis
  proof (cases e)
    case (Rx_Resync ev)
    then have "pendingResync p' = None" "p'' = receive_resync ev p'" using e(2) step by (simp_all add: plugin_step_simps)
    then show ?thesis using Rx_Resync by (intro deliver [of "[]"]) (simp_all add: held_back_def receive_resync_def)
  next
    case (Rx_Change ev)
    then obtain err where r: "receive_change ws ev p' = Some (p'', err)" using step by (auto simp: plugin_step_simps)
    have d: "decodable ev" using e(1) Rx_Change by (simp add: trace_decodable_def)
    show ?thesis
    proof (cases "pendingResync p'")
      case None
      with r obtain s where "cache_Update ws ev (policyCache p') = Some (s, err)" "p'' = p'\<lparr>policyCache := s\<rparr>"
        by (auto simp: receive_change_def)
      then show ?thesis using None Rx_Change dec by (intro deliver [of "[Change ev]"]) (simp_all add: handle_event_def held_back_def)
    next
      case (Some rs)
      then show ?thesis using r Rx_Change dec d by (intro deliver [of "[]"]) (auto simp: receive_change_def held_back_def)
    qed
  next
    case Started
    then obtain err where r: "resync_started ws p' = Some (p'', err)" using step by (auto simp: plugin_step_simps)
    show ?thesis
    proof (cases "pendingResync p'")
      case None
      then show ?thesis using r Started dec by (intro deliver [of "[]"]) (simp_all add: resync_started_def held_back_def)
    next
      case (Some rs)
      then obtain s s' where s: "cache_Resync ws rs (policyCache p') = Some (s, None)" "apply_changes ws (pendingChanges p') s = Some (s', err)"
          "p'' = p'\<lparr>policyCache := s', pendingResync := None, pendingChanges := []\<rparr>"
        using r by (auto simp: resync_started_def cache_Resync_def split: option.splits)
      then show ?thesis
        using Some Started apply_changes_handles [OF ws dec s(2)]
        by (intro deliver [of "Resync rs # map Change (pendingChanges p')"]) (simp_all add: handle_event_def held_back_def)
    qed
  qed
qed

lemma trace_delivers:
  "plugin_trace ws p es p' \<Longrightarrow> reliable ws \<Longrightarrow> trace_decodable es \<Longrightarrow> spaced (pendingResync p \<noteq> None) es \<Longrightarrow>
   list_all decodable (pendingChanges p) \<Longrightarrow> delivered_inv ws p es p'"
proof (induction rule: plugin_trace.induct)
  case trace_nil
  then show ?case unfolding delivered_inv_def by (intro conjI exI [of _ "[]"]) simp_all
next
  case (trace_snoc es p' e p'')
  have "trace_decodable es" "trace_decodable [e]" using trace_snoc.prems(2) by (simp_all add: trace_decodable_def)
  moreover have "spaced (pendingResync p \<noteq> None) es" "spaced (waiting_after (pendingResync p \<noteq> None) es) [e]"
    using trace_snoc.prems(3) by (simp_all add: spaced_append)
  ultimately have inv: "delivered_inv ws p es p'" using trace_snoc by blast
  then have eq: "(pendingResync p' \<noteq> None) = waiting_after (pendingResync p \<noteq> None) es" unfolding delivered_inv_def by blast
  have "spaced (pendingResync p' \<noteq> None) [e]"
    using \<open>spaced (waiting_after (pendingResync p \<noteq> None) es) [e]\<close> unfolding eq .
  then show ?case using step_delivers [OF trace_snoc.prems(1) inv \<open>trace_decodable [e]\<close> _ trace_snoc.hyps(2)] by blast
qed

section \<open>Properties\<close>


definition ex_trace :: "plugin_event list" where
  "ex_trace =
     (let ev = put_event (pod_Key ''a'' ''default'') (ex_k8s_pod ''a'' []) (ex_k8s_policy []) in [Rx_Resync [], Rx_Change ev, Started])"

lemma ex_trace_runs: "\<exists>p. plugin_trace ([] :: unit watcher list) (plugin_Init ()) ex_trace p"
proof -
  let ?ev = "put_event (pod_Key ''a'' ''default'') (ex_k8s_pod ''a'' []) (ex_k8s_policy [])"
  let ?p1 = "receive_resync [] (plugin_Init ())"
  let ?p2 = "?p1\<lparr>pendingChanges := [?ev]\<rparr>"
  have 1: "plugin_trace ([] :: unit watcher list) (plugin_Init ()) [Rx_Resync []] ?p1"
    using trace_snoc [OF trace_nil rx_resync, of "[]" "plugin_Init ()" "[]"] by simp
  have "receive_change [] ?ev ?p1 = Some (?p2, None)" by (simp add: receive_change_def receive_resync_def)
  from trace_snoc [OF 1 rx_change [OF this]]
  have 2: "plugin_trace ([] :: unit watcher list) (plugin_Init ()) [Rx_Resync [], Rx_Change ?ev] ?p2" by simp
  have "\<exists>q. resync_started [] ?p2 = Some (q, None)"
    by (simp add: resync_started_def receive_resync_def plugin_Init_def cache_Resync_def ex_cache_eval)
  then obtain q where "resync_started [] ?p2 = Some (q, None)" by blast
  from trace_snoc [OF 2 started [OF this]] show ?thesis by (auto simp: ex_trace_def Let_def)
qed


text \<open>
  C39: When a delayed change fails, the changes delayed after it are never handed to the cache: the plugin is left
  with nothing held back, and its cache is that after the failed change.
\<close>

theorem delayed_changes_dropped:
  assumes "pendingResync p = Some rs" "pendingChanges p = evs @ ev # lost" "cache_Resync ws rs (policyCache p) = Some (s, None)"
    and "apply_changes ws evs s = Some (s1, None)" "cache_Update ws ev s1 = Some (s2, Some err)"
  shows "\<exists>p'. resync_started ws p = Some (p', Some err) \<and> held_back p' = [] \<and> policyCache p' = s2"
proof -
  have "apply_changes ws (evs @ ev # lost) s = Some (s2, Some err)"
    using assms(4,5) by (induction evs arbitrary: s) (auto split: option.splits)
  then show ?thesis using assms(1-3) by (simp add: resync_started_def held_back_def)
qed

definition bad_event :: change_event where
  "bad_event = (put_event (pod_Key ''a'' ''default'') (ex_k8s_pod ''a'' []) (ex_k8s_policy []))\<lparr>ev_pod := Inl ''bad''\<rparr>"

theorem delayed_changes_dropped_witness:
  "\<exists>p'. resync_started ([] :: unit watcher list)
       \<lparr>pendingResync = Some [], pendingChanges = [bad_event, put_event (pod_Key ''b'' ''default'') (ex_k8s_pod ''b'' []) (ex_k8s_policy [])],
        policyCache = (cache_Init, ())\<rparr> = Some (p', Some ''bad'') \<and> held_back p' = [] \<and> policyCache p' = (cache_Init, ())"
proof (rule delayed_changes_dropped [where evs = "[]" and ev = bad_event and lost = "[put_event (pod_Key ''b'' ''default'') (ex_k8s_pod ''b'' []) (ex_k8s_policy [])]"
      and rs = "[]" and s = "(cache_Init, ())" and ?s1.0 = "(cache_Init, ())"])
  show "cache_Update ([] :: unit watcher list) bad_event (cache_Init, ()) = Some ((cache_Init, ()), Some ''bad'')"
    by (simp add: bad_event_def cache_Update_def changePropagateEvent_def put_event_def pod_change_def propagate_def key_shape has_prefix_def
        ParsePolicyFromKey_def ParsePodFromKey_def trim_prefix_def NamespacePrefix_def)
qed (simp_all add: cache_Resync_def)

end
