(* ===== verification/AclCache.thy ===== *)
theory AclCache
  imports ContivRule GoSlice
begin

text \<open>
  The rule cache of the ACL renderer, \<^verbatim>\<open>src/plugins/policy/renderer/acl/cache/cache_impl.go\<close> and
  \<^verbatim>\<open>cache_api.go\<close>: the ordered lists of rule lists with their two indexes, the transaction with
  its \<^verbatim>\<open>head\<close>, \<^verbatim>\<open>updateInterface\<close>, \<^verbatim>\<open>getChanges\<close> and \<^verbatim>\<open>commit\<close>, and \<^verbatim>\<open>Resync\<close>.

  Rule lists are shared by pointer between the sorted array and the two indexes, copied from
  the cache into the transaction, and moved from the transaction into the cache; what an
  assignment of an interface changes therefore depends on the aliasing. The model has an
  explicit heap: a list of \<^verbatim>\<open>ContivRuleList\<close> objects, a pointer being an index of it. Objects
  of the two traffic directions are never mixed, so each direction has a heap of its own. The
  set of interfaces of an object is owned by it alone (\<^verbatim>\<open>Copy\<close> is a deep copy), and the slice of
  rules is never changed, so both are values inside of the object.

  A nil slice of rules differs from an empty one (\<^verbatim>\<open>compareRuleLists\<close> tells them apart), so the
  rules of a list are an option. The bytes read from \<^verbatim>\<open>crypto/rand\<close> are a parameter, a stream
  with a position. \<^const>\<open>None\<close> is a panic, or the loop of \<^verbatim>\<open>generateListID\<close> not ending.
\<close>

section \<open>Sets of interfaces\<close>

text \<open>An \<^verbatim>\<open>InterfaceSet\<close> is the list of its keys, without repetitions.\<close>

type_synonym interface_set = "string list"

definition ifs_Has :: "interface_set \<Rightarrow> string \<Rightarrow> bool" where
  "ifs_Has s ifName \<longleftrightarrow> ifName \<in> set s"

definition ifs_Add :: "string \<Rightarrow> interface_set \<Rightarrow> interface_set" where
  "ifs_Add ifName s = (if ifName \<in> set s then s else s @ [ifName])"

definition ifs_Remove :: "string \<Rightarrow> interface_set \<Rightarrow> interface_set" where
  "ifs_Remove ifName s = removeAll ifName s"

definition ifs_Join :: "interface_set \<Rightarrow> interface_set \<Rightarrow> interface_set" where
  "ifs_Join s s2 = fold ifs_Add s2 s"

definition NewInterfaceSet :: "string list \<Rightarrow> interface_set" where
  "NewInterfaceSet ifNames = fold ifs_Add ifNames []"

definition ifs_Copy :: "interface_set \<Rightarrow> interface_set" where
  "ifs_Copy s = ifs_Join (NewInterfaceSet []) s"

definition ifs_Equals :: "interface_set \<Rightarrow> interface_set \<Rightarrow> bool" where
  "ifs_Equals s s2 \<longleftrightarrow> length s = length s2 \<and> list_all (ifs_Has s2) s"

section \<open>Rule lists\<close>

text \<open>\<^verbatim>\<open>Private\<close> belongs to the user of the cache, hence the type parameter.\<close>

record 'p rule_list =
  list_ID :: string
  Rules :: "contiv_rule list option"
  Interfaces :: interface_set
  Private :: "'p option"

type_synonym 'p heap = "'p rule_list list"

definition heap_modify :: "nat \<Rightarrow> ('p rule_list \<Rightarrow> 'p rule_list) \<Rightarrow> 'p heap \<Rightarrow> 'p heap" where
  "heap_modify a f h = h[a := f (h ! a)]"

fun compare_items :: "contiv_rule list \<Rightarrow> contiv_rule list \<Rightarrow> int" where
  "compare_items (a # as) (b # bs) =
     (let ruleOrder = Compare a b in if ruleOrder \<noteq> 0 then ruleOrder else compare_items as bs)"
| "compare_items _ _ = 0"

definition compareRuleLists :: "contiv_rule list option \<Rightarrow> contiv_rule list option \<Rightarrow> int" where
  "compareRuleLists a b =
     (case (a, b) of
        (None, None) \<Rightarrow> 0
      | (None, Some _) \<Rightarrow> -1
      | (Some _, None) \<Rightarrow> 1
      | (Some as, Some bs) \<Rightarrow>
          let lenOrder = CompareInts (int (length as)) (int (length bs)) in
          if lenOrder \<noteq> 0 then lenOrder else compare_items as bs)"

text \<open>\<^verbatim>\<open>ContivRuleLists\<close>; the array of pointers and \<^verbatim>\<open>numItems\<close> are kept as a pair.\<close>

record rule_lists =
  ruleLists :: "nat option list \<times> nat"
  byID :: "string \<rightharpoonup> nat"
  byInterface :: "string \<rightharpoonup> nat"

definition NewContivRuleLists :: rule_lists where
  "NewContivRuleLists = \<lparr>ruleLists = ([], 0), byID = Map.empty, byInterface = Map.empty\<rparr>"

definition lookupIdxByRules :: "'p heap \<Rightarrow> rule_lists \<Rightarrow> contiv_rule list option \<Rightarrow> nat option" where
  "lookupIdxByRules h crls rules =
     sort_Search (snd (ruleLists crls))
       (\<lambda>i. map_option (\<lambda>a. compareRuleLists rules (Rules (h ! a)) \<le> 0) (elem_at (fst (ruleLists crls)) i))"

definition lists_LookupByID :: "rule_lists \<Rightarrow> string \<Rightarrow> nat option" where
  "lists_LookupByID crls i = byID crls i"

definition lists_LookupByInterface :: "rule_lists \<Rightarrow> string \<Rightarrow> nat option" where
  "lists_LookupByInterface crls ifName = byInterface crls ifName"

text \<open>The outer option is the panic, the inner one the returned pointer.\<close>

definition LookupByRules :: "'p heap \<Rightarrow> rule_lists \<Rightarrow> contiv_rule list option \<Rightarrow> nat option option" where
  "LookupByRules h crls rules =
     do {
       listIdx \<leftarrow> lookupIdxByRules h crls rules;
       if listIdx < snd (ruleLists crls) then do {
         a \<leftarrow> elem_at (fst (ruleLists crls)) listIdx;
         Some (if compareRuleLists rules (Rules (h ! a)) = 0 then Some a else None)
       } else Some None
     }"

definition UnassignInterface :: "nat option \<Rightarrow> string \<Rightarrow> 'p heap \<times> rule_lists \<Rightarrow> 'p heap \<times> rule_lists" where
  "UnassignInterface ruleList ifName s =
     (case s of (h, crls) \<Rightarrow>
        let h1 = (case ruleList of None \<Rightarrow> h | Some a \<Rightarrow> heap_modify a (Interfaces_update (ifs_Remove ifName)) h) in
        case byInterface crls ifName of
          None \<Rightarrow> (h1, crls)
        | Some l \<Rightarrow>
            if ruleList = None \<or> ruleList = Some l then
              (heap_modify l (Interfaces_update (ifs_Remove ifName)) h1,
               crls\<lparr>byInterface := (byInterface crls)(ifName := None)\<rparr>)
            else (h1, crls))"

definition AssignInterface :: "nat \<Rightarrow> string \<Rightarrow> 'p heap \<times> rule_lists \<Rightarrow> 'p heap \<times> rule_lists" where
  "AssignInterface a ifName s =
     (case UnassignInterface None ifName s of (h, crls) \<Rightarrow>
        (heap_modify a (Interfaces_update (ifs_Add ifName)) h,
         crls\<lparr>byInterface := (byInterface crls)(ifName \<mapsto> a)\<rparr>))"

text \<open>The body of the loop at the end of \<^verbatim>\<open>Insert\<close>.\<close>

definition index_interface :: "nat \<Rightarrow> string \<Rightarrow> 'p heap \<times> rule_lists \<Rightarrow> 'p heap \<times> rule_lists" where
  "index_interface a iface s =
     (case UnassignInterface None iface s of (h, crls) \<Rightarrow>
        (h, crls\<lparr>byInterface := (byInterface crls)(iface \<mapsto> a)\<rparr>))"

definition lists_Insert :: "nat \<Rightarrow> 'p heap \<times> rule_lists \<Rightarrow> (('p heap \<times> rule_lists) \<times> bool) option" where
  "lists_Insert a s =
     (case s of (h, crls) \<Rightarrow> do {
        let rules = Rules (h ! a);
        listIdx \<leftarrow> lookupIdxByRules h crls rules;
        present \<leftarrow> (if listIdx < snd (ruleLists crls)
                    then map_option (\<lambda>b. compareRuleLists rules (Rules (h ! b)) = 0)
                           (elem_at (fst (ruleLists crls)) listIdx)
                    else Some False);
        if present then Some (s, False)
        else do {
          arr \<leftarrow> padded_insert listIdx a (ruleLists crls);
          let crls1 = crls\<lparr>ruleLists := arr, byID := (byID crls)(list_ID (h ! a) \<mapsto> a)\<rparr>;
          Some (fold (index_interface a) (Interfaces (h ! a)) (h, crls1), True)
        }
      })"

definition lists_RemoveByIdx :: "nat \<Rightarrow> 'p heap \<Rightarrow> rule_lists \<Rightarrow> (rule_lists \<times> bool) option" where
  "lists_RemoveByIdx idx h crls =
     (if idx < snd (ruleLists crls) then do {
        a \<leftarrow> elem_at (fst (ruleLists crls)) idx;
        arr \<leftarrow> padded_remove idx (ruleLists crls);
        Some (crls\<lparr>ruleLists := arr,
                byID := (byID crls)(list_ID (h ! a) := None),
                byInterface := (byInterface crls) |` (- set (Interfaces (h ! a)))\<rparr>, True)
      } else Some (crls, False))"

fun first_index :: "'a \<Rightarrow> 'a list \<Rightarrow> nat option" where
  "first_index x [] = None"
| "first_index x (y # ys) = (if x = y then Some 0 else map_option Suc (first_index x ys))"

definition lists_Remove :: "nat \<Rightarrow> 'p heap \<Rightarrow> rule_lists \<Rightarrow> (rule_lists \<times> bool) option" where
  "lists_Remove a h crls =
     (case first_index (Some a) (fst (ruleLists crls)) of
        Some listIdx \<Rightarrow> lists_RemoveByIdx listIdx h crls
      | None \<Rightarrow> Some (crls, False))"

partial_function (option) RemoveByPredicate_loop ::
  "('p rule_list \<Rightarrow> bool) \<Rightarrow> 'p heap \<Rightarrow> nat \<Rightarrow> nat \<Rightarrow> rule_lists \<Rightarrow> (rule_lists \<times> nat) option" where
  "RemoveByPredicate_loop predicate h listIdx count crls =
     (if listIdx < snd (ruleLists crls) then do {
        a \<leftarrow> elem_at (fst (ruleLists crls)) listIdx;
        if predicate (h ! a) then do {
          (crls1, _) \<leftarrow> lists_RemoveByIdx listIdx h crls;
          RemoveByPredicate_loop predicate h listIdx (count + 1) crls1
        } else RemoveByPredicate_loop predicate h (listIdx + 1) count crls
      } else Some (crls, count))"

definition RemoveByPredicate :: "('p rule_list \<Rightarrow> bool) \<Rightarrow> 'p heap \<Rightarrow> rule_lists \<Rightarrow> (rule_lists \<times> nat) option" where
  "RemoveByPredicate predicate h crls = RemoveByPredicate_loop predicate h 0 0 crls"

section \<open>The cache and its transactions\<close>

datatype traffic_direction = Ingress | Egress

primrec direction_String :: "traffic_direction \<Rightarrow> string" where
  "direction_String Ingress = ''ingress''"
| "direction_String Egress = ''egress''"

text \<open>
  What the cache holds of one direction: the heap of its lists, the lists of the cache, and the
  allocated suffixes of identifiers. A missing entry of \<^verbatim>\<open>allocatedListIDs\<close> is created on the first
  use, so it is the empty set here.
\<close>

record 'p cache_side =
  side_heap :: "'p heap"
  side_lists :: rule_lists
  allocatedListIDs :: "string list"

record 'p rule_cache =
  cache_side_of :: "traffic_direction \<Rightarrow> 'p cache_side"
  cache_interfaces :: interface_set
  rand_pos :: nat

definition empty_side :: "'p cache_side" where
  "empty_side = \<lparr>side_heap = [], side_lists = NewContivRuleLists, allocatedListIDs = []\<rparr>"

definition rule_cache_Init :: "nat \<Rightarrow> 'p rule_cache" where
  "rule_cache_Init pos = \<lparr>cache_side_of = (\<lambda>_. empty_side), cache_interfaces = NewInterfaceSet [], rand_pos = pos\<rparr>"

record rule_txn =
  txn_lists :: "traffic_direction \<Rightarrow> rule_lists"
  txn_interfaces :: interface_set

definition cache_NewTxn :: rule_txn where
  "cache_NewTxn = \<lparr>txn_lists = (\<lambda>_. NewContivRuleLists), txn_interfaces = NewInterfaceSet []\<rparr>"

definition upper_hex :: "nat \<Rightarrow> char" where
  "upper_hex d = (if d < 10 then char_of (48 + d) else char_of (55 + d))"

text \<open>\<^verbatim>\<open>fmt.Sprintf("%X", b)\<close> on a slice of bytes.\<close>

definition Sprintf_X :: "8 word list \<Rightarrow> string" where
  "Sprintf_X bs = concat (map (\<lambda>b. [upper_hex (unat b div 16), upper_hex (unat b mod 16)]) bs)"

partial_function (option) generate_suffix ::
  "(nat \<Rightarrow> 8 word list) \<Rightarrow> string list \<Rightarrow> nat \<Rightarrow> (string \<times> nat) option" where
  "generate_suffix rnd allocated pos =
     (let suffix = Sprintf_X (rnd pos) in
      if suffix \<in> set allocated then generate_suffix rnd allocated (pos + 1)
      else Some (suffix, pos + 1))"

definition generateListID ::
  "(nat \<Rightarrow> 8 word list) \<Rightarrow> traffic_direction \<Rightarrow> 'p cache_side \<Rightarrow> nat \<Rightarrow> (string \<times> 'p cache_side \<times> nat) option" where
  "generateListID rnd direction sd pos =
     map_option (\<lambda>(suffix, pos1).
         (direction_String direction @ ''-'' @ suffix,
          sd\<lparr>allocatedListIDs := suffix # allocatedListIDs sd\<rparr>, pos1))
       (generate_suffix rnd (allocatedListIDs sd) pos)"

text \<open>Allocation of an object and its insertion into the head of the transaction; the result of
  \<^verbatim>\<open>Insert\<close> is ignored there.\<close>

definition head_insert :: "'p rule_list \<Rightarrow> 'p cache_side \<times> rule_lists \<Rightarrow> ('p cache_side \<times> rule_lists) option" where
  "head_insert l s =
     (case s of (sd, head) \<Rightarrow>
        let a = length (side_heap sd) in
        map_option (\<lambda>((h, head1), _). (sd\<lparr>side_heap := h\<rparr>, head1))
          (lists_Insert a (side_heap sd @ [l], head)))"

definition copy_list :: "'p rule_list \<Rightarrow> 'p rule_list" where
  "copy_list l = \<lparr>list_ID = list_ID l, Rules = Rules l, Interfaces = ifs_Copy (Interfaces l), Private = Private l\<rparr>"

definition copy_orig :: "string \<Rightarrow> 'p cache_side \<times> rule_lists \<Rightarrow> ('p cache_side \<times> rule_lists) option" where
  "copy_orig ifName s =
     (case s of (sd, head) \<Rightarrow>
        case lists_LookupByInterface (side_lists sd) ifName of
          None \<Rightarrow> Some s
        | Some orig \<Rightarrow>
            if lists_LookupByID head (list_ID (side_heap sd ! orig)) = None
            then head_insert (copy_list (side_heap sd ! orig)) s
            else Some s)"

definition updateInterface ::
  "(nat \<Rightarrow> 8 word list) \<Rightarrow> string \<Rightarrow> contiv_rule list option \<Rightarrow> traffic_direction \<Rightarrow>
   'p cache_side \<times> rule_lists \<Rightarrow> nat \<Rightarrow> (('p cache_side \<times> rule_lists) \<times> nat) option" where
  "updateInterface rnd ifName rules direction s pos =
     do {
       (sd, head) \<leftarrow> copy_orig ifName s;
       inHead \<leftarrow> LookupByRules (side_heap sd) head rules;
       case inHead of
         Some a \<Rightarrow>
           (case AssignInterface a ifName (side_heap sd, head) of (h, head1) \<Rightarrow>
              Some ((sd\<lparr>side_heap := h\<rparr>, head1), pos))
       | None \<Rightarrow> do {
           inBase \<leftarrow> LookupByRules (side_heap sd) (side_lists sd) rules;
           case inBase of
             Some b \<Rightarrow>
               if ifs_Has (Interfaces (side_heap sd ! b)) ifName then Some ((sd, head), pos)
               else do {
                 let l = copy_list (side_heap sd ! b);
                 s1 \<leftarrow> head_insert (l\<lparr>Interfaces := ifs_Add ifName (Interfaces l)\<rparr>) (sd, head);
                 Some (s1, pos)
               }
           | None \<Rightarrow> do {
               (i, sd1, pos1) \<leftarrow> generateListID rnd direction sd pos;
               s1 \<leftarrow> head_insert \<lparr>list_ID = i, Rules = rules, Interfaces = NewInterfaceSet [ifName], Private = None\<rparr>
                       (sd1, head);
               Some (s1, pos1)
             }
         }
     }"

text \<open>The update of one direction inside of the cache and the transaction, and \<^verbatim>\<open>Update\<close>.\<close>

definition update_direction ::
  "(nat \<Rightarrow> 8 word list) \<Rightarrow> string \<Rightarrow> contiv_rule list option \<Rightarrow> traffic_direction \<Rightarrow>
   'p rule_cache \<times> rule_txn \<Rightarrow> ('p rule_cache \<times> rule_txn) option" where
  "update_direction rnd ifName rules d s =
     (case s of (crc, txn) \<Rightarrow> do {
        ((sd, head), pos) \<leftarrow> updateInterface rnd ifName rules d (cache_side_of crc d, txn_lists txn d) (rand_pos crc);
        Some (crc\<lparr>cache_side_of := (cache_side_of crc)(d := sd), rand_pos := pos\<rparr>,
              txn\<lparr>txn_lists := (txn_lists txn)(d := head)\<rparr>)
      })"

definition txn_Update ::
  "(nat \<Rightarrow> 8 word list) \<Rightarrow> string \<Rightarrow> contiv_rule list option \<Rightarrow> contiv_rule list option \<Rightarrow>
   'p rule_cache \<times> rule_txn \<Rightarrow> ('p rule_cache \<times> rule_txn) option" where
  "txn_Update rnd ifName ingress egress s =
     (case s of (crc, txn) \<Rightarrow> do {
        s1 \<leftarrow> update_direction rnd ifName ingress Ingress
                (crc, txn\<lparr>txn_interfaces := ifs_Add ifName (txn_interfaces txn)\<rparr>);
        update_direction rnd ifName egress Egress s1
      })"

text \<open>A \<^verbatim>\<open>TxnChange\<close>: the pointer to the list of the head and the previous interfaces.\<close>

type_synonym txn_change = "nat \<times> interface_set"

definition list_change :: "'p heap \<Rightarrow> rule_lists \<Rightarrow> nat \<Rightarrow> txn_change list" where
  "list_change h base a =
     (let l = h ! a; orig = lists_LookupByID base (list_ID l) in
      if Interfaces l = [] \<and> orig = None then []
      else case orig of
        Some b \<Rightarrow> if ifs_Equals (Interfaces l) (Interfaces (h ! b)) then [] else [(a, Interfaces (h ! b))]
      | None \<Rightarrow> [(a, NewInterfaceSet [])])"

fun getChanges :: "'p heap \<Rightarrow> rule_lists \<Rightarrow> nat option list \<Rightarrow> txn_change list option" where
  "getChanges h base [] = Some []"
| "getChanges h base (None # ps) = None"
| "getChanges h base (Some a # ps) = map_option (\<lambda>cs. list_change h base a @ cs) (getChanges h base ps)"

definition txn_changes :: "traffic_direction \<Rightarrow> 'p rule_cache \<times> rule_txn \<Rightarrow> txn_change list option" where
  "txn_changes d s =
     (case s of (crc, txn) \<Rightarrow>
        getChanges (side_heap (cache_side_of crc d)) (side_lists (cache_side_of crc d))
          (fst (ruleLists (txn_lists txn d))))"

definition txn_Changes :: "'p rule_cache \<times> rule_txn \<Rightarrow> (txn_change list \<times> txn_change list) option" where
  "txn_Changes s =
     do {
       ingress \<leftarrow> txn_changes Ingress s;
       egress \<leftarrow> txn_changes Egress s;
       Some (ingress, egress)
     }"

definition commit_interfaces :: "nat \<Rightarrow> nat \<Rightarrow> 'p heap \<times> rule_lists \<Rightarrow> 'p heap \<times> rule_lists" where
  "commit_interfaces a orig s =
     (let s1 = fold (\<lambda>iface s. if ifs_Has (Interfaces (fst s ! a)) iface then s
                               else UnassignInterface (Some orig) iface s)
                 (Interfaces (fst s ! orig)) s
      in fold (\<lambda>iface s. if ifs_Has (Interfaces (fst s ! orig)) iface then s
                         else AssignInterface orig iface s)
           (Interfaces (fst s1 ! a)) s1)"

definition commit_list :: "nat \<Rightarrow> 'p heap \<times> rule_lists \<Rightarrow> ('p heap \<times> rule_lists) option" where
  "commit_list a s =
     (case s of (h, base) \<Rightarrow>
        case lists_LookupByID base (list_ID (h ! a)) of
          Some orig \<Rightarrow>
            if Interfaces (h ! a) = [] then
              map_option (\<lambda>(base1, _). (h, base1)) (lists_Remove a h base)
            else if \<not> ifs_Equals (Interfaces (h ! a)) (Interfaces (h ! orig)) then
              (case commit_interfaces a orig s of (h1, base1) \<Rightarrow>
                 Some (heap_modify orig (Private_update (\<lambda>_. Private (h1 ! a))) h1, base1))
            else Some s
        | None \<Rightarrow>
            if Interfaces (h ! a) \<noteq> [] then map_option fst (lists_Insert a s) else Some s)"

fun commit :: "nat option list \<Rightarrow> 'p heap \<times> rule_lists \<Rightarrow> ('p heap \<times> rule_lists) option" where
  "commit [] s = Some s"
| "commit (None # ps) s = None"
| "commit (Some a # ps) s = commit_list a s \<bind> commit ps"

definition commit_direction :: "traffic_direction \<Rightarrow> rule_txn \<Rightarrow> 'p rule_cache \<Rightarrow> 'p rule_cache option" where
  "commit_direction d txn crc =
     (let sd = cache_side_of crc d in
      map_option (\<lambda>(h, base). crc\<lparr>cache_side_of := (cache_side_of crc)(d := sd\<lparr>side_heap := h, side_lists := base\<rparr>)\<rparr>)
        (commit (fst (ruleLists (txn_lists txn d))) (side_heap sd, side_lists sd)))"

definition txn_Commit :: "'p rule_cache \<times> rule_txn \<Rightarrow> 'p rule_cache option" where
  "txn_Commit s =
     (case s of (crc, txn) \<Rightarrow> do {
        crc1 \<leftarrow> commit_direction Ingress txn crc;
        crc2 \<leftarrow> commit_direction Egress txn crc1;
        Some (crc2\<lparr>cache_interfaces := ifs_Join (cache_interfaces crc2) (txn_interfaces txn)\<rparr>)
      })"

definition cache_LookupByInterface :: "'p rule_cache \<Rightarrow> string \<Rightarrow> 'p rule_list option \<times> 'p rule_list option" where
  "cache_LookupByInterface crc ifName =
     (let look = (\<lambda>d. map_option (\<lambda>a. side_heap (cache_side_of crc d) ! a)
                        (lists_LookupByInterface (side_lists (cache_side_of crc d)) ifName))
      in (look Ingress, look Egress))"

section \<open>Resync\<close>

datatype resync_error =
    InvalidIDPrefix string
  | DuplicateID string
  | DuplicateList string

definition id_prefix :: "traffic_direction \<Rightarrow> string" where
  "id_prefix d = direction_String d @ ''-''"

text \<open>One of the two loops of \<^verbatim>\<open>Resync\<close>, over the lists of one direction.\<close>

fun resync_lists ::
  "traffic_direction \<Rightarrow> 'p rule_list list \<Rightarrow> 'p cache_side \<Rightarrow> interface_set \<Rightarrow>
   (resync_error + 'p cache_side \<times> interface_set) option" where
  "resync_lists d [] sd ifs = Some (Inr (sd, ifs))"
| "resync_lists d (l # ls) sd ifs =
     (if length (Interfaces l) = 0 then resync_lists d ls sd ifs
      else if \<not> has_prefix (list_ID l) (id_prefix d) then Some (Inl (InvalidIDPrefix (list_ID l)))
      else
        let idSuffix = trim_prefix (list_ID l) (id_prefix d) in
        if idSuffix \<in> set (allocatedListIDs sd) then Some (Inl (DuplicateID (list_ID l)))
        else
          case lists_Insert (length (side_heap sd)) (side_heap sd @ [l], side_lists sd) of
            None \<Rightarrow> None
          | Some ((h, crls), ok) \<Rightarrow>
              if \<not> ok then Some (Inl (DuplicateList (list_ID l)))
              else resync_lists d ls
                     \<lparr>side_heap = h, side_lists = crls, allocatedListIDs = idSuffix # allocatedListIDs sd\<rparr>
                     (ifs_Join ifs (Interfaces l)))"

definition rule_cache_Resync ::
  "'p rule_list list \<Rightarrow> 'p rule_list list \<Rightarrow> 'p rule_cache \<Rightarrow> ('p rule_cache \<times> resync_error option) option" where
  "rule_cache_Resync ingress egress crc =
     (case resync_lists Ingress ingress empty_side (NewInterfaceSet []) of
        None \<Rightarrow> None
      | Some (Inl e) \<Rightarrow> Some (crc, Some e)
      | Some (Inr (sdi, ifs)) \<Rightarrow>
          (case resync_lists Egress egress empty_side ifs of
             None \<Rightarrow> None
           | Some (Inl e) \<Rightarrow> Some (crc, Some e)
           | Some (Inr (sde, ifs2)) \<Rightarrow>
               Some (crc\<lparr>cache_side_of := (\<lambda>d. case d of Ingress \<Rightarrow> sdi | Egress \<Rightarrow> sde),
                        cache_interfaces := ifs2\<rparr>, None)))"



end
