(* ===== verification/AclTxn.thy ===== *)
theory AclTxn
  imports AclLists
begin

text \<open>
  The transactions of the ACL rule cache. \<open>configured\<close> is what the lists say of every interface;
  the head of a transaction is shown to be a consistent picture of the configuration that the
  updates ask for, \<^verbatim>\<open>commit\<close> to install exactly that configuration, and \<^verbatim>\<open>getChanges\<close> to report
  exactly the lists whose interfaces differ.
\<close>

section \<open>The configuration of the interfaces\<close>

text \<open>The rules of the list that the index gives for an interface.\<close>

definition configured :: "'p heap \<Rightarrow> rule_lists \<Rightarrow> string \<Rightarrow> contiv_rule list option option" where
  "configured h crls x = map_option (\<lambda>a. Rules (h ! a)) (byInterface crls x)"

lemma configured_iff:
  assumes ok: "lists_ok h crls ys" and a: "a \<in> set ys"
  shows "configured h crls x = Some (Rules (h ! a)) \<longleftrightarrow> x \<in> set (Interfaces (h ! a))"
proof
  assume "configured h crls x = Some (Rules (h ! a))"
  then obtain b where "byInterface crls x = Some b" "Rules (h ! b) = Rules (h ! a)"
    by (auto simp: configured_def)
  then show "x \<in> set (Interfaces (h ! a))"
    using lists_ok_byInterface [OF ok, of x b] lists_ok_same_rules [OF ok _ a, of b] by auto
qed (use lists_ok_byInterface [OF ok, of x a] a in \<open>simp add: configured_def\<close>)

lemma configured_cong:
  assumes ok: "lists_ok h crls ys" and same: "\<And>b. b \<in> set ys \<Longrightarrow> Rules (h' ! b) = Rules (h ! b)"
  shows "configured h' crls = configured h crls"
proof (rule ext)
  fix x
  show "configured h' crls x = configured h crls x"
    using lists_ok_byInterface [OF ok, of x] same by (cases "byInterface crls x") (auto simp: configured_def)
qed

lemma configured_member:
  assumes ok: "lists_ok h crls ys" and c: "configured h crls x = Some R"
  obtains a where "a \<in> set ys" "x \<in> set (Interfaces (h ! a))" "Rules (h ! a) = R" "byInterface crls x = Some a"
  using assms lists_ok_byInterface [OF ok, of x] by (auto simp: configured_def)

section \<open>The head of a transaction\<close>

text \<open>
  \<open>head_ok d h base head ys zs upd alloc\<close>: \<open>ys\<close> are the lists of the cache and \<open>zs\<close> those of the head;
  \<open>upd\<close> is the last update of every updated interface. The interfaces of a list of the head are
  exactly those that are to have its rules once the transaction is committed; the lists that
  updated interfaces have now and those that they are to have are in the head; lists of the head
  and of the cache have equal identifiers exactly when they have equal rules, and then the same
  private data; and all identifiers are allocated.
\<close>

definition head_ok ::
  "traffic_direction \<Rightarrow> 'p heap \<Rightarrow> rule_lists \<Rightarrow> rule_lists \<Rightarrow> nat list \<Rightarrow> nat list \<Rightarrow>
   (string \<rightharpoonup> contiv_rule list option) \<Rightarrow> string list \<Rightarrow> bool" where
  "head_ok d h base head ys zs upd alloc \<longleftrightarrow>
     lists_ok h base ys \<and> lists_ok h head zs \<and> packed head \<and> set ys \<inter> set zs = {} \<and>
     (\<forall>a\<in>set zs. \<forall>x. x \<in> set (Interfaces (h ! a)) \<longleftrightarrow> (configured h base ++ upd) x = Some (Rules (h ! a))) \<and>
     (\<forall>x R. upd x = Some R \<longrightarrow> (\<exists>a\<in>set zs. Rules (h ! a) = R)) \<and>
     (\<forall>x R. upd x \<noteq> None \<longrightarrow> configured h base x = Some R \<longrightarrow> (\<exists>a\<in>set zs. Rules (h ! a) = R)) \<and>
     (\<forall>a\<in>set zs. \<forall>b\<in>set ys. list_ID (h ! a) = list_ID (h ! b) \<longleftrightarrow> Rules (h ! a) = Rules (h ! b)) \<and>
     (\<forall>a\<in>set zs. \<forall>b\<in>set ys. list_ID (h ! a) = list_ID (h ! b) \<longrightarrow> Private (h ! a) = Private (h ! b)) \<and>
     (\<forall>a\<in>set ys \<union> set zs. \<exists>s\<in>set alloc. list_ID (h ! a) = id_prefix d @ s)"

lemma head_ok_parts:
  assumes "head_ok d h base head ys zs upd alloc"
  shows head_ok_base: "lists_ok h base ys"
    and head_ok_head: "lists_ok h head zs"
    and head_ok_packed: "packed head"
    and head_ok_disjoint: "a \<in> set zs \<Longrightarrow> a \<notin> set ys"
    and head_ok_interfaces: "a \<in> set zs \<Longrightarrow>
      x \<in> set (Interfaces (h ! a)) \<longleftrightarrow> (configured h base ++ upd) x = Some (Rules (h ! a))"
    and head_ok_updated: "upd x = Some R \<Longrightarrow> \<exists>a\<in>set zs. Rules (h ! a) = R"
    and head_ok_left: "upd x \<noteq> None \<Longrightarrow> configured h base x = Some R \<Longrightarrow> \<exists>a\<in>set zs. Rules (h ! a) = R"
    and head_ok_ids: "a \<in> set zs \<Longrightarrow> b \<in> set ys \<Longrightarrow>
      list_ID (h ! a) = list_ID (h ! b) \<longleftrightarrow> Rules (h ! a) = Rules (h ! b)"
    and head_ok_private: "a \<in> set zs \<Longrightarrow> b \<in> set ys \<Longrightarrow> list_ID (h ! a) = list_ID (h ! b) \<Longrightarrow> Private (h ! a) = Private (h ! b)"
    and head_ok_allocated: "a \<in> set ys \<union> set zs \<Longrightarrow> \<exists>s\<in>set alloc. list_ID (h ! a) = id_prefix d @ s"
  using assms unfolding head_ok_def by auto

lemma head_ok_intro:
  assumes "lists_ok h base ys" "lists_ok h head zs" "packed head" "\<And>a. a \<in> set zs \<Longrightarrow> a \<notin> set ys"
    and "\<And>a x. a \<in> set zs \<Longrightarrow> x \<in> set (Interfaces (h ! a)) \<longleftrightarrow> (configured h base ++ upd) x = Some (Rules (h ! a))"
    and "\<And>x R. upd x = Some R \<Longrightarrow> \<exists>a\<in>set zs. Rules (h ! a) = R"
    and "\<And>x R. upd x \<noteq> None \<Longrightarrow> configured h base x = Some R \<Longrightarrow> \<exists>a\<in>set zs. Rules (h ! a) = R"
    and "\<And>a b. a \<in> set zs \<Longrightarrow> b \<in> set ys \<Longrightarrow> list_ID (h ! a) = list_ID (h ! b) \<longleftrightarrow> Rules (h ! a) = Rules (h ! b)"
    and "\<And>a b. a \<in> set zs \<Longrightarrow> b \<in> set ys \<Longrightarrow> list_ID (h ! a) = list_ID (h ! b) \<Longrightarrow> Private (h ! a) = Private (h ! b)"
    and "\<And>a. a \<in> set ys \<union> set zs \<Longrightarrow> \<exists>s\<in>set alloc. list_ID (h ! a) = id_prefix d @ s"
  shows "head_ok d h base head ys zs upd alloc"
proof -
  have "set ys \<inter> set zs = {}" using assms(4) by blast
  then show ?thesis unfolding head_ok_def
    using assms(1-3) assms(9) by (intro conjI ballI allI impI) (simp_all add: assms(5-8,10) del: Un_iff not_None_eq)
qed

text \<open>The invariant of one direction of the cache between transactions.\<close>

definition side_ok :: "traffic_direction \<Rightarrow> 'p cache_side \<Rightarrow> nat list \<Rightarrow> bool" where
  "side_ok d sd ys \<longleftrightarrow>
     lists_ok (side_heap sd) (side_lists sd) ys \<and>
     (\<forall>a\<in>set ys. \<exists>s\<in>set (allocatedListIDs sd). list_ID (side_heap sd ! a) = id_prefix d @ s)"

lemma head_ok_start:
  "side_ok d sd ys \<Longrightarrow>
   head_ok d (side_heap sd) (side_lists sd) NewContivRuleLists ys [] Map.empty (allocatedListIDs sd)"
  by (simp add: head_ok_def side_ok_def lists_ok_empty packed_empty)

section \<open>Adding a list to the head\<close>

lemma head_insert_ok:
  fixes sd :: "'p cache_side" and l :: "'p rule_list"
  defines "h \<equiv> side_heap sd" and "base \<equiv> side_lists sd"
  assumes ok: "head_ok d h base head ys zs upd alloc"
    and l: "distinct (Interfaces l)" "\<forall>a\<in>set zs. Rules (h ! a) \<noteq> Rules l"
    and ids: "\<forall>a\<in>set zs. list_ID (h ! a) \<noteq> list_ID l" "\<forall>b\<in>set ys. list_ID l = list_ID (h ! b) \<longleftrightarrow> Rules l = Rules (h ! b)"
      "\<forall>b\<in>set ys. list_ID l = list_ID (h ! b) \<longrightarrow> Private l = Private (h ! b)"
    and alloc: "set alloc \<subseteq> set alloc'" "\<exists>s\<in>set alloc'. list_ID l = id_prefix d @ s"
    and upd': "upd' = upd \<or> upd' = upd(x \<mapsto> Rules l)"
    and ifs: "\<And>y. y \<in> set (Interfaces l) \<longleftrightarrow> (configured h base ++ upd') y = Some (Rules l)"
    and left: "\<And>y R. upd' y \<noteq> None \<Longrightarrow> upd y = None \<Longrightarrow> configured h base y = Some R \<Longrightarrow> \<exists>a\<in>set zs. Rules (h ! a) = R"
  obtains h' head' zs' where "head_insert l (sd, head) = Some (sd\<lparr>side_heap := h'\<rparr>, head')"
    "head_ok d h' base head' ys zs' upd' alloc'" "\<forall>b\<in>set ys. h' ! b = h ! b" "\<exists>a\<in>set zs'. Rules (h' ! a) = Rules l"
    "\<forall>a\<in>set zs. Rules (h' ! a) = Rules (h ! a)" "set zs \<subseteq> set zs'" "length h \<le> length h'"
proof -
  note base = head_ok_base [OF ok] and hd = head_ok_head [OF ok]
  define n where "n = length h"
  have at_n: "(h @ [l]) ! n = l" by (simp add: n_def)
  have old: "(h @ [l]) ! c = h ! c" if "c \<in> set ys \<union> set zs" for c
    using that lists_ok_bound [OF base, of c] lists_ok_bound [OF hd, of c] by (auto simp: nth_append)
  have n: "n \<notin> set zs" "n \<notin> set ys"
    using lists_ok_bound [OF hd, of n] lists_ok_bound [OF base, of n] by (auto simp: n_def)
  obtain h' head' zs' where ins: "lists_Insert n (h @ [l], head) = Some ((h', head'), True)"
      "lists_ok h' head' zs'" "set zs' = insert n (set zs)" "touches (set zs) (h @ [l]) h'"
      "\<forall>c\<in>set zs. set (Interfaces (h' ! c)) = set (Interfaces ((h @ [l]) ! c)) - set (Interfaces ((h @ [l]) ! n))"
      "packed head \<longrightarrow> packed head'"
    by (rule lists_Insert_ok [OF lists_ok_append [OF hd, of "[l]"] n(1)])
       (use l ids(1) old at_n in \<open>auto simp: n_def\<close>)
  have at_n': "h' ! n = l" using touches_other [OF ins(4) n(1)] at_n by simp
  have base': "h' ! b = h ! b" if "b \<in> set ys" for b
    using that touches_other [OF ins(4), of b] old [of b] head_ok_disjoint [OF ok, of b] by auto
  have fields: "Rules (h' ! c) = Rules (h ! c)" "list_ID (h' ! c) = list_ID (h ! c)" "Private (h' ! c) = Private (h ! c)" if "c \<in> set zs" for c
    using that touches_fields [OF ins(4), of c] old [of c] by auto
  have ok_base: "lists_ok h' base ys"
    by (rule lists_ok_heap_cong [OF base]) (use base' touches_length [OF ins(4)] in auto)
  have conf: "configured h' base = configured h base"
    by (rule configured_cong [OF base]) (simp add: base')
  have hok: "head_ok d h' base head' ys zs' upd' alloc'"
  proof (rule head_ok_intro [OF ok_base ins(2)])
    show "packed head'" using ins(6) head_ok_packed [OF ok] by simp
    show "a \<notin> set ys" if "a \<in> set zs'" for a
      using that n(2) head_ok_disjoint [OF ok, of a] by (auto simp: ins(3))
    show "y \<in> set (Interfaces (h' ! a)) \<longleftrightarrow> (configured h' base ++ upd') y = Some (Rules (h' ! a))"
      if "a \<in> set zs'" for a y
    proof (cases "a = n")
      case False
      then have a: "a \<in> set zs" using that by (simp add: ins(3))
      have "y \<in> set (Interfaces (h' ! a)) \<longleftrightarrow> y \<in> set (Interfaces (h ! a)) \<and> y \<notin> set (Interfaces l)"
        using ins(5) a old [of a] at_n by auto
      also have "\<dots> \<longleftrightarrow> (configured h base ++ upd') y = Some (Rules (h ! a))"
        using upd' ifs [of y] l(2) a head_ok_interfaces [OF ok a, of y]
        by (cases "y = x") (auto simp: map_add_def)
      finally show ?thesis using fields(1) [OF a] conf by simp
    qed (use ifs conf at_n' in simp)
    show "\<exists>a\<in>set zs'. Rules (h' ! a) = R" if "upd' y = Some R" for y R
      using upd' that head_ok_updated [OF ok, of y R] fields(1) at_n' by (auto simp: ins(3) split: if_splits)
    show "\<exists>a\<in>set zs'. Rules (h' ! a) = R" if "upd' y \<noteq> None" "configured h' base y = Some R" for y R
      using that left [of y R] head_ok_left [OF ok, of y R] fields(1) conf by (cases "upd y") (auto simp: ins(3))
    show "list_ID (h' ! a) = list_ID (h' ! b) \<longleftrightarrow> Rules (h' ! a) = Rules (h' ! b)"
      if "a \<in> set zs'" "b \<in> set ys" for a b
      using that ids(2) head_ok_ids [OF ok, of a b] fields base' at_n' by (cases "a = n") (auto simp: ins(3))
    show "Private (h' ! a) = Private (h' ! b)" if "a \<in> set zs'" "b \<in> set ys" "list_ID (h' ! a) = list_ID (h' ! b)" for a b
      using that ids(3) head_ok_private [OF ok, of a b] fields base' at_n' by (cases "a = n") (auto simp: ins(3))
    show "\<exists>s\<in>set alloc'. list_ID (h' ! a) = id_prefix d @ s" if "a \<in> set ys \<union> set zs'" for a
      using that alloc head_ok_allocated [OF ok, of a] fields base' at_n' by (cases "a = n") (auto simp: ins(3))
  qed
  show thesis
  proof (rule that [OF _ hok])
    show "head_insert l (sd, head) = Some (sd\<lparr>side_heap := h'\<rparr>, head')"
      using ins(1) by (simp add: head_insert_def h_def n_def)
  qed (use base' at_n' fields touches_length [OF ins(4)] ins(3) in auto)
qed

section \<open>Generated identifiers\<close>

text \<open>
  The bytes of \<^verbatim>\<open>crypto/rand\<close> are not known; what the generator needs of them is that, whatever
  fewer than \<open>2 ^ 40\<close> suffixes are taken, some later read gives another one.
\<close>

definition fresh_bytes :: "(nat \<Rightarrow> 8 word list) \<Rightarrow> bool" where
  "fresh_bytes rnd \<longleftrightarrow> (\<forall>A pos. finite A \<and> card A < 2 ^ 40 \<longrightarrow> (\<exists>j\<ge>pos. Sprintf_X (rnd j) \<notin> A))"

lemma generate_suffix_returns:
  "Sprintf_X (rnd (pos + k)) \<notin> set alloc \<Longrightarrow>
   \<exists>s pos'. generate_suffix rnd alloc pos = Some (s, pos') \<and> s \<notin> set alloc"
proof (induction k arbitrary: pos)
  case 0
  then show ?case by (subst generate_suffix.simps) simp
next
  case (Suc k)
  then have "\<exists>s pos'. generate_suffix rnd alloc (pos + 1) = Some (s, pos') \<and> s \<notin> set alloc" by simp
  then show ?case by (subst generate_suffix.simps) (simp add: Let_def)
qed

lemma generateListID_ok:
  assumes "fresh_bytes rnd" "length (allocatedListIDs sd) < 2 ^ 40"
  obtains s pos' where "generateListID rnd d sd pos =
      Some (id_prefix d @ s, sd\<lparr>allocatedListIDs := s # allocatedListIDs sd\<rparr>, pos')"
    "s \<notin> set (allocatedListIDs sd)"
proof -
  have "card (set (allocatedListIDs sd)) < 2 ^ 40"
    using assms(2) card_length [of "allocatedListIDs sd"] by (rule le_less_trans [rotated])
  then obtain j where j: "j \<ge> pos" "Sprintf_X (rnd j) \<notin> set (allocatedListIDs sd)"
    using assms(1) unfolding fresh_bytes_def by blast
  from j(1) obtain k where "j = pos + k" by (metis le_iff_add)
  with j(2) generate_suffix_returns [of rnd pos k] obtain s pos' where
    "generate_suffix rnd (allocatedListIDs sd) pos = Some (s, pos')" "s \<notin> set (allocatedListIDs sd)" by blast
  with that show thesis by (simp add: generateListID_def id_prefix_def)
qed

section \<open>Updates\<close>

text \<open>What an update leaves alone: the lists of the cache, and the objects they consist of.\<close>

definition keeps_base :: "nat list \<Rightarrow> 'p cache_side \<Rightarrow> 'p cache_side \<Rightarrow> bool" where
  "keeps_base ys sd sd' \<longleftrightarrow> side_lists sd' = side_lists sd \<and> (\<forall>b\<in>set ys. side_heap sd' ! b = side_heap sd ! b)"

lemma keeps_base_refl: "keeps_base ys sd sd"
  by (simp add: keeps_base_def)

lemma keeps_base_trans: "keeps_base ys sd sd1 \<Longrightarrow> keeps_base ys sd1 sd2 \<Longrightarrow> keeps_base ys sd sd2"
  by (simp add: keeps_base_def)

lemma copy_orig_ok:
  assumes ok: "head_ok d (side_heap sd) (side_lists sd) head ys zs upd (allocatedListIDs sd)"
  obtains sd' head' zs' where "copy_orig x (sd, head) = Some (sd', head')"
    "head_ok d (side_heap sd') (side_lists sd') head' ys zs' upd (allocatedListIDs sd')"
    "keeps_base ys sd sd'" "allocatedListIDs sd' = allocatedListIDs sd"
    "\<forall>R. configured (side_heap sd') (side_lists sd') x = Some R \<longrightarrow> (\<exists>a\<in>set zs'. Rules (side_heap sd' ! a) = R)"
proof (cases "\<exists>b. byInterface (side_lists sd) x = Some b \<and> byID head (list_ID (side_heap sd ! b)) = None")
  case False
  have "copy_orig x (sd, head) = Some (sd, head)"
    using False by (auto simp: copy_orig_def lists_LookupByInterface_def lists_LookupByID_def split: option.split)
  moreover have "\<exists>a\<in>set zs. Rules (side_heap sd ! a) = R"
    if "configured (side_heap sd) (side_lists sd) x = Some R" for R
  proof -
    obtain b where b: "b \<in> set ys" "byInterface (side_lists sd) x = Some b" "Rules (side_heap sd ! b) = R"
      using configured_member [OF head_ok_base [OF ok] \<open>configured _ _ x = Some R\<close>] by blast
    then obtain a where "a \<in> set zs" "list_ID (side_heap sd ! a) = list_ID (side_heap sd ! b)"
      using False lists_ok_byID_None [OF head_ok_head [OF ok], of "list_ID (side_heap sd ! b)"] by blast
    then show ?thesis using head_ok_ids [OF ok, of a b] b by auto
  qed
  ultimately show thesis using that [OF _ ok keeps_base_refl] by blast
next
  case True
  then obtain b where b: "byInterface (side_lists sd) x = Some b" "byID head (list_ID (side_heap sd ! b)) = None" by blast
  note base = head_ok_base [OF ok] and hd = head_ok_head [OF ok]
  define h where "h = side_heap sd"
  define l where "l = copy_list (h ! b)"
  have in_ys: "b \<in> set ys" using lists_ok_byInterface [OF base, of x b] b(1) by simp
  have l: "list_ID l = list_ID (h ! b)" "Rules l = Rules (h ! b)" "Private l = Private (h ! b)" "set (Interfaces l) = set (Interfaces (h ! b))"
      "distinct (Interfaces l)"
    by (simp_all add: l_def copy_list_def)
  have new_id: "\<forall>a\<in>set zs. list_ID (h ! a) \<noteq> list_ID l"
    using lists_ok_byID_None [OF hd] b(2) l(1) by (simp add: h_def)
  have new: "\<forall>a\<in>set zs. Rules (h ! a) \<noteq> Rules l"
    using new_id head_ok_ids [OF ok _ in_ys] l by (simp add: h_def)
  have ids: "\<forall>c\<in>set ys. list_ID l = list_ID (h ! c) \<longleftrightarrow> Rules l = Rules (h ! c)"
    using lists_ok_same_rules [OF base in_ys] lists_ok_byID [OF base] in_ys l by (metis h_def option.inject)
  have priv: "\<forall>c\<in>set ys. list_ID l = list_ID (h ! c) \<longrightarrow> Private l = Private (h ! c)"
    using lists_ok_byID [OF base] in_ys l by (metis h_def option.inject)
  have ifs: "y \<in> set (Interfaces l) \<longleftrightarrow> (configured h (side_lists sd) ++ upd) y = Some (Rules l)" for y
  proof -
    have "configured h (side_lists sd) y = Some (Rules l) \<longleftrightarrow> y \<in> set (Interfaces l)"
      using configured_iff [OF base in_ys, of y] l by (simp add: h_def)
    moreover have "upd y = None" if "upd y = Some (Rules l) \<or> configured h (side_lists sd) y = Some (Rules l)"
      using that head_ok_updated [OF ok, of y "Rules l"] head_ok_left [OF ok, of y "Rules l"] new
      by (cases "upd y") (auto simp: h_def)
    ultimately show ?thesis by (auto simp: map_add_def split: option.splits)
  qed
  obtain h' head' zs' where r: "head_insert l (sd, head) = Some (sd\<lparr>side_heap := h'\<rparr>, head')"
    "head_ok d h' (side_lists sd) head' ys zs' upd (allocatedListIDs sd)" "\<forall>b\<in>set ys. h' ! b = h ! b"
    "\<exists>a\<in>set zs'. Rules (h' ! a) = Rules l"
    by (rule head_insert_ok [OF ok l(5), of "allocatedListIDs sd" upd])
       (use new new_id ids priv ifs head_ok_allocated [OF ok, of b] in_ys l(1) in \<open>auto simp: h_def\<close>)
  show thesis
  proof (rule that)
    show "copy_orig x (sd, head) = Some (sd\<lparr>side_heap := h'\<rparr>, head')"
      using b r(1) by (simp add: copy_orig_def lists_LookupByInterface_def lists_LookupByID_def l_def h_def)
    show "\<forall>R. configured (side_heap (sd\<lparr>side_heap := h'\<rparr>)) (side_lists (sd\<lparr>side_heap := h'\<rparr>)) x = Some R \<longrightarrow>
        (\<exists>a\<in>set zs'. Rules (side_heap (sd\<lparr>side_heap := h'\<rparr>) ! a) = R)"
      using b(1) r(3,4) in_ys l(2) by (auto simp: configured_def)
  qed (use r in \<open>simp_all add: keeps_base_def h_def\<close>)
qed

text \<open>The three ways in which an update ends: a list of the head has the rules, a list of the cache
  has them, or they are new.\<close>

lemma assign_in_head:
  assumes ok: "head_ok d h base head ys zs upd alloc" and a: "a \<in> set zs"
    and left: "\<forall>R. configured h base x = Some R \<longrightarrow> (\<exists>a\<in>set zs. Rules (h ! a) = R)"
  obtains h' head' where "AssignInterface a x (h, head) = (h', head')"
    "head_ok d h' base head' ys zs (upd(x \<mapsto> Rules (h ! a))) alloc" "\<forall>b\<in>set ys. h' ! b = h ! b"
proof -
  note base = head_ok_base [OF ok] and hd = head_ok_head [OF ok]
  obtain h' head' where r: "AssignInterface a x (h, head) = (h', head')" "lists_ok h' head' zs" "touches (set zs) h h'"
    "\<forall>c\<in>set zs. set (Interfaces (h' ! c)) = (if c = a then insert x (set (Interfaces (h ! c)))
       else set (Interfaces (h ! c)) - {x})" "ruleLists head' = ruleLists head"
    by (rule AssignInterface_ok [OF hd a, of x]) blast
  note fields = touches_fields [OF r(3)]
  have base': "h' ! b = h ! b" if "b \<in> set ys" for b
    using that touches_other [OF r(3), of b] head_ok_disjoint [OF ok, of b] by blast
  have conf: "configured h' base = configured h base"
    by (rule configured_cong [OF base]) (simp add: base')
  have "head_ok d h' base head' ys zs (upd(x \<mapsto> Rules (h ! a))) alloc"
  proof (rule head_ok_intro [OF lists_ok_heap_cong [OF base] r(2)])
    show "length h \<le> length h'" using touches_length [OF r(3)] by simp
    show "packed head'" using r(5) head_ok_packed [OF ok] by (simp add: packed_def)
    show "y \<in> set (Interfaces (h' ! c)) \<longleftrightarrow>
        (configured h' base ++ upd(x \<mapsto> Rules (h ! a))) y = Some (Rules (h' ! c))" if c: "c \<in> set zs" for c y
    proof (cases "y = x")
      case True
      then show ?thesis using r(4) c lists_ok_same_rules [OF hd c a] by (auto simp: fields)
    next
      case False
      then show ?thesis using r(4) c head_ok_interfaces [OF ok c, of y] by (auto simp: fields conf map_add_def)
    qed
    show "\<exists>c\<in>set zs. Rules (h' ! c) = R" if "(upd(x \<mapsto> Rules (h ! a))) y = Some R" for y R
      using that head_ok_updated [OF ok, of y R] a by (auto simp: fields split: if_splits)
    show "\<exists>c\<in>set zs. Rules (h' ! c) = R"
      if "(upd(x \<mapsto> Rules (h ! a))) y \<noteq> None" "configured h' base y = Some R" for y R
      using that left head_ok_left [OF ok, of y R] by (auto simp: fields conf split: if_splits)
  qed (use base' head_ok_disjoint [OF ok] head_ok_ids [OF ok] head_ok_private [OF ok] head_ok_allocated [OF ok] in
      \<open>auto simp: fields\<close>)
  with r(1) base' that show thesis by blast
qed

lemma copy_with_interface:
  assumes ok: "head_ok d (side_heap sd) (side_lists sd) head ys zs upd (allocatedListIDs sd)"
    and left: "\<forall>R. configured (side_heap sd) (side_lists sd) x = Some R \<longrightarrow> (\<exists>a\<in>set zs. Rules (side_heap sd ! a) = R)"
    and b: "b \<in> set ys" and new: "\<forall>a\<in>set zs. Rules (side_heap sd ! a) \<noteq> Rules (side_heap sd ! b)"
  defines "l \<equiv> copy_list (side_heap sd ! b)"
  obtains h' head' zs' where
    "head_insert (l\<lparr>Interfaces := ifs_Add x (Interfaces l)\<rparr>) (sd, head) = Some (sd\<lparr>side_heap := h'\<rparr>, head')"
    "head_ok d h' (side_lists sd) head' ys zs' (upd(x \<mapsto> Rules (side_heap sd ! b))) (allocatedListIDs sd)"
    "\<forall>b\<in>set ys. h' ! b = side_heap sd ! b"
proof -
  note base = head_ok_base [OF ok] and hd = head_ok_head [OF ok]
  define h where "h = side_heap sd"
  define l' where "l' = l\<lparr>Interfaces := ifs_Add x (Interfaces l)\<rparr>"
  have l: "list_ID l' = list_ID (h ! b)" "Rules l' = Rules (h ! b)" "Private l' = Private (h ! b)"
      "set (Interfaces l') = insert x (set (Interfaces (h ! b)))" "distinct (Interfaces l')"
    by (simp_all add: l'_def l_def copy_list_def h_def)
  have ids: "\<forall>c\<in>set ys. list_ID l' = list_ID (h ! c) \<longleftrightarrow> Rules l' = Rules (h ! c)"
    using lists_ok_same_rules [OF base b] lists_ok_byID [OF base] b l by (metis h_def option.inject)
  have priv: "\<forall>c\<in>set ys. list_ID l' = list_ID (h ! c) \<longrightarrow> Private l' = Private (h ! c)"
    using lists_ok_byID [OF base] b l by (metis h_def option.inject)
  have ifs: "y \<in> set (Interfaces l') \<longleftrightarrow> (configured h (side_lists sd) ++ upd(x \<mapsto> Rules (h ! b))) y = Some (Rules l')" for y
  proof (cases "y = x")
    case False
    have "configured h (side_lists sd) y = Some (Rules l') \<longleftrightarrow> y \<in> set (Interfaces l')"
      using configured_iff [OF base b, of y] l False by (simp add: h_def)
    moreover have "upd y = None" if "upd y = Some (Rules l') \<or> configured h (side_lists sd) y = Some (Rules l')"
      using that head_ok_updated [OF ok, of y "Rules l'"] head_ok_left [OF ok, of y "Rules l'"] new l(2)
      by (cases "upd y") (auto simp: h_def)
    ultimately show ?thesis using False by (auto simp: map_add_def split: option.splits)
  qed (use l in simp)
  obtain h' head' zs' where r: "head_insert l' (sd, head) = Some (sd\<lparr>side_heap := h'\<rparr>, head')"
    "head_ok d h' (side_lists sd) head' ys zs' (upd(x \<mapsto> Rules (h ! b))) (allocatedListIDs sd)"
    "\<forall>b\<in>set ys. h' ! b = h ! b"
    by (rule head_insert_ok [OF ok l(5), of "allocatedListIDs sd" "upd(x \<mapsto> Rules (h ! b))" x])
       (use new ids priv ifs head_ok_allocated [OF ok, of b] head_ok_ids [OF ok _ b] b l(1,2) left in
         \<open>auto simp: h_def split: if_splits\<close>)
  with that show thesis by (simp add: l'_def h_def)
qed

lemma add_new_list:
  assumes ok: "head_ok d (side_heap sd) (side_lists sd) head ys zs upd (allocatedListIDs sd)"
    and left: "\<forall>R. configured (side_heap sd) (side_lists sd) x = Some R \<longrightarrow> (\<exists>a\<in>set zs. Rules (side_heap sd ! a) = R)"
    and new: "\<forall>a\<in>set ys \<union> set zs. Rules (side_heap sd ! a) \<noteq> R" and s: "s \<notin> set (allocatedListIDs sd)"
  defines "sd1 \<equiv> sd\<lparr>allocatedListIDs := s # allocatedListIDs sd\<rparr>"
  obtains h' head' zs' where
    "head_insert \<lparr>list_ID = id_prefix d @ s, Rules = R, Interfaces = [x], Private = None\<rparr> (sd1, head)
       = Some (sd1\<lparr>side_heap := h'\<rparr>, head')"
    "head_ok d h' (side_lists sd) head' ys zs' (upd(x \<mapsto> R)) (allocatedListIDs sd1)"
    "\<forall>b\<in>set ys. h' ! b = side_heap sd ! b"
proof -
  define l :: "'a rule_list" where "l = \<lparr>list_ID = id_prefix d @ s, Rules = R, Interfaces = [x], Private = None\<rparr>"
  have ok1: "head_ok d (side_heap sd1) (side_lists sd1) head ys zs upd (allocatedListIDs sd)"
    using ok by (simp add: sd1_def)
  have id: "list_ID (side_heap sd ! a) \<noteq> id_prefix d @ s" if "a \<in> set ys \<union> set zs" for a
    using head_ok_allocated [OF ok that] s by auto
  have ids: "\<forall>b\<in>set ys. list_ID l = list_ID (side_heap sd ! b) \<longleftrightarrow> Rules l = Rules (side_heap sd ! b)"
    using id new by (metis UnI1 l_def rule_list.select_convs(1,2))
  have ifs: "y \<in> set (Interfaces l) \<longleftrightarrow>
      (configured (side_heap sd) (side_lists sd) ++ upd(x \<mapsto> R)) y = Some (Rules l)" for y
  proof -
    have "configured (side_heap sd) (side_lists sd) y \<noteq> Some R"
      using configured_member [OF head_ok_base [OF ok], of y R] new by blast
    moreover have "upd y \<noteq> Some R" using head_ok_updated [OF ok, of y R] new by blast
    ultimately show ?thesis by (auto simp: l_def map_add_def split: option.splits)
  qed
  obtain h' head' zs' where r: "head_insert l (sd1, head) = Some (sd1\<lparr>side_heap := h'\<rparr>, head')"
    "head_ok d h' (side_lists sd1) head' ys zs' (upd(x \<mapsto> R)) (allocatedListIDs sd1)"
    "\<forall>b\<in>set ys. h' ! b = side_heap sd1 ! b"
    by (rule head_insert_ok [OF ok1, of l "allocatedListIDs sd1" "upd(x \<mapsto> R)" x])
       (use new id ids ifs left in \<open>auto simp: sd1_def l_def split: if_splits\<close>)
  with that show thesis by (simp add: l_def sd1_def)
qed

theorem updateInterface_ok:
  assumes ok: "head_ok d (side_heap sd) (side_lists sd) head ys zs upd (allocatedListIDs sd)"
    and fresh: "fresh_bytes rnd" "length (allocatedListIDs sd) < 2 ^ 40"
  obtains sd' head' pos' zs' where "updateInterface rnd x R d (sd, head) pos = Some ((sd', head'), pos')"
    "head_ok d (side_heap sd') (side_lists sd') head' ys zs' (upd(x \<mapsto> R)) (allocatedListIDs sd')"
    "keeps_base ys sd sd'" "length (allocatedListIDs sd') \<le> Suc (length (allocatedListIDs sd))"
proof -
  obtain sd1 head1 zs1 where c: "copy_orig x (sd, head) = Some (sd1, head1)"
    and ok1: "head_ok d (side_heap sd1) (side_lists sd1) head1 ys zs1 upd (allocatedListIDs sd1)"
    and keep: "keeps_base ys sd sd1" and alloc: "allocatedListIDs sd1 = allocatedListIDs sd"
    and left: "\<forall>R. configured (side_heap sd1) (side_lists sd1) x = Some R \<longrightarrow> (\<exists>a\<in>set zs1. Rules (side_heap sd1 ! a) = R)"
    by (rule copy_orig_ok [OF ok, of x])
  note base = head_ok_base [OF ok1] and hd = head_ok_head [OF ok1]
  show thesis
  proof (cases rule: LookupByRules_cases [OF hd, of R, case_names found missing])
    case (found a)
    obtain h' head' where r: "AssignInterface a x (side_heap sd1, head1) = (h', head')"
      "head_ok d h' (side_lists sd1) head' ys zs1 (upd(x \<mapsto> R)) (allocatedListIDs sd1)" "\<forall>b\<in>set ys. h' ! b = side_heap sd1 ! b"
      using assign_in_head [OF ok1 found(2) left] found(3) by metis
    show thesis
      by (rule that [of "sd1\<lparr>side_heap := h'\<rparr>" head' pos zs1])
         (use c found r keep alloc in \<open>simp_all add: updateInterface_def keeps_base_def\<close>)
  next
    case missing
    note in_head = missing
    show thesis
    proof (cases rule: LookupByRules_cases [OF base, of R, case_names found missing])
      case (found b)
      have "\<not> ifs_Has (Interfaces (side_heap sd1 ! b)) x"
        using left configured_iff [OF base found(2), of x] found(3) in_head(2) by (auto simp: ifs_Has_def)
      moreover obtain h' head' zs' where
        "head_insert ((copy_list (side_heap sd1 ! b))\<lparr>Interfaces := ifs_Add x (Interfaces (copy_list (side_heap sd1 ! b)))\<rparr>)
          (sd1, head1) = Some (sd1\<lparr>side_heap := h'\<rparr>, head')"
        "head_ok d h' (side_lists sd1) head' ys zs' (upd(x \<mapsto> R)) (allocatedListIDs sd1)"
        "\<forall>b\<in>set ys. h' ! b = side_heap sd1 ! b"
        using copy_with_interface [OF ok1 left found(2)] found(3) in_head(2) by metis
      ultimately show thesis
        using that [of "sd1\<lparr>side_heap := h'\<rparr>" head' pos zs'] c in_head(1) found(1) keep alloc
        by (simp add: updateInterface_def keeps_base_def Let_def)
    next
      case missing
      obtain s pos' where g: "generateListID rnd d sd1 pos =
          Some (id_prefix d @ s, sd1\<lparr>allocatedListIDs := s # allocatedListIDs sd1\<rparr>, pos')" "s \<notin> set (allocatedListIDs sd1)"
        using generateListID_ok [OF fresh(1), of sd1] fresh(2) alloc by metis
      have "\<forall>a\<in>set ys \<union> set zs1. Rules (side_heap sd1 ! a) \<noteq> R" using in_head(2) missing(2) by blast
      from add_new_list [OF ok1 left this g(2)] obtain h' head' zs' where
        "head_insert \<lparr>list_ID = id_prefix d @ s, Rules = R, Interfaces = [x], Private = None\<rparr>
           (sd1\<lparr>allocatedListIDs := s # allocatedListIDs sd1\<rparr>, head1)
         = Some (sd1\<lparr>allocatedListIDs := s # allocatedListIDs sd1, side_heap := h'\<rparr>, head')"
        "head_ok d h' (side_lists sd1) head' ys zs' (upd(x \<mapsto> R)) (s # allocatedListIDs sd1)"
        "\<forall>b\<in>set ys. h' ! b = side_heap sd1 ! b" by auto
      then show thesis
        using that [of "sd1\<lparr>allocatedListIDs := s # allocatedListIDs sd1, side_heap := h'\<rparr>" head' pos' zs']
          c in_head(1) missing(1) g(1) keep alloc
        by (simp add: updateInterface_def keeps_base_def)
    qed
  qed
qed

end
