(* ===== verification/AclCommit.thy ===== *)
theory AclCommit
  imports AclTxn
begin

text \<open>
  \<^verbatim>\<open>commit\<close> of the ACL rule cache: every list of the head is merged into the lists of the cache.
  The loop is shown not to panic, to keep the invariant of the cache, and to leave every
  interface with the rules that the transaction asks for.
\<close>

section \<open>Moving the interfaces of one list\<close>

lemma unassign_loop:
  assumes "lists_ok h base ys" "orig \<in> set ys" "a \<notin> set ys" "distinct xs" "set xs \<subseteq> set (Interfaces (h ! orig))"
  shows "\<exists>h' base'. fold (\<lambda>iface s. if ifs_Has (Interfaces (fst s ! a)) iface then s
        else UnassignInterface (Some orig) iface s) xs (h, base) = (h', base') \<and>
      lists_ok h' base' ys \<and> touches (set ys) h h' \<and>
      (\<forall>c\<in>set ys. set (Interfaces (h' ! c)) = set (Interfaces (h ! c)) - (set xs - set (Interfaces (h ! a))))"
  using assms
proof (induction xs arbitrary: h base)
  case Nil
  then show ?case by (simp add: touches_refl)
next
  case (Cons x xs)
  show ?case
  proof (cases "x \<in> set (Interfaces (h ! a))")
    case True
    then show ?thesis using Cons by (simp add: ifs_Has_def insert_Diff_if)
  next
    case False
    obtain h1 base1 where u: "UnassignInterface None x (h, base) = (h1, base1)" "lists_ok h1 base1 ys"
      "touches (set ys) h h1" "\<forall>c\<in>set ys. set (Interfaces (h1 ! c)) = set (Interfaces (h ! c)) - {x}"
      by (rule UnassignInterface_ok [OF Cons.prems(1), of x]) blast
    have a: "h1 ! a = h ! a" by (rule touches_other [OF u(3) Cons.prems(3)])
    have "set xs \<subseteq> set (Interfaces (h1 ! orig))" using Cons.prems u(4) by auto
    with Cons.IH [OF u(2)] Cons.prems obtain h' base' where r:
      "fold (\<lambda>iface s. if ifs_Has (Interfaces (fst s ! a)) iface then s
        else UnassignInterface (Some orig) iface s) xs (h1, base1) = (h', base')"
      "lists_ok h' base' ys" "touches (set ys) h1 h'"
      "\<forall>c\<in>set ys. set (Interfaces (h' ! c)) = set (Interfaces (h1 ! c)) - (set xs - set (Interfaces (h1 ! a)))"
      by auto
    have "UnassignInterface (Some orig) x (h, base) = (h1, base1)"
      using UnassignInterface_Some [OF Cons.prems(1,2), of x] u(1) Cons.prems(5) by simp
    moreover have "touches (set ys) h h'" using touches_trans [OF u(3) r(3)] by simp
    moreover have "set (Interfaces (h' ! c)) = set (Interfaces (h ! c)) - (set (x # xs) - set (Interfaces (h ! a)))"
      if "c \<in> set ys" for c
      using that r(4) u(4) a False by auto
    ultimately show ?thesis using r(1,2) False by (simp add: ifs_Has_def)
  qed
qed

lemma assign_loop:
  assumes "lists_ok h base ys" "orig \<in> set ys"
  shows "\<exists>h' base'. fold (\<lambda>iface s. if ifs_Has (Interfaces (fst s ! orig)) iface then s
        else AssignInterface orig iface s) xs (h, base) = (h', base') \<and>
      lists_ok h' base' ys \<and> touches (set ys) h h' \<and>
      (\<forall>c\<in>set ys. set (Interfaces (h' ! c)) = (if c = orig then set (Interfaces (h ! c)) \<union> set xs
        else set (Interfaces (h ! c)) - set xs))"
  using assms
proof (induction xs arbitrary: h base)
  case Nil
  then show ?case by (simp add: touches_refl)
next
  case (Cons x xs)
  show ?case
  proof (cases "x \<in> set (Interfaces (h ! orig))")
    case True
    have "\<forall>c\<in>set ys. c \<noteq> orig \<longrightarrow> x \<notin> set (Interfaces (h ! c))"
      using True lists_ok_same_interface [OF Cons.prems(1) Cons.prems(2)] by blast
    with True Cons.IH [OF Cons.prems] show ?thesis by (auto simp: ifs_Has_def)
  next
    case False
    obtain h1 base1 where u: "AssignInterface orig x (h, base) = (h1, base1)" "lists_ok h1 base1 ys"
      "touches (set ys) h h1" "\<forall>c\<in>set ys. set (Interfaces (h1 ! c)) =
        (if c = orig then insert x (set (Interfaces (h ! c))) else set (Interfaces (h ! c)) - {x})"
      by (rule AssignInterface_ok [OF Cons.prems, of x]) blast
    obtain h' base' where r: "fold (\<lambda>iface s. if ifs_Has (Interfaces (fst s ! orig)) iface then s
        else AssignInterface orig iface s) xs (h1, base1) = (h', base')"
      "lists_ok h' base' ys" "touches (set ys) h1 h'"
      "\<forall>c\<in>set ys. set (Interfaces (h' ! c)) = (if c = orig then set (Interfaces (h1 ! c)) \<union> set xs
        else set (Interfaces (h1 ! c)) - set xs)"
      using Cons.IH [OF u(2) Cons.prems(2)] by auto
    have "touches (set ys) h h'" using touches_trans [OF u(3) r(3)] by simp
    with u(1,4) r(1,2,4) False show ?thesis by (auto simp: ifs_Has_def)
  qed
qed

lemma commit_interfaces_ok:
  assumes ok: "lists_ok h base ys" and o: "orig \<in> set ys" and a: "a \<notin> set ys"
  obtains h' base' where "commit_interfaces a orig (h, base) = (h', base')" "lists_ok h' base' ys" "touches (set ys) h h'"
    "\<forall>c\<in>set ys. set (Interfaces (h' ! c)) = (if c = orig then set (Interfaces (h ! a))
       else set (Interfaces (h ! c)) - set (Interfaces (h ! a)))"
proof -
  obtain h1 base1 where u: "fold (\<lambda>iface s. if ifs_Has (Interfaces (fst s ! a)) iface then s
        else UnassignInterface (Some orig) iface s) (Interfaces (h ! orig)) (h, base) = (h1, base1)"
      "lists_ok h1 base1 ys" "touches (set ys) h h1"
      "\<forall>c\<in>set ys. set (Interfaces (h1 ! c)) = set (Interfaces (h ! c)) - (set (Interfaces (h ! orig)) - set (Interfaces (h ! a)))"
    using unassign_loop [OF ok o a lists_ok_distinct [OF ok o] subset_refl] by blast
  obtain h' base' where r: "fold (\<lambda>iface s. if ifs_Has (Interfaces (fst s ! orig)) iface then s
        else AssignInterface orig iface s) (Interfaces (h1 ! a)) (h1, base1) = (h', base')"
      "lists_ok h' base' ys" "touches (set ys) h1 h'"
      "\<forall>c\<in>set ys. set (Interfaces (h' ! c)) = (if c = orig then set (Interfaces (h1 ! c)) \<union> set (Interfaces (h1 ! a))
        else set (Interfaces (h1 ! c)) - set (Interfaces (h1 ! a)))"
    using assign_loop [OF u(2) o, of "Interfaces (h1 ! a)"] by blast
  have at_a: "h1 ! a = h ! a" by (rule touches_other [OF u(3) a])
  have ifs: "set (Interfaces (h' ! c)) = (if c = orig then set (Interfaces (h ! a))
       else set (Interfaces (h ! c)) - set (Interfaces (h ! a)))" if c: "c \<in> set ys" for c
    using r(4) u(4) c at_a lists_ok_same_interface [OF ok c o] by auto
  moreover have "touches (set ys) h h'" using touches_trans [OF u(3) r(3)] by simp
  moreover have "commit_interfaces a orig (h, base) = (h', base')"
    using u(1) r(1) by (simp add: commit_interfaces_def Let_def)
  ultimately show thesis using that r(2) by blast
qed

section \<open>Merging one list\<close>

lemma configured_Some:
  assumes ok: "lists_ok h crls ys"
  shows "configured h crls x = Some R \<longleftrightarrow> (\<exists>b\<in>set ys. Rules (h ! b) = R \<and> x \<in> set (Interfaces (h ! b)))"
  using configured_iff [OF ok] configured_member [OF ok, of x R] by metis

lemma option_eq_iff: "(\<And>R. f = Some R \<longleftrightarrow> g = Some R) \<Longrightarrow> f = g"
  by (metis not_Some_eq)

text \<open>What the user of the cache keeps in \<^verbatim>\<open>Private\<close> of every list that has interfaces.\<close>

definition private_ok :: "(string \<Rightarrow> contiv_rule list option \<Rightarrow> 'p option \<Rightarrow> bool) \<Rightarrow> 'p heap \<Rightarrow> nat set \<Rightarrow> bool" where
  "private_ok Q h Y \<longleftrightarrow>
     (\<forall>b\<in>Y. Interfaces (h ! b) \<noteq> [] \<longrightarrow> Q (list_ID (h ! b)) (Rules (h ! b)) (Private (h ! b)))"

text \<open>
  The effect of merging the list \<open>a\<close>: its interfaces have its rules; other interfaces keep theirs,
  unless they had the rules of \<open>a\<close>.
\<close>

definition merged :: "nat \<Rightarrow> 'p heap \<times> rule_lists \<Rightarrow> nat list \<Rightarrow> 'p heap \<times> rule_lists \<Rightarrow> nat list \<Rightarrow> bool" where
  "merged a s ys s' ys' \<longleftrightarrow>
     (case (s, s') of ((h, base), (h', base')) \<Rightarrow>
        lists_ok h' base' ys' \<and> set ys \<subseteq> set ys' \<and> set ys' \<subseteq> insert a (set ys) \<and> length h' = length h \<and>
        (\<forall>c. c \<notin> set ys \<longrightarrow> h' ! c = h ! c) \<and>
        (\<forall>c. list_ID (h' ! c) = list_ID (h ! c) \<and> Rules (h' ! c) = Rules (h ! c)) \<and>
        (\<forall>x\<in>set (Interfaces (h ! a)). configured h' base' x = Some (Rules (h ! a))) \<and>
        (\<forall>x. x \<notin> set (Interfaces (h ! a)) \<longrightarrow>
           configured h' base' x = configured h base x \<or> configured h base x = Some (Rules (h ! a))))"

lemma merged_unchanged:
  assumes ok: "lists_ok h base ys"
    and "Interfaces (h ! a) = [] \<or> (\<exists>b\<in>set ys. Rules (h ! b) = Rules (h ! a) \<and> set (Interfaces (h ! b)) = set (Interfaces (h ! a)))"
  shows "merged a (h, base) ys (h, base) ys"
  using assms configured_Some [OF ok] by (auto simp: merged_def)

lemma merged_insert:
  assumes ok: "lists_ok h base ys" and a: "a \<notin> set ys" "a < length h" "distinct (Interfaces (h ! a))"
    and new: "\<forall>b\<in>set ys. Rules (h ! b) \<noteq> Rules (h ! a)" "\<forall>b\<in>set ys. list_ID (h ! b) \<noteq> list_ID (h ! a)"
    and Q: "private_ok Q h (insert a (set ys))"
  obtains s' ys' where "map_option fst (lists_Insert a (h, base)) = Some s'" "merged a (h, base) ys s' ys'"
    "private_ok Q (fst s') (set ys')"
proof -
  obtain h' base' ys' where r: "lists_Insert a (h, base) = Some ((h', base'), True)"
    "lists_ok h' base' ys'" "set ys' = insert a (set ys)" "touches (set ys) h h'"
    "\<forall>c\<in>set ys. set (Interfaces (h' ! c)) = set (Interfaces (h ! c)) - set (Interfaces (h ! a))"
    by (rule lists_Insert_ok [OF ok a new]) blast
  note fields = touches_fields [OF r(4)]
  have at_a: "h' ! a = h ! a" by (rule touches_other [OF r(4) a(1)])
  have "configured h' base' x = configured h base x" if "x \<notin> set (Interfaces (h ! a))" for x
    by (rule option_eq_iff)
       (use that r(3,5) at_a in \<open>auto simp: configured_Some [OF r(2)] configured_Some [OF ok] fields\<close>)
  moreover have "configured h' base' x = Some (Rules (h ! a))" if "x \<in> set (Interfaces (h ! a))" for x
    using that at_a by (auto simp: configured_Some [OF r(2)] r(3))
  ultimately have "merged a (h, base) ys (h', base') ys'"
    using r(2,3) touches_length [OF r(4)] touches_other [OF r(4)] fields by (auto simp: merged_def)
  moreover have "private_ok Q h' (set ys')"
    unfolding private_ok_def
  proof (intro ballI impI)
    fix b assume b: "b \<in> set ys'" "Interfaces (h' ! b) \<noteq> []"
    then have "Interfaces (h ! b) \<noteq> []" using at_a r(3,5) by (cases "b = a") (auto simp: set_empty [symmetric] simp del: set_empty)
    then show "Q (list_ID (h' ! b)) (Rules (h' ! b)) (Private (h' ! b))"
      using Q b(1) r(3) by (auto simp: private_ok_def fields)
  qed
  ultimately show thesis using that [of "(h', base')" ys'] r(1) by simp
qed

lemma merged_interfaces:
  assumes ok: "lists_ok h base ys" and a: "a \<notin> set ys" and o: "orig \<in> set ys"
    and same: "Rules (h ! orig) = Rules (h ! a)" "list_ID (h ! orig) = list_ID (h ! a)" and ne: "Interfaces (h ! a) \<noteq> []"
    and Q: "private_ok Q h (insert a (set ys))"
  obtains h1 base1 h' where "commit_interfaces a orig (h, base) = (h1, base1)"
    "h' = heap_modify orig (Private_update (\<lambda>_. Private (h1 ! a))) h1"
    "merged a (h, base) ys (h', base1) ys" "private_ok Q h' (set ys)"
proof -
  obtain h1 base1 where r: "commit_interfaces a orig (h, base) = (h1, base1)" "lists_ok h1 base1 ys" "touches (set ys) h h1"
    "\<forall>c\<in>set ys. set (Interfaces (h1 ! c)) = (if c = orig then set (Interfaces (h ! a))
       else set (Interfaces (h ! c)) - set (Interfaces (h ! a)))"
    by (rule commit_interfaces_ok [OF ok o a]) blast
  define h' where "h' = heap_modify orig (Private_update (\<lambda>_. Private (h1 ! a))) h1"
  have at_a: "h1 ! a = h ! a" by (rule touches_other [OF r(3) a])
  have nth: "h' ! c = (if c = orig then (h1 ! c)\<lparr>Private := Private (h ! a)\<rparr> else h1 ! c)" for c
    using lists_ok_bound [OF r(2) o] at_a by (simp add: h'_def heap_modify_def)
  have len: "length h' = length h" using touches_length [OF r(3)] by (simp add: h'_def heap_modify_def)
  have ok': "lists_ok h' base1 ys"
    by (rule lists_ok_heap_cong [OF r(2)]) (simp_all add: nth len touches_length [OF r(3)])
  have fields: "list_ID (h' ! c) = list_ID (h ! c)" "Rules (h' ! c) = Rules (h ! c)" for c
    using touches_fields [OF r(3)] by (simp_all add: nth)
  have ifs: "set (Interfaces (h' ! c)) = (if c = orig then set (Interfaces (h ! a))
       else set (Interfaces (h ! c)) - set (Interfaces (h ! a)))" if "c \<in> set ys" for c
    using r(4) that by (auto simp: nth)
  have conf: "configured h' base1 x = configured h base x \<or> configured h base x = Some (Rules (h ! a))"
    if x: "x \<notin> set (Interfaces (h ! a))" for x
  proof (cases "x \<in> set (Interfaces (h ! orig))")
    case True
    then show ?thesis using o same(1) configured_Some [OF ok] by blast
  next
    case False
    have "x \<in> set (Interfaces (h' ! c)) \<longleftrightarrow> x \<in> set (Interfaces (h ! c))" if "c \<in> set ys" for c
      using ifs [OF that] x False by auto
    then have "configured h' base1 x = configured h base x"
      by (intro option_eq_iff) (auto simp: configured_Some [OF ok'] configured_Some [OF ok] fields)
    then show ?thesis by simp
  qed
  have "merged a (h, base) ys (h', base1) ys"
    unfolding merged_def prod.case
  proof (intro conjI allI impI ballI)
    show "h' ! c = h ! c" if "c \<notin> set ys" for c
      using that o touches_other [OF r(3), of c] by (auto simp: nth)
    show "configured h' base1 x = Some (Rules (h ! a))" if "x \<in> set (Interfaces (h ! a))" for x
      using that o ifs [OF o] same(1) by (auto simp: configured_Some [OF ok'] fields)
  qed (use ok' len fields conf in auto)
  moreover have "private_ok Q h' (set ys)"
    unfolding private_ok_def
  proof (intro ballI impI)
    fix b assume b: "b \<in> set ys" "Interfaces (h' ! b) \<noteq> []"
    show "Q (list_ID (h' ! b)) (Rules (h' ! b)) (Private (h' ! b))"
    proof (cases "b = orig")
      case True
      then show ?thesis using Q ne same touches_fields [OF r(3), of orig] by (simp add: private_ok_def nth)
    next
      case False
      have "set (Interfaces (h ! b)) \<noteq> {}" using b ifs [OF b(1)] False by (auto simp flip: set_empty)
      then show ?thesis using Q b(1) False touches_fields [OF r(3)] by (simp add: private_ok_def fields nth)
    qed
  qed
  ultimately show thesis using that r(1) h'_def by blast
qed

lemma commit_list_ok:
  assumes ok: "lists_ok h base ys" and a: "a \<notin> set ys" "a < length h" "distinct (Interfaces (h ! a))"
    and ids: "\<forall>b\<in>set ys. list_ID (h ! a) = list_ID (h ! b) \<longleftrightarrow> Rules (h ! a) = Rules (h ! b)"
    and Q: "private_ok Q h (insert a (set ys))"
  obtains s' ys' where "commit_list a (h, base) = Some s'" "merged a (h, base) ys s' ys'" "private_ok Q (fst s') (set ys')"
proof (cases "byID base (list_ID (h ! a))")
  case None
  then have new: "\<forall>b\<in>set ys. list_ID (h ! b) \<noteq> list_ID (h ! a)" using lists_ok_byID_None [OF ok] by blast
  then have rules: "\<forall>b\<in>set ys. Rules (h ! b) \<noteq> Rules (h ! a)" using ids by metis
  show thesis
  proof (cases "Interfaces (h ! a) = []")
    case True
    then show thesis
      using that [of "(h, base)" ys] None merged_unchanged [OF ok, of a] Q
      by (simp add: commit_list_def lists_LookupByID_def private_ok_def)
  next
    case False
    have "commit_list a (h, base) = map_option fst (lists_Insert a (h, base))"
      using False None by (simp add: commit_list_def lists_LookupByID_def)
    then show thesis using merged_insert [OF ok a rules new Q] that by metis
  qed
next
  case (Some orig)
  then have o: "orig \<in> set ys" "list_ID (h ! orig) = list_ID (h ! a)" using lists_ok_byID [OF ok] by simp_all
  then have same: "Rules (h ! orig) = Rules (h ! a)" using ids by metis
  have Q': "private_ok Q h (set ys)" using Q by (simp add: private_ok_def)
  note eq = ifs_Equals_iff [OF a(3) lists_ok_distinct [OF ok o(1)]]
  consider (empty) "Interfaces (h ! a) = []"
    | (equal) "Interfaces (h ! a) \<noteq> []" "set (Interfaces (h ! a)) = set (Interfaces (h ! orig))"
    | (differ) "Interfaces (h ! a) \<noteq> []" "set (Interfaces (h ! a)) \<noteq> set (Interfaces (h ! orig))" by blast
  then show thesis
  proof cases
    case empty
    then show thesis
      using that [of "(h, base)" ys] Some Q' lists_Remove_other [OF ok a(1)] merged_unchanged [OF ok, of a]
      by (simp add: commit_list_def lists_LookupByID_def)
  next
    case equal
    then have "merged a (h, base) ys (h, base) ys" using merged_unchanged [OF ok, of a] o(1) same by auto
    with equal show thesis
      using that [of "(h, base)" ys] Some Q' eq by (simp add: commit_list_def lists_LookupByID_def)
  next
    case differ
    obtain h1 base1 h' where r: "commit_interfaces a orig (h, base) = (h1, base1)"
      "h' = heap_modify orig (Private_update (\<lambda>_. Private (h1 ! a))) h1"
      "merged a (h, base) ys (h', base1) ys" "private_ok Q h' (set ys)"
      by (rule merged_interfaces [OF ok a(1) o(1) same o(2) differ(1) Q])
    then show thesis
      using that [of "(h', base1)" ys] Some differ eq by (simp add: commit_list_def lists_LookupByID_def)
  qed
qed

section \<open>The whole transaction\<close>

text \<open>
  The invariant of the loop, for the lists \<open>zs\<close> that are still to be merged and the configuration \<open>T\<close>
  that is to be reached: an interface that does not have its rules yet is one of such a list.
\<close>

definition commit_inv ::
  "(string \<Rightarrow> contiv_rule list option \<Rightarrow> 'p option \<Rightarrow> bool) \<Rightarrow> (string \<rightharpoonup> contiv_rule list option) \<Rightarrow>
   'p heap \<times> rule_lists \<Rightarrow> nat list \<Rightarrow> nat list \<Rightarrow> bool" where
  "commit_inv Q T s ys zs \<longleftrightarrow>
     (case s of (h, base) \<Rightarrow>
        lists_ok h base ys \<and> private_ok Q h (set ys \<union> set zs) \<and> distinct zs \<and>
        (\<forall>a\<in>set zs. a \<notin> set ys \<and> a < length h \<and> distinct (Interfaces (h ! a))) \<and>
        (\<forall>a\<in>set zs. \<forall>x. x \<in> set (Interfaces (h ! a)) \<longleftrightarrow> T x = Some (Rules (h ! a))) \<and>
        (\<forall>a\<in>set zs. \<forall>b\<in>set ys \<union> set zs. list_ID (h ! a) = list_ID (h ! b) \<longleftrightarrow> Rules (h ! a) = Rules (h ! b)) \<and>
        (\<forall>x. configured h base x = T x \<or> (\<exists>a\<in>set zs. T x = Some (Rules (h ! a)))))"

lemma commit_inv_parts:
  assumes "commit_inv Q T (h, base) ys zs"
  shows "lists_ok h base ys" "private_ok Q h (set ys \<union> set zs)" "distinct zs"
    "a \<in> set zs \<Longrightarrow> a \<notin> set ys \<and> a < length h \<and> distinct (Interfaces (h ! a))"
    "a \<in> set zs \<Longrightarrow> x \<in> set (Interfaces (h ! a)) \<longleftrightarrow> T x = Some (Rules (h ! a))"
    "a \<in> set zs \<Longrightarrow> b \<in> set ys \<union> set zs \<Longrightarrow> list_ID (h ! a) = list_ID (h ! b) \<longleftrightarrow> Rules (h ! a) = Rules (h ! b)"
    "configured h base x = T x \<or> (\<exists>a\<in>set zs. T x = Some (Rules (h ! a)))"
  using assms unfolding commit_inv_def prod.case by (simp_all del: Un_iff)

lemma commit_inv_step:
  assumes inv: "commit_inv Q T (h, base) ys (a # zs)"
  obtains h' base' ys' where "commit_list a (h, base) = Some (h', base')" "commit_inv Q T (h', base') ys' zs"
    "set ys \<subseteq> set ys'" "set ys' \<subseteq> insert a (set ys)"
    "\<forall>c. list_ID (h' ! c) = list_ID (h ! c) \<and> Rules (h' ! c) = Rules (h ! c)"
proof -
  note ok = commit_inv_parts(1) [OF inv] and Q = commit_inv_parts(2) [OF inv] and dist = commit_inv_parts(3) [OF inv]
    and zs = commit_inv_parts(4) [OF inv] and T = commit_inv_parts(5) [OF inv] and ids = commit_inv_parts(6) [OF inv]
    and conf = commit_inv_parts(7) [OF inv]
  have a: "a \<notin> set ys" "a < length h" "distinct (Interfaces (h ! a))" using zs [of a] by simp_all
  have Q1: "private_ok Q h (insert a (set ys))" using Q by (simp add: private_ok_def)
  have ids1: "\<forall>b\<in>set ys. list_ID (h ! a) = list_ID (h ! b) \<longleftrightarrow> Rules (h ! a) = Rules (h ! b)" using ids [of a] by simp
  obtain s' ys' where r: "commit_list a (h, base) = Some s'" "merged a (h, base) ys s' ys'" "private_ok Q (fst s') (set ys')"
    by (rule commit_list_ok [OF ok a ids1 Q1])
  obtain h' base' where s': "s' = (h', base')" by (cases s')
  have m: "lists_ok h' base' ys'" "set ys \<subseteq> set ys'" "set ys' \<subseteq> insert a (set ys)" "length h' = length h"
    "\<And>c. c \<notin> set ys \<Longrightarrow> h' ! c = h ! c" "\<And>c. list_ID (h' ! c) = list_ID (h ! c) \<and> Rules (h' ! c) = Rules (h ! c)"
    "\<And>x. x \<in> set (Interfaces (h ! a)) \<Longrightarrow> configured h' base' x = Some (Rules (h ! a))"
    "\<And>x. x \<notin> set (Interfaces (h ! a)) \<Longrightarrow>
       configured h' base' x = configured h base x \<or> configured h base x = Some (Rules (h ! a))"
    using r(2) by (simp_all add: merged_def s')
  have at: "h' ! c = h ! c" if "c \<in> set zs" for c using m(5) zs that by simp
  have "commit_inv Q T (h', base') ys' zs"
    unfolding commit_inv_def prod.case
  proof (intro conjI)
    have "private_ok Q h' (set zs)" using Q at by (simp add: private_ok_def)
    with r(3) show "private_ok Q h' (set ys' \<union> set zs)" by (auto simp: private_ok_def s')
    show "\<forall>c\<in>set zs. c \<notin> set ys' \<and> c < length h' \<and> distinct (Interfaces (h' ! c))"
      using zs m(3,4) at dist by auto
    show "\<forall>c\<in>set zs. \<forall>x. x \<in> set (Interfaces (h' ! c)) \<longleftrightarrow> T x = Some (Rules (h' ! c))" using T at by simp
    show "\<forall>c\<in>set zs. \<forall>b\<in>set ys' \<union> set zs. list_ID (h' ! c) = list_ID (h' ! b) \<longleftrightarrow> Rules (h' ! c) = Rules (h' ! b)"
    proof (intro ballI)
      fix c b assume "c \<in> set zs" "b \<in> set ys' \<union> set zs"
      then have "c \<in> set (a # zs)" "b \<in> set ys \<union> set (a # zs)" using m(3) by auto
      then show "list_ID (h' ! c) = list_ID (h' ! b) \<longleftrightarrow> Rules (h' ! c) = Rules (h' ! b)"
        using ids [of c b] m(6) [of c] m(6) [of b] by simp
    qed
    show "\<forall>x. configured h' base' x = T x \<or> (\<exists>c\<in>set zs. T x = Some (Rules (h' ! c)))"
    proof
      fix x
      show "configured h' base' x = T x \<or> (\<exists>c\<in>set zs. T x = Some (Rules (h' ! c)))"
        using conf [of x] m(7,8) [of x] T [of a x] at by (cases "x \<in> set (Interfaces (h ! a))") auto
    qed
  qed (use m(1) dist in simp_all)
  with that r(1) s' m(2,3,6) show thesis by simp
qed

lemma commit_run:
  "commit_inv Q T (h, base) ys zs \<Longrightarrow>
   \<exists>h' base' ys'. commit (map Some zs) (h, base) = Some (h', base') \<and> commit_inv Q T (h', base') ys' [] \<and>
     set ys \<subseteq> set ys' \<and> set ys' \<subseteq> set ys \<union> set zs \<and>
     (\<forall>c. list_ID (h' ! c) = list_ID (h ! c) \<and> Rules (h' ! c) = Rules (h ! c))"
proof (induction zs arbitrary: h base ys)
  case Nil
  then show ?case by auto
next
  case (Cons a zs)
  obtain h1 base1 ys1 where s: "commit_list a (h, base) = Some (h1, base1)" "commit_inv Q T (h1, base1) ys1 zs"
    "set ys \<subseteq> set ys1" "set ys1 \<subseteq> insert a (set ys)"
    "\<forall>c. list_ID (h1 ! c) = list_ID (h ! c) \<and> Rules (h1 ! c) = Rules (h ! c)"
    by (rule commit_inv_step [OF Cons.prems])
  obtain h' base' ys' where r: "commit (map Some zs) (h1, base1) = Some (h', base')" "commit_inv Q T (h', base') ys' []"
    "set ys1 \<subseteq> set ys'" "set ys' \<subseteq> set ys1 \<union> set zs"
    "\<forall>c. list_ID (h' ! c) = list_ID (h1 ! c) \<and> Rules (h' ! c) = Rules (h1 ! c)"
    using Cons.IH [OF s(2)] by blast
  have "commit (map Some (a # zs)) (h, base) = Some (h', base')" using s(1) r(1) by simp
  moreover have "set ys \<subseteq> set ys'" "set ys' \<subseteq> set ys \<union> set (a # zs)" using s(3,4) r(3,4) by auto
  ultimately show ?case using r(2,5) s(5) by auto
qed

text \<open>The user of the cache may have changed \<^verbatim>\<open>Private\<close> of the lists before the commit.\<close>

definition private_only :: "'p heap \<Rightarrow> 'p heap \<Rightarrow> bool" where
  "private_only h h1 \<longleftrightarrow> length h1 = length h \<and>
     (\<forall>c. list_ID (h1 ! c) = list_ID (h ! c) \<and> Rules (h1 ! c) = Rules (h ! c) \<and> Interfaces (h1 ! c) = Interfaces (h ! c))"

lemma private_only_refl: "private_only h h"
  by (simp add: private_only_def)

lemma private_only_trans: "private_only h h1 \<Longrightarrow> private_only h1 h2 \<Longrightarrow> private_only h h2"
  by (simp add: private_only_def)

lemma private_only_configured: "private_only h h1 \<Longrightarrow> configured h1 base = configured h base"
  by (auto simp: private_only_def configured_def fun_eq_iff)

lemma commit_inv_start:
  assumes ok: "head_ok d h base head ys zs upd alloc" and po: "private_only h h1"
    and Q: "private_ok Q h1 (set ys \<union> set zs)"
  shows "commit_inv Q (configured h base ++ upd) (h1, base) ys zs"
proof -
  note hd = head_ok_head [OF ok]
  have same: "list_ID (h1 ! c) = list_ID (h ! c)" "Rules (h1 ! c) = Rules (h ! c)" "Interfaces (h1 ! c) = Interfaces (h ! c)"
      "length h1 = length h" for c
    using po by (simp_all add: private_only_def)
  have base: "lists_ok h1 base ys"
    by (rule lists_ok_heap_cong [OF head_ok_base [OF ok]]) (simp_all add: same)
  have ids: "list_ID (h ! a) = list_ID (h ! b) \<longleftrightarrow> Rules (h ! a) = Rules (h ! b)" if "a \<in> set zs" "b \<in> set zs" for a b
    using that lists_ok_same_rules [OF hd that] lists_ok_byID [OF hd] by (metis option.inject)
  have conf: "configured h1 base x = (configured h base ++ upd) x \<or>
      (\<exists>a\<in>set zs. (configured h base ++ upd) x = Some (Rules (h1 ! a)))" for x
    using head_ok_updated [OF ok, of x] private_only_configured [OF po]
    by (cases "upd x") (auto simp: map_add_def same)
  show ?thesis
    unfolding commit_inv_def prod.case
    using ids conf Q base lists_ok_inj(1) [OF hd] head_ok_disjoint [OF ok] lists_ok_bound [OF hd]
      lists_ok_distinct [OF hd] head_ok_interfaces [OF ok] head_ok_ids [OF ok]
    by (intro conjI ballI allI) (auto simp: same)
qed

lemma commit_ok:
  assumes ok: "head_ok d h base head ys zs upd alloc" and po: "private_only h h1"
    and Q: "private_ok Q h1 (set ys \<union> set zs)"
  obtains h' base' ys' where "commit (fst (ruleLists head)) (h1, base) = Some (h', base')" "lists_ok h' base' ys'"
    "configured h' base' = configured h base ++ upd" "private_ok Q h' (set ys')"
    "set ys \<subseteq> set ys'" "set ys' \<subseteq> set ys \<union> set zs"
    "\<forall>c. list_ID (h' ! c) = list_ID (h ! c) \<and> Rules (h' ! c) = Rules (h ! c)"
proof -
  have "fst (ruleLists head) = map Some zs" by (rule packed_array [OF head_ok_packed [OF ok] head_ok_head [OF ok]])
  then obtain h' base' ys' where r: "commit (fst (ruleLists head)) (h1, base) = Some (h', base')"
    "commit_inv Q (configured h base ++ upd) (h', base') ys' []" "set ys \<subseteq> set ys'" "set ys' \<subseteq> set ys \<union> set zs"
    "\<forall>c. list_ID (h' ! c) = list_ID (h1 ! c) \<and> Rules (h' ! c) = Rules (h1 ! c)"
    using commit_run [OF commit_inv_start [OF ok po Q]] by auto
  have "configured h' base' = configured h base ++ upd" using r(2) by (auto simp: commit_inv_def)
  with r po show thesis using that [of h' base' ys'] by (simp add: commit_inv_def private_only_def)
qed

section \<open>Transactions on the whole cache\<close>

text \<open>A sequence of updates, each with the ingress and the egress rules, as the renderer issues them.\<close>

type_synonym update = "string \<times> contiv_rule list option \<times> contiv_rule list option"

fun txn_updates :: "(nat \<Rightarrow> 8 word list) \<Rightarrow> update list \<Rightarrow> 'p rule_cache \<times> rule_txn \<Rightarrow> ('p rule_cache \<times> rule_txn) option" where
  "txn_updates rnd [] s = Some s"
| "txn_updates rnd ((ifName, ingress, egress) # us) s = txn_Update rnd ifName ingress egress s \<bind> txn_updates rnd us"

primrec pick :: "traffic_direction \<Rightarrow> 'a \<times> 'a \<Rightarrow> 'a" where
  "pick Ingress p = fst p"
| "pick Egress p = snd p"

text \<open>The rules of an interface according to \<^verbatim>\<open>LookupByInterface\<close>, and according to a sequence of updates.\<close>

definition rules_of :: "'p rule_cache \<Rightarrow> traffic_direction \<Rightarrow> string \<rightharpoonup> contiv_rule list option" where
  "rules_of crc d x = map_option Rules (pick d (cache_LookupByInterface crc x))"

definition last_update :: "traffic_direction \<Rightarrow> update list \<Rightarrow> string \<rightharpoonup> contiv_rule list option" where
  "last_update d us = map_of (rev (map (\<lambda>(x, p). (x, pick d p)) us))"

definition cache_ok :: "'p rule_cache \<Rightarrow> bool" where
  "cache_ok crc \<longleftrightarrow> (\<forall>d. \<exists>ys. side_ok d (cache_side_of crc d) ys)"

lemma rules_of_configured:
  "rules_of crc d = configured (side_heap (cache_side_of crc d)) (side_lists (cache_side_of crc d))"
  by (cases d) (auto simp: rules_of_def cache_LookupByInterface_def configured_def lists_LookupByInterface_def
    Let_def option.map_comp comp_def fun_eq_iff)

lemma last_update_Nil: "last_update d [] = Map.empty"
  by (simp add: last_update_def)

lemma last_update_snoc: "last_update d (us @ [(x, p)]) = (last_update d us)(x \<mapsto> pick d p)"
  by (simp add: last_update_def)

text \<open>One direction of a transaction in progress, started on \<open>sd0\<close>, after \<open>n\<close> updates.\<close>

definition txn_side_ok ::
  "traffic_direction \<Rightarrow> 'p cache_side \<Rightarrow> nat list \<Rightarrow> 'p cache_side \<times> rule_lists \<Rightarrow> (string \<rightharpoonup> contiv_rule list option) \<Rightarrow> nat \<Rightarrow> bool" where
  "txn_side_ok d sd0 ys s upd n \<longleftrightarrow>
     (case s of (sd, head) \<Rightarrow>
        (\<exists>zs. head_ok d (side_heap sd) (side_lists sd) head ys zs upd (allocatedListIDs sd)) \<and>
        keeps_base ys sd0 sd \<and> length (allocatedListIDs sd) \<le> length (allocatedListIDs sd0) + n)"

definition txn_ok :: "'p rule_cache \<Rightarrow> (traffic_direction \<Rightarrow> nat list) \<Rightarrow> update list \<Rightarrow> 'p rule_cache \<times> rule_txn \<Rightarrow> bool" where
  "txn_ok crc0 ys us s \<longleftrightarrow>
     (\<forall>d. txn_side_ok d (cache_side_of crc0 d) (ys d) (cache_side_of (fst s) d, txn_lists (snd s) d) (last_update d us) (length us))"

lemma update_direction_ok:
  assumes ok: "txn_side_ok d sd0 ys (cache_side_of crc d, txn_lists txn d) upd n"
    and fresh: "fresh_bytes rnd" "length (allocatedListIDs sd0) + n < 2 ^ 40"
  obtains sd head pos where "update_direction rnd x R d (crc, txn) =
      Some (crc\<lparr>cache_side_of := (cache_side_of crc)(d := sd), rand_pos := pos\<rparr>, txn\<lparr>txn_lists := (txn_lists txn)(d := head)\<rparr>)"
    "txn_side_ok d sd0 ys (sd, head) (upd(x \<mapsto> R)) (Suc n)"
proof -
  define sd1 where "sd1 = cache_side_of crc d"
  obtain zs where h: "head_ok d (side_heap sd1) (side_lists sd1) (txn_lists txn d) ys zs upd (allocatedListIDs sd1)"
    and k: "keeps_base ys sd0 sd1" and len: "length (allocatedListIDs sd1) \<le> length (allocatedListIDs sd0) + n"
    using ok by (auto simp: txn_side_ok_def sd1_def)
  have "length (allocatedListIDs sd1) < 2 ^ 40" using len fresh(2) by linarith
  from updateInterface_ok [OF h fresh(1) this, of x R "rand_pos crc"]
  obtain sd head pos zs' where r: "updateInterface rnd x R d (sd1, txn_lists txn d) (rand_pos crc) = Some ((sd, head), pos)"
    "head_ok d (side_heap sd) (side_lists sd) head ys zs' (upd(x \<mapsto> R)) (allocatedListIDs sd)"
    "keeps_base ys sd1 sd" "length (allocatedListIDs sd) \<le> Suc (length (allocatedListIDs sd1))" by metis
  have "txn_side_ok d sd0 ys (sd, head) (upd(x \<mapsto> R)) (Suc n)"
    using r(2-4) len keeps_base_trans [OF k r(3)] by (auto simp: txn_side_ok_def)
  with r(1) that show thesis by (simp add: update_direction_def sd1_def)
qed

lemma txn_side_ok_Suc: "txn_side_ok d sd0 ys s upd n \<Longrightarrow> txn_side_ok d sd0 ys s upd (Suc n)"
  by (auto simp: txn_side_ok_def)

lemma txn_Update_ok:
  assumes ok: "txn_ok crc0 ys us (crc, txn)"
    and fresh: "fresh_bytes rnd" "\<forall>d. length (allocatedListIDs (cache_side_of crc0 d)) + length us < 2 ^ 40"
  obtains s' where "txn_Update rnd x ingress egress (crc, txn) = Some s'"
    "txn_ok crc0 ys (us @ [(x, ingress, egress)]) s'"
    "cache_interfaces (fst s') = cache_interfaces crc" "txn_interfaces (snd s') = ifs_Add x (txn_interfaces txn)"
proof -
  define txn0 where "txn0 = txn\<lparr>txn_interfaces := ifs_Add x (txn_interfaces txn)\<rparr>"
  have ok0: "txn_side_ok d (cache_side_of crc0 d) (ys d) (cache_side_of crc d, txn_lists txn0 d) (last_update d us) (length us)" for d
    using ok by (simp add: txn_ok_def txn0_def)
  obtain sdi headi posi where i: "update_direction rnd x ingress Ingress (crc, txn0) =
      Some (crc\<lparr>cache_side_of := (cache_side_of crc)(Ingress := sdi), rand_pos := posi\<rparr>,
            txn0\<lparr>txn_lists := (txn_lists txn0)(Ingress := headi)\<rparr>)"
    "txn_side_ok Ingress (cache_side_of crc0 Ingress) (ys Ingress) (sdi, headi) ((last_update Ingress us)(x \<mapsto> ingress)) (Suc (length us))"
    by (rule update_direction_ok [OF ok0 fresh(1)]) (use fresh(2) in auto)
  define crc1 where "crc1 = crc\<lparr>cache_side_of := (cache_side_of crc)(Ingress := sdi), rand_pos := posi\<rparr>"
  define txn1 where "txn1 = txn0\<lparr>txn_lists := (txn_lists txn0)(Ingress := headi)\<rparr>"
  have ok1: "txn_side_ok Egress (cache_side_of crc0 Egress) (ys Egress) (cache_side_of crc1 Egress, txn_lists txn1 Egress)
      (last_update Egress us) (length us)"
    using ok0 [of Egress] by (simp add: crc1_def txn1_def)
  obtain sde heade pose where e: "update_direction rnd x egress Egress (crc1, txn1) =
      Some (crc1\<lparr>cache_side_of := (cache_side_of crc1)(Egress := sde), rand_pos := pose\<rparr>,
            txn1\<lparr>txn_lists := (txn_lists txn1)(Egress := heade)\<rparr>)"
    "txn_side_ok Egress (cache_side_of crc0 Egress) (ys Egress) (sde, heade) ((last_update Egress us)(x \<mapsto> egress)) (Suc (length us))"
    by (rule update_direction_ok [OF ok1 fresh(1)]) (use fresh(2) in auto)
  define s' where "s' = (crc1\<lparr>cache_side_of := (cache_side_of crc1)(Egress := sde), rand_pos := pose\<rparr>,
            txn1\<lparr>txn_lists := (txn_lists txn1)(Egress := heade)\<rparr>)"
  have "txn_Update rnd x ingress egress (crc, txn) = Some s'"
    using i(1) e(1) by (simp add: txn_Update_def txn0_def [symmetric] crc1_def [symmetric] txn1_def [symmetric] s'_def)
  moreover have "txn_ok crc0 ys (us @ [(x, ingress, egress)]) s'"
    unfolding txn_ok_def
  proof
    fix d
    show "txn_side_ok d (cache_side_of crc0 d) (ys d) (cache_side_of (fst s') d, txn_lists (snd s') d)
        (last_update d (us @ [(x, ingress, egress)])) (length (us @ [(x, ingress, egress)]))"
      using i(2) e(2) by (cases d) (simp_all add: s'_def crc1_def txn1_def last_update_snoc)
  qed
  ultimately show thesis using that by (simp add: s'_def crc1_def txn1_def txn0_def)
qed

lemma txn_updates_ok:
  assumes "txn_ok crc0 ys us0 (crc, txn)" "fresh_bytes rnd"
    and "\<forall>d. length (allocatedListIDs (cache_side_of crc0 d)) + length us0 + length us \<le> 2 ^ 40"
  shows "\<exists>s'. txn_updates rnd us (crc, txn) = Some s' \<and> txn_ok crc0 ys (us0 @ us) s' \<and>
    cache_interfaces (fst s') = cache_interfaces crc \<and>
    set (txn_interfaces (snd s')) = set (txn_interfaces txn) \<union> fst ` set us"
  using assms(1,3)
proof (induction us arbitrary: us0 crc txn)
  case Nil
  then show ?case by simp
next
  case (Cons u us)
  obtain x i e where u: "u = (x, i, e)" by (cases u)
  have "\<forall>d. length (allocatedListIDs (cache_side_of crc0 d)) + length us0 < 2 ^ 40"
  proof
    show "length (allocatedListIDs (cache_side_of crc0 d)) + length us0 < 2 ^ 40" for d
      using Cons.prems(2) [rule_format, of d] by simp
  qed
  then obtain s1 where s1: "txn_Update rnd x i e (crc, txn) = Some s1" "txn_ok crc0 ys (us0 @ [(x, i, e)]) s1"
    "cache_interfaces (fst s1) = cache_interfaces crc" "txn_interfaces (snd s1) = ifs_Add x (txn_interfaces txn)"
    using txn_Update_ok [OF Cons.prems(1) assms(2)] by blast
  then show ?case
    using Cons.IH [of "us0 @ [u]" "fst s1" "snd s1"] Cons.prems(2) u by auto
qed

lemma txn_ok_start:
  assumes "\<And>d. side_ok d (cache_side_of crc d) (ys d)"
  shows "txn_ok crc ys [] (crc, cache_NewTxn)"
  using head_ok_start [OF assms]
  by (auto simp: txn_ok_def txn_side_ok_def cache_NewTxn_def last_update_Nil keeps_base_refl)

lemma commit_direction_ok:
  fixes crc :: "'p rule_cache"
  defines "sd \<equiv> \<lambda>d. cache_side_of crc d"
  assumes ok: "head_ok d h (side_lists (sd d)) (txn_lists txn d) ys zs upd (allocatedListIDs (sd d))"
    and po: "private_only h (side_heap (sd d))" and Q: "private_ok Q (side_heap (sd d)) (set ys \<union> set zs)"
  obtains sd' ys' where "commit_direction d txn crc = Some (crc\<lparr>cache_side_of := (cache_side_of crc)(d := sd')\<rparr>)"
    "side_ok d sd' ys'"
    "configured (side_heap sd') (side_lists sd') = configured (side_heap (sd d)) (side_lists (sd d)) ++ upd"
    "private_ok Q (side_heap sd') (set ys')" "set ys \<subseteq> set ys'" "set ys' \<subseteq> set ys \<union> set zs"
    "\<forall>c. list_ID (side_heap sd' ! c) = list_ID (side_heap (sd d) ! c) \<and> Rules (side_heap sd' ! c) = Rules (side_heap (sd d) ! c)"
proof -
  obtain h' base' ys' where r: "commit (fst (ruleLists (txn_lists txn d))) (side_heap (sd d), side_lists (sd d)) = Some (h', base')"
    "lists_ok h' base' ys'" "configured h' base' = configured h (side_lists (sd d)) ++ upd"
    "private_ok Q h' (set ys')" "set ys \<subseteq> set ys'" "set ys' \<subseteq> set ys \<union> set zs"
    "\<forall>c. list_ID (h' ! c) = list_ID (h ! c) \<and> Rules (h' ! c) = Rules (h ! c)"
    by (rule commit_ok [OF ok po Q])
  define sd' where "sd' = (sd d)\<lparr>side_heap := h', side_lists := base'\<rparr>"
  have "\<exists>s\<in>set (allocatedListIDs (sd d)). list_ID (h' ! b) = id_prefix d @ s" if "b \<in> set ys'" for b
    using head_ok_allocated [OF ok, of b] r(6,7) that by auto
  then have "side_ok d sd' ys'" using r(2) by (simp add: side_ok_def sd'_def)
  moreover have "commit_direction d txn crc = Some (crc\<lparr>cache_side_of := (cache_side_of crc)(d := sd')\<rparr>)"
    using r(1) by (simp add: commit_direction_def Let_def sd_def sd'_def)
  ultimately show thesis
    using that [of sd' ys'] r(3-7) private_only_configured [OF po] po by (simp add: sd'_def private_only_def)
qed

text \<open>The outcome of a commit: the cache \<open>crc'\<close>, with the lists \<open>ys'\<close>, has the configuration of \<open>crc\<close>
  changed by \<open>upd\<close>.\<close>

definition committed ::
  "(string \<Rightarrow> contiv_rule list option \<Rightarrow> 'p option \<Rightarrow> bool) \<Rightarrow> 'p rule_cache \<Rightarrow> (traffic_direction \<Rightarrow> nat list) \<Rightarrow>
   (traffic_direction \<Rightarrow> nat list) \<Rightarrow> (traffic_direction \<Rightarrow> string \<rightharpoonup> contiv_rule list option) \<Rightarrow>
   'p rule_cache \<Rightarrow> (traffic_direction \<Rightarrow> nat list) \<Rightarrow> bool" where
  "committed Q crc ys zs upd crc' ys' \<longleftrightarrow>
     (\<forall>d. side_ok d (cache_side_of crc' d) (ys' d) \<and> rules_of crc' d = rules_of crc d ++ upd d \<and>
        private_ok Q (side_heap (cache_side_of crc' d)) (set (ys' d)) \<and>
        set (ys d) \<subseteq> set (ys' d) \<and> set (ys' d) \<subseteq> set (ys d) \<union> set (zs d) \<and>
        (\<forall>c. list_ID (side_heap (cache_side_of crc' d) ! c) = list_ID (side_heap (cache_side_of crc d) ! c) \<and>
             Rules (side_heap (cache_side_of crc' d) ! c) = Rules (side_heap (cache_side_of crc d) ! c)))"

lemma txn_Commit_ok:
  assumes ok: "\<And>d. head_ok d (h d) (side_lists (cache_side_of crc d)) (txn_lists txn d)
      (ys d) (zs d) (upd d) (allocatedListIDs (cache_side_of crc d))"
    and po: "\<And>d. private_only (h d) (side_heap (cache_side_of crc d))"
    and Q: "\<And>d. private_ok Q (side_heap (cache_side_of crc d)) (set (ys d) \<union> set (zs d))"
  obtains crc' ys' where "txn_Commit (crc, txn) = Some crc'" "committed Q crc ys zs upd crc' ys'"
    "cache_interfaces crc' = ifs_Join (cache_interfaces crc) (txn_interfaces txn)"
proof -
  obtain sdi ysi where i: "commit_direction Ingress txn crc = Some (crc\<lparr>cache_side_of := (cache_side_of crc)(Ingress := sdi)\<rparr>)"
    "side_ok Ingress sdi ysi"
    "configured (side_heap sdi) (side_lists sdi) =
       configured (side_heap (cache_side_of crc Ingress)) (side_lists (cache_side_of crc Ingress)) ++ upd Ingress"
    "private_ok Q (side_heap sdi) (set ysi)" "set (ys Ingress) \<subseteq> set ysi" "set ysi \<subseteq> set (ys Ingress) \<union> set (zs Ingress)"
    "\<forall>c. list_ID (side_heap sdi ! c) = list_ID (side_heap (cache_side_of crc Ingress) ! c) \<and>
         Rules (side_heap sdi ! c) = Rules (side_heap (cache_side_of crc Ingress) ! c)"
    by (rule commit_direction_ok [OF ok po Q])
  define crc1 where "crc1 = crc\<lparr>cache_side_of := (cache_side_of crc)(Ingress := sdi)\<rparr>"
  have side: "cache_side_of crc1 Egress = cache_side_of crc Egress" by (simp add: crc1_def)
  obtain sde yse where e: "commit_direction Egress txn crc1 = Some (crc1\<lparr>cache_side_of := (cache_side_of crc1)(Egress := sde)\<rparr>)"
    "side_ok Egress sde yse"
    "configured (side_heap sde) (side_lists sde) =
       configured (side_heap (cache_side_of crc Egress)) (side_lists (cache_side_of crc Egress)) ++ upd Egress"
    "private_ok Q (side_heap sde) (set yse)" "set (ys Egress) \<subseteq> set yse" "set yse \<subseteq> set (ys Egress) \<union> set (zs Egress)"
    "\<forall>c. list_ID (side_heap sde ! c) = list_ID (side_heap (cache_side_of crc Egress) ! c) \<and>
         Rules (side_heap sde ! c) = Rules (side_heap (cache_side_of crc Egress) ! c)"
    by (rule commit_direction_ok [where d = Egress and crc = crc1 and txn = txn, unfolded side, OF ok po Q])
  define crc' where "crc' = crc1\<lparr>cache_side_of := (cache_side_of crc1)(Egress := sde),
    cache_interfaces := ifs_Join (cache_interfaces crc1) (txn_interfaces txn)\<rparr>"
  have run: "txn_Commit (crc, txn) = Some crc'"
    using i(1) e(1) by (simp add: txn_Commit_def crc1_def [symmetric] crc'_def)
  have "committed Q crc ys zs upd crc' (\<lambda>d. case d of Ingress \<Rightarrow> ysi | Egress \<Rightarrow> yse)"
    unfolding committed_def
  proof
    fix d
    show "side_ok d (cache_side_of crc' d) (case d of Ingress \<Rightarrow> ysi | Egress \<Rightarrow> yse) \<and>
        rules_of crc' d = rules_of crc d ++ upd d \<and>
        private_ok Q (side_heap (cache_side_of crc' d)) (set (case d of Ingress \<Rightarrow> ysi | Egress \<Rightarrow> yse)) \<and>
        set (ys d) \<subseteq> set (case d of Ingress \<Rightarrow> ysi | Egress \<Rightarrow> yse) \<and>
        set (case d of Ingress \<Rightarrow> ysi | Egress \<Rightarrow> yse) \<subseteq> set (ys d) \<union> set (zs d) \<and>
        (\<forall>c. list_ID (side_heap (cache_side_of crc' d) ! c) = list_ID (side_heap (cache_side_of crc d) ! c) \<and>
             Rules (side_heap (cache_side_of crc' d) ! c) = Rules (side_heap (cache_side_of crc d) ! c))"
      using i(2-7) e(2-7) by (cases d) (simp_all add: crc'_def crc1_def rules_of_configured)
  qed
  with run that show thesis by (simp add: crc'_def crc1_def)
qed

lemma txn_ok_configured:
  assumes "txn_ok crc0 ys us (crc, txn)" "\<And>d. side_ok d (cache_side_of crc0 d) (ys d)"
  shows "rules_of crc d = rules_of crc0 d"
proof -
  have k: "keeps_base (ys d) (cache_side_of crc0 d) (cache_side_of crc d)"
    using assms(1) by (simp add: txn_ok_def txn_side_ok_def)
  have "lists_ok (side_heap (cache_side_of crc0 d)) (side_lists (cache_side_of crc0 d)) (ys d)"
    using assms(2) by (simp add: side_ok_def)
  then show ?thesis
    using k configured_cong [of "side_heap (cache_side_of crc0 d)" "side_lists (cache_side_of crc0 d)" "ys d" "side_heap (cache_side_of crc d)"]
    by (simp add: rules_of_configured keeps_base_def)
qed

lemma cache_ok_Init: "cache_ok (rule_cache_Init pos)"
proof -
  have "side_ok d (cache_side_of (rule_cache_Init pos :: 'p rule_cache) d) []" for d
    by (simp add: rule_cache_Init_def side_ok_def empty_side_def lists_ok_empty)
  then show ?thesis unfolding cache_ok_def by blast
qed

section \<open>A random source that counts\<close>

text \<open>The five bytes of a counter take every value before one is repeated.\<close>

definition counting :: "nat \<Rightarrow> 8 word list" where
  "counting j = map (\<lambda>i. word_of_nat (j div 256 ^ i)) [0..<5]"

lemma upper_hex_inj: "m < 16 \<Longrightarrow> n < 16 \<Longrightarrow> upper_hex m = upper_hex n \<Longrightarrow> m = n"
proof -
  assume "m < 16" "n < 16" "upper_hex m = upper_hex n"
  then have "of_char (upper_hex m) = (of_char (upper_hex n) :: nat)" by simp
  with \<open>m < 16\<close> \<open>n < 16\<close> show "m = n" by (auto simp: upper_hex_def split: if_splits)
qed

lemma Sprintf_X_inj: "Sprintf_X as = Sprintf_X bs \<Longrightarrow> as = bs"
proof (induction as arbitrary: bs)
  case Nil
  then show ?case by (cases bs) (simp_all add: Sprintf_X_def)
next
  case (Cons a as)
  then obtain b bs' where bs: "bs = b # bs'" by (cases bs) (simp_all add: Sprintf_X_def)
  have lt: "unat c div 16 < 16" for c :: "8 word" using unsigned_less [of c, where 'a = nat] by simp
  have "upper_hex (unat a div 16) = upper_hex (unat b div 16)" "upper_hex (unat a mod 16) = upper_hex (unat b mod 16)"
    and rest: "Sprintf_X as = Sprintf_X bs'"
    using Cons.prems bs by (simp_all add: Sprintf_X_def)
  then have "unat a div 16 = unat b div 16" "unat a mod 16 = unat b mod 16"
    using upper_hex_inj lt by (metis mod_less_divisor zero_less_numeral)+
  then have "unat a = unat b" by (metis div_mult_mod_eq)
  with rest Cons.IH bs show ?case by (simp add: word_unat_eq_iff)
qed

lemma digits_mod:
  "(\<And>i. i < n \<Longrightarrow> (j div b ^ i) mod b = (k div b ^ i) mod b) \<Longrightarrow> j mod b ^ n = k mod b ^ n" for j k b :: nat
proof (induction n)
  case (Suc n)
  have "m mod b ^ Suc n = b ^ n * (m div b ^ n mod b) + m mod b ^ n" for m
    using mod_mult2_eq [of m "b ^ n" b] by (simp add: mult.commute)
  then show ?case using Suc by simp
qed simp

lemma counting_mod: "counting j = counting k \<Longrightarrow> j mod 2 ^ 40 = k mod 2 ^ 40"
proof -
  assume eq: "counting j = counting k"
  have "(j div 256 ^ i) mod 256 = (k div 256 ^ i) mod 256" if "i < 5" for i
  proof -
    have "counting j ! i = counting k ! i" using eq by simp
    then have "(word_of_nat (j div 256 ^ i) :: 8 word) = word_of_nat (k div 256 ^ i)"
      using that by (simp add: counting_def)
    then show ?thesis by (simp add: word_of_nat_eq_iff take_bit_eq_mod)
  qed
  from digits_mod [of 5 j 256 k, OF this] show ?thesis by simp
qed

lemma mod_window:
  fixes j k N :: nat
  assumes "j \<le> k" "k < j + N" "j mod N = k mod N"
  shows "j = k"
proof (rule ccontr)
  assume "j \<noteq> k"
  moreover have "N dvd k - j" using mod_eq_dvd_iff_nat [OF assms(1), of N] assms(3) by simp
  ultimately have "N \<le> k - j" using assms(1) by (simp add: dvd_imp_le)
  with assms show False by linarith
qed

lemma fresh_bytes_counting: "fresh_bytes counting"
  unfolding fresh_bytes_def
proof (intro allI impI)
  fix A :: "string set" and pos :: nat
  assume fin: "finite A \<and> card A < 2 ^ 40"
  define N :: nat where "N = 2 ^ 40"
  have A: "finite A" "card A < N" using fin unfolding N_def by blast+
  have mod_N: "j mod N = k mod N" if "Sprintf_X (counting j) = Sprintf_X (counting k)" for j k
    unfolding N_def by (rule counting_mod [OF Sprintf_X_inj [OF that]])
  have "inj_on (\<lambda>j. Sprintf_X (counting j)) {pos..<pos + N}"
  proof (rule inj_onI)
    fix j k assume jk: "j \<in> {pos..<pos + N}" "k \<in> {pos..<pos + N}" and "Sprintf_X (counting j) = Sprintf_X (counting k)"
    then have m: "j mod N = k mod N" by (intro mod_N)
    show "j = k"
    proof (cases "j \<le> k")
      case True
      then show ?thesis using mod_window [OF True _ m] jk by simp
    next
      case False
      then show ?thesis using mod_window [of k j N] m jk by simp
    qed
  qed
  then have "card ((\<lambda>j. Sprintf_X (counting j)) ` {pos..<pos + N}) = N" by (simp add: card_image)
  with A have "\<not> (\<lambda>j. Sprintf_X (counting j)) ` {pos..<pos + N} \<subseteq> A"
    using card_mono [of A "(\<lambda>j. Sprintf_X (counting j)) ` {pos..<pos + N}"] by linarith
  then show "\<exists>j\<ge>pos. Sprintf_X (counting j) \<notin> A" by auto
qed

section \<open>Properties\<close>

text \<open>
  C14: A transaction of the ACL rule cache does what its interface promises. For every sequence of
  updates the transaction can be built and committed without a panic, the invariant of the cache
  is kept, and afterwards \<^verbatim>\<open>LookupByInterface\<close> returns for every updated interface the rules of its
  last update, for every other interface the rules it had before, in both directions. The
  hypotheses are that the random source does not repeat itself for ever and that fewer than
  \<open>2 ^ 40\<close> identifiers have been handed out.
\<close>

theorem acl_txn_commits:
  assumes "cache_ok crc" and "fresh_bytes rnd"
    and "\<forall>d. length (allocatedListIDs (cache_side_of crc d)) + length us \<le> 2 ^ 40"
  shows "\<exists>s crc'. txn_updates rnd us (crc, cache_NewTxn) = Some s \<and> txn_Commit s = Some crc' \<and> cache_ok crc' \<and>
    (\<forall>d. rules_of crc' d = rules_of crc d ++ last_update d us)"
proof -
  obtain ys where ys: "\<And>d. side_ok d (cache_side_of crc d) (ys d)"
    using assms(1) unfolding cache_ok_def by metis
  obtain crc1 txn1 where run: "txn_updates rnd us (crc, cache_NewTxn) = Some (crc1, txn1)" "txn_ok crc ys us (crc1, txn1)"
    using txn_updates_ok [OF txn_ok_start [OF ys] assms(2), of us] assms(3) by auto
  then obtain zs where zs: "\<And>d. head_ok d (side_heap (cache_side_of crc1 d)) (side_lists (cache_side_of crc1 d))
      (txn_lists txn1 d) (ys d) (zs d) (last_update d us) (allocatedListIDs (cache_side_of crc1 d))"
    unfolding txn_ok_def txn_side_ok_def prod.case fst_conv snd_conv by metis
  obtain crc' ys' where c: "txn_Commit (crc1, txn1) = Some crc'"
    "committed (\<lambda>_ _ _. True) crc1 ys zs (\<lambda>d. last_update d us) crc' ys'"
    by (rule txn_Commit_ok [where Q = "\<lambda>_ _ _. True", OF zs private_only_refl]) (simp_all add: private_ok_def)
  have "cache_ok crc'" "\<forall>d. rules_of crc' d = rules_of crc d ++ last_update d us"
    using c(2) txn_ok_configured [OF run(2) ys] by (auto simp: committed_def cache_ok_def)
  with run(1) c(1) show ?thesis by blast
qed

theorem acl_txn_commits_witness:
  "\<exists>s crc'. txn_updates counting [(''if1'', Some [ex_rule ''a'' 80], Some []), (''if2'', Some [ex_rule ''a'' 80], None),
       (''if1'', Some [], Some [])] (rule_cache_Init 0 :: nat rule_cache, cache_NewTxn) = Some s \<and>
     txn_Commit s = Some crc' \<and> cache_ok crc' \<and>
     rules_of crc' Ingress ''if1'' = Some (Some []) \<and> rules_of crc' Ingress ''if2'' = Some (Some [ex_rule ''a'' 80]) \<and>
     rules_of crc' Egress ''if2'' = Some None \<and> rules_of crc' Egress ''if3'' = None"
proof -
  have "rules_of (rule_cache_Init 0 :: nat rule_cache) d x = None" for d x
    by (simp add: rules_of_configured configured_def rule_cache_Init_def empty_side_def NewContivRuleLists_def)
  moreover have "\<forall>d. length (allocatedListIDs (cache_side_of (rule_cache_Init 0 :: nat rule_cache) d)) +
      length [(''if1'', Some [ex_rule ''a'' 80], Some []), (''if2'', Some [ex_rule ''a'' 80], None :: contiv_rule list option),
       (''if1'', Some [], Some [])] \<le> 2 ^ 40"
    by (simp add: rule_cache_Init_def empty_side_def)
  from acl_txn_commits [OF cache_ok_Init fresh_bytes_counting this]
  obtain s and crc' :: "nat rule_cache" where
    "txn_updates counting [(''if1'', Some [ex_rule ''a'' 80], Some []), (''if2'', Some [ex_rule ''a'' 80], None),
       (''if1'', Some [], Some [])] (rule_cache_Init 0, cache_NewTxn) = Some s"
    "txn_Commit s = Some crc'" "cache_ok crc'"
    "\<forall>d. rules_of crc' d = rules_of (rule_cache_Init 0 :: nat rule_cache) d ++ last_update d
      [(''if1'', Some [ex_rule ''a'' 80], Some []), (''if2'', Some [ex_rule ''a'' 80], None), (''if1'', Some [], Some [])]"
    by blast
  ultimately show ?thesis by (auto simp: map_add_def last_update_def)
qed

end
