(* ===== verification/AclRenderer.thy ===== *)
theory AclRenderer
  imports AclCommit
begin

text \<open>
  The ACL renderer, \<^verbatim>\<open>src/plugins/policy/renderer/acl/acl_renderer.go\<close>: the rendering of Contiv rules
  into VPP access lists, the dump of the installed access lists, and \<^verbatim>\<open>Commit\<close>, which computes the
  changes in the rule cache, sends them to the VPP agent and commits the cache transaction.

  The VPP agent is not part of the repository. Its state is the access lists by name; \<open>send\<close> (the
  transaction of the local client, \<^verbatim>\<open>dsl.Send().ReceiveReply()\<close>) and \<open>dump\<close> (\<^verbatim>\<open>DumpACL\<close>) are parameters.

  \<^verbatim>\<open>Private\<close> of a rule list is the access list last rendered for it. The pointer is shared by the copies
  of a list, but the only field that is ever assigned through it is \<^verbatim>\<open>Interfaces\<close>, which every use
  overwrites first, so the access list is a value here.
\<close>

section \<open>Access lists\<close>

datatype acl_action = DENY | PERMIT | REFLECT

record port_range =
  LowerPort :: "32 word"
  UpperPort :: "32 word"

text \<open>\<^verbatim>\<open>Tcp\<close> and \<^verbatim>\<open>Udp\<close> have the same port ranges, each behind a pointer.\<close>

record l4_ports =
  SourcePortRange :: "port_range option"
  DestinationPortRange :: "port_range option"

record acl_networks =
  SourceNetwork :: string
  DestinationNetwork :: string

record ip_rule =
  Ip :: "acl_networks option"
  IcmpOrOther :: bool
  Tcp :: "l4_ports option"
  Udp :: "l4_ports option"

record acl_matches =
  IpRule :: "ip_rule option"

record acl_rule =
  RuleName :: string
  Actions :: "acl_action option"
  Matches :: "acl_matches option"

record acl_interfaces =
  acl_Ingress :: "string list"
  acl_Egress :: "string list"

record acl =
  AclName :: string
  acl_Interfaces :: "acl_interfaces option"
  acl_Rules :: "acl_rule list"

section \<open>Rendering\<close>

definition render_port :: "uint16 \<Rightarrow> port_range" where
  "render_port p = \<lparr>LowerPort = ucast p, UpperPort = (if p = 0 then 0xFFFF else ucast p)\<rparr>"

definition render_ports :: "contiv_rule \<Rightarrow> l4_ports" where
  "render_ports rule = \<lparr>SourcePortRange = Some (render_port (SrcPort rule)),
     DestinationPortRange = Some (render_port (DestPort rule))\<rparr>"

definition render_rule :: "contiv_rule \<Rightarrow> acl_rule" where
  "render_rule rule =
     \<lparr>RuleName = ID rule,
      Actions = Some (if Action rule = ActionDeny then DENY else REFLECT),
      Matches = Some \<lparr>IpRule = Some
        \<lparr>Ip = Some
           \<lparr>SourceNetwork = (if length (IP (SrcNetwork rule)) > 0 then ipnet_string (SrcNetwork rule) else []),
            DestinationNetwork = (if length (IP (DestNetwork rule)) > 0 then ipnet_string (DestNetwork rule) else [])\<rparr>,
         IcmpOrOther = False,
         Tcp = (if Protocol rule = TCP then Some (render_ports rule) else None),
         Udp = (if Protocol rule = TCP then None else Some (render_ports rule))\<rparr>\<rparr>\<rparr>"

definition renderInterfaces :: "interface_set \<Rightarrow> bool \<Rightarrow> acl_interfaces" where
  "renderInterfaces interfaces ingress =
     (if ingress then \<lparr>acl_Ingress = interfaces, acl_Egress = []\<rparr>
      else \<lparr>acl_Ingress = [], acl_Egress = interfaces\<rparr>)"

definition rule_slice :: "contiv_rule list option \<Rightarrow> contiv_rule list" where
  "rule_slice rules = (case rules of None \<Rightarrow> [] | Some rs \<Rightarrow> rs)"

definition renderACL :: "acl rule_list \<Rightarrow> bool \<Rightarrow> acl" where
  "renderACL ruleList ingress =
     \<lparr>AclName = list_ID ruleList,
      acl_Interfaces = Some (renderInterfaces (Interfaces ruleList) ingress),
      acl_Rules = map render_rule (rule_slice (Rules ruleList))\<rparr>"

datatype acl_op = PutACL acl | DeleteACL string

text \<open>One iteration of \<^verbatim>\<open>renderChanges\<close>; the type assertion on a nil \<^verbatim>\<open>Private\<close> panics.\<close>

definition render_change :: "bool \<Rightarrow> txn_change \<Rightarrow> acl heap \<Rightarrow> (acl heap \<times> acl_op) option" where
  "render_change ingress change h =
     (case change of (a, PreviousInterfaces) \<Rightarrow>
        if length PreviousInterfaces = 0 then
          (let acl = renderACL (h ! a) ingress in
           Some (heap_modify a (Private_update (\<lambda>_. Some acl)) h, PutACL acl))
        else if length (Interfaces (h ! a)) \<noteq> 0 then do {
          acl \<leftarrow> Private (h ! a);
          let acl1 = acl\<lparr>acl_Interfaces := Some (renderInterfaces (Interfaces (h ! a)) ingress)\<rparr>;
          Some (heap_modify a (Private_update (\<lambda>_. Some acl1)) h, PutACL acl1)
        } else do {
          acl \<leftarrow> Private (h ! a);
          Some (h, DeleteACL (AclName acl))
        })"

fun renderChanges :: "bool \<Rightarrow> txn_change list \<Rightarrow> acl heap \<Rightarrow> (acl heap \<times> acl_op list) option" where
  "renderChanges ingress [] h = Some (h, [])"
| "renderChanges ingress (c # cs) h =
     do {
       (h1, op) \<leftarrow> render_change ingress c h;
       (h2, ops) \<leftarrow> renderChanges ingress cs h1;
       Some (h2, op # ops)
     }"

definition filterEmpty :: "acl heap \<Rightarrow> txn_change list \<Rightarrow> txn_change list" where
  "filterEmpty h changes = filter (\<lambda>(a, _). length (rule_slice (Rules (h ! a))) > 0) changes"

section \<open>Dump\<close>

text \<open>A port range that is neither a single port nor all ports is not handled; the outer option of the
  result is that.\<close>

definition dump_port :: "port_range option \<Rightarrow> uint16 option" where
  "dump_port r =
     (case r of
        None \<Rightarrow> Some 0
      | Some r \<Rightarrow>
          if LowerPort r \<noteq> UpperPort r \<and> (LowerPort r \<noteq> 0 \<or> UpperPort r \<noteq> 0xFFFF) then None
          else Some (ucast (LowerPort r)))"

definition dump_network :: "string \<Rightarrow> ipnet option" where
  "dump_network s = (if s \<noteq> [] then map_option snd (ParseCIDR s) else Some empty_net)"

definition dump_action :: "acl_action option \<Rightarrow> action option" where
  "dump_action a =
     (case a of
        Some REFLECT \<Rightarrow> Some ActionPermit
      | Some DENY \<Rightarrow> Some ActionDeny
      | _ \<Rightarrow> None)"

text \<open>The rule of one entry of an access list: \<^const>\<open>None\<close> is the nil dereference of a rule that is
  neither TCP nor UDP, \<open>Some None\<close> a rule that is skipped.\<close>

definition dump_rule :: "acl_rule \<Rightarrow> contiv_rule option option" where
  "dump_rule aclRule =
     (case dump_action (Actions aclRule) of
        None \<Rightarrow> Some None
      | Some action \<Rightarrow>
     (case Matches aclRule \<bind> IpRule of
        None \<Rightarrow> Some None
      | Some ipRule \<Rightarrow>
     (case dump_network (case Ip ipRule of None \<Rightarrow> [] | Some ip \<Rightarrow> SourceNetwork ip) of
        None \<Rightarrow> Some None
      | Some srcNet \<Rightarrow>
     (case dump_network (case Ip ipRule of None \<Rightarrow> [] | Some ip \<Rightarrow> DestinationNetwork ip) of
        None \<Rightarrow> Some None
      | Some dstNet \<Rightarrow>
          if IcmpOrOther ipRule then Some None
          else
            (case (case Tcp ipRule of Some ports \<Rightarrow> Some (TCP, ports) | None \<Rightarrow> map_option (Pair UDP) (Udp ipRule)) of
               None \<Rightarrow> None
             | Some (proto, ports) \<Rightarrow>
                 Some (do {
                   sport \<leftarrow> dump_port (SourcePortRange ports);
                   dport \<leftarrow> dump_port (DestinationPortRange ports);
                   Some \<lparr>ID = RuleName aclRule, Action = action, SrcNetwork = srcNet, DestNetwork = dstNet,
                         Protocol = proto, SrcPort = sport, DestPort = dport\<rparr>
                 }))))))"

fun dump_rules :: "acl_rule list \<Rightarrow> contiv_rule list option" where
  "dump_rules [] = Some []"
| "dump_rules (r # rs) =
     (case dump_rule r of
        None \<Rightarrow> None
      | Some None \<Rightarrow> dump_rules rs
      | Some (Some rule) \<Rightarrow> map_option ((#) rule) (dump_rules rs))"

definition dump_list :: "acl \<Rightarrow> interface_set \<Rightarrow> acl rule_list option" where
  "dump_list acl ifs =
     map_option (\<lambda>rules. \<lparr>list_ID = AclName acl, Rules = Some rules, Interfaces = NewInterfaceSet ifs, Private = Some acl\<rparr>)
       (dump_rules (acl_Rules acl))"

fun dumpVppACLConfig :: "acl list \<Rightarrow> (acl rule_list list \<times> acl rule_list list) option" where
  "dumpVppACLConfig [] = Some ([], [])"
| "dumpVppACLConfig (acl # acls) =
     (case acl_Interfaces acl of
        None \<Rightarrow> dumpVppACLConfig acls
      | Some ifs \<Rightarrow>
          if length (acl_Ingress ifs) > 0 then do {
            l \<leftarrow> dump_list acl (acl_Ingress ifs);
            (ingress, egress) \<leftarrow> dumpVppACLConfig acls;
            Some (l # ingress, egress)
          } else if length (acl_Egress ifs) > 0 then do {
            l \<leftarrow> dump_list acl (acl_Egress ifs);
            (ingress, egress) \<leftarrow> dumpVppACLConfig acls;
            Some (ingress, l # egress)
          } else dumpVppACLConfig acls)"

section \<open>Transactions of the renderer\<close>

type_synonym vpp_acls = "string \<rightharpoonup> acl"

datatype acl_error =
    DumpError string
  | ResyncError resync_error
  | SendError string

text \<open>The configuration of a transaction is a map from interface names to the two lists of rules.\<close>

record renderer_txn =
  rtxn_resync :: bool
  rtxn_config :: "update list"

definition acl_NewTxn :: "bool \<Rightarrow> renderer_txn" where
  "acl_NewTxn resync = \<lparr>rtxn_resync = resync, rtxn_config = []\<rparr>"

definition acl_Render ::
  "(string \<Rightarrow> string \<Rightarrow> string option) \<Rightarrow> string \<Rightarrow> string \<Rightarrow> contiv_rule list option \<Rightarrow> contiv_rule list option \<Rightarrow>
   renderer_txn \<Rightarrow> renderer_txn" where
  "acl_Render GetIfName podNamespace podName ingress egress art =
     (case GetIfName podNamespace podName of
        None \<Rightarrow> art
      | Some ifName \<Rightarrow> art\<lparr>rtxn_config := AList.update ifName (ingress, egress) (rtxn_config art)\<rparr>)"

definition acl_resync ::
  "(vpp_acls \<Rightarrow> string + acl list) \<Rightarrow> vpp_acls \<Rightarrow> acl rule_cache \<Rightarrow> (acl rule_cache \<times> acl_error option) option" where
  "acl_resync dump vpp crc =
     (case dump vpp of
        Inl e \<Rightarrow> Some (crc, Some (DumpError e))
      | Inr acls \<Rightarrow> do {
          (ingress, egress) \<leftarrow> dumpVppACLConfig acls;
          (crc1, err) \<leftarrow> rule_cache_Resync ingress egress crc;
          Some (crc1, map_option ResyncError err)
        })"

fun update_missing ::
  "(nat \<Rightarrow> 8 word list) \<Rightarrow> string list \<Rightarrow> 'p rule_cache \<times> rule_txn \<Rightarrow> ('p rule_cache \<times> rule_txn) option" where
  "update_missing rnd [] s = Some s"
| "update_missing rnd (ifName # ifNames) s =
     (if ifs_Has (txn_interfaces (snd s)) ifName then update_missing rnd ifNames s
      else txn_Update rnd ifName (Some []) (Some []) s \<bind> update_missing rnd ifNames)"

definition set_heap :: "traffic_direction \<Rightarrow> 'p heap \<Rightarrow> 'p rule_cache \<Rightarrow> 'p rule_cache" where
  "set_heap d h crc = crc\<lparr>cache_side_of := (cache_side_of crc)(d := (cache_side_of crc d)\<lparr>side_heap := h\<rparr>)\<rparr>"

text \<open>The second half of \<^verbatim>\<open>Commit\<close>, from the changes of the cache transaction on.\<close>

definition render_txn ::
  "(vpp_acls \<Rightarrow> acl_op list \<Rightarrow> vpp_acls \<times> string option) \<Rightarrow> acl rule_cache \<times> rule_txn \<Rightarrow> vpp_acls \<Rightarrow>
   ((acl rule_cache \<times> vpp_acls) \<times> acl_error option) option" where
  "render_txn send s vpp =
     (case s of (crc, txn) \<Rightarrow> do {
        (ingress0, egress0) \<leftarrow> txn_Changes (crc, txn);
        let ingress = filterEmpty (side_heap (cache_side_of crc Ingress)) ingress0;
        let egress = filterEmpty (side_heap (cache_side_of crc Egress)) egress0;
        if length ingress = 0 \<and> length egress = 0 then Some ((crc, vpp), None)
        else do {
          (hi, opsi) \<leftarrow> renderChanges True ingress (side_heap (cache_side_of crc Ingress));
          (he, opse) \<leftarrow> renderChanges False egress (side_heap (cache_side_of crc Egress));
          let crc1 = set_heap Egress he (set_heap Ingress hi crc);
          (case send vpp (opsi @ opse) of
             (vpp1, Some e) \<Rightarrow> Some ((crc1, vpp1), Some (SendError e))
           | (vpp1, None) \<Rightarrow> map_option (\<lambda>crc2. ((crc2, vpp1), None)) (txn_Commit (crc1, txn)))
        }
      })"

definition acl_Commit ::
  "(nat \<Rightarrow> 8 word list) \<Rightarrow> (vpp_acls \<Rightarrow> string + acl list) \<Rightarrow> (vpp_acls \<Rightarrow> acl_op list \<Rightarrow> vpp_acls \<times> string option) \<Rightarrow>
   renderer_txn \<Rightarrow> acl rule_cache \<times> vpp_acls \<Rightarrow> ((acl rule_cache \<times> vpp_acls) \<times> acl_error option) option" where
  "acl_Commit rnd dump send art s =
     (case s of (crc, vpp) \<Rightarrow> do {
        (crc1, err) \<leftarrow> (if rtxn_resync art then acl_resync dump vpp crc else Some (crc, None));
        (case err of
           Some e \<Rightarrow> Some ((crc1, vpp), Some e)
         | None \<Rightarrow> do {
             s1 \<leftarrow> txn_updates rnd (rtxn_config art) (crc1, cache_NewTxn);
             s2 \<leftarrow> (if rtxn_resync art then update_missing rnd (cache_interfaces (fst s1)) s1 else Some s1);
             render_txn send s2 vpp
           })
      })"

section \<open>What the agent installs\<close>

text \<open>The effect of a transaction that the agent accepted.\<close>

fun apply_op :: "acl_op \<Rightarrow> vpp_acls \<Rightarrow> vpp_acls" where
  "apply_op (PutACL acl) vpp = vpp(AclName acl \<mapsto> acl)"
| "apply_op (DeleteACL name) vpp = vpp(name := None)"

definition agent_applies :: "(vpp_acls \<Rightarrow> acl_op list \<Rightarrow> vpp_acls \<times> string option) \<Rightarrow> bool" where
  "agent_applies send \<longleftrightarrow> (\<forall>vpp ops vpp1. send vpp ops = (vpp1, None) \<longrightarrow> vpp1 = fold apply_op ops vpp)"

definition acl_ifs :: "traffic_direction \<Rightarrow> acl \<Rightarrow> string list" where
  "acl_ifs d acl =
     (case acl_Interfaces acl of
        None \<Rightarrow> []
      | Some ifs \<Rightarrow> (case d of Ingress \<Rightarrow> acl_Ingress ifs | Egress \<Rightarrow> acl_Egress ifs))"

text \<open>The rules that the access lists of one direction, recognised by their names, apply to an interface.\<close>

definition applied :: "vpp_acls \<Rightarrow> traffic_direction \<Rightarrow> string \<Rightarrow> acl_rule list set" where
  "applied vpp d x = {acl_Rules acl | i acl. vpp i = Some acl \<and> has_prefix i (id_prefix d) \<and> x \<in> set (acl_ifs d acl)}"

text \<open>What they should apply: no access list for an interface without rules.\<close>

definition to_apply :: "contiv_rule list option option \<Rightarrow> acl_rule list set" where
  "to_apply R =
     (case R of None \<Rightarrow> {} | Some rules \<Rightarrow> if rule_slice rules = [] then {} else {map render_rule (rule_slice rules)})"

text \<open>A list of the cache that has an access list in VPP, and that access list.\<close>

definition active :: "acl rule_list \<Rightarrow> bool" where
  "active l \<longleftrightarrow> Interfaces l \<noteq> [] \<and> rule_slice (Rules l) \<noteq> []"

definition acl_of :: "traffic_direction \<Rightarrow> acl rule_list \<Rightarrow> acl \<Rightarrow> bool" where
  "acl_of d l acl \<longleftrightarrow> AclName acl = list_ID l \<and> acl_Rules acl = map render_rule (rule_slice (Rules l)) \<and>
     (\<exists>ifs. acl_Interfaces acl = Some (renderInterfaces ifs (d = Ingress)) \<and> set ifs = set (Interfaces l))"

lemma acl_ifs_rendered: "acl_Interfaces acl = Some (renderInterfaces ifs (d = Ingress)) \<Longrightarrow> acl_ifs d acl = ifs"
  by (cases d) (simp_all add: acl_ifs_def renderInterfaces_def)

lemma acl_of_ifs:
  assumes "acl_of d l acl"
  shows "set (acl_ifs d acl) = set (Interfaces l)"
proof -
  obtain ifs where "acl_Interfaces acl = Some (renderInterfaces ifs (d = Ingress))" "set ifs = set (Interfaces l)"
    using assms unfolding acl_of_def by blast
  then show ?thesis using acl_ifs_rendered by simp
qed

definition vpp_side_ok :: "traffic_direction \<Rightarrow> vpp_acls \<Rightarrow> acl heap \<Rightarrow> nat list \<Rightarrow> bool" where
  "vpp_side_ok d vpp h ys \<longleftrightarrow>
     (\<forall>b\<in>set ys. active (h ! b) \<longrightarrow> (\<exists>acl. vpp (list_ID (h ! b)) = Some acl \<and> acl_of d (h ! b) acl)) \<and>
     (\<forall>i acl. has_prefix i (id_prefix d) \<and> vpp i = Some acl \<longrightarrow> (\<exists>b\<in>set ys. active (h ! b) \<and> list_ID (h ! b) = i))"

text \<open>What \<^verbatim>\<open>Private\<close> holds: the access list of the list, up to its interfaces.\<close>

definition rendered :: "string \<Rightarrow> contiv_rule list option \<Rightarrow> acl option \<Rightarrow> bool" where
  "rendered i R p \<longleftrightarrow>
     rule_slice R \<noteq> [] \<longrightarrow> (\<exists>acl. p = Some acl \<and> AclName acl = i \<and> acl_Rules acl = map render_rule (rule_slice R))"

definition renderer_ok :: "acl rule_cache \<times> vpp_acls \<Rightarrow> bool" where
  "renderer_ok s \<longleftrightarrow>
     (\<exists>ys. \<forall>d. side_ok d (cache_side_of (fst s) d) (ys d) \<and>
        private_ok rendered (side_heap (cache_side_of (fst s) d)) (set (ys d)) \<and>
        vpp_side_ok d (snd s) (side_heap (cache_side_of (fst s) d)) (ys d))"

section \<open>The changes of a transaction\<close>

lemma getChanges_map: "getChanges h base (map Some zs) = Some (concat (map (list_change h base) zs))"
  by (induction zs) simp_all

text \<open>The lists with rules that \<^verbatim>\<open>Changes\<close> reports, with their previous interfaces.\<close>

definition to_render :: "acl heap \<Rightarrow> rule_lists \<Rightarrow> nat list \<Rightarrow> txn_change list" where
  "to_render h base zs = filterEmpty h (concat (map (list_change h base) zs))"

lemma to_render_iff:
  assumes ok: "head_ok d h base head ys zs upd alloc"
  shows "(a, prev) \<in> set (to_render h base zs) \<longleftrightarrow> a \<in> set zs \<and> rule_slice (Rules (h ! a)) \<noteq> [] \<and>
    ((byID base (list_ID (h ! a)) = None \<and> Interfaces (h ! a) \<noteq> [] \<and> prev = []) \<or>
     (\<exists>b\<in>set ys. list_ID (h ! b) = list_ID (h ! a) \<and> prev = Interfaces (h ! b) \<and>
        set (Interfaces (h ! a)) \<noteq> set (Interfaces (h ! b))))"
proof -
  note base = head_ok_base [OF ok] and hd = head_ok_head [OF ok]
  define X where "X c \<longleftrightarrow> (byID base (list_ID (h ! c)) = None \<and> Interfaces (h ! c) \<noteq> [] \<and> prev = []) \<or>
       (\<exists>b\<in>set ys. list_ID (h ! b) = list_ID (h ! c) \<and> prev = Interfaces (h ! b) \<and>
          set (Interfaces (h ! c)) \<noteq> set (Interfaces (h ! b)))" for c
  have change: "(a, prev) \<in> set (list_change h base c) \<longleftrightarrow> a = c \<and> X c" if c: "c \<in> set zs" for c
  proof (cases "byID base (list_ID (h ! c))")
    case None
    then have "\<forall>b\<in>set ys. list_ID (h ! b) \<noteq> list_ID (h ! c)" using lists_ok_byID_None [OF base] by blast
    then have "X c \<longleftrightarrow> Interfaces (h ! c) \<noteq> [] \<and> prev = []" using None by (auto simp: X_def)
    with None show ?thesis by (auto simp: list_change_def lists_LookupByID_def Let_def)
  next
    case (Some b)
    then have b: "b \<in> set ys" "list_ID (h ! b) = list_ID (h ! c)" using lists_ok_byID [OF base] by simp_all
    have uniq: "b' = b" if "b' \<in> set ys" "list_ID (h ! b') = list_ID (h ! c)" for b'
      using that Some lists_ok_byID [OF base, of "list_ID (h ! c)" b'] by simp
    have "X c \<longleftrightarrow> prev = Interfaces (h ! b) \<and> set (Interfaces (h ! c)) \<noteq> set (Interfaces (h ! b))"
    proof
      assume "X c"
      then obtain b' where "b' \<in> set ys" "list_ID (h ! b') = list_ID (h ! c)" "prev = Interfaces (h ! b')"
          "set (Interfaces (h ! c)) \<noteq> set (Interfaces (h ! b'))"
        using Some by (auto simp: X_def)
      with uniq [of b'] show "prev = Interfaces (h ! b) \<and> set (Interfaces (h ! c)) \<noteq> set (Interfaces (h ! b))" by simp
    next
      assume "prev = Interfaces (h ! b) \<and> set (Interfaces (h ! c)) \<noteq> set (Interfaces (h ! b))"
      with b show "X c" unfolding X_def by (intro disjI2 bexI [of _ b]) simp_all
    qed
    then show ?thesis
      using Some ifs_Equals_iff [OF lists_ok_distinct [OF hd c] lists_ok_distinct [OF base b(1)]]
      by (auto simp: list_change_def lists_LookupByID_def Let_def)
  qed
  have "(a, prev) \<in> set (to_render h base zs) \<longleftrightarrow>
      (\<exists>c\<in>set zs. (a, prev) \<in> set (list_change h base c)) \<and> rule_slice (Rules (h ! a)) \<noteq> []"
    by (simp add: to_render_def filterEmpty_def)
  also have "(\<exists>c\<in>set zs. (a, prev) \<in> set (list_change h base c)) \<longleftrightarrow> (\<exists>c\<in>set zs. a = c \<and> X c)"
    by (rule bex_cong [OF refl change])
  finally show ?thesis unfolding X_def [of a, symmetric] by blast
qed

lemma to_render_distinct:
  assumes "distinct zs"
  shows "distinct (map fst (to_render h base zs))"
proof -
  have one: "map fst (list_change h base a) = [] \<or> map fst (list_change h base a) = [a]" for a
    by (auto simp: list_change_def Let_def split: option.split)
  have "map fst (concat (map (list_change h base) zs)) = filter (\<lambda>a. list_change h base a \<noteq> []) zs"
  proof (induction zs)
    case (Cons a zs)
    then show ?case using one [of a] by (cases "list_change h base a") simp_all
  qed simp
  then have "distinct (map fst (concat (map (list_change h base) zs)))" using assms by simp
  then show ?thesis by (simp add: to_render_def filterEmpty_def distinct_map_filter)
qed

section \<open>Rendering the changes\<close>

text \<open>What rendering needs of a change: a list that had interfaces has its access list in \<^verbatim>\<open>Private\<close>.\<close>

definition change_ok :: "acl heap \<Rightarrow> txn_change \<Rightarrow> bool" where
  "change_ok h c \<longleftrightarrow> fst c < length h \<and> rule_slice (Rules (h ! fst c)) \<noteq> [] \<and>
     (if snd c = [] then Interfaces (h ! fst c) \<noteq> []
      else rendered (list_ID (h ! fst c)) (Rules (h ! fst c)) (Private (h ! fst c)))"

definition installs :: "traffic_direction \<Rightarrow> acl rule_list \<Rightarrow> acl option \<Rightarrow> bool" where
  "installs d l r \<longleftrightarrow> (if Interfaces l = [] then r = None else (\<exists>acl. r = Some acl \<and> acl_of d l acl))"

lemma render_change_ok:
  assumes ok: "change_ok h (a, prev)"
  obtains h1 op where "render_change (d = Ingress) (a, prev) h = Some (h1, op)" "private_only h h1"
    "\<forall>c. c \<noteq> a \<longrightarrow> h1 ! c = h ! c" "Interfaces (h ! a) \<noteq> [] \<longrightarrow> rendered (list_ID (h ! a)) (Rules (h ! a)) (Private (h1 ! a))"
    "\<And>vpp. installs d (h ! a) (apply_op op vpp (list_ID (h ! a)))"
    "\<And>vpp i. i \<noteq> list_ID (h ! a) \<Longrightarrow> apply_op op vpp i = vpp i"
proof -
  have a: "a < length h" and rules: "rule_slice (Rules (h ! a)) \<noteq> []" using ok by (simp_all add: change_ok_def)
  have put: "private_only h (heap_modify a (Private_update (\<lambda>_. p)) h)" for p
    using a by (auto simp: private_only_def heap_modify_def nth_list_update)
  consider (new) "prev = []" | (change) "prev \<noteq> []" "Interfaces (h ! a) \<noteq> []" | (remove) "prev \<noteq> []" "Interfaces (h ! a) = []" by blast
  then show thesis
  proof cases
    case new
    then have "Interfaces (h ! a) \<noteq> []" using ok by (simp add: change_ok_def)
    moreover have "acl_of d (h ! a) (renderACL (h ! a) (d = Ingress))" by (auto simp: acl_of_def renderACL_def)
    moreover have "AclName (renderACL (h ! a) (d = Ingress)) = list_ID (h ! a)"
        "acl_Rules (renderACL (h ! a) (d = Ingress)) = map render_rule (rule_slice (Rules (h ! a)))"
      by (simp_all add: renderACL_def)
    ultimately show thesis
      using that [of "heap_modify a (Private_update (\<lambda>_. Some (renderACL (h ! a) (d = Ingress)))) h"
          "PutACL (renderACL (h ! a) (d = Ingress))"] new put a rules
      by (simp add: render_change_def rendered_def installs_def heap_modify_def Let_def)
  next
    case change
    then obtain acl where acl: "Private (h ! a) = Some acl" "AclName acl = list_ID (h ! a)"
        "acl_Rules acl = map render_rule (rule_slice (Rules (h ! a)))"
      using ok rules by (auto simp: change_ok_def rendered_def)
    define acl1 where "acl1 = acl\<lparr>acl_Interfaces := Some (renderInterfaces (Interfaces (h ! a)) (d = Ingress))\<rparr>"
    have "acl_of d (h ! a) acl1" using acl by (auto simp: acl_of_def acl1_def)
    then show thesis
      using that [of "heap_modify a (Private_update (\<lambda>_. Some acl1)) h" "PutACL acl1"] change put a rules acl
      by (simp add: render_change_def rendered_def installs_def heap_modify_def acl1_def Let_def)
  next
    case remove
    then obtain acl where acl: "Private (h ! a) = Some acl" "AclName acl = list_ID (h ! a)"
      using ok rules by (auto simp: change_ok_def rendered_def)
    with remove show thesis
      using that [of h "DeleteACL (AclName acl)"] private_only_refl [of h] by (simp add: render_change_def installs_def)
  qed
qed

lemma change_ok_cong:
  "private_only h h1 \<Longrightarrow> h1 ! fst c = h ! fst c \<Longrightarrow> change_ok h c \<Longrightarrow> change_ok h1 c"
  by (simp add: change_ok_def private_only_def)

lemma renderChanges_ok:
  assumes "list_all (change_ok h) cs" "distinct (map fst cs)" "distinct (map (\<lambda>c. list_ID (h ! fst c)) cs)"
  shows "\<exists>h1 ops. renderChanges (d = Ingress) cs h = Some (h1, ops) \<and> private_only h h1 \<and>
    (\<forall>a. a \<notin> fst ` set cs \<longrightarrow> h1 ! a = h ! a) \<and>
    (\<forall>a\<in>fst ` set cs. Interfaces (h ! a) \<noteq> [] \<longrightarrow> rendered (list_ID (h ! a)) (Rules (h ! a)) (Private (h1 ! a))) \<and>
    (\<forall>vpp. \<forall>a\<in>fst ` set cs. installs d (h ! a) (fold apply_op ops vpp (list_ID (h ! a)))) \<and>
    (\<forall>vpp i. i \<notin> (\<lambda>c. list_ID (h ! fst c)) ` set cs \<longrightarrow> fold apply_op ops vpp i = vpp i)"
  using assms
proof (induction cs arbitrary: h)
  case Nil
  then show ?case by (simp add: private_only_refl)
next
  case (Cons c cs)
  obtain a prev where c: "c = (a, prev)" by (cases c)
  obtain h1 op where r: "render_change (d = Ingress) c h = Some (h1, op)" "private_only h h1"
    "\<forall>c. c \<noteq> a \<longrightarrow> h1 ! c = h ! c" "Interfaces (h ! a) \<noteq> [] \<longrightarrow> rendered (list_ID (h ! a)) (Rules (h ! a)) (Private (h1 ! a))"
    "\<And>vpp. installs d (h ! a) (apply_op op vpp (list_ID (h ! a)))"
    "\<And>vpp i. i \<noteq> list_ID (h ! a) \<Longrightarrow> apply_op op vpp i = vpp i"
    using render_change_ok [of h a prev d] Cons.prems(1) unfolding c by auto
  have a: "a \<notin> fst ` set cs" using Cons.prems(2) c by simp
  have old: "h1 ! e = h ! e" if "e \<in> fst ` set cs" for e using r(3) a that by metis
  have ids: "map (\<lambda>c. list_ID (h1 ! fst c)) cs = map (\<lambda>c. list_ID (h ! fst c)) cs" using r(2) by (simp add: private_only_def)
  have "list_all (change_ok h1) cs"
    using Cons.prems(1) change_ok_cong [OF r(2)] old by (auto simp: list_all_iff)
  from Cons.IH [OF this] Cons.prems(2,3) ids obtain h2 ops where s: "renderChanges (d = Ingress) cs h1 = Some (h2, ops)"
    "private_only h1 h2" "\<forall>e. e \<notin> fst ` set cs \<longrightarrow> h2 ! e = h1 ! e"
    "\<forall>e\<in>fst ` set cs. Interfaces (h1 ! e) \<noteq> [] \<longrightarrow> rendered (list_ID (h1 ! e)) (Rules (h1 ! e)) (Private (h2 ! e))"
    "\<forall>vpp. \<forall>e\<in>fst ` set cs. installs d (h1 ! e) (fold apply_op ops vpp (list_ID (h1 ! e)))"
    "\<forall>vpp i. i \<notin> (\<lambda>c. list_ID (h1 ! fst c)) ` set cs \<longrightarrow> fold apply_op ops vpp i = vpp i"
    by auto
  have new: "list_ID (h ! a) \<notin> (\<lambda>c. list_ID (h ! fst c)) ` set cs" using Cons.prems(3) c by simp
  have same_ids: "list_ID (h1 ! e) = list_ID (h ! e)" for e using r(2) by (simp add: private_only_def)
  have at_a: "h2 ! a = h1 ! a" using s(3) a by simp
  show ?case
  proof (intro exI conjI)
    show "renderChanges (d = Ingress) (c # cs) h = Some (h2, op # ops)" using r(1) s(1) by simp
    show "private_only h h2" by (rule private_only_trans [OF r(2) s(2)])
    show "\<forall>e. e \<notin> fst ` set (c # cs) \<longrightarrow> h2 ! e = h ! e" using s(3) r(3) c by simp
    show "\<forall>e\<in>fst ` set (c # cs). Interfaces (h ! e) \<noteq> [] \<longrightarrow> rendered (list_ID (h ! e)) (Rules (h ! e)) (Private (h2 ! e))"
      using s(4) r(4) old at_a c by auto
    show "\<forall>vpp. \<forall>e\<in>fst ` set (c # cs). installs d (h ! e) (fold apply_op (op # ops) vpp (list_ID (h ! e)))"
    proof (intro allI ballI)
      fix vpp e assume e: "e \<in> fst ` set (c # cs)"
      show "installs d (h ! e) (fold apply_op (op # ops) vpp (list_ID (h ! e)))"
      proof (cases "e = a")
        case True
        then show ?thesis using s(6) new r(5) by (simp add: same_ids)
      next
        case False
        then have "e \<in> fst ` set cs" using e c by simp
        then show ?thesis using s(5) [rule_format, of e "apply_op op vpp"] old [of e] by simp
      qed
    qed
    show "\<forall>vpp i. i \<notin> (\<lambda>c. list_ID (h ! fst c)) ` set (c # cs) \<longrightarrow> fold apply_op (op # ops) vpp i = vpp i"
      using s(6) r(6) c by (simp add: same_ids)
  qed
qed

end
