(* ===== verification/AclInstall.thy ===== *)
theory AclInstall
  imports AclRenderer
begin

text \<open>
  What a transaction of the ACL renderer leaves in VPP: for every interface, in each direction,
  exactly the access list rendered from the rules it is to have.
\<close>

section \<open>Access lists and the configuration of the cache\<close>

lemma applied_configured:
  assumes ok: "lists_ok h base ys" and pre: "\<forall>b\<in>set ys. has_prefix (list_ID (h ! b)) (id_prefix d)"
    and vpp: "vpp_side_ok d vpp h ys"
  shows "applied vpp d x = to_apply (configured h base x)"
proof (intro equalityI subsetI)
  fix r assume "r \<in> applied vpp d x"
  then obtain i acl where i: "vpp i = Some acl" "has_prefix i (id_prefix d)" "x \<in> set (acl_ifs d acl)" "r = acl_Rules acl"
    by (auto simp: applied_def)
  then obtain b where b: "b \<in> set ys" "active (h ! b)" "list_ID (h ! b) = i"
    using vpp unfolding vpp_side_ok_def by blast
  then have "acl_of d (h ! b) acl" using vpp i(1) by (auto simp: vpp_side_ok_def)
  then have "x \<in> set (Interfaces (h ! b))" "r = map render_rule (rule_slice (Rules (h ! b)))"
    using i(3,4) acl_of_ifs by (auto simp: acl_of_def)
  then show "r \<in> to_apply (configured h base x)"
    using configured_iff [OF ok b(1), of x] b(2) by (simp add: to_apply_def active_def)
next
  fix r assume r: "r \<in> to_apply (configured h base x)"
  then obtain R where R: "configured h base x = Some R" "rule_slice R \<noteq> []" "r = map render_rule (rule_slice R)"
    by (auto simp: to_apply_def split: option.splits if_splits)
  then obtain b where b: "b \<in> set ys" "x \<in> set (Interfaces (h ! b))" "Rules (h ! b) = R"
    using configured_member [OF ok R(1)] by blast
  then have "active (h ! b)" using R(2) by (auto simp: active_def)
  then obtain acl where "vpp (list_ID (h ! b)) = Some acl" "acl_of d (h ! b) acl"
    using vpp b(1) by (auto simp: vpp_side_ok_def)
  then show "r \<in> applied vpp d x"
    using b R(3) pre acl_of_ifs [of d "h ! b" acl] unfolding applied_def mem_Collect_eq
    by (intro exI [of _ "list_ID (h ! b)"] exI [of _ acl]) (simp add: acl_of_def)
qed

text \<open>The invariant reads the lists of the cache only.\<close>

lemma vpp_side_ok_cong:
  "vpp_side_ok d vpp h ys \<Longrightarrow> (\<And>b. b \<in> set ys \<Longrightarrow> h' ! b = h ! b) \<Longrightarrow> vpp_side_ok d vpp h' ys"
  by (simp add: vpp_side_ok_def cong: ball_cong bex_cong)

section \<open>Lists that a transaction does not change\<close>

text \<open>A list of the cache that is not in the head keeps its interfaces.\<close>

lemma untouched_list:
  assumes ok: "head_ok d h base head ys zs upd alloc" and b: "b \<in> set ys"
    and no: "\<forall>a\<in>set zs. Rules (h ! a) \<noteq> Rules (h ! b)"
  shows "(configured h base ++ upd) x = Some (Rules (h ! b)) \<longleftrightarrow> x \<in> set (Interfaces (h ! b))"
proof -
  have "configured h base x = Some (Rules (h ! b)) \<longleftrightarrow> x \<in> set (Interfaces (h ! b))"
    by (rule configured_iff [OF head_ok_base [OF ok] b])
  moreover have "upd x = None" if "upd x = Some (Rules (h ! b)) \<or> configured h base x = Some (Rules (h ! b))"
    using that head_ok_updated [OF ok, of x "Rules (h ! b)"] head_ok_left [OF ok, of x "Rules (h ! b)"] no
    by (cases "upd x") auto
  ultimately show ?thesis by (auto simp: map_add_def split: option.splits)
qed

lemma to_render_changed:
  assumes ok: "head_ok d h base head ys zs upd alloc" and "a \<in> set zs" "b \<in> set ys" "list_ID (h ! b) = list_ID (h ! a)"
    "rule_slice (Rules (h ! a)) \<noteq> []" "set (Interfaces (h ! a)) \<noteq> set (Interfaces (h ! b))"
  shows "(a, Interfaces (h ! b)) \<in> set (to_render h base zs)"
  unfolding to_render_iff [OF ok] using assms(2-6) by (intro conjI disjI2 bexI [of _ b]) simp_all

text \<open>The interfaces of every list of the cache after the commit are those that are to have its rules.\<close>

lemma same_interfaces_unrendered:
  assumes ok: "head_ok d h base head ys zs upd alloc" and b: "b \<in> set ys" and rules: "rule_slice (Rules (h ! b)) \<noteq> []"
    and un: "list_ID (h ! b) \<notin> (\<lambda>c. list_ID (h ! fst c)) ` set (to_render h base zs)"
  shows "(configured h base ++ upd) x = Some (Rules (h ! b)) \<longleftrightarrow> x \<in> set (Interfaces (h ! b))"
proof (cases "\<exists>a\<in>set zs. Rules (h ! a) = Rules (h ! b)")
  case True
  then obtain a where a: "a \<in> set zs" "Rules (h ! a) = Rules (h ! b)" by blast
  then have id: "list_ID (h ! a) = list_ID (h ! b)" using head_ok_ids [OF ok a(1) b] by simp
  have "set (Interfaces (h ! a)) = set (Interfaces (h ! b))"
  proof (rule ccontr)
    assume "set (Interfaces (h ! a)) \<noteq> set (Interfaces (h ! b))"
    with a b id rules have "(a, Interfaces (h ! b)) \<in> set (to_render h base zs)"
      by (intro to_render_changed [OF ok]) simp_all
    from imageI [OF this, of "\<lambda>c. list_ID (h ! fst c)"] show False using un id by simp
  qed
  then show ?thesis using head_ok_interfaces [OF ok a(1), of x] a(2) by simp
next
  case False
  then show ?thesis by (intro untouched_list [OF ok b]) simp
qed

text \<open>With nothing to render the transaction changes no rules.\<close>

lemma nothing_to_render:
  assumes ok: "head_ok d h base head ys zs upd alloc" and none: "to_render h base zs = []"
  shows "to_apply (configured h base x) = to_apply ((configured h base ++ upd) x)"
proof (cases "upd x")
  case None
  then show ?thesis by (simp add: map_add_def)
next
  case (Some R)
  note base = head_ok_base [OF ok]
  have T: "(configured h base ++ upd) x = Some R" using Some by simp
  show ?thesis
  proof (cases "rule_slice R = []")
    case False
    obtain a where a: "a \<in> set zs" "Rules (h ! a) = R" using head_ok_updated [OF ok Some] by blast
    then have x: "x \<in> set (Interfaces (h ! a))" using head_ok_interfaces [OF ok a(1)] T by simp
    have "byID base (list_ID (h ! a)) \<noteq> None"
    proof
      assume "byID base (list_ID (h ! a)) = None"
      moreover have "Interfaces (h ! a) \<noteq> []" using x by auto
      ultimately have "(a, []) \<in> set (to_render h base zs)"
        unfolding to_render_iff [OF ok] using a False by simp
      then show False by (simp add: none)
    qed
    then obtain b where b: "b \<in> set ys" "list_ID (h ! b) = list_ID (h ! a)"
      using lists_ok_byID [OF base] by blast
    moreover have "set (Interfaces (h ! a)) = set (Interfaces (h ! b))"
      using to_render_changed [OF ok a(1) b] none a(2) False by auto
    ultimately have "configured h base x = Some R"
      using configured_iff [OF base b(1), of x] x a head_ok_ids [OF ok a(1) b(1)] by simp
    then show ?thesis using T by simp
  next
    case True
    have "rule_slice R' = []" if R': "configured h base x = Some R'" for R'
    proof (rule ccontr)
      assume ne: "rule_slice R' \<noteq> []"
      obtain b where b: "b \<in> set ys" "x \<in> set (Interfaces (h ! b))" "Rules (h ! b) = R'"
        using configured_member [OF base R'] by blast
      then have "(configured h base ++ upd) x = Some R'"
        using same_interfaces_unrendered [OF ok b(1), of x] ne none by simp
      then show False using T True ne by simp
    qed
    then show ?thesis using T True by (auto simp: to_apply_def split: option.split)
  qed
qed

section \<open>Rendering the changes of a transaction\<close>

lemma head_ids_inj:
  assumes ok: "head_ok d h base head ys zs upd alloc" and a: "a \<in> set zs" and b: "b \<in> set zs"
  shows "list_ID (h ! a) = list_ID (h ! b) \<longleftrightarrow> a = b"
  using lists_ok_byID [OF head_ok_head [OF ok], of "list_ID (h ! b)"] a b by (metis option.inject)

lemma to_render_sub:
  assumes ok: "head_ok d h base head ys zs upd alloc" and a: "a \<in> fst ` set (to_render h base zs)"
  shows "a \<in> set zs \<and> rule_slice (Rules (h ! a)) \<noteq> []"
proof -
  obtain prev where "(a, prev) \<in> set (to_render h base zs)" using a by auto
  then show ?thesis unfolding to_render_iff [OF ok] by simp
qed

lemma to_render_change_ok:
  assumes ok: "head_ok d h base head ys zs upd alloc" and Q: "private_ok rendered h (set ys)"
    and c: "(a, prev) \<in> set (to_render h base zs)"
  shows "change_ok h (a, prev)"
proof -
  have a: "a \<in> set zs" "rule_slice (Rules (h ! a)) \<noteq> []" and cases:
      "(byID base (list_ID (h ! a)) = None \<and> Interfaces (h ! a) \<noteq> [] \<and> prev = []) \<or>
       (\<exists>b\<in>set ys. list_ID (h ! b) = list_ID (h ! a) \<and> prev = Interfaces (h ! b) \<and>
        set (Interfaces (h ! a)) \<noteq> set (Interfaces (h ! b)))"
    using c unfolding to_render_iff [OF ok] by simp_all
  have len: "a < length h" by (rule lists_ok_bound [OF head_ok_head [OF ok] a(1)])
  from cases show ?thesis
  proof
    assume "byID base (list_ID (h ! a)) = None \<and> Interfaces (h ! a) \<noteq> [] \<and> prev = []"
    then show ?thesis using a len by (simp add: change_ok_def)
  next
    assume "\<exists>b\<in>set ys. list_ID (h ! b) = list_ID (h ! a) \<and> prev = Interfaces (h ! b) \<and>
        set (Interfaces (h ! a)) \<noteq> set (Interfaces (h ! b))"
    then obtain b where b: "b \<in> set ys" "list_ID (h ! b) = list_ID (h ! a)" "prev = Interfaces (h ! b)"
        "set (Interfaces (h ! a)) \<noteq> set (Interfaces (h ! b))" by blast
    have "Rules (h ! a) = Rules (h ! b)" "Private (h ! a) = Private (h ! b)"
      using head_ok_ids [OF ok a(1) b(1)] head_ok_private [OF ok a(1) b(1)] b(2) by simp_all
    moreover have "prev \<noteq> [] \<longrightarrow> rendered (list_ID (h ! b)) (Rules (h ! b)) (Private (h ! b))"
      using Q b(1,3) by (simp add: private_ok_def)
    moreover have "prev = [] \<longrightarrow> Interfaces (h ! a) \<noteq> []" using b(3,4) by auto
    ultimately show ?thesis using a len b(2) by (simp add: change_ok_def)
  qed
qed

lemma render_direction:
  assumes ok: "head_ok d h base head ys zs upd alloc" and Q: "private_ok rendered h (set ys)"
  obtains h1 ops where "renderChanges (d = Ingress) (to_render h base zs) h = Some (h1, ops)" "private_only h h1"
    "private_ok rendered h1 (set ys \<union> set zs)" "\<forall>b\<in>set ys. h1 ! b = h ! b"
    "\<forall>vpp. \<forall>a\<in>fst ` set (to_render h base zs). installs d (h ! a) (fold apply_op ops vpp (list_ID (h ! a)))"
    "\<forall>vpp i. i \<notin> (\<lambda>c. list_ID (h ! fst c)) ` set (to_render h base zs) \<longrightarrow> fold apply_op ops vpp i = vpp i"
proof -
  define cs where "cs = to_render h base zs"
  have cok: "list_all (change_ok h) cs"
    using to_render_change_ok [OF ok Q] unfolding list_all_iff cs_def by (metis prod.collapse)
  have dist: "distinct (map fst cs)"
    unfolding cs_def by (rule to_render_distinct [OF lists_ok_inj(1) [OF head_ok_head [OF ok]]])
  have "inj_on (\<lambda>a. list_ID (h ! a)) (set (map fst cs))"
    using head_ids_inj [OF ok] to_render_sub [OF ok] unfolding cs_def by (intro inj_onI) simp
  with dist have "distinct (map (\<lambda>a. list_ID (h ! a)) (map fst cs))" by (simp only: distinct_map)
  then have ids: "distinct (map (\<lambda>c. list_ID (h ! fst c)) cs)" by (simp add: comp_def)
  from renderChanges_ok [OF cok dist ids, of d]
  obtain h1 ops where r: "renderChanges (d = Ingress) cs h = Some (h1, ops)" "private_only h h1"
    "\<forall>a. a \<notin> fst ` set cs \<longrightarrow> h1 ! a = h ! a"
    "\<forall>a\<in>fst ` set cs. Interfaces (h ! a) \<noteq> [] \<longrightarrow> rendered (list_ID (h ! a)) (Rules (h ! a)) (Private (h1 ! a))"
    "\<forall>vpp. \<forall>a\<in>fst ` set cs. installs d (h ! a) (fold apply_op ops vpp (list_ID (h ! a)))"
    "\<forall>vpp i. i \<notin> (\<lambda>c. list_ID (h ! fst c)) ` set cs \<longrightarrow> fold apply_op ops vpp i = vpp i"
    by (elim exE conjE) (rule that; assumption)
  have base: "h1 ! b = h ! b" if "b \<in> set ys" for b
    using r(3) to_render_sub [OF ok, of b] head_ok_disjoint [OF ok, of b] that by (auto simp: cs_def)
  have same: "list_ID (h1 ! c) = list_ID (h ! c)" "Rules (h1 ! c) = Rules (h ! c)" "Interfaces (h1 ! c) = Interfaces (h ! c)" for c
    using r(2) by (simp_all add: private_only_def)
  have head: "rendered (list_ID (h1 ! a)) (Rules (h1 ! a)) (Private (h1 ! a))"
    if a: "a \<in> set zs" "Interfaces (h1 ! a) \<noteq> []" for a
  proof (cases "a \<in> fst ` set cs \<or> rule_slice (Rules (h ! a)) = []")
    case True
    then show ?thesis using r(4) a(2) unfolding same by (auto simp: rendered_def)
  next
    case False
    have "byID base (list_ID (h ! a)) \<noteq> None"
    proof
      assume "byID base (list_ID (h ! a)) = None"
      then have "(a, []) \<in> set cs" unfolding cs_def to_render_iff [OF ok] using a False same by simp
      from imageI [OF this, of fst] show False using False by simp
    qed
    then obtain b where b: "b \<in> set ys" "list_ID (h ! b) = list_ID (h ! a)" using lists_ok_byID [OF head_ok_base [OF ok]] by blast
    have "set (Interfaces (h ! a)) = set (Interfaces (h ! b))"
    proof (rule ccontr)
      assume "set (Interfaces (h ! a)) \<noteq> set (Interfaces (h ! b))"
      then have "(a, Interfaces (h ! b)) \<in> set cs" unfolding cs_def using to_render_changed [OF ok a(1) b] False by simp
      from imageI [OF this, of fst] show False using False by simp
    qed
    then have "rendered (list_ID (h ! b)) (Rules (h ! b)) (Private (h ! b))"
      using Q b(1) a(2) unfolding private_ok_def same by (auto simp flip: set_empty)
    moreover have "h1 ! a = h ! a" using r(3) False by blast
    ultimately show ?thesis using head_ok_ids [OF ok a(1) b(1)] head_ok_private [OF ok a(1) b(1)] b(2) by simp
  qed
  have "private_ok rendered h1 (set ys \<union> set zs)" using Q base head by (auto simp: private_ok_def)
  then show thesis
  proof (rule that [OF r(1,2) [unfolded cs_def]])
    show "\<forall>b\<in>set ys. h1 ! b = h ! b" using base by simp
  qed (rule r(5,6) [unfolded cs_def])+
qed

section \<open>VPP after the commit\<close>

text \<open>What is known of the lists \<open>ys'\<close> of the cache after a commit of the head \<open>zs\<close> into the lists \<open>ys\<close>.\<close>

definition commit_result ::
  "traffic_direction \<Rightarrow> acl heap \<Rightarrow> rule_lists \<Rightarrow> nat list \<Rightarrow> nat list \<Rightarrow> (string \<rightharpoonup> contiv_rule list option) \<Rightarrow>
   acl heap \<Rightarrow> rule_lists \<Rightarrow> nat list \<Rightarrow> bool" where
  "commit_result d h base ys zs upd h' base' ys' \<longleftrightarrow>
     (\<exists>head alloc. head_ok d h base head ys zs upd alloc) \<and> lists_ok h' base' ys' \<and>
     configured h' base' = configured h base ++ upd \<and> set ys \<subseteq> set ys' \<and> set ys' \<subseteq> set ys \<union> set zs \<and>
     (\<forall>c. list_ID (h' ! c) = list_ID (h ! c) \<and> Rules (h' ! c) = Rules (h ! c))"

lemma commit_result_parts:
  assumes "commit_result d h base ys zs upd h' base' ys'"
  obtains head alloc where "head_ok d h base head ys zs upd alloc" "lists_ok h' base' ys'"
    "configured h' base' = configured h base ++ upd" "set ys \<subseteq> set ys'" "set ys' \<subseteq> set ys \<union> set zs"
    "\<And>c. list_ID (h' ! c) = list_ID (h ! c)" "\<And>c. Rules (h' ! c) = Rules (h ! c)"
  using assms unfolding commit_result_def by metis

lemma after_interfaces:
  assumes r: "commit_result d h base ys zs upd h' base' ys'" and b: "b \<in> set ys'"
  shows "x \<in> set (Interfaces (h' ! b)) \<longleftrightarrow> (configured h base ++ upd) x = Some (Rules (h ! b))"
  using r configured_iff [OF _ b, of h' base' x] by (simp add: commit_result_def)

lemma after_ids:
  assumes r: "commit_result d h base ys zs upd h' base' ys'" and a: "a \<in> set zs" and b: "b \<in> set ys'"
  shows "list_ID (h ! a) = list_ID (h ! b) \<longleftrightarrow> Rules (h ! a) = Rules (h ! b)"
proof -
  obtain head alloc where ok: "head_ok d h base head ys zs upd alloc" and sub: "set ys' \<subseteq> set ys \<union> set zs"
    using commit_result_parts [OF r] by metis
  from b sub consider "b \<in> set ys" | "b \<in> set zs" by blast
  then show ?thesis
  proof cases
    case 1
    then show ?thesis by (rule head_ok_ids [OF ok a])
  next
    case 2
    then show ?thesis
      using head_ids_inj [OF ok a 2] lists_ok_same_rules [OF head_ok_head [OF ok] a 2] by auto
  qed
qed

lemma after_untouched:
  assumes r: "commit_result d h base ys zs upd h' base' ys'" and b: "b \<in> set ys" "rule_slice (Rules (h ! b)) \<noteq> []"
    and un: "list_ID (h ! b) \<notin> (\<lambda>c. list_ID (h ! fst c)) ` set (to_render h base zs)"
  shows "set (Interfaces (h' ! b)) = set (Interfaces (h ! b))"
proof -
  obtain head alloc where ok: "head_ok d h base head ys zs upd alloc" and sub: "set ys \<subseteq> set ys'"
    using commit_result_parts [OF r] by metis
  have "b \<in> set ys'" using b(1) sub by blast
  then show ?thesis
    using same_interfaces_unrendered [OF ok b un] after_interfaces [OF r] by (simp add: set_eq_iff)
qed

text \<open>A list that only the head had, with interfaces, is reported as new.\<close>

lemma new_list_rendered:
  assumes r: "commit_result d h base ys zs upd h' base' ys'" and b: "b \<in> set ys'" "b \<notin> set ys"
    and ne: "Interfaces (h' ! b) \<noteq> []" "rule_slice (Rules (h ! b)) \<noteq> []"
  shows "(b, []) \<in> set (to_render h base zs)"
proof -
  obtain head alloc where ok: "head_ok d h base head ys zs upd alloc" and ok': "lists_ok h' base' ys'"
    and sub: "set ys \<subseteq> set ys'" "set ys' \<subseteq> set ys \<union> set zs" and same: "\<And>c. Rules (h' ! c) = Rules (h ! c)"
    using commit_result_parts [OF r] by metis
  have bz: "b \<in> set zs" using b sub(2) by blast
  have "set (Interfaces (h ! b)) = set (Interfaces (h' ! b))"
    using head_ok_interfaces [OF ok bz] after_interfaces [OF r b(1)] by (simp add: set_eq_iff)
  then have ifs: "Interfaces (h ! b) \<noteq> []" using ne(1) by (metis set_empty)
  have "byID base (list_ID (h ! b)) = None"
  proof (rule ccontr)
    assume "byID base (list_ID (h ! b)) \<noteq> None"
    then obtain b2 where b2: "b2 \<in> set ys" "list_ID (h ! b2) = list_ID (h ! b)"
      using lists_ok_byID [OF head_ok_base [OF ok]] by blast
    then have in': "b2 \<in> set ys'" using sub(1) by blast
    have "Rules (h ! b) = Rules (h ! b2)" using after_ids [OF r bz in'] b2(2) by simp
    then have "b = b2" using lists_ok_same_rules [OF ok' b(1) in'] same by simp
    then show False using b(2) b2(1) by simp
  qed
  then show ?thesis unfolding to_render_iff [OF ok] using bz ne(2) ifs by simp
qed

lemma rendered_id_member:
  assumes "i \<in> (\<lambda>c. list_ID (h ! fst c)) ` set cs"
  obtains a where "a \<in> fst ` set cs" "list_ID (h ! a) = i"
  using assms by (metis (no_types, lifting) imageE imageI)

lemma vpp_after_active:
  assumes r: "commit_result d h base ys zs upd h' base' ys'" and vpp: "vpp_side_ok d vpp h ys"
    and inst: "\<And>a. a \<in> fst ` set (to_render h base zs) \<Longrightarrow> installs d (h ! a) (vpp' (list_ID (h ! a)))"
    and kept: "\<And>i. has_prefix i (id_prefix d) \<Longrightarrow> i \<notin> (\<lambda>c. list_ID (h ! fst c)) ` set (to_render h base zs) \<Longrightarrow> vpp' i = vpp i"
    and b: "b \<in> set ys'" "active (h' ! b)"
  shows "\<exists>acl. vpp' (list_ID (h' ! b)) = Some acl \<and> acl_of d (h' ! b) acl"
proof -
  obtain head alloc where ok: "head_ok d h base head ys zs upd alloc"
    and same: "\<And>c. list_ID (h' ! c) = list_ID (h ! c)" "\<And>c. Rules (h' ! c) = Rules (h ! c)"
    using commit_result_parts [OF r] by metis
  have rules: "rule_slice (Rules (h ! b)) \<noteq> []" and ne: "Interfaces (h' ! b) \<noteq> []"
    using b(2) same by (simp_all add: active_def)
  show ?thesis
  proof (cases "list_ID (h ! b) \<in> (\<lambda>c. list_ID (h ! fst c)) ` set (to_render h base zs)")
    case True
    then obtain a where a: "a \<in> fst ` set (to_render h base zs)" "list_ID (h ! a) = list_ID (h ! b)"
      by (rule rendered_id_member)
    have az: "a \<in> set zs" using to_render_sub [OF ok a(1)] by simp
    then have R: "Rules (h ! a) = Rules (h ! b)" using after_ids [OF r az b(1)] a(2) by simp
    have eq: "set (Interfaces (h ! a)) = set (Interfaces (h' ! b))"
      using head_ok_interfaces [OF ok az] after_interfaces [OF r b(1)] R by (simp add: set_eq_iff)
    then have "Interfaces (h ! a) \<noteq> []" using ne by (metis set_empty)
    then obtain acl where "vpp' (list_ID (h ! a)) = Some acl" "acl_of d (h ! a) acl"
      using inst [OF a(1)] by (auto simp: installs_def)
    then show ?thesis using R a(2) eq same by (simp add: acl_of_def)
  next
    case False
    show ?thesis
    proof (cases "b \<in> set ys")
      case True
      note un = after_untouched [OF r True rules False]
      have "Interfaces (h ! b) \<noteq> []" using un ne by (metis set_empty)
      then have "active (h ! b)" using rules by (simp add: active_def)
      then obtain acl where "vpp (list_ID (h ! b)) = Some acl" "acl_of d (h ! b) acl"
        using vpp True by (auto simp: vpp_side_ok_def)
      moreover have "has_prefix (list_ID (h ! b)) (id_prefix d)" using head_ok_allocated [OF ok, of b] True by auto
      ultimately show ?thesis using kept [OF _ False] un same by (simp add: acl_of_def)
    next
      case new: False
      from imageI [OF new_list_rendered [OF r b(1) new ne rules], of "\<lambda>c. list_ID (h ! fst c)"]
      show ?thesis using False by simp
    qed
  qed
qed

lemma vpp_after_known:
  assumes r: "commit_result d h base ys zs upd h' base' ys'" and vpp: "vpp_side_ok d vpp h ys"
    and inst: "\<And>a. a \<in> fst ` set (to_render h base zs) \<Longrightarrow> installs d (h ! a) (vpp' (list_ID (h ! a)))"
    and kept: "\<And>i. has_prefix i (id_prefix d) \<Longrightarrow> i \<notin> (\<lambda>c. list_ID (h ! fst c)) ` set (to_render h base zs) \<Longrightarrow> vpp' i = vpp i"
    and i: "has_prefix i (id_prefix d)" "vpp' i = Some acl"
  shows "\<exists>b\<in>set ys'. active (h' ! b) \<and> list_ID (h' ! b) = i"
proof -
  obtain head alloc where ok: "head_ok d h base head ys zs upd alloc" and ok': "lists_ok h' base' ys'"
    and conf: "configured h' base' = configured h base ++ upd" and sub: "set ys \<subseteq> set ys'"
    and same: "\<And>c. list_ID (h' ! c) = list_ID (h ! c)" "\<And>c. Rules (h' ! c) = Rules (h ! c)"
    using commit_result_parts [OF r] by metis
  show ?thesis
  proof (cases "i \<in> (\<lambda>c. list_ID (h ! fst c)) ` set (to_render h base zs)")
    case True
    then obtain a where a: "a \<in> fst ` set (to_render h base zs)" "list_ID (h ! a) = i" by (rule rendered_id_member)
    have az: "a \<in> set zs" and rules: "rule_slice (Rules (h ! a)) \<noteq> []" using to_render_sub [OF ok a(1)] by simp_all
    have "Interfaces (h ! a) \<noteq> []" using inst [OF a(1)] a(2) i(2) by (auto simp: installs_def)
    then obtain x where "x \<in> set (Interfaces (h ! a))" by (cases "Interfaces (h ! a)") auto
    then have "configured h' base' x = Some (Rules (h ! a))" using head_ok_interfaces [OF ok az, of x] conf by simp
    then obtain b where b: "b \<in> set ys'" "x \<in> set (Interfaces (h' ! b))" "Rules (h' ! b) = Rules (h ! a)"
      by (rule configured_member [OF ok'])
    have "list_ID (h' ! b) = i" using after_ids [OF r az b(1)] b(3) a(2) same by simp
    moreover have "active (h' ! b)" using b(2,3) rules by (auto simp: active_def)
    ultimately show ?thesis using b(1) by blast
  next
    case False
    then have "vpp i = Some acl" using kept [OF i(1)] i(2) by simp
    then obtain b where b: "b \<in> set ys" "active (h ! b)" "list_ID (h ! b) = i"
      using vpp i(1) unfolding vpp_side_ok_def by blast
    then have rules: "rule_slice (Rules (h ! b)) \<noteq> []" and ne: "Interfaces (h ! b) \<noteq> []" by (simp_all add: active_def)
    have "set (Interfaces (h' ! b)) = set (Interfaces (h ! b))"
      by (rule after_untouched [OF r b(1) rules]) (use False b(3) in simp)
    then have "active (h' ! b)" using ne rules same(2) by (metis active_def set_empty)
    then show ?thesis using b same(1) sub by blast
  qed
qed

lemma vpp_after:
  assumes "commit_result d h base ys zs upd h' base' ys'" "vpp_side_ok d vpp h ys"
    and "\<And>a. a \<in> fst ` set (to_render h base zs) \<Longrightarrow> installs d (h ! a) (vpp' (list_ID (h ! a)))"
    and "\<And>i. has_prefix i (id_prefix d) \<Longrightarrow> i \<notin> (\<lambda>c. list_ID (h ! fst c)) ` set (to_render h base zs) \<Longrightarrow> vpp' i = vpp i"
  shows "vpp_side_ok d vpp' h' ys'"
  unfolding vpp_side_ok_def
  using vpp_after_active [OF assms] vpp_after_known [OF assms] by (intro conjI ballI allI impI) simp_all

section \<open>Both directions\<close>

lemma prefixes_disjoint: "has_prefix i (id_prefix d) \<Longrightarrow> d' \<noteq> d \<Longrightarrow> \<not> has_prefix i (id_prefix d')"
  by (cases i; cases d; cases d') (auto simp: has_prefix_def id_prefix_def)

lemma rendered_ids_prefix:
  assumes ok: "head_ok d h base head ys zs upd alloc" and i: "i \<in> (\<lambda>c. list_ID (h ! fst c)) ` set (to_render h base zs)"
  shows "has_prefix i (id_prefix d)"
proof -
  obtain a where a: "a \<in> fst ` set (to_render h base zs)" "list_ID (h ! a) = i" using i by (rule rendered_id_member)
  then have "a \<in> set zs" using to_render_sub [OF ok] by blast
  then show ?thesis using head_ok_allocated [OF ok, of a] a(2) by auto
qed

text \<open>A transaction of the cache in progress, together with what VPP has.\<close>

definition txn_ready ::
  "(traffic_direction \<Rightarrow> string \<rightharpoonup> contiv_rule list option) \<Rightarrow> acl rule_cache \<times> rule_txn \<Rightarrow> vpp_acls \<Rightarrow>
   (traffic_direction \<Rightarrow> nat list) \<Rightarrow> (traffic_direction \<Rightarrow> nat list) \<Rightarrow> bool" where
  "txn_ready upd s vpp ys zs \<longleftrightarrow>
     (\<forall>d. head_ok d (side_heap (cache_side_of (fst s) d)) (side_lists (cache_side_of (fst s) d)) (txn_lists (snd s) d)
            (ys d) (zs d) (upd d) (allocatedListIDs (cache_side_of (fst s) d)) \<and>
        private_ok rendered (side_heap (cache_side_of (fst s) d)) (set (ys d)) \<and>
        vpp_side_ok d vpp (side_heap (cache_side_of (fst s) d)) (ys d))"

lemma txn_changes_render:
  assumes r: "txn_ready upd (crc, txn) vpp ys zs"
  shows "map_option (filterEmpty (side_heap (cache_side_of crc d))) (txn_changes d (crc, txn)) =
    Some (to_render (side_heap (cache_side_of crc d)) (side_lists (cache_side_of crc d)) (zs d))"
proof -
  have ok: "head_ok d (side_heap (cache_side_of crc d)) (side_lists (cache_side_of crc d)) (txn_lists txn d)
            (ys d) (zs d) (upd d) (allocatedListIDs (cache_side_of crc d))"
    using r by (simp add: txn_ready_def)
  have "fst (ruleLists (txn_lists txn d)) = map Some (zs d)"
    by (rule packed_array [OF head_ok_packed [OF ok] head_ok_head [OF ok]])
  then show ?thesis by (simp add: txn_changes_def getChanges_map to_render_def)
qed

lemma renderer_ok_ready:
  assumes r: "txn_ready upd (crc, txn) vpp ys zs"
  shows "renderer_ok (crc, vpp)"
proof -
  have "side_ok d (cache_side_of crc d) (ys d)" for d
    using r head_ok_base head_ok_allocated unfolding txn_ready_def side_ok_def by (metis UnI1 fst_conv)
  then show ?thesis using r unfolding renderer_ok_def txn_ready_def by (intro exI [of _ ys]) simp
qed

lemma renderer_ok_applied:
  assumes "renderer_ok (crc, vpp)"
  shows "applied vpp d x = to_apply (rules_of crc d x)"
proof -
  obtain ys where ys: "side_ok d (cache_side_of crc d) (ys d)" "vpp_side_ok d vpp (side_heap (cache_side_of crc d)) (ys d)"
    using assms by (auto simp: renderer_ok_def)
  then have "lists_ok (side_heap (cache_side_of crc d)) (side_lists (cache_side_of crc d)) (ys d)"
    and "\<forall>b\<in>set (ys d). has_prefix (list_ID (side_heap (cache_side_of crc d) ! b)) (id_prefix d)"
    by (auto simp: side_ok_def)
  from applied_configured [OF this ys(2)] show ?thesis by (simp add: rules_of_configured)
qed

lemma set_heap_sides:
  "cache_side_of (set_heap Egress he (set_heap Ingress hi crc)) d =
     (cache_side_of crc d)\<lparr>side_heap := (case d of Ingress \<Rightarrow> hi | Egress \<Rightarrow> he)\<rparr>"
  by (cases d) (simp_all add: set_heap_def)

lemma private_only_side_ok:
  assumes "side_ok d sd ys" "private_only (side_heap sd) h"
  shows "side_ok d (sd\<lparr>side_heap := h\<rparr>) ys"
  using assms lists_ok_heap_cong [of "side_heap sd" "side_lists sd" ys h] by (simp add: side_ok_def private_only_def)

text \<open>One direction of the changes, rendered.\<close>

definition side_rendered :: "traffic_direction \<Rightarrow> acl heap \<Rightarrow> txn_change list \<Rightarrow> nat set \<Rightarrow> acl heap \<times> acl_op list \<Rightarrow> bool" where
  "side_rendered d h cs Y r \<longleftrightarrow>
     renderChanges (d = Ingress) cs h = Some r \<and> private_only h (fst r) \<and> private_ok rendered (fst r) Y \<and>
     (\<forall>vpp. \<forall>a\<in>fst ` set cs. installs d (h ! a) (fold apply_op (snd r) vpp (list_ID (h ! a)))) \<and>
     (\<forall>vpp i. i \<notin> (\<lambda>c. list_ID (h ! fst c)) ` set cs \<longrightarrow> fold apply_op (snd r) vpp i = vpp i)"

lemma side_rendered_exists:
  assumes ok: "head_ok d h base head ys zs upd alloc" and Q: "private_ok rendered h (set ys)"
  shows "\<exists>r. side_rendered d h (to_render h base zs) (set ys \<union> set zs) r"
proof -
  obtain h1 ops where r: "renderChanges (d = Ingress) (to_render h base zs) h = Some (h1, ops)" "private_only h h1"
    "private_ok rendered h1 (set ys \<union> set zs)" "\<forall>b\<in>set ys. h1 ! b = h ! b"
    "\<forall>vpp. \<forall>a\<in>fst ` set (to_render h base zs). installs d (h ! a) (fold apply_op ops vpp (list_ID (h ! a)))"
    "\<forall>vpp i. i \<notin> (\<lambda>c. list_ID (h ! fst c)) ` set (to_render h base zs) \<longrightarrow> fold apply_op ops vpp i = vpp i"
    by (rule render_direction [OF ok Q])
  have "side_rendered d h (to_render h base zs) (set ys \<union> set zs) (h1, ops)"
    unfolding side_rendered_def fst_conv snd_conv using r(1-3,5,6) by (intro conjI)
  then show ?thesis ..
qed

text \<open>The operations of one direction do not concern the access lists of the other.\<close>

lemma ops_installed:
  fixes vpp :: vpp_acls
  assumes pre: "\<And>d c. c \<in> set (cs d) \<Longrightarrow> has_prefix (list_ID (H d ! fst c)) (id_prefix d)"
    and r: "\<And>d. side_rendered d (H d) (cs d) (Y d) (r d)"
  defines "vpp1 \<equiv> fold apply_op (snd (r Ingress) @ snd (r Egress)) vpp"
  shows ops_installed_changed: "a \<in> fst ` set (cs d) \<Longrightarrow> installs d (H d ! a) (vpp1 (list_ID (H d ! a)))"
    and ops_installed_kept: "has_prefix i (id_prefix d) \<Longrightarrow> i \<notin> (\<lambda>c. list_ID (H d ! fst c)) ` set (cs d) \<Longrightarrow> vpp1 i = vpp i"
proof -
  have inst: "a \<in> fst ` set (cs d) \<Longrightarrow> installs d (H d ! a) (fold apply_op (snd (r d)) v (list_ID (H d ! a)))" for d a v
    using r [of d] unfolding side_rendered_def by blast
  have kept: "i \<notin> (\<lambda>c. list_ID (H d ! fst c)) ` set (cs d) \<Longrightarrow> fold apply_op (snd (r d)) v i = v i" for d i v
    using r [of d] unfolding side_rendered_def by blast
  have other: "i \<notin> (\<lambda>c. list_ID (H d ! fst c)) ` set (cs d)" if "has_prefix i (id_prefix d')" "d \<noteq> d'" for d d' i
    using that pre prefixes_disjoint by blast
  show "installs d (H d ! a) (vpp1 (list_ID (H d ! a)))" if a: "a \<in> fst ` set (cs d)"
  proof (cases d)
    case Ingress
    have "has_prefix (list_ID (H Ingress ! a)) (id_prefix Ingress)" using a pre [of _ Ingress] Ingress by auto
    from other [OF this, of Egress] have "vpp1 (list_ID (H Ingress ! a)) = fold apply_op (snd (r Ingress)) vpp (list_ID (H Ingress ! a))"
      unfolding vpp1_def by (simp add: kept)
    then show ?thesis using inst [of a Ingress vpp] a Ingress by simp
  next
    case Egress
    then show ?thesis unfolding vpp1_def using inst [of a Egress] a by simp
  qed
  show "vpp1 i = vpp i" if "has_prefix i (id_prefix d)" "i \<notin> (\<lambda>c. list_ID (H d ! fst c)) ` set (cs d)"
  proof -
    have "i \<notin> (\<lambda>c. list_ID (H d' ! fst c)) ` set (cs d')" for d' using that other [OF that(1), of d'] by (cases "d' = d") simp_all
    then show ?thesis unfolding vpp1_def by (simp add: kept)
  qed
qed

lemma committed_result:
  assumes r: "txn_ready upd (crc, txn) vpp ys zs"
    and c: "committed rendered crc1 ys zs upd crc' ys'"
    and po: "private_only (side_heap (cache_side_of crc d)) (side_heap (cache_side_of crc1 d))"
    and lists: "side_lists (cache_side_of crc1 d) = side_lists (cache_side_of crc d)"
  shows "commit_result d (side_heap (cache_side_of crc d)) (side_lists (cache_side_of crc d)) (ys d) (zs d) (upd d)
    (side_heap (cache_side_of crc' d)) (side_lists (cache_side_of crc' d)) (ys' d)"
proof -
  have "\<exists>head alloc. head_ok d (side_heap (cache_side_of crc d)) (side_lists (cache_side_of crc d)) head (ys d) (zs d) (upd d) alloc"
    using r by (auto simp: txn_ready_def)
  moreover have "rules_of crc1 d = configured (side_heap (cache_side_of crc d)) (side_lists (cache_side_of crc d))"
    using private_only_configured [OF po] lists by (simp add: rules_of_configured)
  ultimately show ?thesis
    using c po by (simp add: commit_result_def committed_def side_ok_def rules_of_configured private_only_def)
qed

text \<open>The second half of \<^verbatim>\<open>Commit\<close>, with the changes of both directions rendered.\<close>

lemma render_txn_run:
  assumes r: "txn_ready upd (crc, txn) vpp ys zs"
  obtains p where
    "\<And>d. side_rendered d (side_heap (cache_side_of crc d))
       (to_render (side_heap (cache_side_of crc d)) (side_lists (cache_side_of crc d)) (zs d)) (set (ys d) \<union> set (zs d)) (p d)"
    "render_txn send (crc, txn) vpp =
      (if \<forall>d. to_render (side_heap (cache_side_of crc d)) (side_lists (cache_side_of crc d)) (zs d) = [] then Some ((crc, vpp), None)
       else case send vpp (snd (p Ingress) @ snd (p Egress)) of
          (vpp1, Some e) \<Rightarrow> Some ((set_heap Egress (fst (p Egress)) (set_heap Ingress (fst (p Ingress)) crc), vpp1), Some (SendError e))
        | (vpp1, None) \<Rightarrow> map_option (\<lambda>crc2. ((crc2, vpp1), None))
            (txn_Commit (set_heap Egress (fst (p Egress)) (set_heap Ingress (fst (p Ingress)) crc), txn)))"
proof -
  define H where "H = (\<lambda>d. side_heap (cache_side_of crc d))"
  define cs where "cs = (\<lambda>d. to_render (H d) (side_lists (cache_side_of crc d)) (zs d))"
  have "\<exists>q. side_rendered d (H d) (cs d) (set (ys d) \<union> set (zs d)) q" for d
    unfolding cs_def by (rule side_rendered_exists) (use r in \<open>auto simp: txn_ready_def H_def\<close>)
  then obtain p where p: "\<And>d. side_rendered d (H d) (cs d) (set (ys d) \<union> set (zs d)) (p d)" by metis
  have render: "renderChanges (d = Ingress) (cs d) (H d) = Some (fst (p d), snd (p d))" for d
    using p [of d] by (simp add: side_rendered_def)
  have raw: "\<exists>raw. txn_changes d (crc, txn) = Some raw \<and> filterEmpty (H d) raw = cs d" for d
    using txn_changes_render [OF r, of d] unfolding map_option_eq_Some by (simp add: H_def cs_def)
  obtain rawi rawe where raws: "txn_changes Ingress (crc, txn) = Some rawi" "filterEmpty (H Ingress) rawi = cs Ingress"
      "txn_changes Egress (crc, txn) = Some rawe" "filterEmpty (H Egress) rawe = cs Egress"
    using raw [of Ingress] raw [of Egress] by blast
  have all: "(\<forall>d. cs d = []) \<longleftrightarrow> cs Ingress = [] \<and> cs Egress = []"
    by (metis traffic_direction.exhaust)
  have "render_txn send (crc, txn) vpp =
      (if \<forall>d. cs d = [] then Some ((crc, vpp), None)
       else case send vpp (snd (p Ingress) @ snd (p Egress)) of
          (vpp1, Some e) \<Rightarrow> Some ((set_heap Egress (fst (p Egress)) (set_heap Ingress (fst (p Ingress)) crc), vpp1), Some (SendError e))
        | (vpp1, None) \<Rightarrow> map_option (\<lambda>crc2. ((crc2, vpp1), None))
            (txn_Commit (set_heap Egress (fst (p Egress)) (set_heap Ingress (fst (p Ingress)) crc), txn)))"
    unfolding all using raws render [of Ingress] render [of Egress]
    by (simp add: render_txn_def txn_Changes_def H_def Let_def case_prod_beta)
  with p that show thesis unfolding cs_def H_def by blast
qed

lemma render_txn_nothing:
  assumes r: "txn_ready upd (crc, txn) vpp ys zs"
    and none: "\<forall>d. to_render (side_heap (cache_side_of crc d)) (side_lists (cache_side_of crc d)) (zs d) = []"
  shows "renderer_ok (crc, vpp)" "applied vpp d x = to_apply ((rules_of crc d ++ upd d) x)"
proof -
  show rok: "renderer_ok (crc, vpp)" by (rule renderer_ok_ready [OF r])
  have "head_ok d (side_heap (cache_side_of crc d)) (side_lists (cache_side_of crc d)) (txn_lists txn d)
            (ys d) (zs d) (upd d) (allocatedListIDs (cache_side_of crc d))"
    using r by (simp add: txn_ready_def)
  from nothing_to_render [OF this, of x] none renderer_ok_applied [OF rok, of d x]
  show "applied vpp d x = to_apply ((rules_of crc d ++ upd d) x)" by (simp add: rules_of_configured)
qed

text \<open>A transaction that the agent refuses leaves the configuration of the cache as it was.\<close>

lemma render_txn_refused:
  assumes r: "txn_ready upd (crc, txn) vpp ys zs"
    and p: "\<And>d. private_only (side_heap (cache_side_of crc d)) (h d)"
  defines "crc1 \<equiv> set_heap Egress (h Egress) (set_heap Ingress (h Ingress) crc)"
  shows "cache_ok crc1" "rules_of crc1 d = rules_of crc d"
proof -
  have side1: "cache_side_of crc1 d = (cache_side_of crc d)\<lparr>side_heap := h d\<rparr>" for d
    by (cases d) (simp_all add: crc1_def set_heap_sides)
  have "side_ok d (cache_side_of crc d) (ys d)" for d
    using r head_ok_base head_ok_allocated unfolding txn_ready_def side_ok_def by (metis UnI1 fst_conv)
  then have "side_ok d (cache_side_of crc1 d) (ys d)" for d
    using private_only_side_ok p unfolding side1 by blast
  then show "cache_ok crc1" unfolding cache_ok_def by blast
  show "rules_of crc1 d = rules_of crc d"
    using private_only_configured [OF p] by (simp add: rules_of_configured side1)
qed

lemma render_txn_accepted:
  assumes r: "txn_ready upd (crc, txn) vpp ys zs"
    and p: "\<And>d. side_rendered d (side_heap (cache_side_of crc d))
       (to_render (side_heap (cache_side_of crc d)) (side_lists (cache_side_of crc d)) (zs d)) (set (ys d) \<union> set (zs d)) (p d)"
  defines "vpp1 \<equiv> fold apply_op (snd (p Ingress) @ snd (p Egress)) vpp"
    and "crc1 \<equiv> set_heap Egress (fst (p Egress)) (set_heap Ingress (fst (p Ingress)) crc)"
  obtains crc' where "txn_Commit (crc1, txn) = Some crc'" "renderer_ok (crc', vpp1)"
    "\<And>d x. applied vpp1 d x = to_apply ((rules_of crc d ++ upd d) x)"
proof -
  define H where "H = (\<lambda>d. side_heap (cache_side_of crc d))"
  define cs where "cs = (\<lambda>d. to_render (H d) (side_lists (cache_side_of crc d)) (zs d))"
  have ok: "head_ok d (H d) (side_lists (cache_side_of crc d)) (txn_lists txn d) (ys d) (zs d) (upd d) (allocatedListIDs (cache_side_of crc d))"
    and vpp: "vpp_side_ok d vpp (H d) (ys d)" for d
    using r by (simp_all add: txn_ready_def H_def)
  have p': "side_rendered d (H d) (cs d) (set (ys d) \<union> set (zs d)) (p d)" for d using p [of d] by (simp add: H_def cs_def)
  then have po: "private_only (H d) (fst (p d))" and Q: "private_ok rendered (fst (p d)) (set (ys d) \<union> set (zs d))" for d
    by (simp_all add: side_rendered_def)
  have side1: "cache_side_of crc1 d = (cache_side_of crc d)\<lparr>side_heap := fst (p d)\<rparr>" for d
    by (cases d) (simp_all add: crc1_def set_heap_sides)
  obtain crc' ys' where c: "txn_Commit (crc1, txn) = Some crc'" "committed rendered crc1 ys zs upd crc' ys'"
    by (rule txn_Commit_ok [where h = H and crc = crc1 and txn = txn and ys = ys and zs = zs and upd = upd and Q = rendered])
       (use ok po Q in \<open>simp_all add: side1\<close>)
  have res: "commit_result d (H d) (side_lists (cache_side_of crc d)) (ys d) (zs d) (upd d)
      (side_heap (cache_side_of crc' d)) (side_lists (cache_side_of crc' d)) (ys' d)" for d
    unfolding H_def by (rule committed_result [OF r c(2)]) (use po in \<open>simp_all add: side1 H_def\<close>)
  have pre: "has_prefix (list_ID (H d ! fst c)) (id_prefix d)" if "c \<in> set (cs d)" for d c
    by (rule rendered_ids_prefix [OF ok]) (use that in \<open>simp add: cs_def\<close>)
  have "vpp_side_ok d vpp1 (side_heap (cache_side_of crc' d)) (ys' d)" for d
  proof (rule vpp_after [OF res vpp])
    show "installs d (H d ! a) (vpp1 (list_ID (H d ! a)))"
      if "a \<in> fst ` set (to_render (H d) (side_lists (cache_side_of crc d)) (zs d))" for a
      using ops_installed_changed [OF pre p', of a d vpp] that by (simp add: vpp1_def cs_def)
    show "vpp1 i = vpp i" if "has_prefix i (id_prefix d)"
        "i \<notin> (\<lambda>c. list_ID (H d ! fst c)) ` set (to_render (H d) (side_lists (cache_side_of crc d)) (zs d))" for i
      using ops_installed_kept [OF pre p' that(1), of vpp] that(2) by (simp add: vpp1_def cs_def)
  qed
  then have rok: "renderer_ok (crc', vpp1)"
    using c(2) unfolding renderer_ok_def committed_def by (intro exI [of _ ys']) simp
  have "rules_of crc' d = rules_of crc d ++ upd d" for d
    using res [of d] by (simp add: commit_result_def rules_of_configured H_def)
  with c(1) rok renderer_ok_applied [OF rok] that show thesis by simp
qed

lemma render_txn_ok:
  assumes r: "txn_ready upd (crc, txn) vpp ys zs" and agent: "agent_applies send"
  obtains crc' vpp' err where "render_txn send (crc, txn) vpp = Some ((crc', vpp'), err)"
    "err = None \<Longrightarrow> renderer_ok (crc', vpp')"
    "\<And>d x. err = None \<Longrightarrow> applied vpp' d x = to_apply ((rules_of crc d ++ upd d) x)"
    "err \<noteq> None \<Longrightarrow> cache_ok crc' \<and> (\<exists>ops. snd (send vpp ops) \<noteq> None)" "\<And>d. err \<noteq> None \<Longrightarrow> rules_of crc' d = rules_of crc d"
proof -
  obtain p where p: "\<And>d. side_rendered d (side_heap (cache_side_of crc d))
       (to_render (side_heap (cache_side_of crc d)) (side_lists (cache_side_of crc d)) (zs d)) (set (ys d) \<union> set (zs d)) (p d)"
    and run: "render_txn send (crc, txn) vpp =
      (if \<forall>d. to_render (side_heap (cache_side_of crc d)) (side_lists (cache_side_of crc d)) (zs d) = [] then Some ((crc, vpp), None)
       else case send vpp (snd (p Ingress) @ snd (p Egress)) of
          (vpp1, Some e) \<Rightarrow> Some ((set_heap Egress (fst (p Egress)) (set_heap Ingress (fst (p Ingress)) crc), vpp1), Some (SendError e))
        | (vpp1, None) \<Rightarrow> map_option (\<lambda>crc2. ((crc2, vpp1), None))
            (txn_Commit (set_heap Egress (fst (p Egress)) (set_heap Ingress (fst (p Ingress)) crc), txn)))"
    by (rule render_txn_run [OF r, of send]) blast
  define crc1 where "crc1 = set_heap Egress (fst (p Egress)) (set_heap Ingress (fst (p Ingress)) crc)"
  note run1 = run [folded crc1_def]
  obtain vpp1 reply where s: "send vpp (snd (p Ingress) @ snd (p Egress)) = (vpp1, reply)" by fastforce
  consider (empty) "\<forall>d. to_render (side_heap (cache_side_of crc d)) (side_lists (cache_side_of crc d)) (zs d) = []"
    | (refused) e where "reply = Some e" "\<not> (\<forall>d. to_render (side_heap (cache_side_of crc d)) (side_lists (cache_side_of crc d)) (zs d) = [])"
    | (accepted) "reply = None" "\<not> (\<forall>d. to_render (side_heap (cache_side_of crc d)) (side_lists (cache_side_of crc d)) (zs d) = [])"
    by (cases reply) blast+
  then show thesis
  proof cases
    case empty
    with run1 have run2: "render_txn send (crc, txn) vpp = Some ((crc, vpp), None)" by simp
    show thesis
    proof (rule that [OF run2])
      show "renderer_ok (crc, vpp)" by (rule render_txn_nothing(1) [OF r empty])
      show "applied vpp d x = to_apply ((rules_of crc d ++ upd d) x)" for d x
        by (rule render_txn_nothing(2) [OF r empty])
    qed simp_all
  next
    case refused
    with run1 s have "render_txn send (crc, txn) vpp = Some ((crc1, vpp1), Some (SendError e))" by simp
    moreover have "\<exists>ops. snd (send vpp ops) \<noteq> None" using s refused(1) by (metis option.distinct(1) snd_conv)
    ultimately show thesis
      using that render_txn_refused [OF r, of "\<lambda>d. fst (p d)"] p by (simp add: crc1_def side_rendered_def)
  next
    case accepted
    have vpp1: "vpp1 = fold apply_op (snd (p Ingress) @ snd (p Egress)) vpp"
      using agent s accepted(1) unfolding agent_applies_def by blast
    obtain crc' where c: "txn_Commit (crc1, txn) = Some crc'" "renderer_ok (crc', vpp1)"
      "\<And>d x. applied vpp1 d x = to_apply ((rules_of crc d ++ upd d) x)"
      unfolding crc1_def vpp1 by (rule render_txn_accepted [OF r p]) blast
    with run1 s accepted have "render_txn send (crc, txn) vpp = Some ((crc', vpp1), None)" by simp
    from that [OF this] show thesis using c(2,3) by simp
  qed
qed

section \<open>Commit\<close>

lemma render_txn_returns:
  assumes r: "txn_ready upd (crc, txn) vpp ys zs" and agent: "agent_applies send"
  shows "\<exists>crc' vpp' err. render_txn send (crc, txn) vpp = Some ((crc', vpp'), err) \<and>
    (err = None \<longrightarrow> renderer_ok (crc', vpp') \<and> (\<forall>d x. applied vpp' d x = to_apply ((rules_of crc d ++ upd d) x))) \<and>
    (err \<noteq> None \<longrightarrow> cache_ok crc' \<and> (\<forall>d. rules_of crc' d = rules_of crc d) \<and> (\<exists>ops. snd (send vpp ops) \<noteq> None))"
proof (rule render_txn_ok [OF r agent])
  fix crc' vpp' err
  assume "render_txn send (crc, txn) vpp = Some ((crc', vpp'), err)" "err = None \<Longrightarrow> renderer_ok (crc', vpp')"
    "\<And>d x. err = None \<Longrightarrow> applied vpp' d x = to_apply ((rules_of crc d ++ upd d) x)"
    "err \<noteq> None \<Longrightarrow> cache_ok crc' \<and> (\<exists>ops. snd (send vpp ops) \<noteq> None)" "\<And>d. err \<noteq> None \<Longrightarrow> rules_of crc' d = rules_of crc d"
  then show ?thesis by (intro exI [of _ crc'] exI [of _ vpp'] exI [of _ err]) (cases err; simp)
qed

lemma ready_after_updates:
  assumes ok: "renderer_ok (crc, vpp)" and fresh: "fresh_bytes rnd"
    and len: "\<forall>d. length (allocatedListIDs (cache_side_of crc d)) + length us \<le> 2 ^ 40"
  obtains crc1 txn1 ys zs where "txn_updates rnd us (crc, cache_NewTxn) = Some (crc1, txn1)"
    "txn_ready (\<lambda>d. last_update d us) (crc1, txn1) vpp ys zs" "\<forall>d. rules_of crc1 d = rules_of crc d"
    "cache_interfaces crc1 = cache_interfaces crc" "set (txn_interfaces txn1) = fst ` set us"
proof -
  obtain ys where ys: "\<And>d. side_ok d (cache_side_of crc d) (ys d)"
      "\<And>d. private_ok rendered (side_heap (cache_side_of crc d)) (set (ys d))"
      "\<And>d. vpp_side_ok d vpp (side_heap (cache_side_of crc d)) (ys d)"
    using ok unfolding renderer_ok_def fst_conv snd_conv by blast
  have "\<exists>s'. txn_updates rnd us (crc, cache_NewTxn) = Some s' \<and> txn_ok crc ys ([] @ us) s' \<and>
      cache_interfaces (fst s') = cache_interfaces crc \<and>
      set (txn_interfaces (snd s')) = set (txn_interfaces cache_NewTxn) \<union> fst ` set us"
    by (rule txn_updates_ok [OF txn_ok_start [OF ys(1)] fresh]) (use len in simp)
  then obtain crc1 txn1 where run: "txn_updates rnd us (crc, cache_NewTxn) = Some (crc1, txn1)" "txn_ok crc ys us (crc1, txn1)"
      "cache_interfaces crc1 = cache_interfaces crc" "set (txn_interfaces txn1) = fst ` set us"
    by (auto simp: cache_NewTxn_def)
  have side: "\<exists>z. head_ok d (side_heap (cache_side_of crc1 d)) (side_lists (cache_side_of crc1 d)) (txn_lists txn1 d)
        (ys d) z (last_update d us) (allocatedListIDs (cache_side_of crc1 d))"
    and base: "\<And>b. b \<in> set (ys d) \<Longrightarrow> side_heap (cache_side_of crc1 d) ! b = side_heap (cache_side_of crc d) ! b" for d
    using run(2) unfolding txn_ok_def txn_side_ok_def prod.case fst_conv snd_conv keeps_base_def by blast+
  obtain zs where zs: "\<And>d. head_ok d (side_heap (cache_side_of crc1 d)) (side_lists (cache_side_of crc1 d)) (txn_lists txn1 d)
      (ys d) (zs d) (last_update d us) (allocatedListIDs (cache_side_of crc1 d))"
    using side by metis
  have "txn_ready (\<lambda>d. last_update d us) (crc1, txn1) vpp ys zs"
    unfolding txn_ready_def fst_conv snd_conv
  proof (intro allI conjI)
    show "private_ok rendered (side_heap (cache_side_of crc1 d)) (set (ys d))" for d
      using ys(2) [of d] base by (simp add: private_ok_def)
    show "vpp_side_ok d vpp (side_heap (cache_side_of crc1 d)) (ys d)" for d
      by (rule vpp_side_ok_cong [OF ys(3) base])
  qed (rule zs)
  with run txn_ok_configured [OF run(2) ys(1)] that show thesis by blast
qed

section \<open>Properties\<close>

text \<open>
  C8: \<^verbatim>\<open>Commit\<close> of an incremental transaction of the ACL renderer returns, and if it reports no error
  then VPP applies to every interface exactly one access list in each direction, rendered from its
  rules: the rules of the transaction for an interface that it configures, and the previous rules
  for all others; an interface without rules has no access list. If the agent refuses the changes,
  \<^verbatim>\<open>Commit\<close> reports that and the configuration in the cache is the one before the transaction. The
  hypotheses state what the agent does with an accepted transaction and that the random source
  yields unused identifiers.
\<close>

theorem acl_commit_installs:
  assumes "renderer_ok (crc, vpp)" "agent_applies send" "fresh_bytes rnd" "\<not> rtxn_resync art"
    and "\<forall>d. length (allocatedListIDs (cache_side_of crc d)) + length (rtxn_config art) \<le> 2 ^ 40"
  shows "\<exists>crc' vpp' err. acl_Commit rnd dump send art (crc, vpp) = Some ((crc', vpp'), err) \<and>
    (err = None \<longrightarrow> renderer_ok (crc', vpp') \<and>
       (\<forall>d x. applied vpp' d x = to_apply ((rules_of crc d ++ last_update d (rtxn_config art)) x))) \<and>
    (err \<noteq> None \<longrightarrow> cache_ok crc' \<and> (\<forall>d. rules_of crc' d = rules_of crc d) \<and> (\<exists>ops. snd (send vpp ops) \<noteq> None))"
proof -
  obtain crc1 txn1 ys zs where run: "txn_updates rnd (rtxn_config art) (crc, cache_NewTxn) = Some (crc1, txn1)"
    and ready: "txn_ready (\<lambda>d. last_update d (rtxn_config art)) (crc1, txn1) vpp ys zs"
    and rules: "\<forall>d. rules_of crc1 d = rules_of crc d"
    by (rule ready_after_updates [OF assms(1,3,5)])
  from render_txn_returns [OF ready assms(2)]
  obtain crc' vpp' err where r: "render_txn send (crc1, txn1) vpp = Some ((crc', vpp'), err)"
    "err = None \<longrightarrow> renderer_ok (crc', vpp') \<and>
       (\<forall>d x. applied vpp' d x = to_apply ((rules_of crc1 d ++ last_update d (rtxn_config art)) x))"
    "err \<noteq> None \<longrightarrow> cache_ok crc' \<and> (\<forall>d. rules_of crc' d = rules_of crc1 d) \<and> (\<exists>ops. snd (send vpp ops) \<noteq> None)"
    by blast
  have "acl_Commit rnd dump send art (crc, vpp) = Some ((crc', vpp'), err)"
    using run r(1) assms(4) by (simp add: acl_Commit_def)
  with r(2,3) rules show ?thesis by auto
qed

text \<open>An agent that accepts everything.\<close>

definition accepting :: "vpp_acls \<Rightarrow> acl_op list \<Rightarrow> vpp_acls \<times> string option" where
  "accepting vpp ops = (fold apply_op ops vpp, None)"

lemma agent_applies_accepting: "agent_applies accepting"
  by (simp add: agent_applies_def accepting_def)

lemma renderer_ok_Init: "renderer_ok (rule_cache_Init 0, Map.empty)"
  unfolding renderer_ok_def
  by (intro exI [of _ "\<lambda>_. []"])
     (simp add: rule_cache_Init_def side_ok_def empty_side_def lists_ok_empty private_ok_def vpp_side_ok_def)

lemma rules_of_Init: "rules_of (rule_cache_Init pos) d = Map.empty"
  by (rule ext) (simp add: rules_of_configured configured_def rule_cache_Init_def empty_side_def NewContivRuleLists_def)

definition ex_art :: renderer_txn where
  "ex_art = acl_Render (\<lambda>_ n. Some n) ''default'' ''tap2'' (Some [ex_rule ''a'' 80]) None
     (acl_Render (\<lambda>_ n. Some n) ''default'' ''tap1'' (Some [ex_rule ''a'' 80]) (Some []) (acl_NewTxn False))"

theorem acl_commit_installs_witness:
  "renderer_ok (rule_cache_Init 0, Map.empty) \<and> agent_applies accepting \<and> fresh_bytes counting \<and> \<not> rtxn_resync ex_art \<and>
   (\<exists>crc' vpp'. acl_Commit counting (\<lambda>_. Inl ''down'') accepting ex_art (rule_cache_Init 0, Map.empty) = Some ((crc', vpp'), None) \<and>
      applied vpp' Ingress ''tap1'' = {[render_rule (ex_rule ''a'' 80)]} \<and> applied vpp' Egress ''tap1'' = {} \<and>
      applied vpp' Egress ''tap2'' = {} \<and> applied vpp' Ingress ''tap3'' = {})"
proof -
  have config: "rtxn_config ex_art = [(''tap1'', Some [ex_rule ''a'' 80], Some []), (''tap2'', Some [ex_rule ''a'' 80], None)]"
      "\<not> rtxn_resync ex_art"
    by (simp_all add: ex_art_def acl_Render_def acl_NewTxn_def)
  have "\<forall>d. length (allocatedListIDs (cache_side_of (rule_cache_Init 0 :: acl rule_cache) d)) + length (rtxn_config ex_art) \<le> 2 ^ 40"
    by (simp add: rule_cache_Init_def empty_side_def config)
  from acl_commit_installs [OF renderer_ok_Init agent_applies_accepting fresh_bytes_counting config(2) this, of "\<lambda>_. Inl ''down''"]
  obtain crc' vpp' err where r: "acl_Commit counting (\<lambda>_. Inl ''down'') accepting ex_art (rule_cache_Init 0, Map.empty) = Some ((crc', vpp'), err)"
      "err = None \<longrightarrow> (\<forall>d x. applied vpp' d x =
         to_apply ((rules_of (rule_cache_Init 0 :: acl rule_cache) d ++ last_update d (rtxn_config ex_art)) x))"
      "err \<noteq> None \<longrightarrow> (\<exists>ops. snd (accepting Map.empty ops) \<noteq> None)" by blast
  have none: "err = None" using r(3) by (simp add: accepting_def)
  have app: "applied vpp' d x = to_apply (last_update d (rtxn_config ex_art) x)" for d x
    using r(2) none by (simp add: rules_of_Init)
  have "applied vpp' Ingress ''tap1'' = {[render_rule (ex_rule ''a'' 80)]}" "applied vpp' Egress ''tap1'' = {}"
      "applied vpp' Egress ''tap2'' = {}" "applied vpp' Ingress ''tap3'' = {}"
    unfolding app config by (simp_all add: last_update_def to_apply_def rule_slice_def)
  with r(1) none renderer_ok_Init agent_applies_accepting fresh_bytes_counting config(2) show ?thesis by blast
qed

end
