(* ===== verification/KvdbProxy.thy ===== *)
theory KvdbProxy
  imports Prelude
begin

text \<open>
  The data-store proxy, \<^verbatim>\<open>src/plugins/kvdbproxy/plugin_impl_kvdbproxy.go\<close>: change events that a plugin causes itself by
  writing to the data store are announced in an ignore list and dropped from the watched events. Shows which of the
  received events reach the watcher, for any interleaving of announcements and events.
\<close>

section \<open>The proxy\<close>

datatype put_del = Put | Delete

record kv_event =
  Change_Key :: string
  ChangeType :: put_del

record kvdbproxy =
  ignoreList :: "string \<rightharpoonup> put_del"

definition proxy_Init :: kvdbproxy where
  "proxy_Init = \<lparr>ignoreList = Map.empty\<rparr>"

definition AddIgnoreEntry :: "string \<Rightarrow> put_del \<Rightarrow> kvdbproxy \<Rightarrow> kvdbproxy" where
  "AddIgnoreEntry key op p = p\<lparr>ignoreList := (ignoreList p)(key \<mapsto> op)\<rparr>"

definition DelIgnoreEntry :: "string \<Rightarrow> kvdbproxy \<Rightarrow> kvdbproxy" where
  "DelIgnoreEntry key p = p\<lparr>ignoreList := (ignoreList p)(key := None)\<rparr>"

text \<open>One event in the goroutine of \<^verbatim>\<open>Watch\<close>: the new state, and whether the event is forwarded.\<close>

definition filter_event :: "kv_event \<Rightarrow> kvdbproxy \<Rightarrow> kvdbproxy \<times> bool" where
  "filter_event m p =
     (if ignoreList p (Change_Key m) = Some (ChangeType m)
      then (p\<lparr>ignoreList := (ignoreList p)(Change_Key m := None)\<rparr>, False)
      else (p, True))"

text \<open>The mutex makes every call and every event one step. The forwarded events of a sequence of steps, in order.\<close>

datatype proxy_step = Announce string put_del | Withdraw string | Event kv_event

fun proxy_run :: "proxy_step list \<Rightarrow> kvdbproxy \<Rightarrow> kvdbproxy \<times> kv_event list" where
  "proxy_run [] p = (p, [])"
| "proxy_run (Announce key op # steps) p = proxy_run steps (AddIgnoreEntry key op p)"
| "proxy_run (Withdraw key # steps) p = proxy_run steps (DelIgnoreEntry key p)"
| "proxy_run (Event m # steps) p =
     (let (p', forwarded) = filter_event m p; (p'', ms) = proxy_run steps p'
      in (p'', if forwarded then m # ms else ms))"

section \<open>Which events reach the watcher\<close>

text \<open>
  What decides on an event is the last earlier step about its key: an announcement, a withdrawal, or an event that was
  dropped. \<open>pending\<close> is the announcement in force for a key after some steps, read off the steps of that key alone.
\<close>

definition step_key :: "proxy_step \<Rightarrow> string" where
  "step_key s = (case s of Announce key _ \<Rightarrow> key | Withdraw key \<Rightarrow> key | Event m \<Rightarrow> Change_Key m)"

fun pending :: "put_del option \<Rightarrow> proxy_step list \<Rightarrow> put_del option" where
  "pending a [] = a"
| "pending a (Announce _ op # steps) = pending (Some op) steps"
| "pending a (Withdraw _ # steps) = pending None steps"
| "pending a (Event m # steps) = pending (if a = Some (ChangeType m) then None else a) steps"

lemma ignoreList_filter_event:
  "ignoreList (fst (filter_event m p)) =
     (if ignoreList p (Change_Key m) = Some (ChangeType m) then (ignoreList p)(Change_Key m := None) else ignoreList p)"
  by (simp add: filter_event_def)

lemma proxy_run_Event:
  "proxy_run (Event m # steps) p =
     (fst (proxy_run steps (fst (filter_event m p))),
      (if snd (filter_event m p) then [m] else []) @ snd (proxy_run steps (fst (filter_event m p))))"
  by (simp split: prod.split)

lemma step_key_simps [simp]:
  "step_key (Announce key op) = key" "step_key (Withdraw key) = key" "step_key (Event m) = Change_Key m"
  by (simp_all add: step_key_def)

lemma proxy_run_pending:
  "ignoreList (fst (proxy_run steps p)) key = pending (ignoreList p key) (filter (\<lambda>s. step_key s = key) steps)"
proof (induction steps arbitrary: p)
  case (Cons s steps)
  show ?case
    by (cases s) (simp_all add: proxy_run_Event Cons ignoreList_filter_event AddIgnoreEntry_def DelIgnoreEntry_def del: proxy_run.simps(4))
qed simp

lemma proxy_run_append:
  "proxy_run (a @ b) p = (let (p1, ms1) = proxy_run a p; (p2, ms2) = proxy_run b p1 in (p2, ms1 @ ms2))"
  by (induction a p rule: proxy_run.induct) (auto split: prod.splits)

lemma proxy_run_event:
  "snd (proxy_run (before @ Event m # after) p) =
     snd (proxy_run before p) @
     (if pending (ignoreList p (Change_Key m)) (filter (\<lambda>s. step_key s = Change_Key m) before) = Some (ChangeType m) then [] else [m]) @
     snd (proxy_run after (fst (filter_event m (fst (proxy_run before p)))))"
  by (simp add: proxy_run_append filter_event_def proxy_run_pending [symmetric] split: prod.split)

text \<open>What the watcher gets at a position of the sequence.\<close>

definition forwarded_at :: "proxy_step list \<Rightarrow> nat \<Rightarrow> kv_event list" where
  "forwarded_at steps i =
     (case steps ! i of
        Event m \<Rightarrow> if pending None (filter (\<lambda>s. step_key s = Change_Key m) (take i steps)) = Some (ChangeType m) then [] else [m]
      | _ \<Rightarrow> [])"

lemma forwarded_at_append: "i < length steps \<Longrightarrow> forwarded_at (steps @ rest) i = forwarded_at steps i"
  by (simp add: forwarded_at_def nth_append split: proxy_step.split)

lemma proxy_run_last: "snd (proxy_run (steps @ [s]) proxy_Init) = snd (proxy_run steps proxy_Init) @ forwarded_at (steps @ [s]) (length steps)"
proof (cases s)
  case (Event m)
  then show ?thesis using proxy_run_event [of steps m "[]" proxy_Init] by (simp add: forwarded_at_def proxy_Init_def)
qed (simp_all add: proxy_run_append forwarded_at_def split: prod.split)

text \<open>
  C20: For any interleaving of announcements, withdrawals and events, the events forwarded by the proxy are, in order, those
  for which no announcement of the same key and operation is in force, where an announcement is in force from
  \<^verbatim>\<open>AddIgnoreEntry\<close> until the first event of the key with its operation, the next announcement for the key or its
  withdrawal; steps for other keys have no influence.
\<close>

theorem proxy_forwards:
  "snd (proxy_run steps proxy_Init) = concat (map (forwarded_at steps) [0..<length steps])"
proof (induction steps rule: rev_induct)
  case (snoc s steps)
  have "map (forwarded_at (steps @ [s])) [0..<length steps] = map (forwarded_at steps) [0..<length steps]"
    by (rule map_cong) (simp_all add: forwarded_at_append)
  then show ?case by (simp add: proxy_run_last snoc del: map_eq_conv)
qed simp

text \<open>
  An announcement whose event never comes (a failed write, or the removal of a key that is not stored) stays in force: the next
  event of the key with the same operation, whoever caused it, is dropped.
\<close>

lemma stale_announcement:
  assumes "\<forall>s\<in>set steps. step_key s \<noteq> Change_Key m"
  shows "snd (proxy_run (Announce (Change_Key m) (ChangeType m) # steps @ [Event m]) p) = snd (proxy_run steps (AddIgnoreEntry (Change_Key m) (ChangeType m) p))"
proof -
  have "filter (\<lambda>s. step_key s = Change_Key m) steps = []" using assms by (auto simp: filter_empty_conv)
  then show ?thesis by (simp add: proxy_run_event AddIgnoreEntry_def)
qed

end
