(* ===== verification/AgentModel.thy ===== *)
theory AgentModel
  imports Ipam KsrModel KvdbProxy
begin

text \<open>
  What the Contiv plugin exchanges with its surroundings: the configuration objects of the VPP agent (interfaces and
  routes) with their data-store keys, the requests of the binary API of VPP, and the calls into the Linux kernel. The
  surroundings are a parameter, a record of functions over a state of their own, so that every call may succeed or fail.
\<close>

section \<open>Configuration objects\<close>

datatype linux_if_type = LinuxInterfaces_VETH

datatype linux_ns_type = PID_REF_NS | MICROSERVICE_REF_NS | NAMED_NS | FILE_REF_NS

record linux_namespace =
  LinuxNs_Type :: linux_ns_type
  Filepath :: string

text \<open>The fields the program sets; the other fields of the messages are zero. \<^verbatim>\<open>Veth\<close> holds the name of the peer.\<close>

record linux_interface =
  Linux_Name :: string
  Linux_Type :: linux_if_type
  Linux_Enabled :: bool
  Linux_HostIfName :: string
  Linux_PhysAddress :: string
  Veth :: "string option"
  Linux_IpAddresses :: "string list"
  Linux_Namespace :: "linux_namespace option"

datatype vpp_if_type = SOFTWARE_LOOPBACK | ETHERNET_CSMACD | MEMORY_INTERFACE | TAP_INTERFACE | AF_PACKET_INTERFACE | VXLAN_TUNNEL

record vpp_tap =
  Tap_Version :: uint32
  Tap_HostIfName :: string
  RxRingSize :: uint32
  TxRingSize :: uint32

text \<open>\<^verbatim>\<open>Afpacket\<close> holds the name of the host interface.\<close>

record vpp_interface =
  Vpp_Name :: string
  Vpp_Type :: vpp_if_type
  Vpp_Enabled :: bool
  Vpp_IpAddresses :: "string list"
  Afpacket :: "string option"
  Tap :: "vpp_tap option"

record static_route =
  VrfId :: uint32
  DstIpAddr :: string
  NextHopAddr :: string
  OutgoingInterface :: string

definition linux_InterfaceKey :: "string \<Rightarrow> string" where
  "linux_InterfaceKey ifaceLabel = ''linux/config/v1/interface/'' @ ifaceLabel"

definition vpp_InterfaceKey :: "string \<Rightarrow> string" where
  "vpp_InterfaceKey ifaceLabel = ''vpp/config/v1/interface/'' @ ifaceLabel"

definition RouteKey :: "uint32 \<Rightarrow> ipnet \<Rightarrow> string \<Rightarrow> string" where
  "RouteKey vrf dstAddr nextHopAddr =
     (let key0 = ''vpp/config/v1/vrf/{vrf}/fib/{net}/{mask}/{next-hop}'';
          key1 = replace_first ''{vrf}'' (itoa (unat vrf)) key0;
          key2 = replace_first ''{net}'' (ip_string (IP dstAddr)) key1;
          key3 = replace_first ''{mask}'' (itoa (fst (mask_size (Mask dstAddr)))) key2
      in replace_first ''{next-hop}'' nextHopAddr key3)"

text \<open>The messages that are stored in the data store, and the operations of a transaction of the agent.\<close>

datatype config_object = LinuxObject linux_interface | VppObject vpp_interface | RouteObject static_route

datatype agent_op =
  PutLinuxInterface linux_interface
| PutVppInterface vpp_interface
| PutStaticRoute static_route
| DeleteLinuxInterface string
| DeleteVppInterface string
| DeleteStaticRoute uint32 ipnet "ip option"

section \<open>Requests\<close>

datatype vpp_request =
  IPNeighborAddDel uint32 bytes bytes
| StnAddDelRule bytes uint32
| AppNamespaceAddDel nat bytes uint8 uint32
| CliInband string
| SessionEnableDisable

text \<open>A return value is only compared with zero, so that its sign is irrelevant.\<close>

record vpp_reply =
  Reply_Error :: "string option"
  Retval :: uint32
  AppnsIndex :: uint32

record interface_details =
  SwIfIndex :: uint32
  L2AddressLength :: uint32
  L2Address :: bytes
  InterfaceName :: bytes

datatype dump_reply = DumpDetails interface_details | DumpFailed string

datatype host_call =
  LinkByName string
| RouteAdd int ipnet "ip option"
| AddDefaultRoute ip int
| NeighAdd int ip bytes
| SetInterfaceNamespace string string
| SwitchNamespace string
| RevertNamespace
| RenameInterface string string
| SetInterfaceMac string string
| AddInterfaceIP string ipnet
| DeleteInterface string
| ExecCommand "string list"

section \<open>Errors and actions\<close>

datatype cni_error =
  CallFailed string
| CantGetNewIP ipam_error
| CantReleaseIP ipam_error
| CantFindInterface string
| CantFindDetails string
| NonZeroRetval string uint32
| NoPIDDetected string
| CantCreateInterface string ipam_error
| CantComputeRoute ipam_error
| UnknownKey string

text \<open>
  An action on a state: no value when it panics, otherwise an error or a result, and the new state. \<open>andthen\<close> goes on with
  the result and returns early with an error.
\<close>

type_synonym ('s, 'a) action = "'s \<Rightarrow> ((cni_error + 'a) \<times> 's) option"

definition return :: "'a \<Rightarrow> ('s, 'a) action" where
  "return x s = Some (Inr x, s)"

definition fail :: "cni_error \<Rightarrow> ('s, 'a) action" where
  "fail e s = Some (Inl e, s)"

definition panic :: "('s, 'a) action" where
  "panic s = None"

definition andthen :: "('s, 'a) action \<Rightarrow> ('a \<Rightarrow> ('s, 'b) action) \<Rightarrow> ('s, 'b) action" where
  "andthen m f s =
     (case m s of
        None \<Rightarrow> None
      | Some (Inl e, s') \<Rightarrow> Some (Inl e, s')
      | Some (Inr x, s') \<Rightarrow> f x s')"

text \<open>An error that is only logged.\<close>

definition logged :: "('s, 'a) action \<Rightarrow> ('s, unit) action" where
  "logged m s = map_option (\<lambda>(r, s'). (Inr (), s')) (m s)"

definition unless_panic :: "'a option \<Rightarrow> ('a \<Rightarrow> ('s, 'b) action) \<Rightarrow> ('s, 'b) action" where
  "unless_panic v f = (case v of None \<Rightarrow> panic | Some x \<Rightarrow> f x)"

lemmas action_defs [go_eval] = return_def fail_def panic_def andthen_def logged_def unless_panic_def

section \<open>The surroundings\<close>

text \<open>
  \<^item> \<open>agent_send\<close>: \<^verbatim>\<open>Send().ReceiveReply()\<close> of a transaction of the VPP agent; \<open>LookupIdx\<close> and \<open>ListNames\<close>: its index of VPP
    interfaces;
  \<^item> \<open>vpp_send\<close> and \<open>vpp_dump\<close>: a request and the replies to a dump of interfaces whose name has a prefix;
  \<^item> \<open>host\<close>: calls into the kernel, with the index of the link as the result of \<^verbatim>\<open>LinkByName\<close>; \<open>WithNetNSPath\<close> runs a
    function in a network namespace;
  \<^item> \<open>kvdb_Put\<close> and \<open>kvdb_Delete\<close>: the data store behind the proxy; \<open>map_order\<close>: the order in which a map is ranged over;
    \<open>Sleep\<close>: what happens while the program sleeps for some milliseconds.
\<close>

record 'w surroundings =
  agent_send :: "agent_op list \<Rightarrow> 'w \<Rightarrow> string option \<times> 'w"
  LookupIdx :: "'w \<Rightarrow> string \<Rightarrow> uint32 option"
  ListNames :: "'w \<Rightarrow> string list"
  vpp_send :: "vpp_request \<Rightarrow> 'w \<Rightarrow> vpp_reply \<times> 'w"
  vpp_dump :: "string \<Rightarrow> 'w \<Rightarrow> dump_reply list \<times> 'w"
  host :: "host_call \<Rightarrow> 'w \<Rightarrow> (string + int) \<times> 'w"
  WithNetNSPath :: "string \<Rightarrow> ('w, unit) action \<Rightarrow> ('w, unit) action"
  kvdb_Put :: "string \<Rightarrow> config_object \<Rightarrow> 'w \<Rightarrow> string option \<times> 'w"
  kvdb_Delete :: "string \<Rightarrow> 'w \<Rightarrow> string option \<times> 'w"
  map_order :: "'w \<Rightarrow> (string \<times> config_object) list \<Rightarrow> (string \<times> config_object) list"
  Sleep :: "nat \<Rightarrow> 'w \<Rightarrow> 'w"

definition of_error :: "string option \<times> 's \<Rightarrow> ((cni_error + unit) \<times> 's) option" where
  "of_error r = Some (case fst r of None \<Rightarrow> Inr () | Some e \<Rightarrow> Inl (CallFailed e), snd r)"

definition send_txn :: "'w surroundings \<Rightarrow> agent_op list \<Rightarrow> ('w, unit) action" where
  "send_txn env ops w = of_error (agent_send env ops w)"

definition host_action :: "'w surroundings \<Rightarrow> host_call \<Rightarrow> ('w, int) action" where
  "host_action env c w = (case host env c w of (Inl e, w') \<Rightarrow> Some (Inl (CallFailed e), w') | (Inr i, w') \<Rightarrow> Some (Inr i, w'))"

text \<open>The request and the test of the return value that most calls share: a return value is reported before an error.\<close>

definition vpp_call :: "'w surroundings \<Rightarrow> string \<Rightarrow> vpp_request \<Rightarrow> ('w, vpp_reply) action" where
  "vpp_call env what req w =
     (let (reply, w') = vpp_send env req w in
      Some (if Retval reply \<noteq> 0 then Inl (NonZeroRetval what (Retval reply))
            else case Reply_Error reply of Some e \<Rightarrow> Inl (CallFailed e) | None \<Rightarrow> Inr reply, w'))"

end
