(* ===== verification/Containers.thy ===== *)
theory Containers
  imports AgentModel NamedMapping
begin

text \<open>
  The index of configured containers, \<^verbatim>\<open>src/plugins/contiv/containeridx/containermap.go\<close>, and the lookups of the Contiv
  plugin by pod, \<^verbatim>\<open>src/plugins/contiv/plugin_impl_contiv.go\<close>: through them the renderers find the interface and the
  session namespace of a pod. Shows that a lookup finds a container of the pod exactly when one is registered.
\<close>

section \<open>The index\<close>

definition podNameKey :: string where "podNameKey = ''podNameKey''"
definition podNamespaceKey :: string where "podNamespaceKey = ''podNamespaceKey''"

record container_config =
  Config_PodName :: string
  Config_PodNamespace :: string
  Veth1 :: "linux_interface option"
  Veth2 :: "linux_interface option"
  PodVppIf :: "vpp_interface option"
  Config_Route :: "static_route option"
  NsIndex :: uint32

type_synonym container_idx = "container_config named_mapping"

definition NewConfigIndex :: container_idx where
  "NewConfigIndex = NewNamedMapping"

definition container_IndexFunction :: "container_config \<Rightarrow> (string \<times> string list) list option" where
  "container_IndexFunction config = Some [(podNameKey, [Config_PodName config]), (podNamespaceKey, [Config_PodNamespace config])]"

definition RegisterContainer :: "container_idx \<Rightarrow> string \<Rightarrow> container_config \<Rightarrow> container_idx option" where
  "RegisterContainer ci containerID data = map_Put container_IndexFunction ci containerID data"

definition UnregisterContainer :: "container_idx \<Rightarrow> string \<Rightarrow> container_idx \<times> container_config option" where
  "UnregisterContainer ci containerID = (map_Delete ci containerID, map_GetValue ci containerID)"

definition LookupContainer :: "container_idx \<Rightarrow> string \<Rightarrow> container_config option" where
  "LookupContainer ci containerID = map_GetValue ci containerID"

definition LookupPodName :: "container_idx \<Rightarrow> string \<Rightarrow> string list" where
  "LookupPodName ci podName = map_ListNames ci podNameKey podName"

definition LookupPodNamespace :: "container_idx \<Rightarrow> string \<Rightarrow> string list" where
  "LookupPodNamespace ci podNamespace = map_ListNames ci podNamespaceKey podNamespace"

definition container_ListAll :: "container_idx \<Rightarrow> string list" where
  "container_ListAll ci = map_ListAllNames ci"

interpretation container_index: named_index "mapping_wf container_IndexFunction" NewNamedMapping
  "map_Put container_IndexFunction" map_Delete map_GetValue map_ListAllNames map_ListNames container_IndexFunction
  by (rule mapping_is_named_index)

definition index_wf :: "container_idx \<Rightarrow> bool" where
  "index_wf = mapping_wf container_IndexFunction"

lemma index_wf_New: "index_wf NewConfigIndex" "LookupContainer NewConfigIndex = Map.empty"
  using container_index.wf_empty by (simp_all add: index_wf_def NewConfigIndex_def LookupContainer_def fun_eq_iff)

lemma RegisterContainer_stores:
  assumes "index_wf ci"
  obtains ci' where "RegisterContainer ci cid d = Some ci'" "index_wf ci'" "LookupContainer ci' = (LookupContainer ci)(cid \<mapsto> d)"
  using container_index.put_stores [of ci d cid] assms
  by (auto simp: index_wf_def RegisterContainer_def container_IndexFunction_def LookupContainer_def [abs_def])

lemma UnregisterContainer_removes:
  assumes "index_wf ci"
  shows "index_wf (fst (UnregisterContainer ci cid))"
    and "LookupContainer (fst (UnregisterContainer ci cid)) = (LookupContainer ci)(cid := None)"
    and "snd (UnregisterContainer ci cid) = LookupContainer ci cid"
  using container_index.del_removes [of ci cid] assms
  by (simp_all add: index_wf_def UnregisterContainer_def LookupContainer_def [abs_def])

lemma LookupPodName_exact:
  assumes "index_wf ci"
  shows "cid \<in> set (LookupPodName ci podName) \<longleftrightarrow> (\<exists>d. LookupContainer ci cid = Some d \<and> Config_PodName d = podName)"
  using container_index.list_names_exact [of ci podNameKey podName cid] assms
  by (auto simp: index_wf_def LookupPodName_def LookupContainer_def container_IndexFunction_def podNameKey_def podNamespaceKey_def)

lemma LookupPodNamespace_exact:
  assumes "index_wf ci"
  shows "cid \<in> set (LookupPodNamespace ci podNamespace) \<longleftrightarrow> (\<exists>d. LookupContainer ci cid = Some d \<and> Config_PodNamespace d = podNamespace)"
  using container_index.list_names_exact [of ci podNamespaceKey podNamespace cid] assms
  by (auto simp: index_wf_def LookupPodNamespace_def LookupContainer_def container_IndexFunction_def podNameKey_def podNamespaceKey_def)

section \<open>Lookups by pod\<close>

text \<open>The inner and the outer loop of \<^verbatim>\<open>getContainerConfig\<close>.\<close>

fun match_pod_names :: "container_idx \<Rightarrow> string \<Rightarrow> string list \<Rightarrow> container_config option" where
  "match_pod_names ci pod1 [] = None"
| "match_pod_names ci pod1 (pod2 # podNamesMatch) =
     (if pod1 = pod2 then
        (case LookupContainer ci pod1 of
           Some data \<Rightarrow> Some data
         | None \<Rightarrow> match_pod_names ci pod1 podNamesMatch)
      else match_pod_names ci pod1 podNamesMatch)"

fun match_pod_namespaces :: "container_idx \<Rightarrow> string list \<Rightarrow> string list \<Rightarrow> container_config option" where
  "match_pod_namespaces ci podNamesMatch [] = None"
| "match_pod_namespaces ci podNamesMatch (pod1 # podNamespacesMatch) =
     (case match_pod_names ci pod1 podNamesMatch of
        Some data \<Rightarrow> Some data
      | None \<Rightarrow> match_pod_namespaces ci podNamesMatch podNamespacesMatch)"

definition getContainerConfig :: "container_idx \<Rightarrow> string \<Rightarrow> string \<Rightarrow> container_config option" where
  "getContainerConfig ci podNamespace podName =
     match_pod_namespaces ci (LookupPodName ci podName) (LookupPodNamespace ci podNamespace)"

definition GetIfName :: "container_idx \<Rightarrow> string \<Rightarrow> string \<Rightarrow> string option" where
  "GetIfName ci podNamespace podName =
     (case getContainerConfig ci podNamespace podName of
        Some config \<Rightarrow> map_option Vpp_Name (PodVppIf config)
      | None \<Rightarrow> None)"

definition GetNsIndex :: "container_idx \<Rightarrow> string \<Rightarrow> string \<Rightarrow> uint32 option" where
  "GetNsIndex ci podNamespace podName = map_option NsIndex (getContainerConfig ci podNamespace podName)"

lemma match_pod_names_eq: "match_pod_names ci pod1 names = (if pod1 \<in> set names then LookupContainer ci pod1 else None)"
  by (induction names) (auto split: option.splits)

lemma match_pod_namespaces_eq:
  "match_pod_namespaces ci names spaces =
     (case find (\<lambda>pod1. pod1 \<in> set names \<and> LookupContainer ci pod1 \<noteq> None) spaces of
        None \<Rightarrow> None | Some pod1 \<Rightarrow> LookupContainer ci pod1)"
  by (induction spaces) (auto simp: match_pod_names_eq split: option.splits)

text \<open>The container registered for a pod: the one with its name and namespace.\<close>

definition container_of :: "container_idx \<Rightarrow> string \<Rightarrow> string \<Rightarrow> container_config \<Rightarrow> bool" where
  "container_of ci podNamespace podName d \<longleftrightarrow>
     Config_PodNamespace d = podNamespace \<and> Config_PodName d = podName \<and> d \<in> ran (LookupContainer ci)"

lemma getContainerConfig_exact:
  assumes "index_wf ci"
  shows "getContainerConfig ci podNamespace podName = Some d \<Longrightarrow> container_of ci podNamespace podName d"
    and "getContainerConfig ci podNamespace podName = None \<Longrightarrow> \<not> container_of ci podNamespace podName d"
proof -
  let ?hit = "\<lambda>pod1. pod1 \<in> set (LookupPodName ci podName) \<and> LookupContainer ci pod1 \<noteq> None"
  note exact = LookupPodName_exact [OF assms] LookupPodNamespace_exact [OF assms]
  {
    assume "getContainerConfig ci podNamespace podName = Some d"
    then obtain pod1 where "find ?hit (LookupPodNamespace ci podNamespace) = Some pod1" and d: "LookupContainer ci pod1 = Some d"
      by (auto simp: getContainerConfig_def match_pod_namespaces_eq split: option.splits)
    then have "pod1 \<in> set (LookupPodNamespace ci podNamespace)" "?hit pod1"
      by (auto simp: find_Some_iff)
    then show "container_of ci podNamespace podName d"
      using d by (auto simp: exact container_of_def ran_def)
  next
    assume none: "getContainerConfig ci podNamespace podName = None"
    show "\<not> container_of ci podNamespace podName d"
    proof
      assume "container_of ci podNamespace podName d"
      then obtain pod1 where "LookupContainer ci pod1 = Some d" "pod1 \<in> set (LookupPodNamespace ci podNamespace)" "?hit pod1"
        by (auto simp: exact container_of_def ran_def)
      then have "find ?hit (LookupPodNamespace ci podNamespace) \<noteq> None"
        by (auto simp: find_None_iff)
      then obtain pod2 where pod2: "find ?hit (LookupPodNamespace ci podNamespace) = Some pod2" by blast
      then have "LookupContainer ci pod2 \<noteq> None" by (auto simp only: find_Some_iff)
      then show False using none by (simp only: getContainerConfig_def match_pod_namespaces_eq pod2 option.case)
    qed
  }
qed

text \<open>When at most one container is registered for the pod, the lookups return its data.\<close>

lemma getContainerConfig_unique:
  assumes "index_wf ci" and "container_of ci podNamespace podName d"
    and "\<forall>d'. container_of ci podNamespace podName d' \<longrightarrow> d' = d"
  shows "getContainerConfig ci podNamespace podName = Some d"
  using getContainerConfig_exact [OF assms(1), of podNamespace podName] assms(2,3)
  by (cases "getContainerConfig ci podNamespace podName") auto

end
