(* ===== verification/PodConfig.thy ===== *)
theory PodConfig
  imports Containers NodeId
begin

text \<open>
  The state of the CNI server, \<^verbatim>\<open>remoteCNIserver\<close> of \<^verbatim>\<open>src/plugins/contiv/remote_cni_server.go\<close>, and the configuration of
  one pod, \<^verbatim>\<open>src/plugins/contiv/pod.go\<close>: the names and objects derived from a request, and the calls that set up addresses,
  routes and neighbours.
\<close>

section \<open>Configuration and state\<close>

record interface_with_ip =
  IfIP_InterfaceName :: string
  IfIP_IP :: string

record one_node_config =
  NodeName :: string
  MainVppInterfaceName :: string
  OtherVPPInterfaces :: "interface_with_ip list"

record contiv_config =
  TCPChecksumOffloadDisabled :: bool
  TCPstackDisabled :: bool
  UseTAPInterfaces :: bool
  TAPInterfaceVersion :: uint8
  TAPv2RxRingSize :: uint16
  TAPv2TxRingSize :: uint16
  IPAMConfig :: ipam_config
  NodeConfig :: "one_node_config list"

text \<open>\<open>govppChan\<close> and \<open>swIfIndex\<close> tell whether the channel to VPP and the index of its interfaces are there.\<close>

record remoteCNIserver =
  govppChan :: bool
  swIfIndex :: bool
  configuredContainers :: "container_idx option"
  cni_ipam :: ipam
  counter :: nat
  agentLabel :: string
  cni_uid :: uint8
  nodeConfigs :: "one_node_config list"
  tcpChecksumOffloadDisabled :: bool
  vswitchConnectivityConfigured :: bool
  disableTCPstack :: bool
  useTAPInterfaces :: bool
  tapVersion :: uint8
  tapV2RxRingSize :: uint16
  tapV2TxRingSize :: uint16

definition newRemoteCNIServer ::
  "container_idx option \<Rightarrow> bool \<Rightarrow> bool \<Rightarrow> string \<Rightarrow> contiv_config \<Rightarrow> uint8 \<Rightarrow> ipam_error + remoteCNIserver" where
  "newRemoteCNIServer containers chan index label config uid =
     (case ipam_New uid (IPAMConfig config) of
        Inl err \<Rightarrow> Inl err
      | Inr ipam \<Rightarrow> Inr
          \<lparr>govppChan = chan, swIfIndex = index, configuredContainers = containers, cni_ipam = ipam, counter = 0,
           agentLabel = label, cni_uid = uid, nodeConfigs = NodeConfig config,
           tcpChecksumOffloadDisabled = TCPChecksumOffloadDisabled config, vswitchConnectivityConfigured = False,
           disableTCPstack = TCPstackDisabled config, useTAPInterfaces = UseTAPInterfaces config,
           tapVersion = TAPInterfaceVersion config, tapV2RxRingSize = TAPv2RxRingSize config,
           tapV2TxRingSize = TAPv2TxRingSize config\<rparr>)"

section \<open>Requests and replies\<close>

record cni_request =
  Version :: string
  ContainerId :: string
  NetworkNamespace :: string
  Req_InterfaceName :: string
  ExtraNwConfig :: string
  ExtraArguments :: string

datatype ip_version = IPV4 | IPV6

record reply_ip =
  IP_Version :: ip_version
  Address :: string
  Gateway :: string

record reply_interface =
  RepIf_Name :: string
  RepIf_Mac :: string
  Sandbox :: string
  RepIf_IpAddresses :: "reply_ip list"

record reply_route =
  Dst :: string
  Gw :: string

record reply_dns =
  Dns_Nameservers :: "string list"
  Dns_Domain :: string
  Dns_Search :: "string list"
  Dns_Options :: "string list"

text \<open>The error text of a reply is represented by the error.\<close>

record cni_reply =
  Result :: uint32
  Error :: "cni_error option"
  Interfaces :: "reply_interface list"
  Routes :: "reply_route list"
  Dns :: "reply_dns list"

definition resultOk :: uint32 where "resultOk = 0"
definition resultErr :: uint32 where "resultErr = 1"

section \<open>Names\<close>

definition linuxIfMaxLen :: nat where "linuxIfMaxLen = 15"
definition afPacketNamePrefix :: string where "afPacketNamePrefix = ''afpacket''"
definition tapNamePrefix :: string where "tapNamePrefix = ''tap''"
definition podNameExtraArg :: string where "podNameExtraArg = ''K8S_POD_NAME''"
definition podNamespaceExtraArg :: string where "podNamespaceExtraArg = ''K8S_POD_NAMESPACE''"
definition vethHostEndName :: string where "vethHostEndName = ''vpp1''"
definition vethVPPEndName :: string where "vethVPPEndName = ''vpp2''"
definition podIfIPPrefix :: string where "podIfIPPrefix = ''10.2.1''"

definition veth1NameFromRequest :: "cni_request \<Rightarrow> string" where
  "veth1NameFromRequest request = Req_InterfaceName request @ ContainerId request"

definition veth1HostIfNameFromRequest :: "cni_request \<Rightarrow> string" where
  "veth1HostIfNameFromRequest request = Req_InterfaceName request"

definition tapHostNameFromRequest :: "cni_request \<Rightarrow> string" where
  "tapHostNameFromRequest request = Req_InterfaceName request"

definition veth2NameFromRequest :: "cni_request \<Rightarrow> string" where
  "veth2NameFromRequest request =
     (if length (ContainerId request) > linuxIfMaxLen then take linuxIfMaxLen (ContainerId request) else ContainerId request)"

definition tapTmpHostNameFromRequest :: "cni_request \<Rightarrow> string" where
  "tapTmpHostNameFromRequest request =
     (if length (ContainerId request) > linuxIfMaxLen then take linuxIfMaxLen (ContainerId request) else ContainerId request)"

definition afpacketNameFromRequest :: "cni_request \<Rightarrow> string" where
  "afpacketNameFromRequest request = afPacketNamePrefix @ veth2NameFromRequest request"

definition tapNameFromRequest :: "cni_request \<Rightarrow> string" where
  "tapNameFromRequest request = tapNamePrefix @ tapTmpHostNameFromRequest request"

definition loopbackNameFromRequest :: "cni_request \<Rightarrow> string" where
  "loopbackNameFromRequest request = ''loop'' @ veth2NameFromRequest request"

definition ipAddrForPodVPPIf :: "remoteCNIserver \<Rightarrow> string" where
  "ipAddrForPodVPPIf s = podIfIPPrefix @ ''.'' @ itoa (counter s + 1) @ ''/32''"

definition macAddrForContainer :: string where
  "macAddrForContainer = ''00:00:00:00:00:02''"

section \<open>Objects\<close>

definition veth1FromRequest :: "cni_request \<Rightarrow> string \<Rightarrow> linux_interface" where
  "veth1FromRequest request podIP =
     \<lparr>Linux_Name = veth1NameFromRequest request, Linux_Type = LinuxInterfaces_VETH, Linux_Enabled = True,
      Linux_HostIfName = veth1HostIfNameFromRequest request, Linux_PhysAddress = macAddrForContainer,
      Veth = Some (veth2NameFromRequest request), Linux_IpAddresses = [podIP],
      Linux_Namespace = Some \<lparr>LinuxNs_Type = FILE_REF_NS, Filepath = NetworkNamespace request\<rparr>\<rparr>"

definition veth2FromRequest :: "cni_request \<Rightarrow> linux_interface" where
  "veth2FromRequest request =
     \<lparr>Linux_Name = veth2NameFromRequest request, Linux_Type = LinuxInterfaces_VETH, Linux_Enabled = True,
      Linux_HostIfName = veth2NameFromRequest request, Linux_PhysAddress = [],
      Veth = Some (veth1NameFromRequest request), Linux_IpAddresses = [], Linux_Namespace = None\<rparr>"

definition afpacketFromRequest :: "remoteCNIserver \<Rightarrow> cni_request \<Rightarrow> vpp_interface" where
  "afpacketFromRequest s request =
     \<lparr>Vpp_Name = afpacketNameFromRequest request, Vpp_Type = AF_PACKET_INTERFACE, Vpp_Enabled = True,
      Vpp_IpAddresses = [ipAddrForPodVPPIf s], Afpacket = Some (veth2NameFromRequest request), Tap = None\<rparr>"

definition tapFromRequest :: "remoteCNIserver \<Rightarrow> cni_request \<Rightarrow> vpp_interface" where
  "tapFromRequest s request =
     (let tap = \<lparr>Tap_Version = 0, Tap_HostIfName = tapTmpHostNameFromRequest request, RxRingSize = 0, TxRingSize = 0\<rparr>;
          tap' = (if tapVersion s = 2
                  then tap\<lparr>Tap_Version := 2, RxRingSize := ucast (tapV2RxRingSize s), TxRingSize := ucast (tapV2TxRingSize s)\<rparr>
                  else tap)
      in \<lparr>Vpp_Name = tapNameFromRequest request, Vpp_Type = TAP_INTERFACE, Vpp_Enabled = True,
          Vpp_IpAddresses = [ipAddrForPodVPPIf s], Afpacket = None, Tap = Some tap'\<rparr>)"

definition loopbackFromRequest :: "cni_request \<Rightarrow> string \<Rightarrow> vpp_interface" where
  "loopbackFromRequest request loopIP =
     \<lparr>Vpp_Name = loopbackNameFromRequest request, Vpp_Type = SOFTWARE_LOOPBACK, Vpp_Enabled = True,
      Vpp_IpAddresses = [loopIP], Afpacket = None, Tap = None\<rparr>"

definition vppRouteFromRequest :: "remoteCNIserver \<Rightarrow> cni_request \<Rightarrow> string \<Rightarrow> static_route" where
  "vppRouteFromRequest s request podIP =
     \<lparr>VrfId = 0, DstIpAddr = podIP, NextHopAddr = [],
      OutgoingInterface = (if useTAPInterfaces s then tapNameFromRequest request else afpacketNameFromRequest request)\<rparr>"

definition ipToIPNet :: "ip \<Rightarrow> ipnet" where
  "ipToIPNet ip = \<lparr>IP = ip, Mask = [0xff, 0xff, 0xff, 0xff]\<rparr>"

section \<open>Calls\<close>

text \<open>\<^verbatim>\<open>[]byte(s)\<close> and \<^verbatim>\<open>string(b)\<close>.\<close>

definition string_bytes :: "string \<Rightarrow> bytes" where
  "string_bytes s = map of_char s"

definition bytes_string :: "bytes \<Rightarrow> string" where
  "bytes_string bs = map (\<lambda>b. char_of (unat b)) bs"

definition configureRoutesInContainer :: "'w surroundings \<Rightarrow> remoteCNIserver \<Rightarrow> cni_request \<Rightarrow> ('w, unit) action" where
  "configureRoutesInContainer env s request =
     WithNetNSPath env (NetworkNamespace request)
       (unless_panic (PodGatewayIP (cni_ipam s)) (\<lambda>gw.
        andthen (host_action env (LinkByName (Req_InterfaceName request))) (\<lambda>dev.
        andthen (host_action env (RouteAdd dev (ipToIPNet gw) None)) (\<lambda>_.
        andthen (host_action env (AddDefaultRoute gw dev)) (\<lambda>_.
        return ())))))"

text \<open>Without a channel to VPP the call dereferences nil. The address is passed as the characters of its text.\<close>

definition configureArpOnVpp :: "'w surroundings \<Rightarrow> remoteCNIserver \<Rightarrow> uint32 \<Rightarrow> string \<Rightarrow> ip \<Rightarrow> ('w, unit) action" where
  "configureArpOnVpp env s ifIndex macAddr podIP =
     (if govppChan s then
        andthen (vpp_call env ''adding arp entry''
                   (IPNeighborAddDel ifIndex (string_bytes macAddr) (case To4 podIP of Some ip4 \<Rightarrow> ip4 | None \<Rightarrow> [])))
          (\<lambda>_. return ())
      else panic)"

definition configureArpInContainer :: "'w surroundings \<Rightarrow> remoteCNIserver \<Rightarrow> bytes \<Rightarrow> cni_request \<Rightarrow> ('w, unit) action" where
  "configureArpInContainer env s macAddr request =
     unless_panic (PodGatewayIP (cni_ipam s)) (\<lambda>gw.
       WithNetNSPath env (NetworkNamespace request)
         (andthen (host_action env (LinkByName (Req_InterfaceName request))) (\<lambda>link.
          andthen (host_action env (NeighAdd link gw macAddr)) (\<lambda>_.
          return ()))))"

text \<open>The loop over the replies of \<^verbatim>\<open>getVppInterfaceDetails\<close>: the last details with the index, or the first error.\<close>

fun receive_details :: "uint32 \<Rightarrow> dump_reply list \<Rightarrow> interface_details option \<Rightarrow> cni_error + interface_details option" where
  "receive_details ifIndex [] res = Inr res"
| "receive_details ifIndex (DumpFailed err # replies) res = Inl (CallFailed err)"
| "receive_details ifIndex (DumpDetails ifDetails # replies) res =
     receive_details ifIndex replies (if SwIfIndex ifDetails = ifIndex then Some ifDetails else res)"

definition getVppInterfaceDetails :: "'w surroundings \<Rightarrow> remoteCNIserver \<Rightarrow> string \<Rightarrow> uint32 \<Rightarrow> ('w, interface_details) action" where
  "getVppInterfaceDetails env s intfNamePrefix ifIndex w =
     (if \<not> govppChan s then Some (Inr \<lparr>SwIfIndex = 0, L2AddressLength = 0, L2Address = [], InterfaceName = []\<rparr>, w)
      else let (replies, w') = vpp_dump env intfNamePrefix w
           in Some (case receive_details ifIndex replies None of
                      Inl err \<Rightarrow> Inl err
                    | Inr (Some res) \<Rightarrow> Inr res
                    | Inr None \<Rightarrow> Inl (CantFindDetails intfNamePrefix), w'))"

definition setupStn :: "'w surroundings \<Rightarrow> remoteCNIserver \<Rightarrow> string \<Rightarrow> uint32 \<Rightarrow> ('w, unit) action" where
  "setupStn env s podIP ifIndex =
     (let ip4 = (case ParseIP podIP of Some ip \<Rightarrow> (case To4 ip of Some x \<Rightarrow> x | None \<Rightarrow> []) | None \<Rightarrow> []) in
      if govppChan s
      then andthen (vpp_call env ''adding stn rule'' (StnAddDelRule ip4 ifIndex)) (\<lambda>_. return ())
      else return ())"

definition addAppNamespace :: "'w surroundings \<Rightarrow> remoteCNIserver \<Rightarrow> string \<Rightarrow> string \<Rightarrow> ('w, uint32) action" where
  "addAppNamespace env s podNamespace ifname w =
     (if \<not> swIfIndex s then Some (Inl (CantFindInterface ifname), w)
      else case LookupIdx env w ifname of
             None \<Rightarrow> Some (Inl (CantFindInterface ifname), w)
           | Some idx \<Rightarrow>
               if govppChan s
               then andthen (vpp_call env ''adding app namespace''
                               (AppNamespaceAddDel 42 (string_bytes podNamespace) (of_nat (length podNamespace)) idx))
                      (\<lambda>reply. return (AppnsIndex reply)) w
               else Some (Inr 0, w))"

definition executeCli :: "'w surroundings \<Rightarrow> remoteCNIserver \<Rightarrow> string \<Rightarrow> ('w, unit) action" where
  "executeCli env s command w =
     (if \<not> govppChan s then Some (Inr (), w)
      else let (reply, w') = vpp_send env (CliInband command) w
           in Some (case Reply_Error reply of
                      Some err \<Rightarrow> Inl (CallFailed err)
                    | None \<Rightarrow> if Retval reply \<noteq> 0 then Inl (NonZeroRetval ''execution of cli command'' (Retval reply)) else Inr (), w'))"

definition fixPodToPodCommunication :: "'w surroundings \<Rightarrow> remoteCNIserver \<Rightarrow> string \<Rightarrow> string \<Rightarrow> ('w, unit) action" where
  "fixPodToPodCommunication env s podIP ifname = executeCli env s (''ip container '' @ podIP @ '' '' @ ifname)"

text \<open>The first component of the path that is a number; -1 counts as none.\<close>

fun first_number :: "string list \<Rightarrow> int" where
  "first_number [] = -1"
| "first_number (str # strArr) = (case Atoi str of Some i \<Rightarrow> i | None \<Rightarrow> first_number strArr)"

definition getPIDFromNwNsPath :: "string \<Rightarrow> cni_error + int" where
  "getPIDFromNwNsPath ns =
     (let pid = first_number (split_on CHR ''/'' ns) in if pid = -1 then Inl (NoPIDDetected ns) else Inr pid)"

definition int_string :: "int \<Rightarrow> string" where
  "int_string i = (if i < 0 then ''-'' @ itoa (nat (- i)) else itoa (nat i))"

definition disableTCPChecksumOffload :: "'w surroundings \<Rightarrow> cni_request \<Rightarrow> ('w, unit) action" where
  "disableTCPChecksumOffload env request =
     (case getPIDFromNwNsPath (NetworkNamespace request) of
        Inl err \<Rightarrow> fail err
      | Inr pid \<Rightarrow>
          let cmdStr = ''nsenter -t '' @ int_string pid @ '' -n ethtool --offload eth0 rx off tx off''
          in andthen (host_action env (ExecCommand (''nsenter'' # tl (split_on CHR '' '' cmdStr)))) (\<lambda>_. return ()))"

text \<open>The process of a namespace path of the form \<^verbatim>\<open>/proc/<pid>/ns/net\<close> is found.\<close>

lemma Atoi_itoa: "n < 2 ^ 63 \<Longrightarrow> Atoi (itoa n) = Some (int n)"
  using itoa_nonempty [of n] itoa_digits [of "hd (itoa n)" n] digits_val_itoa [of n]
  by (cases "itoa n") (auto simp: Atoi_def Let_def)

lemma pid_of_proc_path:
  assumes "pid < 2 ^ 63"
  shows "getPIDFromNwNsPath (''/proc/'' @ itoa pid @ ''/ns/net'') = Inr (int pid)"
proof -
  have "CHR ''/'' \<notin> set (itoa pid)" using itoa_digits [of "CHR ''/''" pid] by auto
  then have "split_on CHR ''/'' (''/proc/'' @ itoa pid @ ''/ns/net'') = ['''', ''proc'', itoa pid, ''ns'', ''net'']"
    by (simp add: split_on_append split_on_none)
  then show ?thesis using Atoi_itoa [OF assms] by (simp add: getPIDFromNwNsPath_def Atoi_def)
qed

end
