(* ===== verification/NetStrings.thy ===== *)
theory NetStrings
  imports IpamNets NodeId
begin

text \<open>
  Printing and parsing of IPv4 addresses and networks: what \<^verbatim>\<open>String\<close> of \<^verbatim>\<open>net.IP\<close> and \<^verbatim>\<open>net.IPNet\<close> prints is read back by
  \<^verbatim>\<open>net.ParseIP\<close> and \<^verbatim>\<open>net.ParseCIDR\<close>, so that an address or a network is determined by its text.
\<close>

section \<open>Decimal numbers\<close>

lemma is_digit_iff: "is_digit c \<longleftrightarrow> 48 \<le> (of_char c :: nat) \<and> of_char c \<le> (57 :: nat)"
  by (simp add: is_digit_def less_eq_char_def)

lemma digits_val_mono: "digits_val s m = Some v \<Longrightarrow> m \<le> v"
proof (induction s arbitrary: m)
  case (Cons c s)
  then have "digits_val s (10 * m + (of_char c - 48)) = Some v" by (auto simp: Let_def split: if_splits)
  from Cons.IH [OF this] show ?case by simp
qed simp

lemma dtoi_loop_digits:
  assumes "digits_val s m = Some v" "v < 0xFFFFFF"
  shows "dtoi_loop (s @ rest) m = dtoi_loop rest v"
  using assms
proof (induction s arbitrary: m)
  case (Cons c s)
  let ?m = "m * 10 + digit_val c"
  have c: "is_digit c" and v: "digits_val s ?m = Some v"
    using Cons.prems(1) by (auto simp: Let_def is_digit_iff digit_val_def mult.commute split: if_splits)
  have "\<not> 0xFFFFFF \<le> ?m" using digits_val_mono [OF v] Cons.prems(2) by simp
  then show ?case using c Cons.IH [OF v Cons.prems(2)] by (simp add: Let_def)
qed simp

lemma dtoi_itoa:
  assumes "n < 0xFFFFFF" "rest = [] \<or> \<not> is_digit (hd rest)"
  shows "dtoi (itoa n @ rest) = (n, rest, True)"
proof -
  have "dtoi_loop rest n = (n, rest, True)" using assms(2) by (cases rest) auto
  then have "dtoi_loop (itoa n @ rest) 0 = (n, rest, True)"
    using dtoi_loop_digits [OF digits_val_itoa assms(1)] by simp
  then show ?thesis by (simp add: dtoi_def)
qed

lemma itoa_inject: "itoa m = itoa n \<longleftrightarrow> m = n"
  by (metis digits_val_itoa option.inject)

lemma itoa_free:
  assumes "\<not> is_digit c"
  shows "c \<notin> set (itoa n)"
  using assms itoa_digits [of c n] by (auto simp: is_digit_iff)

section \<open>Addresses\<close>

lemma byte_small: "unat (b :: byte) < 256"
  using unsigned_less [of b, where 'a = nat] by simp

lemma parse_octets_byte:
  assumes "rest = [] \<or> \<not> is_digit (hd rest)"
  shows "parse_octets (Suc k) True (itoa (unat (b :: byte)) @ rest) = map_option (\<lambda>(p, r). (b # p, r)) (parse_octets k False rest)"
    and "parse_octets (Suc k) False (CHR ''.'' # itoa (unat b) @ rest) = map_option (\<lambda>(p, r). (b # p, r)) (parse_octets k False rest)"
  using dtoi_itoa [OF _ assms, of "unat b"] byte_small [of b] by simp_all

lemma dot_not_digit: "\<not> is_digit CHR ''.''" "\<not> is_digit CHR ''/''" "\<not> is_digit CHR '':''"
  by (simp_all add: is_digit_iff)

lemma ip_string_4: "ip_string [a, b, c, d] = itoa (unat a) @ ''.'' @ itoa (unat b) @ ''.'' @ itoa (unat c) @ ''.'' @ itoa (unat d)"
  by (simp add: ip_string_def To4_def)

lemma parseIPv4_string: "parseIPv4 (ip_string [a, b, c, d]) = Some (IPv4 a b c d)"
proof -
  have "parse_octets (Suc (Suc (Suc (Suc 0)))) True (ip_string [a, b, c, d]) = Some ([a, b, c, d], [])"
    unfolding ip_string_4 using parse_octets_byte(2) [of "[]" 0 d]
    by (simp add: parse_octets_byte dot_not_digit del: parse_octets.simps(2))
  then show ?thesis by (simp add: parseIPv4_def numeral_eq_Suc)
qed

lemma ip_string_free: "CHR ''/'' \<notin> set (ip_string [a, b, c, d])"
  using itoa_free [OF dot_not_digit(2)] by (simp add: ip_string_4)

lemma ParseIP_string: "ParseIP (ip_string [a, b, c, d]) = Some (IPv4 a b c d)"
proof -
  have free: "\<forall>x\<in>set (itoa n). x \<noteq> CHR ''.'' \<and> x \<noteq> CHR '':''" for n
    using itoa_free [OF dot_not_digit(1)] itoa_free [OF dot_not_digit(3)] by blast
  have "find (\<lambda>c. c = CHR ''.'' \<or> c = CHR '':'') (t @ CHR ''.'' # s) = Some CHR ''.''"
    if "\<forall>x\<in>set t. x \<noteq> CHR ''.'' \<and> x \<noteq> CHR '':''" for t s
    using that by (induction t) simp_all
  from this [OF free]
  have "find (\<lambda>c. c = CHR ''.'' \<or> c = CHR '':'') (ip_string [a, b, c, d]) = Some CHR ''.''" by (simp add: ip_string_4)
  then show ?thesis using parseIPv4_string [of a b c d] by (simp add: ParseIP_def)
qed

text \<open>The text of a 4-byte address determines it.\<close>

lemma ip_string_inject:
  assumes "length x = 4" "length y = 4"
  shows "ip_string x = ip_string y \<longleftrightarrow> x = y"
proof
  assume eq: "ip_string x = ip_string y"
  obtain a b c d where x: "x = [a, b, c, d]" using assms(1) by (auto simp: length_4)
  obtain e f g h where y: "y = [e, f, g, h]" using assms(2) by (auto simp: length_4)
  have "IPv4 a b c d = IPv4 e f g h"
    using parseIPv4_string [of a b c d] parseIPv4_string [of e f g h] eq by (simp add: x y)
  then show "x = y" by (simp add: x y IPv4_def)
qed simp

section \<open>Networks\<close>

lemma ip_and_idem: "length x = length m \<Longrightarrow> ip_and (ip_and x m) m = ip_and x m"
  by (induction x m rule: list_induct2) simp_all

lemma aligned_masked:
  assumes "len \<le> 32" "aligned p len"
  shows "ip_and (uint32_bytes p) (cidr_bytes 4 len) = uint32_bytes p"
proof -
  let ?m = "ip_and (uint32_bytes p) (cidr_bytes 4 len)"
  define w where "w = ip_num ?m"
  have w: "uint32_bytes w = ?m" by (simp add: w_def bytes_ip_num)
  have "aligned w len" using masked_aligned [OF assms(1), of "uint32_bytes p"] by (simp add: w_def)
  moreover have "ip_and (uint32_bytes w) (cidr_bytes 4 len) = ?m" by (simp add: w ip_and_idem)
  then have "unat w div 2 ^ (32 - len) = unat p div 2 ^ (32 - len)"
    using assms(1) ip_and_cidr_eq_iff [of "uint32_bytes w" 4 "uint32_bytes p" len]
    by (simp add: bits_eq_iff_drop drop_bit_word_iff)
  ultimately have "unat w = unat p"
    using assms(2) by (metis aligned_def div_mult_mod_eq)
  then show ?thesis using w by (metis word_unat_eq_iff)
qed

lemma ipnet_string_net32: "len \<le> 32 \<Longrightarrow> ipnet_string (net32 p len) = ip_string (uint32_bytes p) @ ''/'' @ itoa len"
  using simpleMaskLength_cidr [of len 4 0] by (simp add: ipnet_string_def networkNumberAndMask_def net32_def To4_def)

lemma uint32_bytes_4: obtains a b c d where "uint32_bytes p = [a, b, c, d]"
  by (auto simp: uint32_bytes_def)

text \<open>A canonical IPv4 network is read back from its text.\<close>

lemma ParseCIDR_string:
  assumes "len \<le> 32" "aligned p len"
  shows "\<exists>ip. ParseCIDR (ipnet_string (net32 p len)) = Some (ip, net32 p len)"
proof -
  obtain a b c d where p: "uint32_bytes p = [a, b, c, d]" by (rule uint32_bytes_4)
  let ?a = "ip_string [a, b, c, d]"
  have free: "\<forall>x\<in>set ?a. x \<noteq> CHR ''/''" using ip_string_free [of a b c d] by blast
  have "takeWhile (\<lambda>c. c \<noteq> CHR ''/'') (?a @ CHR ''/'' # itoa len) = ?a"
    "dropWhile (\<lambda>c. c \<noteq> CHR ''/'') (?a @ CHR ''/'' # itoa len) = CHR ''/'' # itoa len"
    using free by (simp_all add: takeWhile_append dropWhile_append)
  moreover have "dtoi (itoa len) = (len, [], True)" using dtoi_itoa [of len "[]"] assms(1) by simp
  moreover have "ip_mask (IPv4 a b c d) (cidr_bytes 4 len) = uint32_bytes p"
    using aligned_masked [OF assms] by (simp add: ip_mask_def IPv4_def v4InV6Prefix_def p)
  moreover have "ipnet_string (net32 p len) = ?a @ CHR ''/'' # itoa len" using assms(1) by (simp add: ipnet_string_net32 p)
  ultimately show ?thesis
    using assms(1) by (simp add: ParseCIDR_def parseIPv4_string CIDRMask_def) (simp add: net32_def)
qed

end
