(* ===== verification/HostConfig.thy ===== *)
theory HostConfig
  imports PodConfig IpamPool NetStrings "HOL-Library.Multiset"
begin

text \<open>
  The connectivity of a node: the interfaces and routes between VPP, the host and the other nodes,
  \<^verbatim>\<open>src/plugins/contiv/host.go\<close>, their configuration by \<^verbatim>\<open>configureVswitchConnectivity\<close> of
  \<^verbatim>\<open>src/plugins/contiv/remote_cni_server.go\<close>, and the routes to nodes that come and go, \<^verbatim>\<open>src/plugins/contiv/node.go\<close>.
\<close>

section \<open>Interfaces and routes\<close>

definition addr_with_size :: "ip \<Rightarrow> ipnet \<Rightarrow> string" where
  "addr_with_size ip n = ip_string ip @ ''/'' @ itoa (fst (mask_size (Mask n)))"

definition interconnectVethHost :: "ipam \<Rightarrow> linux_interface option" where
  "interconnectVethHost i =
     (case (VSwitchNetwork i, get_VEthHostEndIP i) of
        (Some network, Some ip) \<Rightarrow> Some
          \<lparr>Linux_Name = ''vppv1'', Linux_Type = LinuxInterfaces_VETH, Linux_Enabled = True, Linux_HostIfName = vethHostEndName,
           Linux_PhysAddress = [], Veth = Some ''v2'', Linux_IpAddresses = [addr_with_size ip network], Linux_Namespace = None\<rparr>
      | _ \<Rightarrow> None)"

definition interconnectVethVpp :: linux_interface where
  "interconnectVethVpp =
     \<lparr>Linux_Name = ''v2'', Linux_Type = LinuxInterfaces_VETH, Linux_Enabled = True, Linux_HostIfName = vethVPPEndName,
      Linux_PhysAddress = [], Veth = Some ''vppv1'', Linux_IpAddresses = [], Linux_Namespace = None\<rparr>"

definition interconnectAfpacket :: "ipam \<Rightarrow> vpp_interface option" where
  "interconnectAfpacket i =
     (case (VSwitchNetwork i, get_VEthVPPEndIP i) of
        (Some network, Some ip) \<Rightarrow> Some
          \<lparr>Vpp_Name = vethVPPEndName, Vpp_Type = AF_PACKET_INTERFACE, Vpp_Enabled = True,
           Vpp_IpAddresses = [addr_with_size ip network], Afpacket = Some vethVPPEndName, Tap = None\<rparr>
      | _ \<Rightarrow> None)"

definition defaultRouteToHost :: "ipam \<Rightarrow> static_route option" where
  "defaultRouteToHost i =
     map_option (\<lambda>ip. \<lparr>VrfId = 0, DstIpAddr = ''0.0.0.0/0'', NextHopAddr = ip_string ip, OutgoingInterface = vethVPPEndName\<rparr>)
       (get_VEthHostEndIP i)"

definition physicalInterfaceWithCustomIPAddress :: "string \<Rightarrow> string \<Rightarrow> vpp_interface" where
  "physicalInterfaceWithCustomIPAddress name ipAddress =
     \<lparr>Vpp_Name = name, Vpp_Type = ETHERNET_CSMACD, Vpp_Enabled = True, Vpp_IpAddresses = [ipAddress], Afpacket = None, Tap = None\<rparr>"

definition physicalInterface :: "ipam \<Rightarrow> string \<Rightarrow> ipam_error + vpp_interface" where
  "physicalInterface i name =
     (case HostIPNetwork i (HostID i) of
        Inl err \<Rightarrow> Inl err
      | Inr hostNetwork \<Rightarrow> Inr
          \<lparr>Vpp_Name = name, Vpp_Type = ETHERNET_CSMACD, Vpp_Enabled = True, Vpp_IpAddresses = [ipnet_string hostNetwork],
           Afpacket = None, Tap = None\<rparr>)"

definition physicalInterfaceLoopback :: "ipam \<Rightarrow> ipam_error + vpp_interface" where
  "physicalInterfaceLoopback i =
     (case HostIPNetwork i (HostID i) of
        Inl err \<Rightarrow> Inl err
      | Inr hostNetwork \<Rightarrow> Inr
          \<lparr>Vpp_Name = ''loopbackNIC'', Vpp_Type = SOFTWARE_LOOPBACK, Vpp_Enabled = True, Vpp_IpAddresses = [ipnet_string hostNetwork],
           Afpacket = None, Tap = None\<rparr>)"

definition routeToOtherHostNetworks :: "ipam \<Rightarrow> uint8 \<Rightarrow> ipnet \<Rightarrow> ipam_error + static_route" where
  "routeToOtherHostNetworks i hostID destNetwork =
     (case HostIPAddress i hostID of
        Inl err \<Rightarrow> Inl err
      | Inr hostIP \<Rightarrow> Inr \<lparr>VrfId = 0, DstIpAddr = ipnet_string destNetwork, NextHopAddr = ip_string hostIP, OutgoingInterface = []\<rparr>)"

text \<open>The networks of the other host are computed with a copy that panics on a short address.\<close>

definition routeToOtherHostPods :: "ipam \<Rightarrow> uint8 \<Rightarrow> (ipam_error + static_route) option" where
  "routeToOtherHostPods i hostID =
     (case OtherHostPodNetwork i hostID of
        None \<Rightarrow> None
      | Some (Inl err) \<Rightarrow> Some (Inl err)
      | Some (Inr podNetwork) \<Rightarrow> Some (routeToOtherHostNetworks i hostID podNetwork))"

definition routeToOtherHostStack :: "ipam \<Rightarrow> uint8 \<Rightarrow> (ipam_error + static_route) option" where
  "routeToOtherHostStack i hostID =
     (case OtherHostVSwitchNetwork i hostID of
        None \<Rightarrow> None
      | Some (Inl err) \<Rightarrow> Some (Inl err)
      | Some (Inr vswitchNetwork) \<Rightarrow> Some (routeToOtherHostNetworks i hostID vswitchNetwork))"

definition computeRoutesForHost :: "ipam \<Rightarrow> uint8 \<Rightarrow> (ipam_error + static_route \<times> static_route) option" where
  "computeRoutesForHost i hostID =
     (case routeToOtherHostPods i hostID of
        None \<Rightarrow> None
      | Some (Inl err) \<Rightarrow> Some (Inl err)
      | Some (Inr podsRoute) \<Rightarrow>
          (case routeToOtherHostStack i hostID of
             None \<Rightarrow> None
           | Some (Inl err) \<Rightarrow> Some (Inl err)
           | Some (Inr hostRoute) \<Rightarrow> Some (Inr (podsRoute, hostRoute))))"

section \<open>Nodes that come and go\<close>

text \<open>A change of the entry of a node: its key, what decoding its value gives, and the kind of the change.\<close>

record node_event =
  Node_Key :: string
  Node_Value :: "string + uid_identifier"
  Node_Change :: put_del

definition compute_routes :: "remoteCNIserver \<Rightarrow> uint8 \<Rightarrow> (static_route \<Rightarrow> static_route \<Rightarrow> ('w, 'a) action) \<Rightarrow> ('w, 'a) action" where
  "compute_routes s hostID f =
     unless_panic (computeRoutesForHost (cni_ipam s) hostID) (\<lambda>r.
       case r of Inl err \<Rightarrow> fail (CantComputeRoute err) | Inr (podsRoute, hostRoute) \<Rightarrow> f podsRoute hostRoute)"

definition add_routes :: "'w surroundings \<Rightarrow> remoteCNIserver \<Rightarrow> uint8 \<Rightarrow> ('w, unit) action" where
  "add_routes env s hostID =
     compute_routes s hostID (\<lambda>podsRoute hostRoute. send_txn env [PutStaticRoute podsRoute, PutStaticRoute hostRoute])"

definition delete_routes :: "'w surroundings \<Rightarrow> remoteCNIserver \<Rightarrow> uint8 \<Rightarrow> ('w, unit) action" where
  "delete_routes env s hostID =
     compute_routes s hostID (\<lambda>podsRoute hostRoute.
       case (ParseCIDR (DstIpAddr podsRoute), ParseCIDR (DstIpAddr hostRoute)) of
         (None, _) \<Rightarrow> fail (CallFailed (DstIpAddr podsRoute))
       | (_, None) \<Rightarrow> fail (CallFailed (DstIpAddr hostRoute))
       | (Some (_, podDest), Some (_, hostDest)) \<Rightarrow>
           send_txn env [DeleteStaticRoute (VrfId podsRoute) podDest (ParseIP (NextHopAddr podsRoute)),
                         DeleteStaticRoute (VrfId hostRoute) hostDest (ParseIP (NextHopAddr hostRoute))])"

definition nodeChangePropageteEvent :: "'w surroundings \<Rightarrow> remoteCNIserver \<Rightarrow> node_event \<Rightarrow> ('w, unit) action" where
  "nodeChangePropageteEvent env s dataChngEv =
     (if has_prefix (Node_Key dataChngEv) allocatedIDsKeyPrefix then
        (case Node_Value dataChngEv of
           Inl err \<Rightarrow> fail (CallFailed err)
         | Inr nodeID \<Rightarrow>
             let hostID = ucast (Id_Id nodeID) in
             if Node_Change dataChngEv = Put then add_routes env s hostID else delete_routes env s hostID)
      else fail (UnknownKey (Node_Key dataChngEv)))"

text \<open>The entries of one iterator, the iterators by prefix, and the empty transaction that is sent at the end.\<close>

fun resync_nodes :: "'w surroundings \<Rightarrow> remoteCNIserver \<Rightarrow> (string + uid_identifier) list \<Rightarrow> ('w, unit) action" where
  "resync_nodes env s [] = return ()"
| "resync_nodes env s (Inl err # kvs) = fail (CallFailed err)"
| "resync_nodes env s (Inr nodeID # kvs) =
     (let hostID = ucast (Id_Id nodeID) in
      if hostID \<noteq> HostID (cni_ipam s)
      then andthen (add_routes env s hostID) (\<lambda>_. resync_nodes env s kvs)
      else resync_nodes env s kvs)"

fun resync_prefixes :: "'w surroundings \<Rightarrow> remoteCNIserver \<Rightarrow> (string \<times> (string + uid_identifier) list) list \<Rightarrow> ('w, unit) action" where
  "resync_prefixes env s [] = return ()"
| "resync_prefixes env s ((prefix, it) # data) =
     (if prefix = allocatedIDsKeyPrefix
      then andthen (resync_nodes env s it) (\<lambda>_. resync_prefixes env s data)
      else resync_prefixes env s data)"

definition nodeResync :: "'w surroundings \<Rightarrow> remoteCNIserver \<Rightarrow> (string \<times> (string + uid_identifier) list) list \<Rightarrow> ('w, unit) action" where
  "nodeResync env s data = andthen (resync_prefixes env s data) (\<lambda>_. send_txn env [])"

section \<open>Persisting changes\<close>

type_synonym 'w world = "kvdbproxy \<times> 'w"

definition on_world :: "('w, 'a) action \<Rightarrow> ('w world, 'a) action" where
  "on_world m h = map_option (\<lambda>(r, w). (r, fst h, w)) (m (snd h))"

definition proxy_delete :: "'w surroundings \<Rightarrow> string \<Rightarrow> ('w world, unit) action" where
  "proxy_delete env key h =
     (let p = AddIgnoreEntry key Delete (fst h); (err, w) = kvdb_Delete env key (snd h) in of_error (err, p, w))"

definition proxy_put :: "'w surroundings \<Rightarrow> string \<Rightarrow> config_object \<Rightarrow> ('w world, unit) action" where
  "proxy_put env key v h =
     (let p = AddIgnoreEntry key Put (fst h); (err, w) = kvdb_Put env key v (snd h) in of_error (err, p, w))"

fun persist_removed :: "'w surroundings \<Rightarrow> string list \<Rightarrow> ('w world, unit) action" where
  "persist_removed env [] = return ()"
| "persist_removed env (key # removedKeys) = andthen (proxy_delete env key) (\<lambda>_. persist_removed env removedKeys)"

fun persist_put :: "'w surroundings \<Rightarrow> (string \<times> config_object) list \<Rightarrow> ('w world, unit) action" where
  "persist_put env [] = return ()"
| "persist_put env ((k, v) # putChanges) = andthen (proxy_put env k v) (\<lambda>_. persist_put env putChanges)"

text \<open>The entries of a map in the order in which they are visited, some permutation.\<close>

definition ranged :: "'w surroundings \<Rightarrow> 'w \<Rightarrow> (string \<times> config_object) list \<Rightarrow> (string \<times> config_object) list" where
  "ranged env w m = (if mset (map_order env w m) = mset m then map_order env w m else m)"

definition persistChanges :: "'w surroundings \<Rightarrow> string list \<Rightarrow> (string \<times> config_object) list \<Rightarrow> ('w world, unit) action" where
  "persistChanges env removedKeys putChanges =
     andthen (persist_removed env removedKeys) (\<lambda>_ h. persist_put env (ranged env (snd h) putChanges) h)"

section \<open>The connectivity of the virtual switch\<close>

fun specificConfigForCurrentNode :: "one_node_config list \<Rightarrow> string \<Rightarrow> one_node_config option" where
  "specificConfigForCurrentNode [] label = None"
| "specificConfigForCurrentNode (oneNodeConfig # configs) label =
     (if NodeName oneNodeConfig = label then Some oneNodeConfig else specificConfigForCurrentNode configs label)"

definition is_virtual_name :: "string \<Rightarrow> bool" where
  "is_virtual_name name \<longleftrightarrow> has_prefix name ''local'' \<or> has_prefix name ''loop'' \<or> has_prefix name ''host'' \<or> has_prefix name ''tap''"

text \<open>The name of the physical interface: as configured, unless that is blank, or else the first that is not virtual; empty
  when there is none.\<close>

definition nic_name :: "one_node_config option \<Rightarrow> string list \<Rightarrow> string" where
  "nic_name config names =
     (case config of
        Some c \<Rightarrow> if \<exists>ch\<in>set (MainVppInterfaceName c). ch \<noteq> CHR '' '' then MainVppInterfaceName c
                  else (case find (\<lambda>name. \<not> is_virtual_name name) names of Some name \<Rightarrow> name | None \<Rightarrow> [])
      | None \<Rightarrow> (case find (\<lambda>name. \<not> is_virtual_name name) names of Some name \<Rightarrow> name | None \<Rightarrow> []))"

text \<open>The interfaces with an address of their own: of several addresses for one name the last wins.\<close>

definition other_interfaces :: "one_node_config \<Rightarrow> string list \<Rightarrow> (string \<times> vpp_interface) list" where
  "other_interfaces config names =
     foldl (\<lambda>m name. foldl (\<lambda>m intIP.
         if IfIP_InterfaceName intIP = name then AList.update name (physicalInterfaceWithCustomIPAddress name (IfIP_IP intIP)) m else m)
       m (OtherVPPInterfaces config)) [] names"

definition configure_nic :: "'w surroundings \<Rightarrow> remoteCNIserver \<Rightarrow> string \<Rightarrow> ('w, (string \<times> config_object) list) action" where
  "configure_nic env s nicName =
     (case (if nicName \<noteq> [] then physicalInterface (cni_ipam s) nicName else physicalInterfaceLoopback (cni_ipam s)) of
        Inl err \<Rightarrow> fail (CantCreateInterface nicName err)
      | Inr nic \<Rightarrow> andthen (send_txn env [PutVppInterface nic]) (\<lambda>_. return [(vpp_InterfaceKey (Vpp_Name nic), VppObject nic)]))"

definition configure_other :: "'w surroundings \<Rightarrow> one_node_config option \<Rightarrow> (string \<times> config_object) list \<Rightarrow> ('w, (string \<times> config_object) list) action" where
  "configure_other env config changes w =
     (case config of
        None \<Rightarrow> return changes w
      | Some c \<Rightarrow>
          let interfaces = map (\<lambda>(name, intf). (name, VppObject intf)) (other_interfaces c (ListNames env w));
              ordered = ranged env w interfaces
          in if interfaces = [] then return changes w
             else andthen (send_txn env (concat (map (\<lambda>(_, obj). case obj of VppObject intf \<Rightarrow> [PutVppInterface intf] | _ \<Rightarrow> []) ordered)))
                    (\<lambda>_. return (foldl (\<lambda>m (name, obj). AList.update (vpp_InterfaceKey name) obj m) changes ordered)) w)"

text \<open>The loop that waits for the interface: at most ten times 100 milliseconds.\<close>

fun wait_for_index :: "'w surroundings \<Rightarrow> nat \<Rightarrow> 'w \<Rightarrow> 'w" where
  "wait_for_index env 0 w = w"
| "wait_for_index env (Suc n) w =
     (if LookupIdx env w vethVPPEndName \<noteq> None then w else wait_for_index env n (Sleep env 100 w))"

definition configureRouteOnHost :: "'w surroundings \<Rightarrow> remoteCNIserver \<Rightarrow> ('w, unit) action" where
  "configureRouteOnHost env s =
     andthen (host_action env (LinkByName vethHostEndName)) (\<lambda>dev.
     unless_panic (PodSubnet (cni_ipam s)) (\<lambda>subnet.
     unless_panic (get_VEthVPPEndIP (cni_ipam s)) (\<lambda>gw.
     andthen (host_action env (RouteAdd dev subnet (Some gw))) (\<lambda>_. return ()))))"

definition enableTCPSession :: "'w surroundings \<Rightarrow> remoteCNIserver \<Rightarrow> ('w, unit) action" where
  "enableTCPSession env s =
     (if govppChan s then andthen (vpp_call env ''enabling session'' SessionEnableDisable) (\<lambda>_. return ()) else return ())"

text \<open>
  The steps of \<^verbatim>\<open>configureVswitchConnectivity\<close> up to the last one, whose error does not stop it. Only the transaction for the
  virtual ethernet pair may fail without consequence.
\<close>

definition configure_interconnect :: "'w surroundings \<Rightarrow> remoteCNIserver \<Rightarrow> (string \<times> config_object) list \<Rightarrow> ('w world, unit) action" where
  "configure_interconnect env s changes =
     unless_panic (interconnectVethHost (cni_ipam s)) (\<lambda>vethHost.
     unless_panic (interconnectAfpacket (cni_ipam s)) (\<lambda>interconnectAF.
     unless_panic (defaultRouteToHost (cni_ipam s)) (\<lambda>route.
     let vethVpp = interconnectVethVpp in
     andthen (on_world (logged (send_txn env [PutLinuxInterface vethHost, PutLinuxInterface vethVpp]))) (\<lambda>_.
     andthen (on_world (send_txn env [PutVppInterface interconnectAF])) (\<lambda>_.
     andthen (on_world (\<lambda>w. return () (wait_for_index env 10 w))) (\<lambda>_.
     andthen (on_world (send_txn env [PutStaticRoute route])) (\<lambda>_.
     unless_panic (ParseCIDR (DstIpAddr route)) (\<lambda>(_, dstNet).
     let changes1 = AList.update (linux_InterfaceKey (Linux_Name vethHost)) (LinuxObject vethHost) changes;
         changes2 = AList.update (linux_InterfaceKey (Linux_Name vethVpp)) (LinuxObject vethVpp) changes1;
         changes3 = AList.update (vpp_InterfaceKey (Vpp_Name interconnectAF)) (VppObject interconnectAF) changes2;
         changes4 = AList.update (RouteKey (VrfId route) dstNet (NextHopAddr route)) (RouteObject route) changes3
     in andthen (on_world (configureRouteOnHost env s)) (\<lambda>_. persistChanges env [] changes4)))))))))"

definition vswitch_steps :: "'w surroundings \<Rightarrow> remoteCNIserver \<Rightarrow> ('w world, unit) action" where
  "vswitch_steps env s h =
     (let config = specificConfigForCurrentNode (nodeConfigs s) (agentLabel s);
          nicName = nic_name config (ListNames env (snd h))
      in andthen (on_world (configure_nic env s nicName)) (\<lambda>changes.
         andthen (on_world (configure_other env config changes)) (\<lambda>changes'.
         configure_interconnect env s changes')) h)"

definition configureVswitchConnectivity ::
  "'w surroundings \<Rightarrow> remoteCNIserver \<Rightarrow> 'w world \<Rightarrow> (cni_error option \<times> remoteCNIserver \<times> 'w world) option" where
  "configureVswitchConnectivity env s h =
     (if \<not> swIfIndex s then None
      else if LookupIdx env (snd h) vethVPPEndName \<noteq> None then Some (None, s\<lparr>vswitchConnectivityConfigured := True\<rparr>, h)
      else case vswitch_steps env s h of
             None \<Rightarrow> None
           | Some (Inl err, h') \<Rightarrow> Some (Some err, s, h')
           | Some (Inr _, h') \<Rightarrow>
               let configured = s\<lparr>vswitchConnectivityConfigured := True\<rparr> in
               if disableTCPstack s then Some (None, configured, h')
               else case on_world (enableTCPSession env s) h' of
                      None \<Rightarrow> None
                    | Some (Inl err, h'') \<Rightarrow> Some (Some err, configured, h'')
                    | Some (Inr _, h'') \<Rightarrow> Some (None, configured, h''))"

definition cni_resync ::
  "'w surroundings \<Rightarrow> remoteCNIserver \<Rightarrow> 'w world \<Rightarrow> (cni_error option \<times> remoteCNIserver \<times> 'w world) option" where
  "cni_resync env s h = configureVswitchConnectivity env s h"

definition cleanupVswitchConnectivity :: "'w surroundings \<Rightarrow> remoteCNIserver \<Rightarrow> ('w, unit) action" where
  "cleanupVswitchConnectivity env s =
     unless_panic (interconnectVethHost (cni_ipam s)) (\<lambda>vethHost.
       logged (send_txn env [DeleteLinuxInterface (Linux_Name vethHost), DeleteLinuxInterface (Linux_Name interconnectVethVpp)]))"

lemma configureVswitch_state:
  assumes "configureVswitchConnectivity env s h = Some (err, s', h')"
  shows "s' = s \<or> s' = s\<lparr>vswitchConnectivityConfigured := True\<rparr>"
  using assms by (auto simp: configureVswitchConnectivity_def Let_def split: if_splits option.splits sum.splits)

section \<open>Routes between the nodes of a cluster\<close>

text \<open>Allocations and releases change nothing but the assigned addresses.\<close>

lemma ipam_reach_networks:
  assumes "ipam_reach h config i"
  obtains i0 where "ipam_New h config = Inr i0" "i = i0\<lparr>assignedPodIPs := assignedPodIPs i\<rparr>"
  using assms
proof (induction arbitrary: thesis rule: ipam_reach.induct)
  case (start i)
  then show ?case by simp
next
  case (alloc i podID i' res)
  obtain i0 where i0: "ipam_New h config = Inr i0" "i = i0\<lparr>assignedPodIPs := assignedPodIPs i\<rparr>" by (rule alloc.IH)
  have "i' = i\<lparr>assignedPodIPs := assignedPodIPs i'\<rparr>"
    using alloc.hyps(2) by (auto simp: NextPodIP_def Let_def split: if_splits sum.splits option.splits prod.splits)
  then show ?case using alloc.prems i0 by (metis ipam.surjective ipam.update_convs(5))
next
  case (release i podID i' err)
  obtain i0 where i0: "ipam_New h config = Inr i0" "i = i0\<lparr>assignedPodIPs := assignedPodIPs i\<rparr>" by (rule release.IH)
  have "i' = i\<lparr>assignedPodIPs := assignedPodIPs i'\<rparr>"
    using release.hyps(2) by (auto simp: ReleasePodIP_def split: if_splits sum.splits)
  then show ?case using release.prems i0 by (metis ipam.surjective ipam.update_convs(5))
qed

lemma ipam_New_rest:
  assumes "ipam_New h config = Inr i"
  shows "convertConfigNotation (VSwitchSubnetCIDR config) (VSwitchNetworkPrefixLen config) h = Inr (vSwitchSubnetIPPrefix i, vSwitchNetworkIPPrefix i)"
    and "HostID i = h"
    and "\<exists>x. ParseCIDR (HostNodeSubnetCidr config) = Some (x, hostNodeNetworkIPPrefix i)"
  using assms
  by (auto simp: ipam_New_def initializePodsIPAM_def initializeVSwitchIPAM_def initializeHostNodeIPAM_def new_ipam_def Let_def HostID_def
      split: sum.splits option.splits)

text \<open>The network a host computes for another host is the one that host computes for itself, and it is canonical.\<close>

lemma other_network_own:
  assumes "convertConfigNotation cidr nl h1 = Inr (sub1, net1)" "convertConfigNotation cidr nl h2 = Inr (sub2, net2)" "nl \<le> 32"
  shows "other_network sub1 net1 h2 = Some (Inr net2) \<and> (\<exists>p. net2 = net32 p (unat nl) \<and> aligned p (unat nl))"
proof -
  have nl: "unat nl \<le> 32" using assms(3) by (simp add: word_le_nat_alt)
  obtain s1 sl1 p1 where 1: "sub1 = net32 s1 sl1" "net1 = net32 p1 (unat nl)"
    using convertConfigNotation_net32 [OF assms(1,3)] by blast
  obtain s2 sl2 p2 where 2: "net2 = net32 p2 (unat nl)" "aligned p2 (unat nl)"
    using convertConfigNotation_net32 [OF assms(2,3)] by blast
  have "applyHostID sub1 h2 nl = Inr net2"
    using assms(1,2) by (auto simp: convertConfigNotation_def Let_def map_sum_Inr split: option.splits if_splits)
  then show ?thesis
    using nl 2 by (auto simp: other_network_def 1(2) net32_prefix newIPNet_net32)
qed

lemma host_address:
  assumes "ipam_New h1 config = Inr i1" "ipam_New h2 config = Inr i2" "physicalInterface i2 name = Inr nic"
    and len: "fst (mask_size (Mask (hostNodeNetworkIPPrefix i2))) \<le> 32"
  obtains w where "HostIPAddress i1 h2 = Inr (uint32_bytes w)"
    "Vpp_IpAddresses nic = [ip_string (uint32_bytes w) @ ''/'' @ itoa (fst (mask_size (Mask (hostNodeNetworkIPPrefix i2))))]"
proof -
  let ?len = "fst (mask_size (Mask (hostNodeNetworkIPPrefix i2)))"
  have same: "hostNodeNetworkIPPrefix i1 = hostNodeNetworkIPPrefix i2"
    using ipam_New_rest(3) [OF assms(1)] ipam_New_rest(3) [OF assms(2)] by auto
  obtain network where n: "HostIPNetwork i2 h2 = Inr network" "Vpp_IpAddresses nic = [ipnet_string network]"
    using assms(3) ipam_New_rest(2) [OF assms(2)] by (auto simp: physicalInterface_def split: sum.splits)
  obtain ip where ip: "computeHostIPAddress i2 h2 = Inr ip"
    using n(1) by (auto simp: HostIPNetwork_def split: sum.splits)
  obtain w where w: "ip = uint32_bytes w"
    using ip by (auto simp: computeHostIPAddress_def Let_def split: sum.splits)
  have "unat (32 - of_nat ?len :: uint8) = 32 - ?len"
    using len by (simp add: unat_sub word_le_nat_alt unat_of_nat)
  then have "network = net32 w ?len"
    using n(1) ip w mask_net32 [OF len] by (simp add: HostIPNetwork_def net32_def)
  then have "Vpp_IpAddresses nic = [ip_string (uint32_bytes w) @ ''/'' @ itoa ?len]"
    using n(2) len by (simp add: ipnet_string_net32)
  moreover have "HostIPAddress i1 h2 = Inr (uint32_bytes w)"
    using ip w same by (simp add: HostIPAddress_def computeHostIPAddress_def)
  ultimately show thesis using that by blast
qed

lemmas route_defs = computeRoutesForHost_def routeToOtherHostPods_def routeToOtherHostStack_def routeToOtherHostNetworks_def

lemma computeHostIPAddress_pool: "computeHostIPAddress (i\<lparr>assignedPodIPs := x\<rparr>) h = computeHostIPAddress i h"
  by (simp add: computeHostIPAddress_def)

lemma routes_ignore_pool: "computeRoutesForHost (i\<lparr>assignedPodIPs := x\<rparr>) h = computeRoutesForHost i h"
proof -
  have "routeToOtherHostNetworks (i\<lparr>assignedPodIPs := x\<rparr>) h = routeToOtherHostNetworks i h"
    by (simp add: fun_eq_iff routeToOtherHostNetworks_def HostIPAddress_def computeHostIPAddress_pool)
  then have "routeToOtherHostPods (i\<lparr>assignedPodIPs := x\<rparr>) h = routeToOtherHostPods i h"
    "routeToOtherHostStack (i\<lparr>assignedPodIPs := x\<rparr>) h = routeToOtherHostStack i h"
    by (simp_all add: routeToOtherHostPods_def routeToOtherHostStack_def OtherHostPodNetwork_def OtherHostVSwitchNetwork_def
        split: option.split sum.split)
  then show ?thesis by (simp only: computeRoutesForHost_def)
qed

lemma routes_between_nodes:
  assumes "ipam_New h1 config = Inr i1" "ipam_New h2 config = Inr i2" "physicalInterface i2 name = Inr nic"
    and "PodNetworkPrefixLen config \<le> 32" "VSwitchNetworkPrefixLen config \<le> 32"
    and "fst (mask_size (Mask (hostNodeNetworkIPPrefix i2))) \<le> 32"
  obtains podsRoute hostRoute x y where "computeRoutesForHost i1 h2 = Some (Inr (podsRoute, hostRoute))"
    "ParseCIDR (DstIpAddr podsRoute) = Some (x, podNetworkIPPrefix i2)"
    "ParseCIDR (DstIpAddr hostRoute) = Some (y, vSwitchNetworkIPPrefix i2)"
    "VrfId podsRoute = 0" "VrfId hostRoute = 0" "NextHopAddr hostRoute = NextHopAddr podsRoute"
    "Vpp_IpAddresses nic = [NextHopAddr podsRoute @ ''/'' @ itoa (fst (mask_size (Mask (hostNodeNetworkIPPrefix i2))))]"
proof -
  obtain w where w: "HostIPAddress i1 h2 = Inr (uint32_bytes w)"
    "Vpp_IpAddresses nic = [ip_string (uint32_bytes w) @ ''/'' @ itoa (fst (mask_size (Mask (hostNodeNetworkIPPrefix i2))))]"
    using host_address [OF assms(1,2,3,6)] by blast
  obtain p where p: "other_network (podSubnetIPPrefix i1) (podNetworkIPPrefix i1) h2 = Some (Inr (podNetworkIPPrefix i2))"
    "podNetworkIPPrefix i2 = net32 p (unat (PodNetworkPrefixLen config))" "aligned p (unat (PodNetworkPrefixLen config))"
    using other_network_own [OF ipam_New_pods(1) [OF assms(1)] ipam_New_pods(1) [OF assms(2)] assms(4)] by blast
  obtain v where v: "other_network (vSwitchSubnetIPPrefix i1) (vSwitchNetworkIPPrefix i1) h2 = Some (Inr (vSwitchNetworkIPPrefix i2))"
    "vSwitchNetworkIPPrefix i2 = net32 v (unat (VSwitchNetworkPrefixLen config))" "aligned v (unat (VSwitchNetworkPrefixLen config))"
    using other_network_own [OF ipam_New_rest(1) [OF assms(1)] ipam_New_rest(1) [OF assms(2)] assms(5)] by blast
  obtain x where x: "ParseCIDR (ipnet_string (podNetworkIPPrefix i2)) = Some (x, podNetworkIPPrefix i2)"
    using ParseCIDR_string [OF _ p(3)] assms(4) by (auto simp: p(2) word_le_nat_alt)
  obtain y where y: "ParseCIDR (ipnet_string (vSwitchNetworkIPPrefix i2)) = Some (y, vSwitchNetworkIPPrefix i2)"
    using ParseCIDR_string [OF _ v(3)] assms(5) by (auto simp: v(2) word_le_nat_alt)
  let ?route = "\<lambda>n. \<lparr>VrfId = 0, DstIpAddr = ipnet_string n, NextHopAddr = ip_string (uint32_bytes w), OutgoingInterface = []\<rparr>"
  show thesis
    by (rule that [of "?route (podNetworkIPPrefix i2)" "?route (vSwitchNetworkIPPrefix i2)"])
       (simp_all add: route_defs OtherHostPodNetwork_def OtherHostVSwitchNetwork_def p(1) v(1) w x y)
qed

lemma physicalInterface_pool: "physicalInterface (i\<lparr>assignedPodIPs := x\<rparr>) name = physicalInterface i name"
proof -
  have "HostIPNetwork (i\<lparr>assignedPodIPs := x\<rparr>) h = HostIPNetwork i h" for h
    by (cases "computeHostIPAddress i h") (simp_all add: HostIPNetwork_def computeHostIPAddress_pool)
  then show ?thesis by (simp add: physicalInterface_def HostID_def)
qed


text \<open>A node whose agent accepts every transaction and records it, and another node of the cluster.\<close>

definition ex_env :: "agent_op list surroundings" where
  "ex_env =
     \<lparr>agent_send = (\<lambda>ops w. (None, w @ ops)), LookupIdx = (\<lambda>w name. Some 7), ListNames = (\<lambda>w. [''GbE'']),
      vpp_send = (\<lambda>req w. (\<lparr>Reply_Error = None, Retval = 0, AppnsIndex = 3\<rparr>, w)),
      vpp_dump = (\<lambda>prefix w. ([DumpDetails \<lparr>SwIfIndex = 7, L2AddressLength = 6, L2Address = replicate 8 1, InterfaceName = [116, 97, 112, 0]\<rparr>], w)),
      host = (\<lambda>c w. (Inr 1, w)), WithNetNSPath = (\<lambda>ns run. run),
      kvdb_Put = (\<lambda>k v w. (None, w)), kvdb_Delete = (\<lambda>k w. (None, w)), map_order = (\<lambda>w m. m), Sleep = (\<lambda>ms w. w)\<rparr>"

definition ex_server :: remoteCNIserver where
  "ex_server =
     \<lparr>govppChan = True, swIfIndex = True, configuredContainers = Some NewConfigIndex, cni_ipam = ex_ipam, counter = 0,
      agentLabel = ''node1'', cni_uid = 1, nodeConfigs = [], tcpChecksumOffloadDisabled = False,
      vswitchConnectivityConfigured = True, disableTCPstack = True, useTAPInterfaces = False, tapVersion = 1,
      tapV2RxRingSize = 0, tapV2TxRingSize = 0\<rparr>"

lemma ex_node2:
  "\<exists>i2 nic. ipam_New 2 ex_config = Inr i2 \<and> physicalInterface i2 ''GbE'' = Inr nic \<and> podNetworkIPPrefix i2 = net32 0x0A010200 24 \<and>
     Vpp_IpAddresses nic = [''192.168.16.2/24''] \<and> fst (mask_size (Mask (hostNodeNetworkIPPrefix i2))) = 24"
  by (simp add: ipam_eval go_eval physicalInterface_def HostIPNetwork_def computeHostIPAddress_def HostID_def new_ipam_def net32_def)


end
