(* ===== verification/CniServer.thy ===== *)
theory CniServer
  imports HostConfig
begin

text \<open>
  The handlers of the CNI server, \<^verbatim>\<open>configureContainerConnectivity\<close> and \<^verbatim>\<open>unconfigureContainerConnectivity\<close> of
  \<^verbatim>\<open>src/plugins/contiv/remote_cni_server.go\<close>: they connect a container to VPP and disconnect it, using the address pool, the
  agent, VPP, the kernel, the data store and the index of containers. Shows, for every behaviour of these surroundings, that
  no two connected containers have the same address.
\<close>

section \<open>Arguments and replies\<close>

definition parseExtraArgs :: "string \<Rightarrow> (string \<times> string) list" where
  "parseExtraArgs input =
     foldl (\<lambda>res pair. case split_on CHR ''='' pair of [k, v] \<Rightarrow> AList.update k v res | _ \<Rightarrow> res) [] (split_on CHR '';'' input)"

definition extra_arg :: "(string \<times> string) list \<Rightarrow> string \<Rightarrow> string" where
  "extra_arg args k = (case map_of args k of Some v \<Rightarrow> v | None \<Rightarrow> [])"

definition generateErrorResponse :: "cni_error \<Rightarrow> cni_reply option \<times> cni_error option" where
  "generateErrorResponse err = (Some \<lparr>Result = resultErr, Error = Some err, Interfaces = [], Routes = [], Dns = []\<rparr>, Some err)"

definition createdInterfaces :: "ip \<Rightarrow> string \<Rightarrow> string \<Rightarrow> string \<Rightarrow> reply_interface list" where
  "createdInterfaces gateway ifName nsName podIP =
     [\<lparr>RepIf_Name = ifName, RepIf_Mac = [], Sandbox = nsName,
       RepIf_IpAddresses = [\<lparr>IP_Version = IPV4, Address = podIP, Gateway = ip_string gateway\<rparr>]\<rparr>]"

section \<open>Connecting a container\<close>

definition podIPCIDR :: "ip \<Rightarrow> string" where
  "podIPCIDR podIP = ip_string podIP @ ''/32''"

text \<open>The transaction with the interfaces of the pod.\<close>

definition interface_ops :: "remoteCNIserver \<Rightarrow> cni_request \<Rightarrow> ip \<Rightarrow> agent_op list" where
  "interface_ops s request podIP =
     (if useTAPInterfaces s then [PutVppInterface (tapFromRequest s request)]
      else [PutLinuxInterface (veth1FromRequest request (podIPCIDR podIP)), PutLinuxInterface (veth2FromRequest request),
            PutVppInterface (afpacketFromRequest s request)]) @
     (if disableTCPstack s then [] else [PutVppInterface (loopbackFromRequest request (ip_string podIP))])"

definition vpp_if :: "remoteCNIserver \<Rightarrow> cni_request \<Rightarrow> vpp_interface" where
  "vpp_if s request = (if useTAPInterfaces s then tapFromRequest s request else afpacketFromRequest s request)"

definition reverting_ns :: "'w surroundings \<Rightarrow> ('w, 'a) action \<Rightarrow> ('w, 'a) action" where
  "reverting_ns env m w = map_option (\<lambda>(r, w'). (r, snd (host env RevertNamespace w'))) (m w)"

text \<open>The TAP interface is moved into the namespace of the container (whose error is ignored), and there renamed and given its
  addresses; the namespace is left again in every case.\<close>

definition setup_tap :: "'w surroundings \<Rightarrow> cni_request \<Rightarrow> ip \<Rightarrow> ('w, unit) action" where
  "setup_tap env request podIP =
     (let tapTmpHostIfName = tapTmpHostNameFromRequest request; tapHostIfName = tapHostNameFromRequest request;
          podIPNet = \<lparr>IP = podIP, Mask = CIDRMask 32 32\<rparr>
      in andthen (logged (host_action env (SetInterfaceNamespace tapTmpHostIfName (NetworkNamespace request)))) (\<lambda>_.
         andthen (host_action env (SwitchNamespace (NetworkNamespace request))) (\<lambda>_.
         reverting_ns env
          (andthen (host_action env (RenameInterface tapTmpHostIfName tapHostIfName)) (\<lambda>_.
           andthen (host_action env (SetInterfaceMac tapHostIfName macAddrForContainer)) (\<lambda>_.
           andthen (host_action env (AddInterfaceIP tapHostIfName podIPNet)) (\<lambda>_.
           return ())))))))"

definition lookup_if_index :: "'w surroundings \<Rightarrow> remoteCNIserver \<Rightarrow> string \<Rightarrow> ('w, uint32) action" where
  "lookup_if_index env s name w =
     (if \<not> swIfIndex s then None
      else case LookupIdx env w name of
             Some idx \<Rightarrow> Some (Inr idx, w)
           | None \<Rightarrow> Some (Inl (CantFindInterface name), w))"

text \<open>The name up to its terminating zero, and a prefix of the hardware address; slicing panics without a zero, and beyond the end.\<close>

definition c_string :: "bytes \<Rightarrow> string option" where
  "c_string bs = (if 0 \<in> set bs then Some (bytes_string (takeWhile (\<lambda>b. b \<noteq> 0) bs)) else None)"

definition slice_to :: "bytes \<Rightarrow> nat \<Rightarrow> bytes option" where
  "slice_to bs n = (if n \<le> length bs then Some (take n bs) else None)"

definition pod_interface :: "'w surroundings \<Rightarrow> remoteCNIserver \<Rightarrow> cni_request \<Rightarrow> ('w, uint32 \<times> string \<times> interface_details) action" where
  "pod_interface env s request =
     (let prefix = (if useTAPInterfaces s then ''tap-'' else ''host-'' @ veth2NameFromRequest request) in
      andthen (lookup_if_index env s (Vpp_Name (vpp_if s request))) (\<lambda>ifIndex.
      andthen (getVppInterfaceDetails env s prefix ifIndex) (\<lambda>details.
      unless_panic (c_string (InterfaceName details)) (\<lambda>name.
      return (ifIndex, name, details)))))"

text \<open>With the TCP stack an STN rule and an application namespace, without it a route to the pod.\<close>

definition pod_stack :: "'w surroundings \<Rightarrow> remoteCNIserver \<Rightarrow> cni_request \<Rightarrow> ip \<Rightarrow> uint32 \<Rightarrow> ('w, uint32) action" where
  "pod_stack env s request podIP ifIndex =
     (if \<not> disableTCPstack s then
        andthen (setupStn env s (ip_string podIP) ifIndex) (\<lambda>_.
        addAppNamespace env s (ContainerId request) (loopbackNameFromRequest request))
      else andthen (send_txn env [PutStaticRoute (vppRouteFromRequest s request (podIPCIDR podIP))]) (\<lambda>_. return 0))"

definition pod_network :: "'w surroundings \<Rightarrow> remoteCNIserver \<Rightarrow> cni_request \<Rightarrow> ip \<Rightarrow> uint32 \<Rightarrow> string \<Rightarrow> interface_details \<Rightarrow> ('w, unit) action" where
  "pod_network env s request podIP ifIndex ifName details =
     andthen (configureArpOnVpp env s ifIndex macAddrForContainer podIP) (\<lambda>_.
     unless_panic (slice_to (L2Address details) (unat (L2AddressLength details))) (\<lambda>vppIfMac.
     andthen (configureArpInContainer env s vppIfMac request) (\<lambda>_.
     andthen (configureRoutesInContainer env s request) (\<lambda>_.
     andthen (if disableTCPstack s then return () else fixPodToPodCommunication env s (ip_string podIP) ifName) (\<lambda>_.
     if tcpChecksumOffloadDisabled s then disableTCPChecksumOffload env request else return ())))))"

definition pod_changes :: "remoteCNIserver \<Rightarrow> cni_request \<Rightarrow> ip \<Rightarrow> (string \<times> config_object) list" where
  "pod_changes s request podIP =
     (if useTAPInterfaces s then [(vpp_InterfaceKey (tapNameFromRequest request), VppObject (tapFromRequest s request))]
      else AList.update (vpp_InterfaceKey (afpacketNameFromRequest request)) (VppObject (afpacketFromRequest s request))
            (AList.update (linux_InterfaceKey (veth2NameFromRequest request)) (LinuxObject (veth2FromRequest request))
             [(linux_InterfaceKey (veth1NameFromRequest request), LinuxObject (veth1FromRequest request (podIPCIDR podIP)))]))"

text \<open>Everything between the allocation of the address and the registration of the container: it reads the state of the server and
  changes only the surroundings. The result is the name of the VPP interface and the index of the application namespace.\<close>

definition connect_pod :: "'w surroundings \<Rightarrow> remoteCNIserver \<Rightarrow> cni_request \<Rightarrow> ip \<Rightarrow> ('w world, string \<times> uint32) action" where
  "connect_pod env s request podIP =
     andthen (on_world
       (andthen (send_txn env (interface_ops s request podIP)) (\<lambda>_ w.
        andthen (if useTAPInterfaces s then setup_tap env request podIP else return ()) (\<lambda>_.
        andthen (pod_interface env s request) (\<lambda>(ifIndex, ifName, details).
        andthen (pod_stack env s request podIP ifIndex) (\<lambda>nsIndex.
        andthen (pod_network env s request podIP ifIndex ifName details) (\<lambda>_.
        return (ifName, nsIndex))))) (Sleep env 500 w)))) (\<lambda>result.
     andthen (persistChanges env [] (pod_changes s request podIP)) (\<lambda>_.
     return result))"

text \<open>The entry of the index; the route is never filled in.\<close>

definition container_entry :: "remoteCNIserver \<Rightarrow> cni_request \<Rightarrow> ip \<Rightarrow> uint32 \<Rightarrow> container_config" where
  "container_entry s request podIP nsIndex =
     (let extraArgs = parseExtraArgs (ExtraArguments request) in
      \<lparr>Config_PodName = extra_arg extraArgs podNameExtraArg, Config_PodNamespace = extra_arg extraArgs podNamespaceExtraArg,
       Veth1 = Some (veth1FromRequest request (podIPCIDR podIP)), Veth2 = Some (veth2FromRequest request),
       PodVppIf = Some (vpp_if s request), Config_Route = None, NsIndex = nsIndex\<rparr>)"

definition register_container :: "remoteCNIserver \<Rightarrow> cni_request \<Rightarrow> container_config \<Rightarrow> remoteCNIserver option" where
  "register_container s request d =
     (case configuredContainers s of
        None \<Rightarrow> Some s
      | Some ci \<Rightarrow> map_option (\<lambda>ci'. s\<lparr>configuredContainers := Some ci'\<rparr>) (RegisterContainer ci (ContainerId request) d))"

type_synonym 'w handler = "'w world \<Rightarrow> ((cni_reply option \<times> cni_error option) \<times> remoteCNIserver \<times> 'w world) option"

definition configureContainerConnectivity :: "'w surroundings \<Rightarrow> remoteCNIserver \<Rightarrow> cni_request \<Rightarrow> 'w handler" where
  "configureContainerConnectivity env s request h =
     (let s1 = s\<lparr>counter := counter s + 1\<rparr> in
      case NextPodIP (cni_ipam s1) (NetworkNamespace request) of
        (ipam', Inl err) \<Rightarrow> Some ((None, Some (CantGetNewIP err)), s1\<lparr>cni_ipam := ipam'\<rparr>, h)
      | (ipam', Inr podIP) \<Rightarrow>
          let s2 = s1\<lparr>cni_ipam := ipam'\<rparr> in
          (case connect_pod env s2 request podIP h of
             None \<Rightarrow> None
           | Some (Inl err, h') \<Rightarrow> Some (generateErrorResponse err, s2, h')
           | Some (Inr (vppIfName, nsIndex), h') \<Rightarrow>
               (case (register_container s2 request (container_entry s2 request podIP nsIndex), PodGatewayIP ipam') of
                  (Some s3, Some gw) \<Rightarrow>
                    Some ((Some \<lparr>Result = resultOk, Error = None,
                                 Interfaces = createdInterfaces gw vppIfName (NetworkNamespace request) (podIPCIDR podIP),
                                 Routes = [\<lparr>Dst = ''0.0.0.0/0'', Gw = ip_string gw\<rparr>], Dns = []\<rparr>, None), s3, h')
                | _ \<Rightarrow> None)))"

section \<open>Disconnecting a container\<close>

definition disconnect_ops :: "remoteCNIserver \<Rightarrow> cni_request \<Rightarrow> agent_op list" where
  "disconnect_ops s request =
     (if useTAPInterfaces s then [DeleteVppInterface (tapNameFromRequest request), DeleteVppInterface (loopbackNameFromRequest request)]
      else [DeleteLinuxInterface (veth1NameFromRequest request), DeleteLinuxInterface (veth2NameFromRequest request),
            DeleteVppInterface (afpacketNameFromRequest request), DeleteVppInterface (loopbackNameFromRequest request)])"

definition remove_tap :: "'w surroundings \<Rightarrow> cni_request \<Rightarrow> ('w, unit) action" where
  "remove_tap env request =
     andthen (host_action env (SwitchNamespace (NetworkNamespace request))) (\<lambda>_.
     reverting_ns env (logged (host_action env (DeleteInterface (tapHostNameFromRequest request)))))"

definition removed_keys :: "remoteCNIserver \<Rightarrow> cni_request \<Rightarrow> string list" where
  "removed_keys s request =
     (if useTAPInterfaces s then [vpp_InterfaceKey (tapNameFromRequest request)]
      else [linux_InterfaceKey (veth1NameFromRequest request), linux_InterfaceKey (veth2NameFromRequest request),
            vpp_InterfaceKey (afpacketNameFromRequest request)])"

definition disconnect_pod :: "'w surroundings \<Rightarrow> remoteCNIserver \<Rightarrow> cni_request \<Rightarrow> ('w world, unit) action" where
  "disconnect_pod env s request =
     andthen (on_world (send_txn env (disconnect_ops s request))) (\<lambda>_.
     andthen (on_world (if useTAPInterfaces s then remove_tap env request else return ())) (\<lambda>_.
     persistChanges env (removed_keys s request) []))"

definition unregister_container :: "remoteCNIserver \<Rightarrow> cni_request \<Rightarrow> remoteCNIserver" where
  "unregister_container s request =
     (case configuredContainers s of
        None \<Rightarrow> s
      | Some ci \<Rightarrow> s\<lparr>configuredContainers := Some (fst (UnregisterContainer ci (ContainerId request)))\<rparr>)"

definition unconfigureContainerConnectivity :: "'w surroundings \<Rightarrow> remoteCNIserver \<Rightarrow> cni_request \<Rightarrow> 'w handler" where
  "unconfigureContainerConnectivity env s request h =
     (case disconnect_pod env s request h of
        None \<Rightarrow> None
      | Some (Inl err, h') \<Rightarrow> Some (generateErrorResponse err, s, h')
      | Some (Inr _, h') \<Rightarrow>
          let s1 = unregister_container s request; (ipam', err) = ReleasePodIP (cni_ipam s1) (NetworkNamespace request);
              s2 = s1\<lparr>cni_ipam := ipam'\<rparr>
          in (case err of
                Some e \<Rightarrow> Some (generateErrorResponse (CantReleaseIP e), s2, h')
              | None \<Rightarrow> Some ((Some \<lparr>Result = resultOk, Error = None, Interfaces = [], Routes = [], Dns = []\<rparr>, None), s2, h')))"

section \<open>Runs of the server\<close>

text \<open>
  The server in its surroundings: requests are handled one at a time under the mutex, and only once the connectivity of the virtual
  switch is configured; in each step the surroundings may behave differently, and they may change on their own. Requests
  name the container that owns the network namespace.
\<close>

inductive cni_reach :: "(string \<Rightarrow> string) \<Rightarrow> contiv_config \<Rightarrow> uint8 \<Rightarrow> remoteCNIserver \<Rightarrow> 'w world \<Rightarrow> bool" for owner config uid where
  start: "newRemoteCNIServer (Some NewConfigIndex) chan index label config uid = Inr s \<Longrightarrow> cni_reach owner config uid s h"
| resync: "cni_reach owner config uid s h \<Longrightarrow> cni_resync env s h = Some (err, s', h') \<Longrightarrow> cni_reach owner config uid s' h'"
| add: "cni_reach owner config uid s h \<Longrightarrow> vswitchConnectivityConfigured s \<Longrightarrow> owner (NetworkNamespace request) = ContainerId request \<Longrightarrow>
    configureContainerConnectivity env s request h = Some (reply, s', h') \<Longrightarrow> cni_reach owner config uid s' h'"
| delete: "cni_reach owner config uid s h \<Longrightarrow> vswitchConnectivityConfigured s \<Longrightarrow> owner (NetworkNamespace request) = ContainerId request \<Longrightarrow>
    unconfigureContainerConnectivity env s request h = Some (reply, s', h') \<Longrightarrow> cni_reach owner config uid s' h'"
| other: "cni_reach owner config uid s h \<Longrightarrow> cni_reach owner config uid s h'"

section \<open>The handlers and the pool\<close>

lemma NextPodIP_assigns:
  assumes "ipam_reach uid config i" "PodNetworkPrefixLen config \<le> 32" "NextPodIP i ns = (i', Inr ip)"
  obtains a where "ip = uint32_bytes a" "i' = i\<lparr>assignedPodIPs := assignedPodIPs i @ [(a, ns)]\<rparr>" "a \<notin> fst ` set (assignedPodIPs i)" "ns \<noteq> []"
proof -
  obtain p where p: "pool_ok (unat (PodNetworkPrefixLen config)) p i" using ipam_reach_pool [OF assms(1,2)] by blast
  have ns: "ns \<noteq> []" using assms(3) by (auto simp: NextPodIP_def)
  obtain j where j: "next_seq (assignedPodIPs i) p (2 ^ (32 - unat (PodNetworkPrefixLen config))) 1 = Some j"
    "i' = i\<lparr>assignedPodIPs := AList.update (p + of_nat j) ns (assignedPodIPs i)\<rparr>" "ip = uint32_bytes (p + of_nat j)"
    using NextPodIP_pool [OF p ns] assms(3) by (auto split: option.splits)
  have "map_of (assignedPodIPs i) (p + of_nat j) = None" using next_seq_Some [OF j(1)] by simp
  then show thesis using that [of "p + of_nat j"] j ns by (simp add: update_fresh map_of_eq_None_iff)
qed

lemma NextPodIP_error: "NextPodIP i ns = (i', Inl err) \<Longrightarrow> i' = i"
  by (auto simp: NextPodIP_def Let_def split: if_splits sum.splits option.splits prod.splits)

lemma findIP_entry: "findIP l ns = Inr a \<Longrightarrow> (a, ns) \<in> set l"
  by (induction l ns rule: findIP.induct) (auto split: if_splits)

lemma ReleasePodIP_keeps:
  assumes "ReleasePodIP i ns = (i', err)" "distinct (map fst (assignedPodIPs i))" "(a, ns') \<in> set (assignedPodIPs i)" "ns' \<noteq> ns"
  shows "(a, ns') \<in> set (assignedPodIPs i')"
proof (cases "findIP (assignedPodIPs i) ns")
  case (Inr b)
  then have "(b, ns) \<in> set (assignedPodIPs i)" by (rule findIP_entry)
  then have "a \<noteq> b" using assms(2,3,4) by (metis map_of_is_SomeI option.inject)
  with assms Inr show ?thesis by (auto simp: ReleasePodIP_def set_delete split: if_splits)
qed (use assms in \<open>auto simp: ReleasePodIP_def split: if_splits\<close>)

text \<open>The outcomes of the two handlers.\<close>

lemma configure_cases:
  assumes "configureContainerConnectivity env s request h = Some (reply, s', h')"
  obtains (no_address) err where "NextPodIP (cni_ipam s) (NetworkNamespace request) = (cni_ipam s', Inl err)"
      "reply = (None, Some (CantGetNewIP err))" "s' = s\<lparr>counter := counter s + 1, cni_ipam := cni_ipam s'\<rparr>" "h' = h"
  | (failed) podIP err where "NextPodIP (cni_ipam s) (NetworkNamespace request) = (cni_ipam s', Inr podIP)"
      "reply = generateErrorResponse err" "s' = s\<lparr>counter := counter s + 1, cni_ipam := cni_ipam s'\<rparr>"
  | (connected) podIP ifName nsIndex gw s2 where "NextPodIP (cni_ipam s) (NetworkNamespace request) = (cni_ipam s2, Inr podIP)"
      "s2 = s\<lparr>counter := counter s + 1, cni_ipam := cni_ipam s2\<rparr>"
      "register_container s2 request (container_entry s2 request podIP nsIndex) = Some s'"
      "reply = (Some \<lparr>Result = resultOk, Error = None,
                  Interfaces = createdInterfaces gw ifName (NetworkNamespace request) (podIPCIDR podIP),
                  Routes = [\<lparr>Dst = ''0.0.0.0/0'', Gw = ip_string gw\<rparr>], Dns = []\<rparr>, None)"
      "PodGatewayIP (cni_ipam s2) = Some gw"
proof -
  obtain ipam' r where nx: "NextPodIP (cni_ipam s) (NetworkNamespace request) = (ipam', r)" by (cases "NextPodIP (cni_ipam s) (NetworkNamespace request)")
  let ?s2 = "s\<lparr>counter := counter s + 1, cni_ipam := ipam'\<rparr>"
  show thesis
  proof (cases r)
    case (Inl err)
    then show thesis using assms nx by (intro no_address [of err]) (auto simp: configureContainerConnectivity_def)
  next
    case (Inr podIP)
    note step = assms [unfolded configureContainerConnectivity_def Let_def, simplified nx Inr]
    show thesis
    proof (cases "connect_pod env ?s2 request podIP h")
      case (Some q)
      obtain res h2 where q: "q = (res, h2)" by (cases q)
      show thesis
      proof (cases res)
        case (Inl err)
        with step nx Inr Some q show thesis by (intro failed [of podIP err]) (auto simp: nx)
      next
        case res: (Inr t)
        obtain ifName nsIndex where t: "t = (ifName, nsIndex)" by (cases t)
        obtain s3 gw where s3: "register_container ?s2 request (container_entry ?s2 request podIP nsIndex) = Some s3" "PodGatewayIP ipam' = Some gw"
          using step nx Inr Some q res t by (auto split: option.splits)
        show thesis
          by (rule connected [of ?s2 podIP nsIndex gw ifName]) (use step nx Inr Some q res t s3 in auto)
      qed
    qed (use step nx Inr in simp)
  qed
qed

lemma unconfigure_cases:
  assumes "unconfigureContainerConnectivity env s request h = Some (reply, s', h')"
  obtains (failed) err where "s' = s" "reply = generateErrorResponse err"
  | (removed) err where "ReleasePodIP (cni_ipam s) (NetworkNamespace request) = (cni_ipam s', err)"
      "s' = unregister_container (s\<lparr>cni_ipam := cni_ipam s'\<rparr>) request"
      "reply = (case err of Some e \<Rightarrow> generateErrorResponse (CantReleaseIP e)
         | None \<Rightarrow> (Some \<lparr>Result = resultOk, Error = None, Interfaces = [], Routes = [], Dns = []\<rparr>, None))"
proof -
  obtain ipam' err where rel: "ReleasePodIP (cni_ipam s) (NetworkNamespace request) = (ipam', err)"
    by (cases "ReleasePodIP (cni_ipam s) (NetworkNamespace request)")
  have un: "cni_ipam (unregister_container s request) = cni_ipam s"
    "(unregister_container s request)\<lparr>cni_ipam := i\<rparr> = unregister_container (s\<lparr>cni_ipam := i\<rparr>) request" for i
    by (simp_all add: unregister_container_def split: option.split)
  show thesis
  proof (cases "disconnect_pod env s request h")
    case (Some q)
    obtain res h2 where q: "q = (res, h2)" by (cases q)
    note step = assms [unfolded unconfigureContainerConnectivity_def Some q]
    show thesis
    proof (cases res)
      case (Inl err)
      with step show thesis by (intro failed [of err]) simp_all
    next
      case (Inr u)
      have s': "s' = unregister_container (s\<lparr>cni_ipam := ipam'\<rparr>) request"
        and reply: "reply = (case err of Some e \<Rightarrow> generateErrorResponse (CantReleaseIP e)
           | None \<Rightarrow> (Some \<lparr>Result = resultOk, Error = None, Interfaces = [], Routes = [], Dns = []\<rparr>, None))"
        using step Inr by (auto simp: rel un Let_def split: option.splits)
      have "cni_ipam s' = ipam'" by (simp add: s' unregister_container_def split: option.split)
      then show thesis using removed [of err] rel s' reply by simp
    qed
  qed (use assms in \<open>simp add: unconfigureContainerConnectivity_def\<close>)
qed

section \<open>The invariant\<close>

text \<open>The entry of a container: its interface has the address, in the namespace, for which the pool has it assigned.\<close>

definition holds_address :: "container_config \<Rightarrow> uint32 \<Rightarrow> string \<Rightarrow> bool" where
  "holds_address d a ns \<longleftrightarrow> (\<exists>veth1. Veth1 d = Some veth1 \<and> Linux_IpAddresses veth1 = [podIPCIDR (uint32_bytes a)] \<and>
     Linux_Namespace veth1 = Some \<lparr>LinuxNs_Type = FILE_REF_NS, Filepath = ns\<rparr>)"

definition cni_inv :: "(string \<Rightarrow> string) \<Rightarrow> contiv_config \<Rightarrow> uint8 \<Rightarrow> remoteCNIserver \<Rightarrow> bool" where
  "cni_inv owner config uid s \<longleftrightarrow>
     (\<exists>ci. configuredContainers s = Some ci \<and> index_wf ci \<and> ipam_reach uid (IPAMConfig config) (cni_ipam s) \<and>
       (\<forall>c d. LookupContainer ci c = Some d \<longrightarrow> (\<exists>a ns. (a, ns) \<in> set (assignedPodIPs (cni_ipam s)) \<and> owner ns = c \<and> holds_address d a ns)))"

lemma cni_invE:
  assumes "cni_inv owner config uid s"
  obtains ci where "configuredContainers s = Some ci" "index_wf ci" "ipam_reach uid (IPAMConfig config) (cni_ipam s)"
    "\<forall>c d. LookupContainer ci c = Some d \<longrightarrow> (\<exists>a ns. (a, ns) \<in> set (assignedPodIPs (cni_ipam s)) \<and> owner ns = c \<and> holds_address d a ns)"
  using assms unfolding cni_inv_def by blast

lemma cni_inv_new:
  assumes "newRemoteCNIServer (Some NewConfigIndex) chan index label config uid = Inr s"
  shows "cni_inv owner config uid s"
  using assms index_wf_New by (auto simp: newRemoteCNIServer_def cni_inv_def intro: ipam_reach.start split: sum.splits)

lemma entry_holds: "holds_address (container_entry s request (uint32_bytes a) nsIndex) a (NetworkNamespace request)"
  by (simp add: holds_address_def container_entry_def veth1FromRequest_def Let_def)

lemma register_container_stores:
  assumes "register_container s request d = Some s'" "configuredContainers s = Some ci" "index_wf ci"
  obtains ci' where "s' = s\<lparr>configuredContainers := Some ci'\<rparr>" "index_wf ci'" "LookupContainer ci' = (LookupContainer ci)(ContainerId request \<mapsto> d)"
proof -
  obtain ci' where "RegisterContainer ci (ContainerId request) d = Some ci'" "index_wf ci'"
    "LookupContainer ci' = (LookupContainer ci)(ContainerId request \<mapsto> d)"
    using RegisterContainer_stores [OF assms(3)] by blast
  then show thesis using assms(1,2) that [of ci'] by (simp add: register_container_def)
qed

lemma cni_inv_add:
  assumes inv: "cni_inv owner config uid s" and len: "PodNetworkPrefixLen (IPAMConfig config) \<le> 32"
    and owner: "owner (NetworkNamespace request) = ContainerId request"
    and step: "configureContainerConnectivity env s request h = Some (reply, s', h')"
  shows "cni_inv owner config uid s'"
proof -
  obtain ci where ci: "configuredContainers s = Some ci" "index_wf ci" and reach: "ipam_reach uid (IPAMConfig config) (cni_ipam s)"
    and held: "\<forall>c d. LookupContainer ci c = Some d \<longrightarrow> (\<exists>a ns. (a, ns) \<in> set (assignedPodIPs (cni_ipam s)) \<and> owner ns = c \<and> holds_address d a ns)"
    using inv by (rule cni_invE)
  show ?thesis using step
  proof (cases rule: configure_cases)
    case (no_address err)
    have c: "configuredContainers s' = Some ci" by (subst no_address(3)) (simp add: ci)
    show ?thesis using c NextPodIP_error [OF no_address(1)] ci reach held by (auto simp: cni_inv_def)
  next
    case (failed podIP err)
    obtain a where a: "cni_ipam s' = (cni_ipam s)\<lparr>assignedPodIPs := assignedPodIPs (cni_ipam s) @ [(a, NetworkNamespace request)]\<rparr>"
      using NextPodIP_assigns [OF reach len failed(1)] by blast
    have c: "configuredContainers s' = Some ci" by (subst failed(3)) (simp add: ci)
    have "assignedPodIPs (cni_ipam s') = assignedPodIPs (cni_ipam s) @ [(a, NetworkNamespace request)]" by (simp add: a)
    then have "\<exists>b ns. (b, ns) \<in> set (assignedPodIPs (cni_ipam s')) \<and> owner ns = c \<and> holds_address d b ns" if "LookupContainer ci c = Some d" for c d
      using held that by (metis UnCI set_append)
    then show ?thesis using c ci(2) ipam_reach.alloc [OF reach failed(1)] by (simp add: cni_inv_def)
  next
    case (connected podIP ifName nsIndex gw s2)
    obtain a where a: "podIP = uint32_bytes a"
      "cni_ipam s2 = (cni_ipam s)\<lparr>assignedPodIPs := assignedPodIPs (cni_ipam s) @ [(a, NetworkNamespace request)]\<rparr>"
      using NextPodIP_assigns [OF reach len connected(1)] by blast
    have c: "configuredContainers s2 = Some ci" by (subst connected(2)) (simp add: ci)
    obtain ci' where ci': "s' = s2\<lparr>configuredContainers := Some ci'\<rparr>" "index_wf ci'"
      "LookupContainer ci' = (LookupContainer ci)(ContainerId request \<mapsto> container_entry s2 request podIP nsIndex)"
      using register_container_stores [OF connected(3) c ci(2)] by blast
    have as: "assignedPodIPs (cni_ipam s') = assignedPodIPs (cni_ipam s) @ [(a, NetworkNamespace request)]" by (simp add: ci'(1) a(2))
    have "\<exists>a ns. (a, ns) \<in> set (assignedPodIPs (cni_ipam s')) \<and> owner ns = c \<and> holds_address d a ns" if "LookupContainer ci' c = Some d" for c d
    proof (cases "c = ContainerId request")
      case True
      then have "d = container_entry s2 request (uint32_bytes a) nsIndex" using that by (simp add: ci'(3) a(1))
      then show ?thesis using True owner by (intro exI [of _ a] exI [of _ "NetworkNamespace request"]) (simp add: as entry_holds)
    next
      case False
      then have "LookupContainer ci c = Some d" using that by (simp add: ci'(3))
      then obtain b ns where "(b, ns) \<in> set (assignedPodIPs (cni_ipam s))" "owner ns = c" "holds_address d b ns" using held by blast
      then show ?thesis by (intro exI [of _ b] exI [of _ ns]) (simp add: as)
    qed
    moreover have "ipam_reach uid (IPAMConfig config) (cni_ipam s')"
      using ipam_reach.alloc [OF reach connected(1)] by (simp add: ci'(1))
    ultimately show ?thesis using ci' by (simp add: cni_inv_def)
  qed
qed

lemma cni_inv_delete:
  assumes inv: "cni_inv owner config uid s" and len: "PodNetworkPrefixLen (IPAMConfig config) \<le> 32"
    and owner: "owner (NetworkNamespace request) = ContainerId request"
    and step: "unconfigureContainerConnectivity env s request h = Some (reply, s', h')"
  shows "cni_inv owner config uid s'"
proof -
  obtain ci where ci: "configuredContainers s = Some ci" "index_wf ci" and reach: "ipam_reach uid (IPAMConfig config) (cni_ipam s)"
    and held: "\<forall>c d. LookupContainer ci c = Some d \<longrightarrow> (\<exists>a ns. (a, ns) \<in> set (assignedPodIPs (cni_ipam s)) \<and> owner ns = c \<and> holds_address d a ns)"
    using inv by (rule cni_invE)
  show ?thesis using step
  proof (cases rule: unconfigure_cases)
    case (removed err)
    let ?ci = "fst (UnregisterContainer ci (ContainerId request))"
    note un = UnregisterContainer_removes [OF ci(2), of "ContainerId request"]
    have c: "configuredContainers s' = Some ?ci" by (subst removed(2)) (simp add: unregister_container_def ci)
    have d: "distinct (map fst (assignedPodIPs (cni_ipam s)))" using ipam_reach_pool [OF reach len] by (auto simp: pool_ok_def)
    have "\<exists>a ns. (a, ns) \<in> set (assignedPodIPs (cni_ipam s')) \<and> owner ns = c \<and> holds_address d a ns" if "LookupContainer ?ci c = Some d" for c d
    proof -
      have "c \<noteq> ContainerId request" "LookupContainer ci c = Some d" using that by (auto simp: un(2) split: if_splits)
      then obtain a ns where a: "(a, ns) \<in> set (assignedPodIPs (cni_ipam s))" "owner ns = c" "holds_address d a ns" using held by blast
      then have "ns \<noteq> NetworkNamespace request" using owner \<open>c \<noteq> ContainerId request\<close> by auto
      then show ?thesis using ReleasePodIP_keeps [OF removed(1) d a(1)] a by blast
    qed
    then show ?thesis using c un(1) ipam_reach.release [OF reach removed(1)] by (simp add: cni_inv_def)
  qed (use inv in simp)
qed

lemma cni_reach_inv:
  assumes "cni_reach owner config uid s h" "PodNetworkPrefixLen (IPAMConfig config) \<le> 32"
  shows "cni_inv owner config uid s"
  using assms(1)
proof (induction rule: cni_reach.induct)
  case (resync s h env err s' h')
  then show ?case
    using configureVswitch_state [of env s h err s' h'] by (auto simp: cni_resync_def cni_inv_def)
next
  case (start chan index label s h)
  then show ?case by (rule cni_inv_new)
next
  case (add s h request env reply s' h')
  show ?case by (rule cni_inv_add [OF add.IH assms(2) add.hyps(3,4)])
next
  case (delete s h request env reply s' h')
  show ?case by (rule cni_inv_delete [OF delete.IH assms(2) delete.hyps(3,4)])
qed

section \<open>Properties\<close>

lemma podIPCIDR_inject: "podIPCIDR (uint32_bytes a) = podIPCIDR (uint32_bytes b) \<longleftrightarrow> a = b"
proof -
  have "uint32_bytes a = uint32_bytes b \<longleftrightarrow> a = b" by (metis ip_num_bytes)
  then show ?thesis by (simp add: podIPCIDR_def ip_string_inject)
qed

text \<open>
  C4: Whatever the agent, VPP, the kernel and the data store answer, and in whatever order containers are connected, disconnected and
  the switch is resynchronised, every registered container has an address that the pool keeps assigned to the namespace
  of that container; the address lies in the pod network of the node and is not its gateway; and no other registered container
  has the same address. A network namespace is assumed to belong to one container.
\<close>

theorem connected_addresses:
  assumes "cni_reach owner config uid s h" "PodNetworkPrefixLen (IPAMConfig config) \<le> 32"
    and "configuredContainers s = Some ci" "LookupContainer ci c = Some d"
  shows "(\<exists>a ns. (a, ns) \<in> set (assignedPodIPs (cni_ipam s)) \<and> owner ns = c \<and> holds_address d a ns \<and>
           contains (podNetworkIPPrefix (cni_ipam s)) (uint32_bytes a) \<and> uint32_bytes a \<noteq> podNetworkGatewayIP (cni_ipam s)) \<and>
         (\<forall>c' d'. LookupContainer ci c' = Some d' \<and> c' \<noteq> c \<longrightarrow>
           map_option Linux_IpAddresses (Veth1 d') \<noteq> map_option Linux_IpAddresses (Veth1 d))"
proof -
  have reach: "ipam_reach uid (IPAMConfig config) (cni_ipam s)"
    and held: "\<forall>c d. LookupContainer ci c = Some d \<longrightarrow> (\<exists>a ns. (a, ns) \<in> set (assignedPodIPs (cni_ipam s)) \<and> owner ns = c \<and> holds_address d a ns)"
    using cni_reach_inv [OF assms(1,2)] assms(3) by (auto elim!: cni_invE)
  obtain p where pool: "pool_ok (unat (PodNetworkPrefixLen (IPAMConfig config))) p (cni_ipam s)"
    using ipam_reach_pool [OF reach assms(2)] by blast
  obtain a ns where a: "(a, ns) \<in> set (assignedPodIPs (cni_ipam s))" "owner ns = c" "holds_address d a ns"
    using held assms(4) by blast
  have "map_option Linux_IpAddresses (Veth1 d') \<noteq> map_option Linux_IpAddresses (Veth1 d)"
    if other: "LookupContainer ci c' = Some d'" "c' \<noteq> c" for c' d'
  proof
    assume same: "map_option Linux_IpAddresses (Veth1 d') = map_option Linux_IpAddresses (Veth1 d)"
    obtain b ns' where b: "(b, ns') \<in> set (assignedPodIPs (cni_ipam s))" "owner ns' = c'" "holds_address d' b ns'"
      using held other(1) by blast
    have "b = a" using same a(3) b(3) by (auto simp: holds_address_def podIPCIDR_inject)
    then have "ns' = ns" using a(1) b(1) pool by (auto simp: pool_ok_def dest: eq_key_imp_eq_value)
    then show False using a(2) b(2) other(2) by simp
  qed
  then show ?thesis using a pool_ok_entry(2,3) [OF pool a(1)] by blast
qed

lemma add_assigns:
  assumes "cni_reach owner config uid s h" "PodNetworkPrefixLen (IPAMConfig config) \<le> 32"
    and "NextPodIP (cni_ipam s) ns = (i, Inr podIP)"
  obtains a where "podIP = uint32_bytes a" "i = (cni_ipam s)\<lparr>assignedPodIPs := assignedPodIPs (cni_ipam s) @ [(a, ns)]\<rparr>"
    "a \<notin> fst ` set (assignedPodIPs (cni_ipam s))" "ns \<noteq> []"
  using NextPodIP_assigns [OF _ assms(2,3)] cni_reach_inv [OF assms(1,2)] by (auto elim!: cni_invE)

lemma findIP_append: "ns \<notin> snd ` set l \<Longrightarrow> findIP (l @ [(a, ns)]) ns = Inr a"
  by (induction l) auto

lemma release_after_alloc:
  assumes "a \<notin> fst ` set (assignedPodIPs i)" "ns \<notin> snd ` set (assignedPodIPs i)" "ns \<noteq> []"
  shows "ReleasePodIP (i\<lparr>assignedPodIPs := assignedPodIPs i @ [(a, ns)]\<rparr>) ns = (i, None)"
proof -
  have "AList.delete a (assignedPodIPs i @ [(a, ns)]) = assignedPodIPs i"
    using assms(1) by (force simp: AList.delete_eq filter_id_conv)
  then show ?thesis using assms(3) by (simp add: ReleasePodIP_def findIP_append [OF assms(2)])
qed

text \<open>
  C10: Disconnecting undoes connecting. After a request to connect a container that got an address (whether it then succeeded or failed
  half-way), a request to disconnect it whose removals are accepted reports success and leaves the address pool exactly
  as it was before both, the container not registered, the other containers as they were, and nothing else changed but the
  counter; provided the namespace had no address before.
\<close>

theorem add_delete_roundtrip:
  assumes "cni_reach owner config uid s h" "PodNetworkPrefixLen (IPAMConfig config) \<le> 32"
    and "configuredContainers s = Some ci" "NetworkNamespace request \<notin> snd ` set (assignedPodIPs (cni_ipam s))"
    and add: "configureContainerConnectivity env s request h = Some ((Some reply, err), s1, h1)"
    and removed: "disconnect_pod env' s1 request h1' = Some (Inr (), h2)"
  shows "\<exists>ci2. unconfigureContainerConnectivity env' s1 request h1' =
      Some ((Some \<lparr>Result = resultOk, Error = None, Interfaces = [], Routes = [], Dns = []\<rparr>, None),
            s\<lparr>counter := counter s + 1, configuredContainers := Some ci2\<rparr>, h2) \<and>
    LookupContainer ci2 = (LookupContainer ci)(ContainerId request := None)"
proof -
  have wf: "index_wf ci" using cni_reach_inv [OF assms(1,2)] assms(3) by (auto elim!: cni_invE)
  obtain podIP ci1 where s1: "NextPodIP (cni_ipam s) (NetworkNamespace request) = (cni_ipam s1, Inr podIP)"
    "s1 = s\<lparr>counter := counter s + 1, cni_ipam := cni_ipam s1, configuredContainers := Some ci1\<rparr>" "index_wf ci1"
    "(LookupContainer ci1)(ContainerId request := None) = (LookupContainer ci)(ContainerId request := None)"
    using add
  proof (cases rule: configure_cases)
    case (failed podIP err')
    have "configuredContainers s1 = Some ci" by (subst failed(3)) (simp add: assms(3))
    then have same: "s1\<lparr>configuredContainers := Some ci\<rparr> = s1" by (metis remoteCNIserver.surjective remoteCNIserver.update_convs(3))
    have "s1 = s\<lparr>counter := counter s + 1, cni_ipam := cni_ipam s1, configuredContainers := Some ci\<rparr>"
      unfolding failed(3) [symmetric] by (rule same [symmetric])
    then show thesis using that [of podIP ci] failed(1) wf by blast
  next
    case (connected podIP ifName nsIndex gw s2)
    have c: "configuredContainers s2 = Some ci" by (subst connected(2)) (simp add: assms(3))
    obtain ci' where ci': "s1 = s2\<lparr>configuredContainers := Some ci'\<rparr>" "index_wf ci'"
      "LookupContainer ci' = (LookupContainer ci)(ContainerId request \<mapsto> container_entry s2 request podIP nsIndex)"
      using register_container_stores [OF connected(3) c wf] by blast
    have "s1 = s\<lparr>counter := counter s + 1, cni_ipam := cni_ipam s1, configuredContainers := Some ci'\<rparr>"
      unfolding ci'(1) by (subst connected(2)) simp
    then show thesis using that [of podIP ci'] connected(1) ci' by simp
  qed simp
  obtain a where a: "cni_ipam s1 = (cni_ipam s)\<lparr>assignedPodIPs := assignedPodIPs (cni_ipam s) @ [(a, NetworkNamespace request)]\<rparr>"
    "a \<notin> fst ` set (assignedPodIPs (cni_ipam s))" "NetworkNamespace request \<noteq> []"
    using add_assigns [OF assms(1,2) s1(1)] by blast
  have rel: "ReleasePodIP (cni_ipam s1) (NetworkNamespace request) = (cni_ipam s, None)"
    using release_after_alloc [OF a(2) assms(4) a(3)] a(1) by simp
  let ?ci2 = "fst (UnregisterContainer ci1 (ContainerId request))"
  have c1: "configuredContainers s1 = Some ci1" by (subst s1(2)) simp
  have un: "unregister_container s1 request = s1\<lparr>configuredContainers := Some ?ci2\<rparr>" by (simp add: unregister_container_def c1)
  have "s1\<lparr>configuredContainers := Some ?ci2, cni_ipam := cni_ipam s\<rparr> = s\<lparr>counter := counter s + 1, configuredContainers := Some ?ci2\<rparr>"
    by (subst s1(2)) simp
  then have "unconfigureContainerConnectivity env' s1 request h1' =
      Some ((Some \<lparr>Result = resultOk, Error = None, Interfaces = [], Routes = [], Dns = []\<rparr>, None),
            s\<lparr>counter := counter s + 1, configuredContainers := Some ?ci2\<rparr>, h2)"
    by (simp add: unconfigureContainerConnectivity_def removed un rel)
  moreover have "LookupContainer ?ci2 = (LookupContainer ci)(ContainerId request := None)"
    using UnregisterContainer_removes(2) [OF s1(3)] s1(4) by simp
  ultimately show ?thesis by blast
qed

text \<open>No other container is registered for the pod of a container.\<close>

definition only_container :: "container_idx \<Rightarrow> string \<Rightarrow> container_config \<Rightarrow> bool" where
  "only_container ci c d \<longleftrightarrow> (\<forall>c' d'. LookupContainer ci c' = Some d' \<and> c' \<noteq> c \<longrightarrow>
     Config_PodNamespace d' \<noteq> Config_PodNamespace d \<or> Config_PodName d' \<noteq> Config_PodName d)"

lemma registered_found:
  assumes "index_wf ci'" "LookupContainer ci' = (LookupContainer ci)(c \<mapsto> d)" "only_container ci c d"
  shows "getContainerConfig ci' (Config_PodNamespace d) (Config_PodName d) = Some d"
proof (rule getContainerConfig_unique [OF assms(1)])
  show "container_of ci' (Config_PodNamespace d) (Config_PodName d) d"
    by (auto simp: container_of_def assms(2) ran_def)
  show "\<forall>d'. container_of ci' (Config_PodNamespace d) (Config_PodName d) d' \<longrightarrow> d' = d"
    using assms(3) by (auto simp: container_of_def assms(2) only_container_def ran_def split: if_splits)
qed

text \<open>
  C17: Every outcome of a request to connect a container. Without an error the container gets an address that no one had, the pool has it
  assigned to the namespace of the request, the reply names exactly this address, the container is registered with it, and
  the lookup used by the renderers finds its interface under the names of the pod given in the request (when no other
  container is registered for that pod). With an error no container is registered or forgotten; then either the pool had no address
  to give and is unchanged, or the reply carries the error and the new address stays assigned.
\<close>

theorem add_outcome:
  assumes "cni_reach owner config uid s h" "PodNetworkPrefixLen (IPAMConfig config) \<le> 32" "configuredContainers s = Some ci"
    and step: "configureContainerConnectivity env s request h = Some ((reply, err), s', h')"
  shows "case err of
      None \<Rightarrow> \<exists>a d ci' r. a \<notin> fst ` set (assignedPodIPs (cni_ipam s)) \<and>
        assignedPodIPs (cni_ipam s') = assignedPodIPs (cni_ipam s) @ [(a, NetworkNamespace request)] \<and>
        reply = Some r \<and> Result r = resultOk \<and>
        map Address (concat (map RepIf_IpAddresses (Interfaces r))) = [podIPCIDR (uint32_bytes a)] \<and>
        configuredContainers s' = Some ci' \<and> LookupContainer ci' = (LookupContainer ci)(ContainerId request \<mapsto> d) \<and>
        holds_address d a (NetworkNamespace request) \<and>
        Config_PodName d = extra_arg (parseExtraArgs (ExtraArguments request)) podNameExtraArg \<and>
        Config_PodNamespace d = extra_arg (parseExtraArgs (ExtraArguments request)) podNamespaceExtraArg \<and>
        (only_container ci (ContainerId request) d \<longrightarrow>
           GetIfName ci' (Config_PodNamespace d) (Config_PodName d) = Some (Vpp_Name (vpp_if s request)))
    | Some e \<Rightarrow> configuredContainers s' = Some ci \<and>
        (reply = None \<and> cni_ipam s' = cni_ipam s \<or>
         (\<exists>a r. reply = Some r \<and> Result r = resultErr \<and> Error r = Some e \<and>
            assignedPodIPs (cni_ipam s') = assignedPodIPs (cni_ipam s) @ [(a, NetworkNamespace request)]))"
  using step
proof (cases rule: configure_cases)
  case (no_address err')
  have "configuredContainers s' = Some ci" by (subst no_address(3)) (simp add: assms(3))
  then show ?thesis using no_address NextPodIP_error [OF no_address(1)] by simp
next
  case (failed podIP err')
  obtain a where a: "cni_ipam s' = (cni_ipam s)\<lparr>assignedPodIPs := assignedPodIPs (cni_ipam s) @ [(a, NetworkNamespace request)]\<rparr>"
    using add_assigns [OF assms(1,2) failed(1)] by blast
  have "configuredContainers s' = Some ci" by (subst failed(3)) (simp add: assms(3))
  then show ?thesis using failed(2) a by (simp add: generateErrorResponse_def)
next
  case (connected podIP ifName nsIndex gw s2)
  have wf: "index_wf ci" using cni_reach_inv [OF assms(1,2)] assms(3) by (auto elim!: cni_invE)
  obtain a where a: "podIP = uint32_bytes a" "a \<notin> fst ` set (assignedPodIPs (cni_ipam s))"
    "cni_ipam s2 = (cni_ipam s)\<lparr>assignedPodIPs := assignedPodIPs (cni_ipam s) @ [(a, NetworkNamespace request)]\<rparr>"
    using add_assigns [OF assms(1,2) connected(1)] by blast
  have c: "configuredContainers s2 = Some ci" by (subst connected(2)) (simp add: assms(3))
  let ?d = "container_entry s2 request podIP nsIndex"
  obtain ci' where ci': "s' = s2\<lparr>configuredContainers := Some ci'\<rparr>" "index_wf ci'"
    "LookupContainer ci' = (LookupContainer ci)(ContainerId request \<mapsto> ?d)"
    using register_container_stores [OF connected(3) c wf] by blast
  have "Vpp_Name (vpp_if s2 request) = Vpp_Name (vpp_if s request)"
    by (subst connected(2)) (simp add: vpp_if_def tapFromRequest_def afpacketFromRequest_def Let_def)
  then have name: "PodVppIf ?d = Some (vpp_if s2 request)" "Vpp_Name (vpp_if s2 request) = Vpp_Name (vpp_if s request)"
    by (simp_all add: container_entry_def Let_def)
  have "GetIfName ci' (Config_PodNamespace ?d) (Config_PodName ?d) = Some (Vpp_Name (vpp_if s request))"
    if "only_container ci (ContainerId request) ?d"
    using registered_found [OF ci'(2,3) that] name by (simp add: GetIfName_def)
  moreover have "holds_address ?d a (NetworkNamespace request)" by (simp add: a(1) entry_holds)
  moreover have "Config_PodName ?d = extra_arg (parseExtraArgs (ExtraArguments request)) podNameExtraArg"
    "Config_PodNamespace ?d = extra_arg (parseExtraArgs (ExtraArguments request)) podNamespaceExtraArg"
    by (simp_all add: container_entry_def Let_def)
  ultimately show ?thesis
    using connected(4) a ci' by (auto intro!: exI [of _ a] exI [of _ ?d] simp: createdInterfaces_def)
qed

section \<open>Examples\<close>

definition ex_request :: cni_request where
  "ex_request = \<lparr>Version = ''0.3.1'', ContainerId = ''c1'', NetworkNamespace = ''ns1'', Req_InterfaceName = ''eth0'', ExtraNwConfig = [],
     ExtraArguments = ''K8S_POD_NAME=web;K8S_POD_NAMESPACE=default''\<rparr>"

definition ex_contiv_config :: contiv_config where
  "ex_contiv_config = \<lparr>TCPChecksumOffloadDisabled = False, TCPstackDisabled = True, UseTAPInterfaces = False, TAPInterfaceVersion = 1,
     TAPv2RxRingSize = 0, TAPv2TxRingSize = 0, IPAMConfig = ex_config, NodeConfig = []\<rparr>"

lemma ex_cni_reach: "cni_reach (\<lambda>_. ''c1'') ex_contiv_config 1 ex_server (h :: agent_op list world)"
proof -
  have "newRemoteCNIServer (Some NewConfigIndex) True True ''node1'' ex_contiv_config 1 = Inr (ex_server\<lparr>vswitchConnectivityConfigured := False\<rparr>)"
    by (simp add: newRemoteCNIServer_def ex_contiv_config_def ex_ipam_New ex_server_def)
  moreover have "cni_resync ex_env (ex_server\<lparr>vswitchConnectivityConfigured := False\<rparr>) h = Some (None, ex_server, h)"
    by (simp add: cni_resync_def configureVswitchConnectivity_def ex_env_def ex_server_def)
  ultimately show ?thesis using cni_reach.start cni_reach.resync by metis
qed

definition ex_connected :: remoteCNIserver where
  "ex_connected = ex_server\<lparr>counter := 1, cni_ipam := ex_ipam\<lparr>assignedPodIPs := [(0x0A010102, ''ns1'')]\<rparr>\<rparr>"

lemmas cni_eval = connect_pod_def on_world_def send_txn_def of_error_def pod_interface_def lookup_if_index_def
  getVppInterfaceDetails_def c_string_def bytes_string_def pod_stack_def pod_network_def configureArpOnVpp_def vpp_call_def slice_to_def
  configureArpInContainer_def configureRoutesInContainer_def host_action_def persistChanges_def ranged_def proxy_put_def action_defs

lemma ex_connect: "\<exists>h'. connect_pod ex_env ex_connected ex_request [10, 1, 1, 2] (proxy_Init, []) = Some (Inr (''tap'', 0), h')"
proof -
  have gw: "PodGatewayIP (cni_ipam ex_connected) = Some [10, 1, 1, 1]"
    by (simp add: ex_connected_def PodGatewayIP_def ex_ipam_def)
  have env: "agent_send ex_env ops w = (None, w @ ops)" "LookupIdx ex_env w name = Some 7"
    "vpp_send ex_env req w = (\<lparr>Reply_Error = None, Retval = 0, AppnsIndex = 3\<rparr>, w)"
    "vpp_dump ex_env prefix w = ([DumpDetails \<lparr>SwIfIndex = 7, L2AddressLength = 6, L2Address = replicate 8 1, InterfaceName = [116, 97, 112, 0]\<rparr>], w)"
    "host ex_env c w = (Inr 1, w)" "WithNetNSPath ex_env ns run = run" "kvdb_Put ex_env k v w = (None, w)"
    "map_order ex_env w m = m" "Sleep ex_env ms w = w" for ops w name req prefix c ns run k v m ms
    by (simp_all add: ex_env_def)
  have flags: "useTAPInterfaces ex_connected = False" "disableTCPstack ex_connected = True" "govppChan ex_connected"
    "swIfIndex ex_connected" "tcpChecksumOffloadDisabled ex_connected = False"
    by (simp_all add: ex_connected_def ex_server_def)
  show ?thesis
    by (simp add: cni_eval env flags gw pod_changes_def char_of_eq_iff split: if_splits)
qed

lemma ex_add:
  obtains reply ci d h' where "configureContainerConnectivity ex_env ex_server ex_request (proxy_Init, []) =
      Some ((Some reply, None), ex_connected\<lparr>configuredContainers := Some ci\<rparr>, h')"
    "LookupContainer ci ''c1'' = Some d"
proof -
  have next': "NextPodIP (cni_ipam (ex_server\<lparr>counter := counter ex_server + 1\<rparr>)) (NetworkNamespace ex_request) =
      (ex_ipam\<lparr>assignedPodIPs := [(0x0A010102, ''ns1'')]\<rparr>, Inr [10, 1, 1, 2])"
    by (simp add: ex_Next ex_server_def ex_request_def)
  have s2: "ex_server\<lparr>counter := counter ex_server + 1, cni_ipam := ex_ipam\<lparr>assignedPodIPs := [(0x0A010102, ''ns1'')]\<rparr>\<rparr> = ex_connected"
    by (simp add: ex_connected_def ex_server_def)
  obtain h' where con: "connect_pod ex_env ex_connected ex_request [10, 1, 1, 2] (proxy_Init, []) = Some (Inr (''tap'', 0), h')"
    using ex_connect by blast
  let ?d = "container_entry ex_connected ex_request [10, 1, 1, 2] 0"
  obtain ci where ci: "RegisterContainer NewConfigIndex ''c1'' ?d = Some ci" "LookupContainer ci = (LookupContainer NewConfigIndex)(''c1'' \<mapsto> ?d)"
    using RegisterContainer_stores [OF index_wf_New(1)] by blast
  have reg: "register_container ex_connected ex_request ?d = Some (ex_connected\<lparr>configuredContainers := Some ci\<rparr>)"
    using ci(1) by (simp add: register_container_def ex_request_def) (simp add: ex_connected_def ex_server_def)
  have gw: "PodGatewayIP (ex_ipam\<lparr>assignedPodIPs := [(0x0A010102, ''ns1'')]\<rparr>) = Some [10, 1, 1, 1]"
    by (simp add: PodGatewayIP_def ex_ipam_def)
  show thesis
    using that [OF _ ci(2) [THEN fun_cong, of "''c1''", simplified]]
    by (simp only: configureContainerConnectivity_def Let_def next' prod.case sum.case s2 con option.case reg gw)
qed

lemma connected_addresses_witness:
  "\<exists>s h ci d a. cni_reach (\<lambda>_. ''c1'') ex_contiv_config 1 s (h :: agent_op list world) \<and> configuredContainers s = Some ci \<and>
     LookupContainer ci ''c1'' = Some d \<and> holds_address d a ''ns1'' \<and> contains (podNetworkIPPrefix (cni_ipam s)) (uint32_bytes a)"
proof -
  obtain reply ci d h' where add: "configureContainerConnectivity ex_env ex_server ex_request (proxy_Init, []) =
      Some ((Some reply, None), ex_connected\<lparr>configuredContainers := Some ci\<rparr>, h')" and d: "LookupContainer ci ''c1'' = Some d"
    by (rule ex_add)
  let ?s = "ex_connected\<lparr>configuredContainers := Some ci\<rparr>"
  have r: "cni_reach (\<lambda>_. ''c1'') ex_contiv_config 1 ?s h'"
    by (rule cni_reach.add [OF ex_cni_reach _ _ add]) (simp_all add: ex_server_def ex_request_def)
  have len: "PodNetworkPrefixLen (IPAMConfig ex_contiv_config) \<le> 32" by (simp add: ex_contiv_config_def ex_config_def)
  have "assignedPodIPs (cni_ipam ?s) = [(0x0A010102, ''ns1'')]" by (simp add: ex_connected_def)
  then show ?thesis using connected_addresses [OF r len _ d] r d by fastforce
qed

lemma add_outcome_witness:
  "\<exists>reply s' h' ci' d. configureContainerConnectivity ex_env ex_server ex_request (proxy_Init, []) = Some ((Some reply, None), s', h') \<and>
     configuredContainers s' = Some ci' \<and> LookupContainer ci' = [''c1'' \<mapsto> d] \<and>
     GetIfName ci' (Config_PodNamespace d) (Config_PodName d) = Some ''afpacketc1''"
proof -
  obtain reply ci d h' where add: "configureContainerConnectivity ex_env ex_server ex_request (proxy_Init, []) =
      Some ((Some reply, None), ex_connected\<lparr>configuredContainers := Some ci\<rparr>, h')"
    by (rule ex_add)
  have len: "PodNetworkPrefixLen (IPAMConfig ex_contiv_config) \<le> 32" by (simp add: ex_contiv_config_def ex_config_def)
  have c: "configuredContainers ex_server = Some NewConfigIndex" by (simp add: ex_server_def)
  have only: "only_container NewConfigIndex x d" for x d by (simp add: only_container_def index_wf_New)
  have name: "Vpp_Name (vpp_if ex_server ex_request) = ''afpacketc1''" "ContainerId ex_request = ''c1''"
    by (simp_all add: vpp_if_def ex_server_def afpacketFromRequest_def afpacketNameFromRequest_def afPacketNamePrefix_def
        veth2NameFromRequest_def ex_request_def linuxIfMaxLen_def)
  obtain d' ci' where "configuredContainers (ex_connected\<lparr>configuredContainers := Some ci\<rparr>) = Some ci'"
    "LookupContainer ci' = (LookupContainer NewConfigIndex)(''c1'' \<mapsto> d')"
    "GetIfName ci' (Config_PodNamespace d') (Config_PodName d') = Some ''afpacketc1''"
    using add_outcome [OF ex_cni_reach len c add] only by (auto simp: name)
  then show ?thesis using add by (auto simp: index_wf_New)
qed

lemma ex_disconnect:
  assumes "useTAPInterfaces s = False"
  shows "\<exists>h'. disconnect_pod ex_env s ex_request h = Some (Inr (), h')"
proof -
  have env: "agent_send ex_env ops w = (None, w @ ops)" "kvdb_Delete ex_env k w = (None, w)" "map_order ex_env w m = m" for ops w k m
    by (simp_all add: ex_env_def)
  show ?thesis
    by (simp add: disconnect_pod_def disconnect_ops_def removed_keys_def proxy_delete_def assms cni_eval env)
qed

lemma add_delete_roundtrip_witness:
  "\<exists>reply s1 h1 ci2 h2. configureContainerConnectivity ex_env ex_server ex_request (proxy_Init, []) = Some ((Some reply, None), s1, h1) \<and>
     unconfigureContainerConnectivity ex_env s1 ex_request h1 =
       Some ((Some \<lparr>Result = resultOk, Error = None, Interfaces = [], Routes = [], Dns = []\<rparr>, None),
             ex_server\<lparr>counter := 1, configuredContainers := Some ci2\<rparr>, h2) \<and> LookupContainer ci2 = Map.empty"
proof -
  obtain reply ci d h' where add: "configureContainerConnectivity ex_env ex_server ex_request (proxy_Init, []) =
      Some ((Some reply, None), ex_connected\<lparr>configuredContainers := Some ci\<rparr>, h')"
    by (rule ex_add)
  have len: "PodNetworkPrefixLen (IPAMConfig ex_contiv_config) \<le> 32" by (simp add: ex_contiv_config_def ex_config_def)
  have c: "configuredContainers ex_server = Some NewConfigIndex" "counter ex_server = 0" by (simp_all add: ex_server_def)
  have free: "NetworkNamespace ex_request \<notin> snd ` set (assignedPodIPs (cni_ipam ex_server))"
    by (simp add: ex_server_def ex_ipam_def)
  obtain h2 where "disconnect_pod ex_env (ex_connected\<lparr>configuredContainers := Some ci\<rparr>) ex_request h' = Some (Inr (), h2)"
    using ex_disconnect [of "ex_connected\<lparr>configuredContainers := Some ci\<rparr>" h'] by (auto simp: ex_connected_def ex_server_def)
  from add_delete_roundtrip [OF ex_cni_reach len c(1) free add this] add show ?thesis
    by (auto simp: c(2) index_wf_New)
qed

text \<open>
  The address of the VPP side of a pod interface is made from the number of requests so far; from the 255th request on it is not an
  address. (The bound on the counter is that of the numbers which the parser reads.)
\<close>

lemma vpp_address_range:
  assumes "counter s + 1 < 0xFFFFFF"
  shows "ParseCIDR (ipAddrForPodVPPIf s) \<noteq> None \<longleftrightarrow> counter s + 1 \<le> 255"
proof -
  let ?n = "itoa (counter s + 1)"
  let ?a = "''10.2.1.'' @ ?n"
  have str: "ipAddrForPodVPPIf s = ?a @ ''/32''" by (simp add: ipAddrForPodVPPIf_def podIfIPPrefix_def)
  have "CHR ''/'' \<notin> set ?n" by (rule itoa_free [OF dot_not_digit(2)])
  then have free: "\<forall>x\<in>set ?a. x \<noteq> CHR ''/''" by auto
  have split: "takeWhile (\<lambda>c. c \<noteq> CHR ''/'') (?a @ ''/32'') = ?a" "dropWhile (\<lambda>c. c \<noteq> CHR ''/'') (?a @ ''/32'') = ''/32''"
    using free by (simp_all add: takeWhile_append dropWhile_append)
  have "xtoi ?a = (16, ''.2.1.'' @ ?n, True)" by (simp add: xtoi_def hex_val_def is_digit_iff digit_val_def less_eq_char_def)
  then have "parse_chunks (Suc 7) ?a [] None = None" unfolding parse_chunks.simps(2) by simp
  then have "parse_chunks 8 ?a [] None = None" by simp
  then have v6: "parseIPv6 ?a = None" by (simp add: parseIPv6_def has_prefix_def)
  have four: "(4 :: nat) = Suc (Suc (Suc (Suc 0)))" by simp
  have a: "?a = itoa (unat (10 :: byte)) @ CHR ''.'' # itoa (unat (2 :: byte)) @ CHR ''.'' # itoa (unat (1 :: byte)) @ CHR ''.'' # ?n"
    by (simp add: itoa_eval digit_char_eval)
  have "parse_octets (Suc 0) False (CHR ''.'' # ?n) = (if counter s + 1 \<le> 255 then Some ([of_nat (counter s + 1)], []) else None)"
    using dtoi_itoa [OF assms, of "[]"] by simp
  then have "parse_octets (Suc (Suc (Suc (Suc 0)))) True ?a =
      (if counter s + 1 \<le> 255 then Some ([10, 2, 1, of_nat (counter s + 1)], []) else None)"
    unfolding a by (simp only: parse_octets_byte list.sel(1) dot_not_digit simp_thms) simp
  then have "parse_octets 4 True ?a = (if counter s + 1 \<le> 255 then Some ([10, 2, 1, of_nat (counter s + 1)], []) else None)"
    by (simp only: four)
  then have v4: "parseIPv4 ?a \<noteq> None \<longleftrightarrow> counter s + 1 \<le> 255"
    by (simp add: parseIPv4_def)
  have mask: "dtoi ''32'' = (32, [], True)" by (simp add: dtoi_def is_digit_iff digit_val_def)
  show ?thesis
    using v4 v6 by (cases "parseIPv4 ?a") (simp_all add: str ParseCIDR_def split [simplified] mask Let_def)
qed

end
