(* ===== verification/CniClient.thy ===== *)
theory CniClient
  imports CniServer
begin

text \<open>
  The CNI plugin, \<^verbatim>\<open>src/cmd/contiv-cni/contiv_cni.go\<close>: a process that the container runtime starts for every request. It reads
  its configuration, forwards the request over gRPC to the CNI server of the node and turns the reply into the result it prints. The
  decoding of the configuration and the connection are arguments. Shows what the runtime is told when the server
  of this library answers.
\<close>

section \<open>Arguments and results\<close>

record cmd_args =
  Arg_ContainerID :: string
  Netns :: string
  IfName :: string
  Args :: string
  StdinData :: string

text \<open>Of the result of a previous plugin only its presence matters.\<close>

record cni_config =
  CNIVersion :: string
  PrevResult :: bool
  GrpcServer :: string

datatype client_error =
    ConfigError string
  | ChainingNotSupported
  | GrpcServerRequired
  | DialError string
  | Unavailable
  | RemoteError cni_error
  | InvalidCIDR string

record result_interface =
  ResIf_Name :: string
  ResIf_Mac :: string
  ResIf_Sandbox :: string

record ip_config =
  IPConf_Version :: string
  IPConf_Interface :: nat
  IPConf_Address :: ipnet
  IPConf_Gateway :: "ip option"

record result_route =
  Route_Dst :: ipnet
  Route_GW :: "ip option"

record cni_result =
  Result_Version :: string
  Result_Interfaces :: "result_interface list"
  Result_IPs :: "ip_config list"
  Result_Routes :: "result_route list"
  Result_DNS :: reply_dns

section \<open>The configuration\<close>

definition parseCNIConfig :: "(string \<Rightarrow> string + cni_config) \<Rightarrow> string \<Rightarrow> client_error + cni_config" where
  "parseCNIConfig unmarshal bs =
     (case unmarshal bs of
        Inl err \<Rightarrow> Inl (ConfigError err)
      | Inr conf \<Rightarrow>
          if PrevResult conf then Inl ChainingNotSupported
          else if GrpcServer conf = [] then Inl GrpcServerRequired
          else Inr conf)"

section \<open>The connection\<close>

record 's cni_client =
  client_Add :: "cni_request \<Rightarrow> 's \<Rightarrow> (client_error + cni_reply) \<times> 's"
  client_Delete :: "cni_request \<Rightarrow> 's \<Rightarrow> (client_error + cni_reply) \<times> 's"

definition grpcConnect :: "(string \<Rightarrow> string + 's cni_client) \<Rightarrow> string \<Rightarrow> client_error + 's cni_client" where
  "grpcConnect dial grpcServer = (case dial grpcServer of Inl err \<Rightarrow> Inl (DialError err) | Inr c \<Rightarrow> Inr c)"

definition cni_request_of :: "cni_config \<Rightarrow> cmd_args \<Rightarrow> cni_request" where
  "cni_request_of cfg args = \<lparr>Version = CNIVersion cfg, ContainerId = Arg_ContainerID args, NetworkNamespace = Netns args,
     Req_InterfaceName = IfName args, ExtraNwConfig = StdinData args, ExtraArguments = Args args\<rparr>"

section \<open>The reply\<close>

text \<open>The first error ends the loop.\<close>

fun for_each :: "('a \<Rightarrow> 'e + 'b) \<Rightarrow> 'a list \<Rightarrow> 'e + 'b list" where
  "for_each f [] = Inr []"
| "for_each f (x # xs) =
     (case f x of
        Inl err \<Rightarrow> Inl err
      | Inr y \<Rightarrow> (case for_each f xs of Inl err \<Rightarrow> Inl err | Inr ys \<Rightarrow> Inr (y # ys)))"

text \<open>The network of the address is reported, not the address; the test for an error after parsing the gateway looks at the error of
  the address, so that a gateway that cannot be parsed is reported as none.\<close>

definition process_ip :: "nat \<Rightarrow> reply_ip \<Rightarrow> client_error + ip_config" where
  "process_ip ifidx ip =
     (case ParseCIDR (Address ip) of
        None \<Rightarrow> Inl (InvalidCIDR (Address ip))
      | Some (_, ipAddr) \<Rightarrow>
          Inr \<lparr>IPConf_Version = (if IP_Version ip = IPV6 then ''6'' else ''4''), IPConf_Interface = ifidx, IPConf_Address = ipAddr,
               IPConf_Gateway = (if Gateway ip \<noteq> [] then ParseIP (Gateway ip) else None)\<rparr>)"

definition process_route :: "reply_route \<Rightarrow> client_error + result_route" where
  "process_route route =
     (case ParseCIDR (Dst route) of
        None \<Rightarrow> Inl (InvalidCIDR (Dst route))
      | Some (_, dstIP) \<Rightarrow> Inr \<lparr>Route_Dst = dstIP, Route_GW = ParseIP (Gw route)\<rparr>)"

text \<open>Every address gets a pointer to the loop variable, which holds the index of the last interface when the result is printed.\<close>

definition last_ifidx :: "cni_reply \<Rightarrow> nat" where
  "last_ifidx r = length (Interfaces r) - 1"

definition process_dns :: "reply_dns list \<Rightarrow> reply_dns" where
  "process_dns ds = foldl (\<lambda>_ dns. dns) \<lparr>Dns_Nameservers = [], Dns_Domain = [], Dns_Search = [], Dns_Options = []\<rparr> ds"

definition process_reply :: "cni_config \<Rightarrow> cni_reply \<Rightarrow> client_error + cni_result" where
  "process_reply cfg r =
     (case for_each (process_ip (last_ifidx r)) (concat (map RepIf_IpAddresses (Interfaces r))) of
        Inl err \<Rightarrow> Inl err
      | Inr ips \<Rightarrow>
          (case for_each process_route (Routes r) of
             Inl err \<Rightarrow> Inl err
           | Inr routes \<Rightarrow>
               Inr \<lparr>Result_Version = CNIVersion cfg,
                    Result_Interfaces = map (\<lambda>i. \<lparr>ResIf_Name = RepIf_Name i, ResIf_Mac = RepIf_Mac i, ResIf_Sandbox = Sandbox i\<rparr>) (Interfaces r),
                    Result_IPs = ips, Result_Routes = routes, Result_DNS = process_dns (Dns r)\<rparr>))"

section \<open>The commands\<close>

text \<open>\<open>Inr\<close> is the result that is printed.\<close>

definition cmdAdd ::
  "(string \<Rightarrow> string + cni_config) \<Rightarrow> (string \<Rightarrow> string + 's cni_client) \<Rightarrow> cmd_args \<Rightarrow> 's \<Rightarrow> (client_error + cni_result) \<times> 's" where
  "cmdAdd unmarshal dial args st =
     (case parseCNIConfig unmarshal (StdinData args) of
        Inl err \<Rightarrow> (Inl err, st)
      | Inr cfg \<Rightarrow>
          (case grpcConnect dial (GrpcServer cfg) of
             Inl err \<Rightarrow> (Inl err, st)
           | Inr c \<Rightarrow>
               (case client_Add c (cni_request_of cfg args) st of
                  (Inl err, st') \<Rightarrow> (Inl err, st')
                | (Inr r, st') \<Rightarrow> (process_reply cfg r, st'))))"

definition cmdDel ::
  "(string \<Rightarrow> string + cni_config) \<Rightarrow> (string \<Rightarrow> string + 's cni_client) \<Rightarrow> cmd_args \<Rightarrow> 's \<Rightarrow> client_error option \<times> 's" where
  "cmdDel unmarshal dial args st =
     (case parseCNIConfig unmarshal (StdinData args) of
        Inl err \<Rightarrow> (Some err, st)
      | Inr n \<Rightarrow>
          (case grpcConnect dial (GrpcServer n) of
             Inl err \<Rightarrow> (Some err, st)
           | Inr c \<Rightarrow>
               (case client_Delete c (cni_request_of n args) st of
                  (Inl err, st') \<Rightarrow> (Some err, st')
                | (Inr _, st') \<Rightarrow> (None, st'))))"

section \<open>Client and server\<close>

text \<open>
  The client of a connection to the CNI server of this library. gRPC transmits the error of a handler and drops its reply then; the
  connection breaks when the server panics.
\<close>

definition rpc_outcome :: "((cni_reply option \<times> cni_error option) \<times> 's) option \<Rightarrow> 's \<Rightarrow> (client_error + cni_reply) \<times> 's" where
  "rpc_outcome outcome st =
     (case outcome of
        Some ((_, Some e), st') \<Rightarrow> (Inl (RemoteError e), st')
      | Some ((Some r, None), st') \<Rightarrow> (Inr r, st')
      | Some ((None, None), st') \<Rightarrow> (Inl Unavailable, st')
      | None \<Rightarrow> (Inl Unavailable, st))"

definition served :: "'w surroundings \<Rightarrow> (remoteCNIserver \<times> 'w world) cni_client" where
  "served env =
     \<lparr>client_Add = (\<lambda>request (s, h). rpc_outcome (configureContainerConnectivity env s request h) (s, h)),
      client_Delete = (\<lambda>request (s, h). rpc_outcome (unconfigureContainerConnectivity env s request h) (s, h))\<rparr>"

lemma podIPCIDR_read: "\<exists>ip. ParseCIDR (podIPCIDR (uint32_bytes a)) = Some (ip, net32 a 32)"
proof -
  have "aligned a 32" by (simp add: aligned_def)
  moreover have "ipnet_string (net32 a 32) = podIPCIDR (uint32_bytes a)"
    by (simp add: ipnet_string_net32 podIPCIDR_def itoa_eval digit_char_eval)
  ultimately show ?thesis using ParseCIDR_string [of 32 a] by simp
qed

lemma default_route_read: "\<exists>ip. ParseCIDR ''0.0.0.0/0'' = Some (ip, net32 0 0)"
proof -
  have "aligned 0 0" by (simp add: aligned_def)
  moreover have "ipnet_string (net32 0 0) = ''0.0.0.0/0''"
    by (simp add: ipnet_string_net32 uint32_bytes_def ip_string_4 itoa_eval digit_char_eval)
  ultimately show ?thesis using ParseCIDR_string [of 0 0] by simp
qed

lemma gateway_read: "ParseIP (ip_string (uint32_bytes g)) = To16 (uint32_bytes g)" "ip_string (uint32_bytes g) \<noteq> []"
proof -
  obtain a b c d where "uint32_bytes g = [a, b, c, d]" by (rule uint32_bytes_4)
  then show "ParseIP (ip_string (uint32_bytes g)) = To16 (uint32_bytes g)" "ip_string (uint32_bytes g) \<noteq> []"
    by (simp_all add: ParseIP_string To16_def) (simp add: ip_string_4)
qed

text \<open>The reply of a successful request becomes a result with one interface, one address and the default route.\<close>

lemma process_created:
  assumes "r = \<lparr>Result = resultOk, Error = None, Interfaces = createdInterfaces (uint32_bytes g) ifName ns (podIPCIDR (uint32_bytes a)),
      Routes = [\<lparr>Dst = ''0.0.0.0/0'', Gw = ip_string (uint32_bytes g)\<rparr>], Dns = []\<rparr>"
  shows "\<exists>res. process_reply cfg r = Inr res \<and>
    Result_Interfaces res = [\<lparr>ResIf_Name = ifName, ResIf_Mac = [], ResIf_Sandbox = ns\<rparr>] \<and>
    Result_IPs res = [\<lparr>IPConf_Version = ''4'', IPConf_Interface = 0, IPConf_Address = net32 a 32, IPConf_Gateway = To16 (uint32_bytes g)\<rparr>] \<and>
    Result_Routes res = [\<lparr>Route_Dst = net32 0 0, Route_GW = To16 (uint32_bytes g)\<rparr>]"
proof -
  obtain ip1 where ip: "ParseCIDR (podIPCIDR (uint32_bytes a)) = Some (ip1, net32 a 32)" using podIPCIDR_read by blast
  obtain ip2 where dst: "ParseCIDR ''0.0.0.0/0'' = Some (ip2, net32 0 0)" using default_route_read by blast
  show ?thesis
    by (simp add: assms process_reply_def process_ip_def process_route_def createdInterfaces_def last_ifidx_def ip dst gateway_read)
qed

lemma gateway_bytes:
  assumes "cni_reach owner config uid s h" "PodNetworkPrefixLen (IPAMConfig config) \<le> 32"
  obtains g where "podNetworkGatewayIP (cni_ipam s) = uint32_bytes g"
proof -
  have "ipam_reach uid (IPAMConfig config) (cni_ipam s)" using cni_reach_inv [OF assms] by (elim cni_invE)
  from ipam_reach_pool [OF this assms(2)] show thesis using that by (auto simp: pool_ok_def)
qed

lemma newIP_uint32: "newIP (uint32_bytes g) = Some (uint32_bytes g)"
proof -
  obtain a b c d where "uint32_bytes g = [a, b, c, d]" by (rule uint32_bytes_4)
  then show ?thesis by (simp add: newIP_def To4_def IPv4_def v4InV6Prefix_def)
qed

text \<open>
  C12: what the container runtime is told. When the CNI plugin of the node is configured with the address of the CNI server, a request to add a
  container is answered exactly as the server decided. If the server connected the container, the plugin prints its interface
  in the network namespace of the container, the address that the pool has just assigned to that namespace, as a network of one
  address, the gateway of the pod network, and the default route through this gateway. If the server failed, the plugin prints nothing and
  reports the error.
\<close>

theorem add_reported:
  assumes "cni_reach owner config uid s h" "PodNetworkPrefixLen (IPAMConfig config) \<le> 32"
    and "parseCNIConfig unmarshal (StdinData args) = Inr cfg" "dial (GrpcServer cfg) = Inr (served env)"
    and step: "configureContainerConnectivity env s (cni_request_of cfg args) h = Some ((reply, err), s', h')"
  shows "case err of
      Some e \<Rightarrow> cmdAdd unmarshal dial args (s, h) = (Inl (RemoteError e), s', h')
    | None \<Rightarrow> \<exists>res a ifName. cmdAdd unmarshal dial args (s, h) = (Inr res, s', h') \<and>
        a \<notin> fst ` set (assignedPodIPs (cni_ipam s)) \<and> (a, Netns args) \<in> set (assignedPodIPs (cni_ipam s')) \<and>
        Result_Interfaces res = [\<lparr>ResIf_Name = ifName, ResIf_Mac = [], ResIf_Sandbox = Netns args\<rparr>] \<and>
        Result_IPs res = [\<lparr>IPConf_Version = ''4'', IPConf_Interface = 0, IPConf_Address = net32 a 32,
          IPConf_Gateway = To16 (podNetworkGatewayIP (cni_ipam s))\<rparr>] \<and>
        Result_Routes res = [\<lparr>Route_Dst = net32 0 0, Route_GW = To16 (podNetworkGatewayIP (cni_ipam s))\<rparr>]"
proof -
  have add: "cmdAdd unmarshal dial args (s, h) =
      (case rpc_outcome (Some ((reply, err), s', h')) (s, h) of (Inl e, st) \<Rightarrow> (Inl e, st) | (Inr r, st) \<Rightarrow> (process_reply cfg r, st))"
    using assms(3,4) step by (simp add: cmdAdd_def grpcConnect_def served_def)
  show ?thesis
    using step
  proof (cases rule: configure_cases)
    case (no_address e)
    then show ?thesis using add by (simp add: rpc_outcome_def)
  next
    case (failed podIP e)
    then show ?thesis using add by (simp add: rpc_outcome_def generateErrorResponse_def)
  next
    case (connected podIP ifName nsIndex gw s2)
    obtain a where a: "podIP = uint32_bytes a" "a \<notin> fst ` set (assignedPodIPs (cni_ipam s))"
      "cni_ipam s2 = (cni_ipam s)\<lparr>assignedPodIPs := assignedPodIPs (cni_ipam s) @ [(a, Netns args)]\<rparr>"
      using add_assigns [OF assms(1,2) connected(1)] by (auto simp: cni_request_of_def)
    obtain g where g: "podNetworkGatewayIP (cni_ipam s) = uint32_bytes g" by (rule gateway_bytes [OF assms(1,2)])
    have gw: "gw = uint32_bytes g" using connected(5) a(3) g by (simp add: PodGatewayIP_def newIP_uint32)
    have "cni_ipam s' = cni_ipam s2" using connected(3) by (auto simp: register_container_def split: option.splits)
    then have "(a, Netns args) \<in> set (assignedPodIPs (cni_ipam s'))" using a(3) by simp
    moreover obtain r where r: "reply = Some r" "err = None" "r = \<lparr>Result = resultOk, Error = None,
        Interfaces = createdInterfaces (uint32_bytes g) ifName (Netns args) (podIPCIDR (uint32_bytes a)),
        Routes = [\<lparr>Dst = ''0.0.0.0/0'', Gw = ip_string (uint32_bytes g)\<rparr>], Dns = []\<rparr>"
      using connected(4) gw a(1) by (simp add: cni_request_of_def)
    ultimately show ?thesis using process_created [OF r(3), of cfg] add a(2) g by (auto simp: rpc_outcome_def)
  qed
qed

definition ex_unmarshal :: "string \<Rightarrow> string + cni_config" where
  "ex_unmarshal bs = Inr \<lparr>CNIVersion = ''0.3.1'', PrevResult = False, GrpcServer = ''localhost:9111''\<rparr>"

definition ex_args :: cmd_args where
  "ex_args = \<lparr>Arg_ContainerID = ''c1'', Netns = ''ns1'', IfName = ''eth0'', Args = ''K8S_POD_NAME=web;K8S_POD_NAMESPACE=default'', StdinData = []\<rparr>"

theorem add_reported_witness:
  "\<exists>res st a. cmdAdd ex_unmarshal (\<lambda>_. Inr (served ex_env)) ex_args (ex_server, proxy_Init, []) = (Inr res, st) \<and>
     map IPConf_Address (Result_IPs res) = [net32 a 32] \<and> map Route_Dst (Result_Routes res) = [net32 0 0]"
proof -
  obtain reply ci d h' where step: "configureContainerConnectivity ex_env ex_server ex_request (proxy_Init, []) =
      Some ((Some reply, None), ex_connected\<lparr>configuredContainers := Some ci\<rparr>, h')"
    by (rule ex_add)
  have len: "PodNetworkPrefixLen (IPAMConfig ex_contiv_config) \<le> 32" by (simp add: ex_contiv_config_def ex_config_def)
  let ?cfg = "\<lparr>CNIVersion = ''0.3.1'', PrevResult = False, GrpcServer = ''localhost:9111''\<rparr>"
  have cfg: "parseCNIConfig ex_unmarshal (StdinData ex_args) = Inr ?cfg" by (simp add: parseCNIConfig_def ex_unmarshal_def)
  have "cni_request_of ?cfg ex_args = ex_request" by (simp add: cni_request_of_def ex_args_def ex_request_def)
  then have "configureContainerConnectivity ex_env ex_server (cni_request_of ?cfg ex_args) (proxy_Init, []) =
      Some ((Some reply, None), ex_connected\<lparr>configuredContainers := Some ci\<rparr>, h')" using step by simp
  from add_reported [OF ex_cni_reach len cfg _ this, of "\<lambda>_. Inr (served ex_env)"] show ?thesis by auto
qed

end
