(* ===== verification/KsrReflector.thy ===== *)
theory KsrReflector
  imports PolicyModel
begin

text \<open>
  The Kubernetes state reflector, \<^verbatim>\<open>src/plugins/ksr\<close>: objects of the Kubernetes API (with the fields the reflectors read) are
  converted into messages and written to the data store under their keys. The callbacks of the informers are modelled from the
  type assertion on; the data store is a parameter, and the map of the mock writer is one.
\<close>

section \<open>Objects of the Kubernetes API\<close>

text \<open>A map of labels is the list of its entries in the order in which it is ranged over.\<close>

record k8s_meta =
  Meta_Name :: string
  Meta_Namespace :: string
  Meta_Labels :: "(string \<times> string) list"

record label_requirement =
  Req_Key :: string
  Req_Operator :: string
  Req_Values :: "string list"

record k8s_selector =
  MatchLabels :: "(string \<times> string) list"
  MatchExpressions :: "label_requirement list"

datatype int_or_string = IntVal "32 word" | StrVal string

record network_policy_port =
  NetPort_Protocol :: "string option"
  NetPort_Port :: "int_or_string option"

record k8s_ip_block =
  CIDR :: string
  Except :: "string list"

record network_policy_peer =
  PodSelector :: "k8s_selector option"
  NamespaceSelector :: "k8s_selector option"
  K8s_IPBlock :: "k8s_ip_block option"

record network_policy_rule =
  Rule_Ports :: "network_policy_port list"
  Rule_Peers :: "network_policy_peer list"

record network_policy =
  NetPol_Meta :: k8s_meta
  Spec_PodSelector :: k8s_selector
  PolicyTypes :: "string list"
  Spec_Ingress :: "network_policy_rule list"
  Spec_Egress :: "network_policy_rule list"

record api_container_port =
  ApiPort_Name :: string
  ApiPort_HostPort :: "32 word"
  ApiPort_ContainerPort :: "32 word"
  ApiPort_Protocol :: string
  ApiPort_HostIP :: string

record api_container =
  ApiContainer_Name :: string
  Ports :: "api_container_port list"

record api_pod =
  ApiPod_Meta :: k8s_meta
  PodIP :: string
  HostIP :: string
  Containers :: "api_container list"

record api_namespace =
  ApiNs_Meta :: k8s_meta

section \<open>Conversion\<close>

definition labelsToProto :: "(string \<times> string) list \<Rightarrow> label list" where
  "labelsToProto labels = map (\<lambda>(key, val). \<lparr>Label_Key = key, Label_Value = val\<rparr>) labels"

definition namespaceToProto :: "api_namespace \<Rightarrow> k8s_namespace" where
  "namespaceToProto ns = \<lparr>Ns_Name = Meta_Name (ApiNs_Meta ns), Ns_Label = labelsToProto (Meta_Labels (ApiNs_Meta ns))\<rparr>"

text \<open>A protocol that is neither TCP nor UDP leaves the field at its zero value, TCP.\<close>

definition container_port_to_proto :: "api_container_port \<Rightarrow> container_port" where
  "container_port_to_proto port =
     \<lparr>Port_Name = ApiPort_Name port, HostPort = ApiPort_HostPort port, ContainerPort = ApiPort_ContainerPort port,
      Port_Protocol = (if ApiPort_Protocol port = ''TCP'' then Pod_TCP else if ApiPort_Protocol port = ''UDP'' then Pod_UDP else Pod_TCP),
      Port_HostIpAddress = ApiPort_HostIP port\<rparr>"

definition containerToProto :: "api_container \<Rightarrow> container" where
  "containerToProto c = \<lparr>Container_Name = ApiContainer_Name c, Container_Port = map container_port_to_proto (Ports c)\<rparr>"

definition podToProto :: "api_pod \<Rightarrow> pod" where
  "podToProto pod =
     \<lparr>Pod_Name = Meta_Name (ApiPod_Meta pod), Pod_Namespace = Meta_Namespace (ApiPod_Meta pod),
      Pod_Label = labelsToProto (Meta_Labels (ApiPod_Meta pod)), IpAddress = PodIP pod, HostIpAddress = HostIP pod,
      Container = map containerToProto (Containers pod)\<rparr>"

text \<open>An unknown operator leaves the field at its zero value, IN.\<close>

definition operatorToProto :: "string \<Rightarrow> expr_operator" where
  "operatorToProto op =
     (if op = ''In'' then Expr_IN else if op = ''NotIn'' then Expr_NOT_IN else if op = ''Exists'' then Expr_EXISTS
      else if op = ''DoesNotExist'' then Expr_DOES_NOT_EXIST else Expr_IN)"

definition labelSelectorToProto :: "k8s_selector \<Rightarrow> label_selector" where
  "labelSelectorToProto selector =
     \<lparr>MatchLabel = labelsToProto (MatchLabels selector),
      MatchExpression = map (\<lambda>e. \<lparr>Expr_Key = Req_Key e, Operator = operatorToProto (Req_Operator e), Expr_Value = Req_Values e\<rparr>)
        (MatchExpressions selector)\<rparr>"

definition portToProto :: "network_policy_port \<Rightarrow> policy_port" where
  "portToProto port =
     \<lparr>Pol_Protocol = (case NetPort_Protocol port of
        Some proto \<Rightarrow> if proto = ''TCP'' then Policy_Port_TCP else if proto = ''UDP'' then Policy_Port_UDP else Policy_Port_TCP
      | None \<Rightarrow> Policy_Port_TCP),
      Pol_Port = (case NetPort_Port port of
        None \<Rightarrow> None
      | Some (IntVal n) \<Rightarrow> Some \<lparr>Ref_Type = Port_NUMBER, Ref_Number = n, Ref_Name = []\<rparr>
      | Some (StrVal s) \<Rightarrow> Some \<lparr>Ref_Type = Port_NAME, Ref_Number = 0, Ref_Name = s\<rparr>)\<rparr>"

definition portsToProto :: "network_policy_port list \<Rightarrow> policy_port list" where
  "portsToProto ports = map portToProto ports"

text \<open>Of several selectors of a peer only the first is converted.\<close>

definition peerToProto :: "network_policy_peer \<Rightarrow> policy_peer" where
  "peerToProto peer =
     (let none = \<lparr>Peer_Pods = None, Peer_Namespaces = None, IpBlock = None\<rparr> in
      case PodSelector peer of
        Some s \<Rightarrow> none\<lparr>Peer_Pods := Some (labelSelectorToProto s)\<rparr>
      | None \<Rightarrow>
          (case NamespaceSelector peer of
             Some s \<Rightarrow> none\<lparr>Peer_Namespaces := Some (labelSelectorToProto s)\<rparr>
           | None \<Rightarrow>
               (case K8s_IPBlock peer of
                  Some b \<Rightarrow> none\<lparr>IpBlock := Some \<lparr>Cidr = CIDR b, Block_Except = Except b\<rparr>\<rparr>
                | None \<Rightarrow> none)))"

definition peersToProto :: "network_policy_peer list \<Rightarrow> policy_peer list" where
  "peersToProto peers = map peerToProto peers"

definition policyTypeToProto :: "string list \<Rightarrow> k8s_policy_type" where
  "policyTypeToProto types =
     (let ingress = count_list types ''Ingress''; egress = count_list types ''Egress'' in
      if ingress > 0 \<and> egress > 0 then Policy_INGRESS_AND_EGRESS
      else if ingress > 0 then Policy_INGRESS
      else if egress > 0 then Policy_EGRESS
      else Policy_DEFAULT)"

definition policyToProto :: "network_policy \<Rightarrow> k8s_policy" where
  "policyToProto policy =
     \<lparr>Pol_Name = Meta_Name (NetPol_Meta policy), Pol_Namespace = Meta_Namespace (NetPol_Meta policy),
      Pol_Label = labelsToProto (Meta_Labels (NetPol_Meta policy)),
      Pol_Pods = Some (labelSelectorToProto (Spec_PodSelector policy)),
      Pol_PolicyType = policyTypeToProto (PolicyTypes policy),
      IngressRule = map (\<lambda>r. \<lparr>Ingress_Port = portsToProto (Rule_Ports r), From = peersToProto (Rule_Peers r)\<rparr>) (Spec_Ingress policy),
      EgressRule = map (\<lambda>r. \<lparr>Egress_Port = portsToProto (Rule_Ports r), To = peersToProto (Rule_Peers r)\<rparr>) (Spec_Egress policy)\<rparr>"

section \<open>Publishing\<close>

datatype ksr_value = NamespaceValue k8s_namespace | PodValue pod | PolicyValue k8s_policy

record 'w writer =
  writer_Put :: "string \<Rightarrow> ksr_value \<Rightarrow> 'w \<Rightarrow> string option \<times> 'w"
  writer_Delete :: "string \<Rightarrow> 'w \<Rightarrow> (bool \<times> string option) \<times> 'w"

text \<open>Errors of the data store are only logged.\<close>

definition addNamespace :: "'w writer \<Rightarrow> api_namespace \<Rightarrow> 'w \<Rightarrow> 'w" where
  "addNamespace publish ns w = snd (writer_Put publish (namespace_Key (Meta_Name (ApiNs_Meta ns))) (NamespaceValue (namespaceToProto ns)) w)"

definition deleteNamespace :: "'w writer \<Rightarrow> api_namespace \<Rightarrow> 'w \<Rightarrow> 'w" where
  "deleteNamespace publish ns w = snd (writer_Delete publish (namespace_Key (Meta_Name (ApiNs_Meta ns))) w)"

definition updateNamespace :: "'w writer \<Rightarrow> api_namespace \<Rightarrow> api_namespace \<Rightarrow> 'w \<Rightarrow> 'w" where
  "updateNamespace publish nsNew nsOld w = snd (writer_Put publish (namespace_Key (Meta_Name (ApiNs_Meta nsNew))) (NamespaceValue (namespaceToProto nsNew)) w)"

definition ksr_addPod :: "'w writer \<Rightarrow> api_pod \<Rightarrow> 'w \<Rightarrow> 'w" where
  "ksr_addPod publish pod w =
     snd (writer_Put publish (pod_Key (Meta_Name (ApiPod_Meta pod)) (Meta_Namespace (ApiPod_Meta pod))) (PodValue (podToProto pod)) w)"

definition ksr_deletePod :: "'w writer \<Rightarrow> api_pod \<Rightarrow> 'w \<Rightarrow> 'w" where
  "ksr_deletePod publish pod w = snd (writer_Delete publish (pod_Key (Meta_Name (ApiPod_Meta pod)) (Meta_Namespace (ApiPod_Meta pod))) w)"

definition ksr_updatePod :: "'w writer \<Rightarrow> api_pod \<Rightarrow> api_pod \<Rightarrow> 'w \<Rightarrow> 'w" where
  "ksr_updatePod publish podNew podOld w =
     snd (writer_Put publish (pod_Key (Meta_Name (ApiPod_Meta podNew)) (Meta_Namespace (ApiPod_Meta podNew))) (PodValue (podToProto podNew)) w)"

definition addPolicy :: "'w writer \<Rightarrow> network_policy \<Rightarrow> 'w \<Rightarrow> 'w" where
  "addPolicy publish policy w =
     snd (writer_Put publish (policy_Key (Meta_Name (NetPol_Meta policy)) (Meta_Namespace (NetPol_Meta policy))) (PolicyValue (policyToProto policy)) w)"

definition deletePolicy :: "'w writer \<Rightarrow> network_policy \<Rightarrow> 'w \<Rightarrow> 'w" where
  "deletePolicy publish policy w =
     snd (writer_Delete publish (policy_Key (Meta_Name (NetPol_Meta policy)) (Meta_Namespace (NetPol_Meta policy))) w)"

definition updatePolicy :: "'w writer \<Rightarrow> network_policy \<Rightarrow> network_policy \<Rightarrow> 'w \<Rightarrow> 'w" where
  "updatePolicy publish policyNew policyOld w =
     snd (writer_Put publish (policy_Key (Meta_Name (NetPol_Meta policyNew)) (Meta_Namespace (NetPol_Meta policyNew)))
       (PolicyValue (policyToProto policyNew)) w)"

text \<open>
  The callbacks of the three informers: an object that is not of the type of the informer, such as the tombstone of an
  object whose deletion was missed, is ignored with a warning.
\<close>

datatype k8s_object = NamespaceObject api_namespace | PodObject api_pod | PolicyObject network_policy | OtherObject string

datatype informer_event = AddFunc k8s_object | DeleteFunc k8s_object | UpdateFunc k8s_object k8s_object

definition namespace_callback :: "'w writer \<Rightarrow> informer_event \<Rightarrow> 'w \<Rightarrow> 'w" where
  "namespace_callback publish ev w =
     (case ev of
        AddFunc (NamespaceObject ns) \<Rightarrow> addNamespace publish ns w
      | DeleteFunc (NamespaceObject ns) \<Rightarrow> deleteNamespace publish ns w
      | UpdateFunc (NamespaceObject nsOld) (NamespaceObject nsNew) \<Rightarrow> updateNamespace publish nsNew nsOld w
      | _ \<Rightarrow> w)"

definition pod_callback :: "'w writer \<Rightarrow> informer_event \<Rightarrow> 'w \<Rightarrow> 'w" where
  "pod_callback publish ev w =
     (case ev of
        AddFunc (PodObject pod) \<Rightarrow> ksr_addPod publish pod w
      | DeleteFunc (PodObject pod) \<Rightarrow> ksr_deletePod publish pod w
      | UpdateFunc (PodObject podOld) (PodObject podNew) \<Rightarrow> ksr_updatePod publish podNew podOld w
      | _ \<Rightarrow> w)"

definition policy_callback :: "'w writer \<Rightarrow> informer_event \<Rightarrow> 'w \<Rightarrow> 'w" where
  "policy_callback publish ev w =
     (case ev of
        AddFunc (PolicyObject policy) \<Rightarrow> addPolicy publish policy w
      | DeleteFunc (PolicyObject policy) \<Rightarrow> deletePolicy publish policy w
      | UpdateFunc (PolicyObject policyOld) (PolicyObject policyNew) \<Rightarrow> updatePolicy publish policyNew policyOld w
      | _ \<Rightarrow> w)"

section \<open>The mock writer\<close>

definition mock_Put :: "string \<Rightarrow> ksr_value \<Rightarrow> (string \<rightharpoonup> ksr_value) \<Rightarrow> string option \<times> (string \<rightharpoonup> ksr_value)" where
  "mock_Put key data ds = (None, ds(key \<mapsto> data))"

definition mock_Delete :: "string \<Rightarrow> (string \<rightharpoonup> ksr_value) \<Rightarrow> (bool \<times> string option) \<times> (string \<rightharpoonup> ksr_value)" where
  "mock_Delete key ds =
     (case ds key of
        None \<Rightarrow> ((False, None), ds)
      | Some _ \<Rightarrow> ((True, None), ds(key := None)))"

definition mock_GetValue :: "string \<Rightarrow> (string \<rightharpoonup> ksr_value) \<Rightarrow> string + ksr_value" where
  "mock_GetValue key ds = (case ds key of None \<Rightarrow> Inl (''No data assigned to key '' @ key) | Some data \<Rightarrow> Inr data)"

definition mock_ClearDs :: "(string \<rightharpoonup> ksr_value) \<Rightarrow> (string \<rightharpoonup> ksr_value)" where
  "mock_ClearDs ds = Map.empty"

definition mock_writer :: "(string \<rightharpoonup> ksr_value) writer" where
  "mock_writer = \<lparr>writer_Put = mock_Put, writer_Delete = mock_Delete\<rparr>"

end
