(* ===== verification/KsrCache.thy ===== *)
theory KsrCache
  imports KsrReflector PolicyCacheSpec
begin

text \<open>
  From Kubernetes to the policy cache: the reflectors write to the data store, whose change events reach the policy cache of every node.
  What the data store reports is a parameter with the documented behaviour as its hypothesis. Shows that every change of an
  object in Kubernetes becomes the same change of the state which the cache refines.
\<close>

section \<open>Changes in Kubernetes\<close>

text \<open>A callback of one of the three informers; the informers run in goroutines of their own, in any interleaving.\<close>

datatype k8s_step = NamespaceStep informer_event | PodStep informer_event | PolicyStep informer_event

definition reflect :: "'w writer \<Rightarrow> k8s_step \<Rightarrow> 'w \<Rightarrow> 'w" where
  "reflect publish step w =
     (case step of
        NamespaceStep ev \<Rightarrow> namespace_callback publish ev w
      | PodStep ev \<Rightarrow> pod_callback publish ev w
      | PolicyStep ev \<Rightarrow> policy_callback publish ev w)"

text \<open>What a step stands for: the object that is there afterwards, or the object that is gone.\<close>

datatype k8s_effect = Present k8s_object | Gone k8s_object | Ignored

definition effect_of :: "k8s_step \<Rightarrow> k8s_effect" where
  "effect_of step =
     (case step of
        NamespaceStep (AddFunc (NamespaceObject n)) \<Rightarrow> Present (NamespaceObject n)
      | NamespaceStep (DeleteFunc (NamespaceObject n)) \<Rightarrow> Gone (NamespaceObject n)
      | NamespaceStep (UpdateFunc (NamespaceObject m) (NamespaceObject n)) \<Rightarrow> Present (NamespaceObject n)
      | PodStep (AddFunc (PodObject p)) \<Rightarrow> Present (PodObject p)
      | PodStep (DeleteFunc (PodObject p)) \<Rightarrow> Gone (PodObject p)
      | PodStep (UpdateFunc (PodObject q) (PodObject p)) \<Rightarrow> Present (PodObject p)
      | PolicyStep (AddFunc (PolicyObject p)) \<Rightarrow> Present (PolicyObject p)
      | PolicyStep (DeleteFunc (PolicyObject p)) \<Rightarrow> Gone (PolicyObject p)
      | PolicyStep (UpdateFunc (PolicyObject q) (PolicyObject p)) \<Rightarrow> Present (PolicyObject p)
      | _ \<Rightarrow> Ignored)"

definition meta_id :: "k8s_meta \<Rightarrow> string" where
  "meta_id m = ID_String \<lparr>Name = Meta_Name m, Namespace = Meta_Namespace m\<rparr>"

definition k8s_spec :: "k8s_step \<Rightarrow> cluster \<Rightarrow> cluster" where
  "k8s_spec step c =
     (case effect_of step of
        Present (NamespaceObject n) \<Rightarrow> c\<lparr>cl_namespaces := (cl_namespaces c)(Meta_Name (ApiNs_Meta n) \<mapsto> namespaceToProto n)\<rparr>
      | Gone (NamespaceObject n) \<Rightarrow> c\<lparr>cl_namespaces := (cl_namespaces c)(Meta_Name (ApiNs_Meta n) := None)\<rparr>
      | Present (PodObject p) \<Rightarrow> c\<lparr>cl_pods := (cl_pods c)(meta_id (ApiPod_Meta p) \<mapsto> podToProto p)\<rparr>
      | Gone (PodObject p) \<Rightarrow> c\<lparr>cl_pods := (cl_pods c)(meta_id (ApiPod_Meta p) := None)\<rparr>
      | Present (PolicyObject p) \<Rightarrow> c\<lparr>cl_policies := (cl_policies c)(meta_id (NetPol_Meta p) \<mapsto> policyToProto p)\<rparr>
      | Gone (PolicyObject p) \<Rightarrow> c\<lparr>cl_policies := (cl_policies c)(meta_id (NetPol_Meta p) := None)\<rparr>
      | _ \<Rightarrow> c)"

text \<open>Names and namespaces in Kubernetes have no slash.\<close>

definition slash_free :: "string \<Rightarrow> bool" where
  "slash_free s \<longleftrightarrow> CHR ''/'' \<notin> set s"

definition object_ok :: "k8s_object \<Rightarrow> bool" where
  "object_ok obj =
     (case obj of
        NamespaceObject n \<Rightarrow> slash_free (Meta_Name (ApiNs_Meta n))
      | PodObject p \<Rightarrow> slash_free (Meta_Name (ApiPod_Meta p)) \<and> slash_free (Meta_Namespace (ApiPod_Meta p))
      | PolicyObject p \<Rightarrow> slash_free (Meta_Name (NetPol_Meta p)) \<and> slash_free (Meta_Namespace (NetPol_Meta p))
      | OtherObject _ \<Rightarrow> True)"

definition step_ok :: "k8s_step \<Rightarrow> bool" where
  "step_ok step = (case effect_of step of Present obj \<Rightarrow> object_ok obj | Gone obj \<Rightarrow> object_ok obj | Ignored \<Rightarrow> True)"

section \<open>The data store and its change events\<close>

text \<open>
  \<open>watch key new old\<close> is the event the data store reports for a change of a key. It names the key and the kind of the
  change; \<^verbatim>\<open>GetValue\<close> gives the new value in its type and leaves the message as it is when the key was deleted; \<^verbatim>\<open>GetPrevValue\<close>
  gives the previous value in its type and tells whether there was one.
\<close>

type_synonym watch = "string \<Rightarrow> ksr_value option \<Rightarrow> ksr_value option \<Rightarrow> change_event"

definition reports :: "watch \<Rightarrow> bool" where
  "reports watch \<longleftrightarrow> (\<forall>key new old. let ev = watch key new old in
     ev_Key ev = key \<and> ev_ChangeType ev = (if new = None then Delete_change else Put_change) \<and>
     (\<forall>p. new = Some (PodValue p) \<longrightarrow> ev_pod ev = Inr p) \<and> (\<forall>p. new = Some (PolicyValue p) \<longrightarrow> ev_policy ev = Inr p) \<and>
     (\<forall>n. new = Some (NamespaceValue n) \<longrightarrow> ev_namespace ev = Inr n) \<and>
     (new = None \<longrightarrow> (\<exists>p. ev_pod ev = Inr p) \<and> (\<exists>p. ev_policy ev = Inr p) \<and> (\<exists>n. ev_namespace ev = Inr n)) \<and>
     (\<forall>p. old = Some (PodValue p) \<longrightarrow> ev_prev_pod ev = Inr (True, p)) \<and>
     (\<forall>p. old = Some (PolicyValue p) \<longrightarrow> ev_prev_policy ev = Inr (True, p)) \<and>
     (\<forall>n. old = Some (NamespaceValue n) \<longrightarrow> ev_prev_namespace ev = Inr (True, n)) \<and>
     (old = None \<longrightarrow> (\<exists>p. ev_prev_pod ev = Inr (False, p)) \<and> (\<exists>p. ev_prev_policy ev = Inr (False, p)) \<and> (\<exists>n. ev_prev_namespace ev = Inr (False, n))))"

text \<open>The map of the mock writer, with the events reported for its changes; the removal of a key that is not there is no change.\<close>

definition watched_writer :: "watch \<Rightarrow> ((string \<rightharpoonup> ksr_value) \<times> change_event list) writer" where
  "watched_writer watch =
     \<lparr>writer_Put = (\<lambda>key v (ds, evs). let (err, ds') = mock_Put key v ds in (err, ds', evs @ [watch key (Some v) (ds key)])),
      writer_Delete = (\<lambda>key (ds, evs). let (r, ds') = mock_Delete key ds
        in (r, ds', if ds key = None then evs else evs @ [watch key None (ds key)]))\<rparr>"

lemma watched_Put: "snd (writer_Put (watched_writer watch) key v (ds, evs)) = (ds(key \<mapsto> v), evs @ [watch key (Some v) (ds key)])"
  by (simp add: watched_writer_def mock_Put_def)

lemma watched_Delete:
  "snd (writer_Delete (watched_writer watch) key (ds, evs)) =
     (ds(key := None), if ds key = None then evs else evs @ [watch key None (ds key)])"
  by (auto simp: watched_writer_def mock_Delete_def split: option.split)

section \<open>Keys\<close>

lemma pod_key_facts:
  assumes "slash_free n" "slash_free ns"
  shows "ParsePodFromKey (pod_Key n ns) = Inr (n, ns)" "\<not> (\<exists>r. ParsePolicyFromKey (pod_Key n ns) = Inr r)"
    "has_prefix (pod_Key n ns) NamespacePrefix"
proof -
  show 1: "ParsePodFromKey (pod_Key n ns) = Inr (n, ns)" using assms by (simp add: parse_pod_iff slash_free_def)
  then show "\<not> (\<exists>r. ParsePolicyFromKey (pod_Key n ns) = Inr r)"
    by (auto simp: ParsePodFromKey_def ParsePolicyFromKey_def Let_def split: if_splits)
  show "has_prefix (pod_Key n ns) NamespacePrefix" by (simp add: key_shape)
qed

lemma policy_key_facts:
  assumes "slash_free n" "slash_free ns"
  shows "ParsePolicyFromKey (policy_Key n ns) = Inr (n, ns)" "has_prefix (policy_Key n ns) NamespacePrefix"
  using assms by (simp add: parse_policy_iff slash_free_def) (simp add: key_shape)

lemma namespace_key_facts:
  assumes "slash_free ns"
  shows "ParseNamespaceFromKey (namespace_Key ns) = Inr ns" "\<not> (\<exists>r. ParsePolicyFromKey (namespace_Key ns) = Inr r)"
    "\<not> (\<exists>r. ParsePodFromKey (namespace_Key ns) = Inr r)" "has_prefix (namespace_Key ns) NamespacePrefix"
proof -
  show 1: "ParseNamespaceFromKey (namespace_Key ns) = Inr ns" using assms by (simp add: parse_namespace_iff slash_free_def)
  then show "\<not> (\<exists>r. ParsePolicyFromKey (namespace_Key ns) = Inr r)" "\<not> (\<exists>r. ParsePodFromKey (namespace_Key ns) = Inr r)"
    by (auto simp: ParseNamespaceFromKey_def ParsePodFromKey_def ParsePolicyFromKey_def Let_def split: if_splits)
  show "has_prefix (namespace_Key ns) NamespacePrefix" by (simp add: namespace_Key_def)
qed

lemma key_distinct:
  assumes "slash_free n" "slash_free ns" "slash_free n'" "slash_free ns'"
  shows "pod_Key n ns = pod_Key n' ns' \<longleftrightarrow> n = n' \<and> ns = ns'" "policy_Key n ns = policy_Key n' ns' \<longleftrightarrow> n = n' \<and> ns = ns'"
    "pod_Key n ns \<noteq> policy_Key n' ns'" "pod_Key n ns \<noteq> namespace_Key n'" "policy_Key n ns \<noteq> namespace_Key n'"
  using pod_key_facts [OF assms(1,2)] pod_key_facts [OF assms(3,4)] policy_key_facts [OF assms(1,2)] policy_key_facts [OF assms(3,4)]
    namespace_key_facts [OF assms(3)]
  by (metis Pair_inject sum.inject(2))+

lemma namespace_key_inject: "slash_free n \<Longrightarrow> slash_free n' \<Longrightarrow> namespace_Key n = namespace_Key n' \<longleftrightarrow> n = n'"
  by (simp add: namespace_Key_def)

section \<open>The data store holds the state of the cluster\<close>

definition oid :: "string \<Rightarrow> string \<Rightarrow> string" where
  "oid n ns = ID_String \<lparr>Name = n, Namespace = ns\<rparr>"

lemma oid_inject: "slash_free ns \<Longrightarrow> slash_free ns' \<Longrightarrow> oid n ns = oid n' ns' \<longleftrightarrow> n = n' \<and> ns = ns'"
  by (simp add: oid_def ID_String_inject slash_free_def)

definition in_sync :: "(string \<rightharpoonup> ksr_value) \<Rightarrow> cluster \<Rightarrow> bool" where
  "in_sync ds c \<longleftrightarrow>
     (\<forall>n ns. slash_free n \<and> slash_free ns \<longrightarrow> ds (pod_Key n ns) = map_option PodValue (cl_pods c (oid n ns))) \<and>
     (\<forall>n ns. slash_free n \<and> slash_free ns \<longrightarrow> ds (policy_Key n ns) = map_option PolicyValue (cl_policies c (oid n ns))) \<and>
     (\<forall>ns. slash_free ns \<longrightarrow> ds (namespace_Key ns) = map_option NamespaceValue (cl_namespaces c ns)) \<and>
     keyed (\<lambda>v. ID_String (pod_GetID (Some v))) (cl_pods c) \<and> keyed (\<lambda>v. ID_String (policy_GetID (Some v))) (cl_policies c) \<and>
     keyed Ns_Name (cl_namespaces c)"

lemma in_syncD:
  assumes "in_sync ds c"
  shows "slash_free n \<Longrightarrow> slash_free ns \<Longrightarrow> ds (pod_Key n ns) = map_option PodValue (cl_pods c (oid n ns))"
    and "slash_free n \<Longrightarrow> slash_free ns \<Longrightarrow> ds (policy_Key n ns) = map_option PolicyValue (cl_policies c (oid n ns))"
    and "slash_free ns \<Longrightarrow> ds (namespace_Key ns) = map_option NamespaceValue (cl_namespaces c ns)"
    and "cl_pods c i = Some p \<Longrightarrow> ID_String (pod_GetID (Some p)) = i"
    and "cl_policies c i = Some q \<Longrightarrow> ID_String (policy_GetID (Some q)) = i"
    and "cl_namespaces c ns = Some m \<Longrightarrow> Ns_Name m = ns"
  using assms unfolding in_sync_def keyed_def by blast+

text \<open>Every change of one key of the data store is one change of the state.\<close>

lemma in_sync_pod:
  assumes "in_sync ds c" "slash_free n" "slash_free ns" "\<forall>p. v = Some p \<longrightarrow> ID_String (pod_GetID (Some p)) = oid n ns"
  shows "in_sync (ds(pod_Key n ns := map_option PodValue v)) (c\<lparr>cl_pods := (cl_pods c)(oid n ns := v)\<rparr>)"
  using assms in_syncD [OF assms(1)]
  by (auto simp: in_sync_def keyed_def key_distinct [OF assms(2,3)] key_distinct [OF _ _ assms(2,3)] oid_inject [OF assms(3)]
      oid_inject [OF _ assms(3)] dest: sym [of _ "pod_Key n ns"] split: if_splits)

lemma in_sync_policy:
  assumes "in_sync ds c" "slash_free n" "slash_free ns" "\<forall>p. v = Some p \<longrightarrow> ID_String (policy_GetID (Some p)) = oid n ns"
  shows "in_sync (ds(policy_Key n ns := map_option PolicyValue v)) (c\<lparr>cl_policies := (cl_policies c)(oid n ns := v)\<rparr>)"
  using assms in_syncD [OF assms(1)]
  by (auto simp: in_sync_def keyed_def key_distinct [OF assms(2,3)] key_distinct [OF _ _ assms(2,3)] oid_inject [OF assms(3)]
      oid_inject [OF _ assms(3)] dest: sym [of _ "policy_Key n ns"] split: if_splits)

lemma in_sync_namespace:
  assumes "in_sync ds c" "slash_free ns" "\<forall>m. v = Some m \<longrightarrow> Ns_Name m = ns"
  shows "in_sync (ds(namespace_Key ns := map_option NamespaceValue v)) (c\<lparr>cl_namespaces := (cl_namespaces c)(ns := v)\<rparr>)"
  using assms in_syncD [OF assms(1)]
  by (auto simp: in_sync_def keyed_def key_distinct(4,5) [OF _ _ assms(2,2)] namespace_key_inject [OF assms(2)] namespace_key_inject [OF _ assms(2)]
      dest: sym [of _ "namespace_Key ns"] split: if_splits)

text \<open>The reported event has the effect of the change.\<close>

lemma reportsD:
  assumes "reports watch"
  shows "ev_Key (watch key new old) = key" "ev_ChangeType (watch key new old) = (if new = None then Delete_change else Put_change)"
    and "new = Some (PodValue p) \<Longrightarrow> ev_pod (watch key new old) = Inr p"
    and "new = Some (PolicyValue q) \<Longrightarrow> ev_policy (watch key new old) = Inr q"
    and "new = Some (NamespaceValue m) \<Longrightarrow> ev_namespace (watch key new old) = Inr m"
    and "new = None \<Longrightarrow> (\<exists>p. ev_pod (watch key new old) = Inr p) \<and> (\<exists>p. ev_policy (watch key new old) = Inr p) \<and> (\<exists>n. ev_namespace (watch key new old) = Inr n)"
    and "old = Some (PodValue p) \<Longrightarrow> ev_prev_pod (watch key new old) = Inr (True, p)"
    and "old = Some (PolicyValue q) \<Longrightarrow> ev_prev_policy (watch key new old) = Inr (True, q)"
    and "old = Some (NamespaceValue m) \<Longrightarrow> ev_prev_namespace (watch key new old) = Inr (True, m)"
    and "old = None \<Longrightarrow> (\<exists>p. ev_prev_pod (watch key new old) = Inr (False, p)) \<and> (\<exists>p. ev_prev_policy (watch key new old) = Inr (False, p)) \<and>
      (\<exists>n. ev_prev_namespace (watch key new old) = Inr (False, n))"
  using assms [unfolded reports_def Let_def, THEN spec, of key, THEN spec, of new, THEN spec, of old] by simp_all

lemma event_pod:
  assumes "reports watch" "in_sync ds c" "slash_free n" "slash_free ns"
    and "\<forall>p. v = Some p \<longrightarrow> ID_String (pod_GetID (Some p)) = oid n ns" "v \<noteq> None \<or> ds (pod_Key n ns) \<noteq> None"
  shows "spec_change (watch (pod_Key n ns) (map_option PodValue v) (ds (pod_Key n ns))) c = c\<lparr>cl_pods := (cl_pods c)(oid n ns := v)\<rparr>"
proof -
  note k = pod_key_facts [OF assms(3,4)] and r = reportsD [OF assms(1), where key = "pod_Key n ns" and new = "map_option PodValue v" and old = "ds (pod_Key n ns)"]
  have ds: "ds (pod_Key n ns) = map_option PodValue (cl_pods c (oid n ns))" using in_syncD(1) [OF assms(2,3,4)] .
  show ?thesis
  proof (cases "cl_pods c (oid n ns)")
    case None
    then obtain p where "ev_prev_pod (watch (pod_Key n ns) (map_option PodValue v) (ds (pod_Key n ns))) = Inr (False, p)" using r(10) ds by auto
    moreover obtain q where "v = Some q" using assms(6) ds None by auto
    ultimately show ?thesis using r k assms(5) by (simp add: spec_change_def spec_objects_def)
  next
    case (Some p)
    then have prev: "ev_prev_pod (watch (pod_Key n ns) (map_option PodValue v) (ds (pod_Key n ns))) = Inr (True, p)" using r(7) ds by auto
    have "ID_String (pod_GetID (Some p)) = oid n ns" using in_syncD(4) [OF assms(2) Some] .
    then show ?thesis using prev r k assms(5) by (cases v) (auto simp: spec_change_def spec_objects_def)
  qed
qed

lemma event_policy:
  assumes "reports watch" "in_sync ds c" "slash_free n" "slash_free ns"
    and "\<forall>p. v = Some p \<longrightarrow> ID_String (policy_GetID (Some p)) = oid n ns" "v \<noteq> None \<or> ds (policy_Key n ns) \<noteq> None"
  shows "spec_change (watch (policy_Key n ns) (map_option PolicyValue v) (ds (policy_Key n ns))) c = c\<lparr>cl_policies := (cl_policies c)(oid n ns := v)\<rparr>"
proof -
  note k = policy_key_facts [OF assms(3,4)] and r = reportsD [OF assms(1), where key = "policy_Key n ns" and new = "map_option PolicyValue v" and old = "ds (policy_Key n ns)"]
  have ds: "ds (policy_Key n ns) = map_option PolicyValue (cl_policies c (oid n ns))" using in_syncD(2) [OF assms(2,3,4)] .
  show ?thesis
  proof (cases "cl_policies c (oid n ns)")
    case None
    then obtain p where "ev_prev_policy (watch (policy_Key n ns) (map_option PolicyValue v) (ds (policy_Key n ns))) = Inr (False, p)" using r(10) ds by auto
    moreover obtain q where "v = Some q" using assms(6) ds None by auto
    ultimately show ?thesis using r k assms(5) by (simp add: spec_change_def spec_objects_def)
  next
    case (Some p)
    then have prev: "ev_prev_policy (watch (policy_Key n ns) (map_option PolicyValue v) (ds (policy_Key n ns))) = Inr (True, p)" using r(8) ds by auto
    have "ID_String (policy_GetID (Some p)) = oid n ns" using in_syncD(5) [OF assms(2) Some] .
    then show ?thesis using prev r k assms(5) by (cases v) (auto simp: spec_change_def spec_objects_def)
  qed
qed

lemma event_namespace:
  assumes "reports watch" "in_sync ds c" "slash_free ns"
    and "\<forall>m. v = Some m \<longrightarrow> Ns_Name m = ns" "v \<noteq> None \<or> ds (namespace_Key ns) \<noteq> None"
  shows "spec_change (watch (namespace_Key ns) (map_option NamespaceValue v) (ds (namespace_Key ns))) c = c\<lparr>cl_namespaces := (cl_namespaces c)(ns := v)\<rparr>"
proof -
  note k = namespace_key_facts [OF assms(3)] and r = reportsD [OF assms(1), where key = "namespace_Key ns" and new = "map_option NamespaceValue v" and old = "ds (namespace_Key ns)"]
  have ds: "ds (namespace_Key ns) = map_option NamespaceValue (cl_namespaces c ns)" using in_syncD(3) [OF assms(2,3)] .
  show ?thesis
  proof (cases "cl_namespaces c ns")
    case None
    then obtain p where "ev_prev_namespace (watch (namespace_Key ns) (map_option NamespaceValue v) (ds (namespace_Key ns))) = Inr (False, p)" using r(10) ds by auto
    moreover obtain q where "v = Some q" using assms(5) ds None by auto
    ultimately show ?thesis using r k assms(4) by (simp add: spec_change_def spec_objects_def)
  next
    case (Some p)
    then have prev: "ev_prev_namespace (watch (namespace_Key ns) (map_option NamespaceValue v) (ds (namespace_Key ns))) = Inr (True, p)" using r(9) ds by auto
    have "Ns_Name p = ns" using in_syncD(6) [OF assms(2) Some] .
    then show ?thesis using prev r k assms(4) by (cases v) (auto simp: spec_change_def spec_objects_def)
  qed
qed

lemma change_pod:
  assumes "reports watch" "in_sync ds c" "slash_free n" "slash_free ns"
    and "\<forall>p. v = Some p \<longrightarrow> ID_String (pod_GetID (Some p)) = oid n ns"
  shows "fold spec_change (if v = None \<and> ds (pod_Key n ns) = None then [] else [watch (pod_Key n ns) (map_option PodValue v) (ds (pod_Key n ns))]) c =
    c\<lparr>cl_pods := (cl_pods c)(oid n ns := v)\<rparr>"
proof (cases "v = None \<and> ds (pod_Key n ns) = None")
  case True
  then have "(cl_pods c)(oid n ns := v) = cl_pods c" using in_syncD(1) [OF assms(2-4)] by (simp add: fun_upd_idem_iff)
  then show ?thesis using True by simp
qed (use event_pod [OF assms] in auto)

lemma change_policy:
  assumes "reports watch" "in_sync ds c" "slash_free n" "slash_free ns"
    and "\<forall>p. v = Some p \<longrightarrow> ID_String (policy_GetID (Some p)) = oid n ns"
  shows "fold spec_change (if v = None \<and> ds (policy_Key n ns) = None then [] else [watch (policy_Key n ns) (map_option PolicyValue v) (ds (policy_Key n ns))]) c =
    c\<lparr>cl_policies := (cl_policies c)(oid n ns := v)\<rparr>"
proof (cases "v = None \<and> ds (policy_Key n ns) = None")
  case True
  then have "(cl_policies c)(oid n ns := v) = cl_policies c" using in_syncD(2) [OF assms(2-4)] by (simp add: fun_upd_idem_iff)
  then show ?thesis using True by simp
qed (use event_policy [OF assms] in auto)

lemma change_namespace:
  assumes "reports watch" "in_sync ds c" "slash_free ns" "\<forall>m. v = Some m \<longrightarrow> Ns_Name m = ns"
  shows "fold spec_change (if v = None \<and> ds (namespace_Key ns) = None then [] else [watch (namespace_Key ns) (map_option NamespaceValue v) (ds (namespace_Key ns))]) c =
    c\<lparr>cl_namespaces := (cl_namespaces c)(ns := v)\<rparr>"
proof (cases "v = None \<and> ds (namespace_Key ns) = None")
  case True
  then have "(cl_namespaces c)(ns := v) = cl_namespaces c" using in_syncD(3) [OF assms(2,3)] by (simp add: fun_upd_idem_iff)
  then show ?thesis using True by simp
qed (use event_namespace [OF assms] in auto)

section \<open>Reflecting\<close>

text \<open>A callback writes the key of its object: the new value, or none.\<close>

definition written :: "k8s_effect \<Rightarrow> (string \<times> ksr_value option) option" where
  "written e =
     (case e of
        Present (NamespaceObject n) \<Rightarrow> Some (namespace_Key (Meta_Name (ApiNs_Meta n)), Some (NamespaceValue (namespaceToProto n)))
      | Gone (NamespaceObject n) \<Rightarrow> Some (namespace_Key (Meta_Name (ApiNs_Meta n)), None)
      | Present (PodObject p) \<Rightarrow> Some (pod_Key (Meta_Name (ApiPod_Meta p)) (Meta_Namespace (ApiPod_Meta p)), Some (PodValue (podToProto p)))
      | Gone (PodObject p) \<Rightarrow> Some (pod_Key (Meta_Name (ApiPod_Meta p)) (Meta_Namespace (ApiPod_Meta p)), None)
      | Present (PolicyObject p) \<Rightarrow> Some (policy_Key (Meta_Name (NetPol_Meta p)) (Meta_Namespace (NetPol_Meta p)), Some (PolicyValue (policyToProto p)))
      | Gone (PolicyObject p) \<Rightarrow> Some (policy_Key (Meta_Name (NetPol_Meta p)) (Meta_Namespace (NetPol_Meta p)), None)
      | _ \<Rightarrow> None)"

lemmas callback_defs = namespace_callback_def pod_callback_def policy_callback_def addNamespace_def deleteNamespace_def updateNamespace_def
  ksr_addPod_def ksr_deletePod_def ksr_updatePod_def addPolicy_def deletePolicy_def updatePolicy_def

lemma reflect_written:
  "reflect publish step w =
     (case written (effect_of step) of
        None \<Rightarrow> w
      | Some (key, Some v) \<Rightarrow> snd (writer_Put publish key v w)
      | Some (key, None) \<Rightarrow> snd (writer_Delete publish key w))"
  by (cases step) (simp_all add: reflect_def effect_of_def written_def callback_defs split: informer_event.split k8s_object.split)

lemma reflect_watched:
  "reflect (watched_writer watch) step (ds, evs) =
     (case written (effect_of step) of
        None \<Rightarrow> (ds, evs)
      | Some (key, v) \<Rightarrow> (ds(key := v), evs @ (if v = None \<and> ds key = None then [] else [watch key v (ds key)])))"
  by (auto simp: reflect_written watched_Put watched_Delete split: option.split)

lemma proto_ids:
  "ID_String (pod_GetID (Some (podToProto p))) = oid (Meta_Name (ApiPod_Meta p)) (Meta_Namespace (ApiPod_Meta p))"
  "ID_String (policy_GetID (Some (policyToProto q))) = oid (Meta_Name (NetPol_Meta q)) (Meta_Namespace (NetPol_Meta q))"
  "Ns_Name (namespaceToProto n) = Meta_Name (ApiNs_Meta n)"
  by (simp_all add: pod_GetID_def policy_GetID_def oid_def podToProto_def policyToProto_def namespaceToProto_def)

text \<open>A step of an informer is one change of the cluster, and the events reported for it are that change.\<close>

lemma reflect_step:
  assumes "reports watch" "in_sync ds c" "step_ok step"
  obtains ds' evs' where "reflect (watched_writer watch) step (ds, evs) = (ds', evs @ evs')" "in_sync ds' (k8s_spec step c)"
    and "fold spec_change evs' c = k8s_spec step c"
proof (cases "effect_of step")
  case (Present obj)
  then show ?thesis
  proof (cases obj)
    case (NamespaceObject n)
    show ?thesis
      using that in_sync_namespace [OF assms(2), of _ "Some (namespaceToProto n)"] change_namespace [OF assms(1,2), of _ "Some (namespaceToProto n)"]
        assms(3) Present NamespaceObject by (auto simp: reflect_watched written_def k8s_spec_def step_ok_def object_ok_def proto_ids)
  next
    case (PodObject p)
    show ?thesis
      using that in_sync_pod [OF assms(2), of _ _ "Some (podToProto p)"] change_pod [OF assms(1,2), of _ _ "Some (podToProto p)"]
        assms(3) Present PodObject by (auto simp: reflect_watched written_def k8s_spec_def step_ok_def object_ok_def proto_ids meta_id_def simp flip: oid_def)
  next
    case (PolicyObject p)
    show ?thesis
      using that in_sync_policy [OF assms(2), of _ _ "Some (policyToProto p)"] change_policy [OF assms(1,2), of _ _ "Some (policyToProto p)"]
        assms(3) Present PolicyObject by (auto simp: reflect_watched written_def k8s_spec_def step_ok_def object_ok_def proto_ids meta_id_def simp flip: oid_def)
  next
    case (OtherObject x)
    then show ?thesis using that [of ds "[]"] assms(2) Present by (simp add: reflect_watched written_def k8s_spec_def)
  qed
next
  case (Gone obj)
  then show ?thesis
  proof (cases obj)
    case (NamespaceObject n)
    show ?thesis
      using that in_sync_namespace [OF assms(2), of _ None] change_namespace [OF assms(1,2), of _ None, unfolded option.map]
        assms(3) Gone NamespaceObject by (auto simp: reflect_watched written_def k8s_spec_def step_ok_def object_ok_def)
  next
    case (PodObject p)
    show ?thesis
      using that in_sync_pod [OF assms(2), of _ _ None] change_pod [OF assms(1,2), of _ _ None, unfolded option.map]
        assms(3) Gone PodObject by (auto simp: reflect_watched written_def k8s_spec_def step_ok_def object_ok_def meta_id_def simp flip: oid_def)
  next
    case (PolicyObject p)
    show ?thesis
      using that in_sync_policy [OF assms(2), of _ _ None] change_policy [OF assms(1,2), of _ _ None, unfolded option.map]
        assms(3) Gone PolicyObject by (auto simp: reflect_watched written_def k8s_spec_def step_ok_def object_ok_def meta_id_def simp flip: oid_def)
  next
    case (OtherObject x)
    then show ?thesis using that [of ds "[]"] assms(2) Gone by (simp add: reflect_watched written_def k8s_spec_def)
  qed
next
  case Ignored
  then show ?thesis using that [of ds "[]"] assms(2) by (simp add: reflect_watched written_def k8s_spec_def)
qed

lemma in_sync_empty: "in_sync Map.empty empty_cluster"
  by (simp add: in_sync_def keyed_def empty_cluster_def)

lemma reflect_steps:
  "reports watch \<Longrightarrow> in_sync ds c \<Longrightarrow> list_all step_ok steps \<Longrightarrow>
   fold (reflect (watched_writer watch)) steps (ds, evs) = (ds', evs'') \<Longrightarrow>
   in_sync ds' (fold k8s_spec steps c) \<and> (\<exists>evs'. evs'' = evs @ evs' \<and> fold spec_change evs' c = fold k8s_spec steps c)"
proof (induction steps arbitrary: ds c evs)
  case (Cons step steps)
  then have ok: "step_ok step" "list_all step_ok steps" by simp_all
  obtain ds1 evs1 where s: "reflect (watched_writer watch) step (ds, evs) = (ds1, evs @ evs1)" "in_sync ds1 (k8s_spec step c)"
    "fold spec_change evs1 c = k8s_spec step c"
    using reflect_step [OF Cons.prems(1,2) ok(1)] .
  obtain evs2 where "in_sync ds' (fold k8s_spec steps (k8s_spec step c))" "evs'' = (evs @ evs1) @ evs2"
    "fold spec_change evs2 (k8s_spec step c) = fold k8s_spec steps (k8s_spec step c)"
    using Cons.IH [OF Cons.prems(1) s(2) ok(2), of "evs @ evs1"] Cons.prems(4) s(1) by auto
  then show ?case using s(3) by (auto intro: exI [of _ "evs1 @ evs2"])
qed simp

lemma spec_events_of_changes: "fold spec_event (map Change evs) c = fold spec_change evs c"
  by (induction evs arbitrary: c) (simp_all add: spec_event_def)

section \<open>No panic\<close>

text \<open>Registering a policy dereferences its pod selector, which \<^verbatim>\<open>policyToProto\<close> always sets.\<close>

definition harmless :: "change_event \<Rightarrow> bool" where
  "harmless ev \<longleftrightarrow>
     (\<forall>q r. ev_ChangeType ev = Put_change \<longrightarrow> ParsePolicyFromKey (ev_Key ev) = Inr r \<longrightarrow> ev_policy ev = Inr q \<longrightarrow> Pol_Pods q \<noteq> None)"

definition never_panics :: "'w watcher \<Rightarrow> bool" where
  "never_panics watcher \<longleftrightarrow> (\<forall>pc n w. watcher pc n w \<noteq> None)"

lemma notify_calm: "list_all never_panics ws \<Longrightarrow> \<exists>r. notify ws n (pc, w) = Some r"
proof (induction ws arbitrary: w)
  case (Cons watcher ws)
  then have "watcher pc n w \<noteq> None" by (simp add: never_panics_def)
  then obtain w' err where "watcher pc n w = Some (w', err)" by auto
  then show ?case using Cons by (cases err) simp_all
qed simp

lemma propagate_calm:
  assumes "list_all never_panics ws" "\<And>pc v. change = Put_change \<Longrightarrow> getValue = Inr v \<Longrightarrow> register pc (ident v) v \<noteq> None"
  shows "\<exists>r. propagate ident unregister register added updated deleted ws change getValue getPrevValue (pc, w) = Some r"
proof (cases getValue)
  case (Inr v)
  note ok = Inr
  show ?thesis
  proof (cases getPrevValue)
    case (Inr dp)
    obtain diff prev where dp: "dp = (diff, prev)" by (cases dp)
    have add: "\<exists>r. (case register pc (ident v) v of None \<Rightarrow> None | Some pc' \<Rightarrow> notify ws (added v) (pc', w)) = Some r" if "change = Put_change" for pc w
      using assms(2) [OF that ok, of pc] notify_calm [OF assms(1)] by (auto split: option.split)
    show ?thesis
    proof (cases "change = Delete_change")
      case True
      then show ?thesis using ok Inr dp notify_calm [OF assms(1)] by (simp add: propagate_def)
    next
      case False
      then have put: "change = Put_change" by (cases change) simp_all
      obtain pc1 where reg: "register (unregister pc (ident prev)) (ident v) v = Some pc1" using assms(2) [OF put ok] by auto
      obtain pc2 w2 err where "notify ws (updated prev v) (pc1, w) = Some ((pc2, w2), err)" using notify_calm [OF assms(1), of "updated prev v" pc1 w] by auto
      then show ?thesis using ok Inr dp put reg add [OF put] by (cases err) (auto simp: propagate_def Let_def)
    qed
  qed (simp add: propagate_def ok)
qed (simp add: propagate_def)

lemma changePropagateEvent_calm:
  assumes "list_all never_panics ws" "harmless ev"
  shows "\<exists>r. changePropagateEvent ws ev (pc, w) = Some r"
proof -
  have pod: "\<exists>r. pod_change ws ev (pc, w) = Some r" unfolding pod_change_def
    by (rule propagate_calm [OF assms(1)]) (simp add: RegisterPod_def map_Put_def pod_IndexFunction_def Let_def)
  have namespace: "\<exists>r. namespace_change ws ev (pc, w) = Some r" unfolding namespace_change_def
    by (rule propagate_calm [OF assms(1)]) (simp add: RegisterNamespace_def map_Put_def namespace_IndexFunction_def Let_def)
  have policy: "\<exists>r. policy_change ws ev (pc, w) = Some r" if "ParsePolicyFromKey (ev_Key ev) = Inr r" for r unfolding policy_change_def
    using assms(2) that
    by (intro propagate_calm [OF assms(1)]) (auto simp: harmless_def RegisterPolicy_def map_Put_def policy_IndexFunction_def Let_def split: option.splits)
  show ?thesis using pod namespace policy by (auto simp: changePropagateEvent_def split: sum.split)
qed

lemma handle_events_calm:
  "list_all never_panics ws \<Longrightarrow> list_all harmless evs \<Longrightarrow> \<exists>pc' w'. handle_events ws (map Change evs) (pc, w) = Some (pc', w')"
proof (induction evs arbitrary: pc w)
  case (Cons ev evs)
  then have "list_all never_panics ws" "harmless ev" by simp_all
  then obtain pc1 w1 err where "changePropagateEvent ws ev (pc, w) = Some ((pc1, w1), err)"
    using changePropagateEvent_calm [of ws ev pc w] by auto
  then show ?case using Cons by (simp add: handle_event_def cache_Update_def)
qed simp

lemma written_harmless:
  assumes "reports watch" "step_ok step" "written (effect_of step) = Some (key, v)"
  shows "harmless (watch key v old)"
proof -
  note r = reportsD [OF assms(1), where key = key and new = v and old = old]
  consider "v = None" | p where "v = Some (PolicyValue (policyToProto p))" | "\<not> (\<exists>r. ParsePolicyFromKey key = Inr r)"
    using assms(2,3)
    by (auto simp: written_def step_ok_def object_ok_def pod_key_facts(2) [simplified] namespace_key_facts(2) [simplified]
        split: k8s_effect.splits k8s_object.splits)
  then show ?thesis
  proof cases
    case 1
    then have "ev_ChangeType (watch key v old) = Delete_change" using r(2) by simp
    then show ?thesis by (simp add: harmless_def)
  next
    case 2
    then have "ev_policy (watch key v old) = Inr (policyToProto p)" using r(4) by simp
    then show ?thesis by (simp add: harmless_def policyToProto_def)
  qed (simp_all add: harmless_def r(1,2))
qed

lemma reflect_harmless:
  assumes "reports watch" "step_ok step" "list_all harmless evs"
  shows "list_all harmless (snd (reflect (watched_writer watch) step (ds, evs)))"
proof (cases "written (effect_of step)")
  case (Some kv)
  obtain key v where "kv = (key, v)" by (cases kv)
  then show ?thesis using Some assms(3) written_harmless [OF assms(1,2), of key v] by (simp add: reflect_watched)
qed (simp add: reflect_watched assms(3))

lemma reflect_steps_harmless:
  "reports watch \<Longrightarrow> list_all step_ok steps \<Longrightarrow> list_all harmless evs \<Longrightarrow>
   fold (reflect (watched_writer watch)) steps (ds, evs) = (ds', evs') \<Longrightarrow> list_all harmless evs'"
proof (induction steps arbitrary: ds evs)
  case (Cons step steps)
  obtain ds1 evs1 where s: "reflect (watched_writer watch) step (ds, evs) = (ds1, evs1)" by fastforce
  then have "list_all harmless evs1" using reflect_harmless [of watch step evs ds] Cons.prems by simp
  then show ?case using Cons.IH [of evs1 ds1] Cons.prems s by simp
qed simp

section \<open>An example\<close>

definition ex_watch :: watch where
  "ex_watch key new old =
     (let policy = (\<lambda>v. case v of Some (PolicyValue q) \<Rightarrow> q | _ \<Rightarrow> ex_k8s_policy []);
          pod = (\<lambda>v. case v of Some (PodValue p) \<Rightarrow> p | _ \<Rightarrow> ex_k8s_pod [] []);
          namespace = (\<lambda>v. case v of Some (NamespaceValue n) \<Rightarrow> n | _ \<Rightarrow> \<lparr>Ns_Name = [], Ns_Label = []\<rparr>)
      in \<lparr>ev_Key = key, ev_ChangeType = (if new = None then Delete_change else Put_change), ev_policy = Inr (policy new),
          ev_prev_policy = Inr (old \<noteq> None, policy old), ev_pod = Inr (pod new), ev_prev_pod = Inr (old \<noteq> None, pod old),
          ev_namespace = Inr (namespace new), ev_prev_namespace = Inr (old \<noteq> None, namespace old)\<rparr>)"

lemma ex_watch_reports: "reports ex_watch"
  by (simp add: reports_def ex_watch_def Let_def)

definition ex_api_meta :: k8s_meta where
  "ex_api_meta = \<lparr>Meta_Name = ''web'', Meta_Namespace = ''default'', Meta_Labels = [(''app'', ''nginx'')]\<rparr>"

definition ex_api_pod :: "string \<Rightarrow> api_pod" where
  "ex_api_pod ip = \<lparr>ApiPod_Meta = ex_api_meta, PodIP = ip, HostIP = ''192.168.16.1'', Containers = []\<rparr>"

definition ex_api_policy :: network_policy where
  "ex_api_policy = \<lparr>NetPol_Meta = ex_api_meta, Spec_PodSelector = \<lparr>MatchLabels = [(''app'', ''nginx'')], MatchExpressions = []\<rparr>,
     PolicyTypes = [''Ingress''], Spec_Ingress = [], Spec_Egress = []\<rparr>"

text \<open>A pod and a policy are added, the pod gets its address, the policy is deleted.\<close>

definition ex_steps :: "k8s_step list" where
  "ex_steps = [PodStep (AddFunc (PodObject (ex_api_pod []))), PolicyStep (AddFunc (PolicyObject ex_api_policy)),
     PodStep (UpdateFunc (PodObject (ex_api_pod [])) (PodObject (ex_api_pod ''10.1.1.2''))), PolicyStep (DeleteFunc (PolicyObject ex_api_policy))]"

lemma ex_steps_ok: "list_all step_ok ex_steps"
  by (simp add: ex_steps_def step_ok_def effect_of_def object_ok_def slash_free_def ex_api_pod_def ex_api_policy_def ex_api_meta_def)

lemma ex_steps_spec:
  "cl_pods (fold k8s_spec ex_steps empty_cluster) ''default/web'' = Some (podToProto (ex_api_pod ''10.1.1.2''))"
  "cl_policies (fold k8s_spec ex_steps empty_cluster) ''default/web'' = None"
  by (simp_all add: ex_steps_def k8s_spec_def effect_of_def meta_id_def ID_String_def ex_api_pod_def ex_api_policy_def ex_api_meta_def)

end
