(* ===== verification/GoRegexp.thy ===== *)
theory GoRegexp
  imports Prelude
begin

text \<open>
  The regular expressions of the package \<^verbatim>\<open>regexp\<close> that the label injector uses: sequences of character classes, each with a
  count, a greedy or a lazy star. A match is the preferred one at the leftmost position where there is one. All classes are
  matched byte by byte: the only class with characters outside of ASCII is a negated one at the end of an expression, and
  the code uses only where its match starts.
\<close>

section \<open>Expressions\<close>

datatype char_class = Among string | NotAmong string

fun in_class :: "char_class \<Rightarrow> char \<Rightarrow> bool" where
  "in_class (Among cs) c = (c \<in> set cs)"
| "in_class (NotAmong cs) c = (c \<notin> set cs)"

datatype repetition = Exactly nat | Greedy | Lazy

type_synonym pattern = "(char_class \<times> repetition) list"

definition re_literal :: "string \<Rightarrow> pattern" where
  "re_literal s = map (\<lambda>c. (Among [c], Exactly 1)) s"

text \<open>
  A class with a count in braces. Counts above 1000 are refused, which makes \<^verbatim>\<open>MustCompile\<close> panic; a negative number is not
  a count, and the braces then stand for themselves.
\<close>

definition re_counted :: "string \<Rightarrow> int \<Rightarrow> pattern option" where
  "re_counted cs n =
     (if n > 1000 then None
      else if n < 0 then Some ((Among cs, Exactly 1) # re_literal (''{-'' @ itoa (nat (- n)) @ ''}''))
      else Some [(Among cs, Exactly (nat n))])"

section \<open>Matching\<close>

text \<open>The numbers of characters an element may take, in the order in which they are tried.\<close>

definition candidates :: "char_class \<times> repetition \<Rightarrow> string \<Rightarrow> nat list" where
  "candidates e s =
     (case e of
        (c, Exactly n) \<Rightarrow> if n \<le> length s \<and> list_all (in_class c) (take n s) then [n] else []
      | (c, Greedy) \<Rightarrow> rev [0..<Suc (length (takeWhile (in_class c) s))]
      | (c, Lazy) \<Rightarrow> [0..<Suc (length (takeWhile (in_class c) s))])"

fun first_some :: "('a \<Rightarrow> 'b option) \<Rightarrow> 'a list \<Rightarrow> 'b option" where
  "first_some f [] = None"
| "first_some f (x # xs) = (case f x of None \<Rightarrow> first_some f xs | Some y \<Rightarrow> Some y)"

text \<open>The number of characters that each element takes, for a match at the start of the text.\<close>

primrec re_match :: "pattern \<Rightarrow> string \<Rightarrow> nat list option" where
  "re_match [] s = Some []"
| "re_match (e # p) s = first_some (\<lambda>k. map_option ((#) k) (re_match p (drop k s))) (candidates e s)"

fun re_find :: "pattern \<Rightarrow> string \<Rightarrow> (nat \<times> nat list) option" where
  "re_find p [] = map_option (\<lambda>ks. (0, ks)) (re_match p [])"
| "re_find p (c # s) =
     (case re_match p (c # s) of
        Some ks \<Rightarrow> Some (0, ks)
      | None \<Rightarrow> map_option (\<lambda>(i, ks). (Suc i, ks)) (re_find p s))"

definition FindStringIndex :: "pattern \<Rightarrow> string \<Rightarrow> (nat \<times> nat) option" where
  "FindStringIndex p s = map_option (\<lambda>(i, ks). (i, i + sum_list ks)) (re_find p s)"

text \<open>All matches from left to right; the search goes on behind a match. No expression of the program matches the empty text.\<close>

function FindAllStringIndex :: "pattern \<Rightarrow> nat \<Rightarrow> string \<Rightarrow> (nat \<times> nat) list" where
  "FindAllStringIndex p off s =
     (case FindStringIndex p s of
        None \<Rightarrow> []
      | Some (i, j) \<Rightarrow> (off + i, off + j) # (if 0 < j \<and> s \<noteq> [] then FindAllStringIndex p (off + j) (drop j s) else []))"
  by pat_completeness auto
termination by (relation "measure (\<lambda>(p, off, s). length s)") auto

declare FindAllStringIndex.simps [simp del]

section \<open>What a match is\<close>

lemma first_some_SomeE:
  assumes "first_some f xs = Some y"
  obtains x where "x \<in> set xs" "f x = Some y"
  using assms by (induction xs) (auto split: option.splits)

lemma re_match_Cons:
  assumes "re_match (e # p) s = Some ks"
  obtains k ks' where "ks = k # ks'" "k \<in> set (candidates e s)" "re_match p (drop k s) = Some ks'"
  using assms by (auto elim!: first_some_SomeE)

lemma candidate_le: "k \<in> set (candidates e s) \<Longrightarrow> k \<le> length s"
  using length_takeWhile_le [of "in_class (fst e)" s]
  by (cases e; cases "snd e") (auto simp: candidates_def split: if_splits)

lemma re_match_length: "re_match p s = Some ks \<Longrightarrow> length ks = length p \<and> sum_list ks \<le> length s"
proof (induction p arbitrary: s ks)
  case (Cons e p)
  obtain k ks' where k: "ks = k # ks'" "k \<in> set (candidates e s)" "re_match p (drop k s) = Some ks'"
    using Cons.prems by (rule re_match_Cons)
  have "length ks' = length p" "sum_list ks' \<le> length s - k" "k \<le> length s" using Cons.IH [OF k(3)] candidate_le [OF k(2)] by simp_all
  then show ?case using k(1) by simp
qed simp

lemma re_match_append:
  "re_match (p @ q) s = Some ks \<Longrightarrow>
   \<exists>ks1 ks2. ks = ks1 @ ks2 \<and> re_match q (drop (sum_list ks1) s) = Some ks2 \<and> length ks1 = length p \<and> sum_list ks1 \<le> length s"
proof (induction p arbitrary: s ks)
  case (Cons e p)
  obtain k ks' where k: "ks = k # ks'" "k \<in> set (candidates e s)" "re_match (p @ q) (drop k s) = Some ks'"
    using Cons.prems unfolding append_Cons by (rule re_match_Cons)
  obtain ks1 ks2 where "ks' = ks1 @ ks2" "re_match q (drop (sum_list ks1) (drop k s)) = Some ks2" "length ks1 = length p"
    "sum_list ks1 \<le> length (drop k s)"
    using Cons.IH [OF k(3)] by blast
  then show ?case using k(1) candidate_le [OF k(2)] by (intro exI [of _ "k # ks1"] exI [of _ ks2]) (auto simp: add.commute)
qed simp

text \<open>A literal takes its own text.\<close>

lemma re_match_literal:
  "re_match (re_literal t @ q) s = Some ks \<Longrightarrow>
   \<exists>ks2. ks = replicate (length t) 1 @ ks2 \<and> take (length t) s = t \<and> length t \<le> length s \<and> re_match q (drop (length t) s) = Some ks2"
proof (induction t arbitrary: s ks)
  case (Cons c t)
  obtain k ks' where k: "ks = k # ks'" "k \<in> set (candidates (Among [c], Exactly 1) s)" "re_match (re_literal t @ q) (drop k s) = Some ks'"
    using Cons.prems unfolding re_literal_def list.map append_Cons by (rule re_match_Cons)
  then obtain s' where s: "s = c # s'" "k = 1" by (cases s) (auto simp: candidates_def split: if_splits)
  then show ?case using Cons.IH [of s' ks'] k by auto
qed (simp add: re_literal_def)

lemma re_find_match: "re_find p s = Some (i, ks) \<Longrightarrow> i \<le> length s \<and> re_match p (drop i s) = Some ks"
  by (induction p s arbitrary: i rule: re_find.induct) (auto split: option.splits)

lemma FindStringIndex_bounds: "FindStringIndex p s = Some (i, j) \<Longrightarrow> i \<le> j \<and> j \<le> length s"
  using re_match_length re_find_match by (fastforce simp: FindStringIndex_def)

lemma FindAllStringIndex_bounds:
  "(a, b) \<in> set (FindAllStringIndex p off s) \<Longrightarrow> \<exists>ks. off \<le> a \<and> b \<le> off + length s \<and> re_match p (drop (a - off) s) = Some ks \<and> b = a + sum_list ks"
proof (induction p off s rule: FindAllStringIndex.induct)
  case (1 p off s)
  obtain i j where f: "FindStringIndex p s = Some (i, j)"
    using 1(2) by (cases "FindStringIndex p s") (auto simp: FindAllStringIndex.simps [of p off s])
  obtain ks where ks: "re_find p s = Some (i, ks)" "j = i + sum_list ks" using f by (auto simp: FindStringIndex_def)
  have b: "i \<le> j" "j \<le> length s" using FindStringIndex_bounds [OF f] by simp_all
  consider "(a, b) = (off + i, off + j)" | "0 < j \<and> s \<noteq> []" "(a, b) \<in> set (FindAllStringIndex p (off + j) (drop j s))"
    using 1(2) f by (auto simp: FindAllStringIndex.simps [of p off s] split: if_splits)
  then show ?case
  proof cases
    case 1
    then show ?thesis using re_find_match [OF ks(1)] ks(2) b by auto
  next
    case 2
    then obtain ks' where "off + j \<le> a" "b \<le> off + j + length (drop j s)" "re_match p (drop (a - (off + j)) (drop j s)) = Some ks'" "b = a + sum_list ks'"
      using "1.IH" [OF f refl] by blast
    then show ?thesis using b by (auto simp: add.commute)
  qed
qed

end
