(* ===== verification/LabelInjector.thy ===== *)
theory LabelInjector
  imports GoRegexp "HOL-Library.Monad_Syntax" "HOL-Library.Sublist"
begin

text \<open>
  The label injector, \<^verbatim>\<open>src/cmd/tools/ldpreload-label-injector/inject.go\<close>: it reads a file with Kubernetes objects as text,
  follows a path of nested blocks by their indentation, and inserts lines into the blocks at the end of the path. \<open>None\<close> is a panic: of a
  slice out of range, of a negative count of spaces, or of an expression that cannot be compiled. Shows that
  a pass over a document inserts text, changes nothing else and does not panic.
\<close>

section \<open>Text\<close>

definition go_slice :: "string \<Rightarrow> int \<Rightarrow> int \<Rightarrow> string option" where
  "go_slice s a b = (if 0 \<le> a \<and> a \<le> b \<and> b \<le> int (length s) then Some (take (nat b - nat a) (drop (nat a) s)) else None)"

definition go_repeat :: "string \<Rightarrow> int \<Rightarrow> string option" where
  "go_repeat s n = (if n < 0 then None else Some (concat (replicate (nat n) s)))"

fun str_index :: "string \<Rightarrow> string \<Rightarrow> nat option" where
  "str_index sub [] = (if sub = [] then Some 0 else None)"
| "str_index sub (c # s) = (if has_prefix (c # s) sub then Some 0 else map_option Suc (str_index sub s))"

text \<open>\<^verbatim>\<open>strings.Split\<close> at the delimiter of documents.\<close>

definition documentDelimiter :: string where "documentDelimiter = ''---''"

fun split_documents :: "string \<Rightarrow> string list" where
  "split_documents (a # b # c # s) =
     (if [a, b, c] = documentDelimiter then [] # split_documents s
      else (case split_documents (b # c # s) of d # ds \<Rightarrow> (a # d) # ds | [] \<Rightarrow> [[a]]))"
| "split_documents s = [s]"

section \<open>Blocks\<close>

record traversingInfo =
  ti_document :: string
  ti_eol :: string
  unresolvedPath :: "string list"
  resolvedPath :: "string list"
  blocks :: "(nat \<times> nat) list"
  parentBlockIndentation :: int

definition newTraversingInfo :: "string \<Rightarrow> string list \<Rightarrow> string \<Rightarrow> traversingInfo" where
  "newTraversingInfo document path eol = \<lparr>ti_document = document, ti_eol = eol, unresolvedPath = path, resolvedPath = [],
     blocks = [(0, length document)], parentBlockIndentation = 0\<rparr>"

definition newDescending :: "traversingInfo \<Rightarrow> nat \<Rightarrow> nat \<Rightarrow> int \<Rightarrow> traversingInfo" where
  "newDescending t blockStart blockEnd indentation = t\<lparr>unresolvedPath := tl (unresolvedPath t),
     resolvedPath := resolvedPath t @ [hd (unresolvedPath t)], blocks := blocks t @ [(blockStart, blockEnd)],
     parentBlockIndentation := indentation\<rparr>"

definition blockStr :: "traversingInfo \<Rightarrow> int \<Rightarrow> string option" where
  "blockStr t blockIndex =
     (if 0 \<le> blockIndex \<and> blockIndex < int (length (blocks t)) then
        (case blocks t ! nat blockIndex of (a, b) \<Rightarrow> go_slice (ti_document t) (int a) (int b))
      else None)"

definition curBlockStr :: "traversingInfo \<Rightarrow> string option" where
  "curBlockStr t = blockStr t (int (length (blocks t)) - 1)"

definition curBlockStart :: "traversingInfo \<Rightarrow> nat" where
  "curBlockStart t = fst (last (blocks t))"

section \<open>Indentation\<close>

definition minusIndentationCharacter :: string where "minusIndentationCharacter = ''-''"
definition spaceIndentationCharacter :: string where "spaceIndentationCharacter = '' ''"
definition indentationCharacters :: string where "indentationCharacters = minusIndentationCharacter @ spaceIndentationCharacter"
definition commentCharacters :: string where "commentCharacters = ''#''"
definition defaultIndentationLength :: int where "defaultIndentationLength = 2"

definition computeChildIndentation :: "string \<Rightarrow> string \<Rightarrow> pattern \<Rightarrow> int" where
  "computeChildIndentation curBlock eol indentationRegExp =
     (case re_find indentationRegExp curBlock of
        None \<Rightarrow> -1
      | Some (_, ks) \<Rightarrow> int (sum_list ks) - int (length eol) - 1)"

definition computeChildIndentationForNormalBlock :: "string \<Rightarrow> string \<Rightarrow> int" where
  "computeChildIndentationForNormalBlock normalBlock eol = computeChildIndentation normalBlock eol
     (re_literal eol @ [(Among spaceIndentationCharacter, Greedy), (NotAmong (indentationCharacters @ commentCharacters), Exactly 1)])"

definition computeChildIndentationForMappingBlock :: "string \<Rightarrow> string \<Rightarrow> int" where
  "computeChildIndentationForMappingBlock mappingBlock eol = computeChildIndentation mappingBlock eol
     (re_literal eol @ [(Among spaceIndentationCharacter, Greedy), (Among minusIndentationCharacter, Exactly 1)])"

definition computeChildIndentationForItemBlock :: "string \<Rightarrow> string \<Rightarrow> int" where
  "computeChildIndentationForItemBlock itemBlock eol = computeChildIndentation itemBlock eol
     (re_literal eol @ [(Among indentationCharacters, Greedy), (NotAmong (indentationCharacters @ commentCharacters), Exactly 1)])"

text \<open>A block reaches to the next sibling, including the end of line before it.\<close>

definition computeInnerBlockPosition :: "string \<Rightarrow> nat \<Rightarrow> int \<Rightarrow> string \<Rightarrow> char_class \<Rightarrow> (nat \<times> nat) option" where
  "computeInnerBlockPosition curBlock prefixIndex blockIndentation eol lastCharacter =
     do {
       let start = prefixIndex + length eol;
       count \<leftarrow> re_counted spaceIndentationCharacter blockIndentation;
       rest \<leftarrow> go_slice curBlock (int start) (int (length curBlock));
       Some (case FindStringIndex (re_literal eol @ count @ [(lastCharacter, Exactly 1)]) rest of
               Some (i, _) \<Rightarrow> (start, prefixIndex + i + length eol + length eol)
             | None \<Rightarrow> (start, length curBlock))
     }"

definition computeChildBlockPosition :: "string \<Rightarrow> nat \<Rightarrow> int \<Rightarrow> string \<Rightarrow> (nat \<times> nat) option" where
  "computeChildBlockPosition curBlock prefixIndex blockIndentation eol =
     computeInnerBlockPosition curBlock prefixIndex blockIndentation eol (NotAmong (indentationCharacters @ commentCharacters))"

definition computeItemBlockPosition :: "string \<Rightarrow> nat \<Rightarrow> int \<Rightarrow> string \<Rightarrow> (nat \<times> nat) option" where
  "computeItemBlockPosition curBlock prefixIndex blockIndentation eol =
     computeInnerBlockPosition curBlock prefixIndex blockIndentation eol (Among minusIndentationCharacter)"

section \<open>Traversal\<close>

text \<open>A loop that calls a visitor; the visitor changes the state of its closure.\<close>

fun go_each :: "('a \<Rightarrow> 's \<Rightarrow> 's option) \<Rightarrow> 'a list \<Rightarrow> 's \<Rightarrow> 's option" where
  "go_each f [] st = Some st"
| "go_each f (x # xs) st = (case f x st of None \<Rightarrow> None | Some st' \<Rightarrow> go_each f xs st')"

lemma go_each_cong [fundef_cong]:
  "xs = ys \<Longrightarrow> st = st' \<Longrightarrow> (\<And>x st. x \<in> set ys \<Longrightarrow> f x st = g x st) \<Longrightarrow> go_each f xs st = go_each g ys st'"
  by (induction xs arbitrary: ys st st') (auto split: option.splits)

function visitInsertionPlaces :: "(traversingInfo \<Rightarrow> 's \<Rightarrow> 's option) \<Rightarrow> traversingInfo \<Rightarrow> 's \<Rightarrow> 's option"
  and handleBasicBlock :: "(traversingInfo \<Rightarrow> 's \<Rightarrow> 's option) \<Rightarrow> traversingInfo \<Rightarrow> int \<Rightarrow> 's \<Rightarrow> 's option" where
  "visitInsertionPlaces visitor i st =
     (case unresolvedPath i of
        [] \<Rightarrow> visitor i st
      | part # _ \<Rightarrow>
          if part = minusIndentationCharacter then
            do {
              cur \<leftarrow> curBlockStr i;
              let itemIndentation = computeChildIndentationForMappingBlock cur (ti_eol i);
              count \<leftarrow> re_counted spaceIndentationCharacter itemIndentation;
              go_each (\<lambda>(prefixIndex, _) st.
                do {
                  (a, b) \<leftarrow> computeItemBlockPosition cur prefixIndex itemIndentation (ti_eol i);
                  handleBasicBlock visitor (newDescending i (curBlockStart i + a) (curBlockStart i + b) itemIndentation)
                    (computeChildIndentationForItemBlock cur (ti_eol i)) st
                }) (FindAllStringIndex (re_literal (ti_eol i) @ count @ re_literal minusIndentationCharacter) 0 cur) st
            }
          else
            do {
              cur \<leftarrow> curBlockStr i;
              handleBasicBlock visitor i (computeChildIndentationForNormalBlock cur (ti_eol i)) st
            })"
| "handleBasicBlock visitor i blockIndentation st =
     (case unresolvedPath i of
        [] \<Rightarrow> None
      | part # _ \<Rightarrow>
          do {
            count \<leftarrow> re_counted indentationCharacters blockIndentation;
            cur \<leftarrow> curBlockStr i;
            let matches = FindAllStringIndex (re_literal (ti_eol i) @ count @ re_literal part) 0 cur;
            if matches = [] then visitor i st
            else
              go_each (\<lambda>(prefixIndex, _) st.
                do {
                  (a, b) \<leftarrow> computeChildBlockPosition cur prefixIndex blockIndentation (ti_eol i);
                  visitInsertionPlaces visitor (newDescending i (curBlockStart i + a) (curBlockStart i + b) blockIndentation) st
                }) matches st
          })"
  by pat_completeness auto
termination
  by (relation "measure (case_sum (\<lambda>(_, i, _). 2 * length (unresolvedPath i) + 1) (\<lambda>(_, i, _, _). 2 * length (unresolvedPath i)))")
    (auto simp: newDescending_def)

declare visitInsertionPlaces.simps [simp del] handleBasicBlock.simps [simp del]

section \<open>Insertions\<close>

record insertion =
  insertionPoint :: int
  insertion_text :: string

text \<open>Rounding as the code has it, of the quotient of two integers.\<close>

definition go_round :: "int \<Rightarrow> int \<Rightarrow> int" where
  "go_round p q =
     (if 2 * p < - q then - ((2 * (- p) + q) div (2 * q))
      else if 2 * p > q then (2 * p + q) div (2 * q)
      else 0)"

definition hasMappingInUresolvedPath :: "traversingInfo \<Rightarrow> bool" where
  "hasMappingInUresolvedPath i = list_ex (\<lambda>pathPart. pathPart = minusIndentationCharacter) (unresolvedPath i)"

fun missing_path :: "string list \<Rightarrow> int \<Rightarrow> int \<Rightarrow> string \<Rightarrow> (string \<times> int) option" where
  "missing_path [] indentation delta eol = Some ([], indentation)"
| "missing_path (part # path) indentation delta eol =
     do {
       spaces \<leftarrow> go_repeat '' '' indentation;
       (rest, indentation') \<leftarrow> missing_path path (indentation + delta) delta eol;
       Some (spaces @ part @ eol @ rest, indentation')
     }"

fun indented_lines :: "string list \<Rightarrow> int \<Rightarrow> string \<Rightarrow> string option" where
  "indented_lines [] indentation eol = Some []"
| "indented_lines (line # ls) indentation eol =
     do {
       spaces \<leftarrow> go_repeat '' '' indentation;
       rest \<leftarrow> indented_lines ls indentation eol;
       Some (spaces @ line @ eol @ rest)
     }"

definition indentation_delta :: "traversingInfo \<Rightarrow> int" where
  "indentation_delta i =
     (if length (resolvedPath i) > 1 then go_round (parentBlockIndentation i) (int (length (resolvedPath i)) - 1)
      else defaultIndentationLength)"

definition sibling_indentation :: "traversingInfo \<Rightarrow> string \<Rightarrow> int" where
  "sibling_indentation i cur =
     (case re_find (re_literal (ti_eol i) @ [(Among spaceIndentationCharacter, Lazy), (NotAmong (spaceIndentationCharacter @ commentCharacters), Exactly 1)]) cur of
        Some (_, ks) \<Rightarrow> int (ks ! length (ti_eol i))
      | None \<Rightarrow> parentBlockIndentation i + indentation_delta i)"

definition createIndentationedInsertionString :: "traversingInfo \<Rightarrow> string \<Rightarrow> string list \<Rightarrow> string option" where
  "createIndentationedInsertionString i eol insertLines =
     do {
       cur \<leftarrow> curBlockStr i;
       let indentation = (if length (resolvedPath i) > 0 then sibling_indentation i cur else 0);
       (path, indentation') \<leftarrow> missing_path (unresolvedPath i) indentation (indentation_delta i) eol;
       ls \<leftarrow> indented_lines insertLines indentation' eol;
       Some (path @ ls)
     }"

definition insertion_visitor ::
  "(traversingInfo \<Rightarrow> bool option) \<Rightarrow> string list \<Rightarrow> string list \<Rightarrow> string \<Rightarrow> traversingInfo \<Rightarrow> insertion list \<Rightarrow> insertion list option" where
  "insertion_visitor condition insertLines elseInsertLines eol i insertions =
     (if hasMappingInUresolvedPath i then Some insertions
      else
        do {
          met \<leftarrow> condition i;
          insertStr \<leftarrow> createIndentationedInsertionString i eol (if met then insertLines else elseInsertLines);
          cur \<leftarrow> curBlockStr i;
          let point = (case str_index eol cur of Some k \<Rightarrow> int k | None \<Rightarrow> -1) + int (length eol) + int (curBlockStart i);
          Some (\<lparr>insertionPoint = point, insertion_text = insertStr\<rparr> # insertions)
        })"

fun apply_insertions :: "insertion list \<Rightarrow> string \<Rightarrow> string option" where
  "apply_insertions [] document = Some document"
| "apply_insertions (ins # insertions) document =
     do {
       before \<leftarrow> go_slice document 0 (insertionPoint ins);
       after \<leftarrow> go_slice document (insertionPoint ins) (int (length document));
       apply_insertions insertions (before @ insertion_text ins @ after)
     }"

definition insertLinesConditioned ::
  "string \<Rightarrow> string list \<Rightarrow> (traversingInfo \<Rightarrow> bool option) \<Rightarrow> string list \<Rightarrow> string list \<Rightarrow> string \<Rightarrow> string option" where
  "insertLinesConditioned document path condition insertLines elseInsertLines eol =
     do {
       insertions \<leftarrow> visitInsertionPlaces (insertion_visitor condition insertLines elseInsertLines eol) (newTraversingInfo document path eol) [];
       apply_insertions insertions document
     }"

definition insertLines :: "string \<Rightarrow> string list \<Rightarrow> string list \<Rightarrow> string \<Rightarrow> string option" where
  "insertLines document path ls eol = insertLinesConditioned document path (\<lambda>_. Some True) ls [] eol"

section \<open>Labels\<close>

record injectParams =
  useDebugLabel :: bool
  proxyName :: string

definition insertLDPreloadTrue :: "string \<Rightarrow> string \<Rightarrow> string option" where
  "insertLDPreloadTrue document eol =
     insertLines document [''spec:'', ''template:'', ''metadata:'', ''labels:'']
       [''# ldpreload-related labels'', ''ldpreload: \"true\"''] eol"

definition container_path :: "string list" where
  "container_path = [''spec:'', ''template:'', ''spec:'', ''containers:'', minusIndentationCharacter, ''env:'']"

text \<open>The name of the proxy container is read as plain text: names of containers have only letters, digits and dashes.\<close>

definition isProxyContainer :: "string \<Rightarrow> traversingInfo \<Rightarrow> bool option" where
  "isProxyContainer name info =
     (if length (unresolvedPath info) > 1 then Some False
      else
        do {
          image \<leftarrow> blockStr info (int (length (blocks info)) - (2 - int (length (unresolvedPath info))));
          Some (FindStringIndex (re_literal ''name:'' @ [(Among '' '', Greedy)] @ re_literal name @ [(Among '' '', Greedy)] @ re_literal (ti_eol info)) image \<noteq> None)
        })"

definition insertAppScope :: "string \<Rightarrow> string \<Rightarrow> injectParams \<Rightarrow> string option" where
  "insertAppScope document eol params =
     (if proxyName params = [] then
        insertLines document container_path
          [''# ldpreload-related env vars'', ''- name: VCL_APP_SCOPE_GLOBAL'', ''  value: \"\"'', ''- name: VCL_APP_SCOPE_LOCAL'', ''  value: \"\"''] eol
      else
        insertLinesConditioned document container_path (isProxyContainer (proxyName params))
          [''# ldpreload-related env vars'', ''- name: VCL_APP_SCOPE_GLOBAL'', ''  value: \"\"'', ''- name: VCL_APP_SCOPE_LOCAL'', ''  value: \"\"'',
           ''- name: VCL_APP_PROXY_TRANSPORT_TCP'', ''  value: \"\"'']
          [''# ldpreload-related env vars'', ''- name: VCL_APP_SCOPE_LOCAL'', ''  value: \"\"''] eol)"

definition insertDebug :: "string \<Rightarrow> string \<Rightarrow> string option" where
  "insertDebug document eol =
     insertLines document container_path
       [''# enable verbose VCL debugs, do not use for production'', ''- name: VCL_DEBUG'', ''  value: \"3\"''] eol"

section \<open>Files\<close>

definition detectEOLString :: "string \<Rightarrow> string + string" where
  "detectEOLString content =
     (case find (\<lambda>eol. str_index eol content \<noteq> None) [[char_of (13 :: nat), char_of (10 :: nat)], [char_of (10 :: nat)], [char_of (13 :: nat)]] of
        Some eol \<Rightarrow> Inr eol
      | None \<Rightarrow> Inl ''can't detect end of line characters'')"

definition isDeployment :: "string \<Rightarrow> bool" where
  "isDeployment document \<longleftrightarrow> FindStringIndex (re_literal ''kind:'' @ [(Among '' '', Greedy)] @ re_literal ''Deployment'') document \<noteq> None"

definition isPod :: "string \<Rightarrow> bool" where
  "isPod document \<longleftrightarrow> FindStringIndex (re_literal ''kind:'' @ [(Among '' '', Greedy)] @ re_literal ''Pod'') document \<noteq> None"

definition inject_document :: "string \<Rightarrow> injectParams \<Rightarrow> string \<Rightarrow> string option" where
  "inject_document eol params document =
     (if isPod document \<or> isDeployment document then
        do {
          d1 \<leftarrow> insertLDPreloadTrue document eol;
          d2 \<leftarrow> insertAppScope d1 eol params;
          if useDebugLabel params then insertDebug d2 eol else Some d2
        }
      else Some document)"

definition write_document :: "string \<Rightarrow> injectParams \<Rightarrow> string \<Rightarrow> string \<Rightarrow> string option" where
  "write_document eol params document converted =
     do {
       d \<leftarrow> inject_document eol params document;
       Some (converted @ (if converted \<noteq> [] then documentDelimiter else []) @ d)
     }"

definition inject :: "string \<Rightarrow> injectParams \<Rightarrow> (string + string) option" where
  "inject content params =
     (case detectEOLString content of
        Inl err \<Rightarrow> Some (Inl err)
      | Inr eol \<Rightarrow> map_option Inr (go_each (write_document eol params) (split_documents content) []))"

section \<open>Tame documents\<close>

text \<open>
  Documents in which no run of spaces and dashes is longer than the counts that an expression may have, and in which the count
  that stands for a block without children does not occur as text.
\<close>

definition tame :: "string \<Rightarrow> bool" where
  "tame d \<longleftrightarrow> list_all (\<lambda>n. length (takeWhile (\<lambda>c. c \<in> set indentationCharacters) (drop n d)) \<le> 1000 \<and> \<not> has_prefix (drop n d) ''{-1}'') [0..<length d]"

lemma tame_run: "tame d \<Longrightarrow> length (takeWhile (\<lambda>c. c \<in> set indentationCharacters) (drop n d)) \<le> 1000"
  by (cases "n < length d") (auto simp: tame_def list_all_iff)

lemma tame_text: "tame d \<Longrightarrow> \<not> has_prefix (drop n d) ''{-1}''"
  by (cases "n < length d") (auto simp: tame_def list_all_iff has_prefix_def)

lemma takeWhile_take_le: "length (takeWhile P (take k s)) \<le> length (takeWhile P s)"
  by (induction s arbitrary: k) (auto simp: take_Cons split: nat.split)

lemma has_prefix_take: "has_prefix (take k s) t \<Longrightarrow> has_prefix s t"
  by (auto simp: has_prefix_def min_def split: if_splits)

lemma tame_slice:
  assumes "tame d"
  shows "tame (take k (drop a d))"
proof -
  have "length (takeWhile (\<lambda>c. c \<in> set indentationCharacters) (drop n (take k (drop a d)))) \<le> 1000" for n
    using takeWhile_take_le [of _ "k - n" "drop (n + a) d"] tame_run [OF assms, of "n + a"] by (simp add: drop_take) (meson le_trans)
  moreover have "\<not> has_prefix (drop n (take k (drop a d))) ''{-1}''" for n
    using has_prefix_take [of "k - n" "drop (n + a) d"] tame_text [OF assms, of "n + a"] by (auto simp: drop_take)
  ultimately show ?thesis by (simp add: tame_def list_all_iff)
qed

lemma takeWhile_mono: "(\<And>c. P c \<Longrightarrow> Q c) \<Longrightarrow> length (takeWhile P s) \<le> length (takeWhile Q s)"
  by (induction s) auto

lemma indentation_bounds:
  assumes "tame cur" "set cs \<subseteq> set indentationCharacters"
  shows "-1 \<le> computeChildIndentation cur eol (re_literal eol @ [(Among cs, Greedy), (e, Exactly 1)])"
    and "computeChildIndentation cur eol (re_literal eol @ [(Among cs, Greedy), (e, Exactly 1)]) \<le> 1000"
proof -
  let ?p = "re_literal eol @ [(Among cs, Greedy), (e, Exactly 1)]"
  have "computeChildIndentation cur eol ?p = -1 \<or> 0 \<le> computeChildIndentation cur eol ?p \<and> computeChildIndentation cur eol ?p \<le> 1000"
  proof (cases "re_find ?p cur")
    case (Some r)
    obtain i ks where r: "r = (i, ks)" by (cases r)
    have "re_match ?p (drop i cur) = Some ks" using re_find_match Some r by blast
    then obtain ks2 where ks: "ks = replicate (length eol) 1 @ ks2"
      "re_match [(Among cs, Greedy), (e, Exactly 1)] (drop (length eol) (drop i cur)) = Some ks2"
      using re_match_literal by blast
    then obtain k where k: "ks2 = [k, 1]" "k \<in> set (candidates (Among cs, Greedy) (drop (length eol) (drop i cur)))"
      by (auto elim!: first_some_SomeE simp: candidates_def split: if_splits)
    have "k \<le> length (takeWhile (in_class (Among cs)) (drop (length eol + i) cur))" using k(2) by (auto simp: candidates_def)
    also have "\<dots> \<le> length (takeWhile (\<lambda>c. c \<in> set indentationCharacters) (drop (length eol + i) cur))"
      by (rule takeWhile_mono) (use assms(2) in auto)
    also have "\<dots> \<le> 1000" by (rule tame_run [OF assms(1)])
    finally show ?thesis using Some r ks k by (simp add: computeChildIndentation_def sum_list_replicate)
  qed (simp add: computeChildIndentation_def)
  then show "-1 \<le> computeChildIndentation cur eol ?p" "computeChildIndentation cur eol ?p \<le> 1000" by auto
qed

text \<open>The expressions for blocks at a given indentation.\<close>

lemma re_counted_cases:
  assumes "-1 \<le> n" "n \<le> 1000"
  obtains "n = -1" "re_counted cs n = Some ((Among cs, Exactly 1) # re_literal ''{-1}'')" | "0 \<le> n" "re_counted cs n = Some [(Among cs, Exactly (nat n))]"
proof (cases "n = -1")
  case True
  then have "re_counted cs n = Some ((Among cs, Exactly 1) # re_literal ''{-1}'')" by (simp add: re_counted_def itoa_eval digit_char_eval)
  then show thesis using that(1) True by simp
next
  case False
  then show thesis using assms that(2) by (simp add: re_counted_def)
qed

lemma child_indentation_bounds:
  assumes "tame cur"
  shows "-1 \<le> computeChildIndentationForNormalBlock cur eol \<and> computeChildIndentationForNormalBlock cur eol \<le> 1000"
    and "-1 \<le> computeChildIndentationForMappingBlock cur eol \<and> computeChildIndentationForMappingBlock cur eol \<le> 1000"
    and "-1 \<le> computeChildIndentationForItemBlock cur eol \<and> computeChildIndentationForItemBlock cur eol \<le> 1000"
proof -
  have "set spaceIndentationCharacter \<subseteq> set indentationCharacters" by (simp add: indentationCharacters_def)
  then show "-1 \<le> computeChildIndentationForNormalBlock cur eol \<and> computeChildIndentationForNormalBlock cur eol \<le> 1000"
    "-1 \<le> computeChildIndentationForMappingBlock cur eol \<and> computeChildIndentationForMappingBlock cur eol \<le> 1000"
    unfolding computeChildIndentationForNormalBlock_def computeChildIndentationForMappingBlock_def using indentation_bounds [OF assms] by simp_all
  show "-1 \<le> computeChildIndentationForItemBlock cur eol \<and> computeChildIndentationForItemBlock cur eol \<le> 1000"
    unfolding computeChildIndentationForItemBlock_def using indentation_bounds [OF assms order_refl] by simp
qed

text \<open>A match of the start of a block lies in the text, leaves room for the block, and has an indentation.\<close>

lemma block_match:
  assumes "tame cur" "-1 \<le> n" "n \<le> 1000" "re_counted cs n = Some count" "part \<noteq> []"
    and "(a, b) \<in> set (FindAllStringIndex (re_literal eol @ count @ re_literal part) 0 cur)"
  shows "0 \<le> n" "a + length eol < length cur"
proof -
  obtain ks where ks: "re_match (re_literal eol @ count @ re_literal part) (drop a cur) = Some ks" "b \<le> length cur" "b = a + sum_list ks"
    using FindAllStringIndex_bounds [OF assms(6)] by auto
  obtain ks2 where e: "ks = replicate (length eol) 1 @ ks2" "re_match (count @ re_literal part) (drop (length eol) (drop a cur)) = Some ks2"
    using re_match_literal [OF ks(1)] by blast
  show "0 \<le> n"
  proof (rule re_counted_cases [OF assms(2,3), of cs])
    assume "n = -1" "re_counted cs n = Some ((Among cs, Exactly 1) # re_literal ''{-1}'')"
    then have "count = (Among cs, Exactly 1) # re_literal ''{-1}''" using assms(4) by simp
    then obtain k ks3 where "re_match (re_literal ''{-1}'' @ re_literal part) (drop k (drop (length eol) (drop a cur))) = Some ks3"
      using e(2) unfolding append_Cons \<open>count = _\<close> by (auto simp del: re_match.simps elim: re_match_Cons)
    then have "has_prefix (drop k (drop (length eol) (drop a cur))) ''{-1}''"
      using re_match_literal [of "''{-1}''"] by (fastforce simp: has_prefix_def)
    then show "0 \<le> n" using tame_text [OF assms(1), of "k + (length eol + a)"] by simp
  qed simp
  obtain ks1 ks3 where "ks2 = ks1 @ ks3" "re_match (re_literal part) (drop (sum_list ks1) (drop (length eol) (drop a cur))) = Some ks3"
    using re_match_append [OF e(2)] by blast
  then have "ks3 = replicate (length part) 1" using re_match_literal [of part "[]"] by fastforce
  then have "length part \<le> sum_list ks2" using \<open>ks2 = ks1 @ ks3\<close> by (simp add: sum_list_replicate)
  moreover have "0 < length part" using assms(5) by simp
  moreover have "b = a + length eol + sum_list ks2" using ks(3) e(1) by (simp add: sum_list_replicate)
  ultimately show "a + length eol < length cur" using ks(2) by linarith
qed

lemma inner_block_position:
  assumes "0 \<le> n" "n \<le> 1000" "a + length eol < length cur" "eol \<noteq> []"
  obtains e where "computeInnerBlockPosition cur a n eol c = Some (a + length eol, e)" "a + length eol < e" "e \<le> length cur"
proof -
  let ?rest = "drop (a + length eol) cur"
  let ?p = "re_literal eol @ [(Among spaceIndentationCharacter, Exactly (nat n))] @ [(c, Exactly 1)]"
  have slice: "go_slice cur (int (a + length eol)) (int (length cur)) = Some ?rest" using assms(3) by (simp add: go_slice_def nat_int_add)
  have pos: "computeInnerBlockPosition cur a n eol c =
      Some (case FindStringIndex ?p ?rest of Some (i, _) \<Rightarrow> (a + length eol, a + i + length eol + length eol) | None \<Rightarrow> (a + length eol, length cur))"
    using assms(1,2) slice by (simp add: computeInnerBlockPosition_def re_counted_def Let_def)
  show thesis
  proof (cases "FindStringIndex ?p ?rest")
    case (Some r)
    obtain i j where r: "r = (i, j)" by (cases r)
    obtain ks where ks: "re_find ?p ?rest = Some (i, ks)" using Some r by (auto simp: FindStringIndex_def)
    have "length eol \<le> length (drop i ?rest)" using re_match_literal re_find_match [OF ks] by blast
    moreover have "0 < length eol" using assms(4) by simp
    ultimately have "i + length eol \<le> length ?rest" by (cases "i \<le> length ?rest") auto
    then show thesis using that [of "a + i + length eol + length eol"] pos Some r \<open>0 < length eol\<close> assms(3) by simp
  qed (use pos that assms(3) in simp)
qed

section \<open>The traversal visits well-formed blocks\<close>

definition path_ok :: "string list \<Rightarrow> bool" where
  "path_ok path \<longleftrightarrow> [] \<notin> set path \<and> (path = [] \<or> last path \<noteq> minusIndentationCharacter)"

definition info_ok :: "string \<Rightarrow> string \<Rightarrow> traversingInfo \<Rightarrow> bool" where
  "info_ok d eol i \<longleftrightarrow> ti_document i = d \<and> ti_eol i = eol \<and> blocks i \<noteq> [] \<and>
     (\<forall>(a, b)\<in>set (blocks i). a < b \<and> b \<le> length d) \<and> length (blocks i) = Suc (length (resolvedPath i)) \<and>
     0 \<le> parentBlockIndentation i \<and> path_ok (unresolvedPath i) \<and> (resolvedPath i = [] \<longrightarrow> unresolvedPath i \<noteq> [])"

lemma blockStr_ok:
  assumes "info_ok d eol i" "0 \<le> k" "k < int (length (blocks i))" "blocks i ! nat k = (a, b)"
  shows "blockStr i k = Some (take (b - a) (drop a d))"
proof -
  have "(a, b) \<in> set (blocks i)" using nth_mem [of "nat k" "blocks i"] assms(2-4) by simp
  then have "a < b" "b \<le> length d" using assms(1) by (auto simp: info_ok_def)
  then show ?thesis using assms by (simp add: blockStr_def info_ok_def go_slice_def)
qed

lemma curBlock_ok:
  assumes "info_ok d eol i"
  obtains a b where "curBlockStart i = a" "a < b" "b \<le> length d" "curBlockStr i = Some (take (b - a) (drop a d))" "length (take (b - a) (drop a d)) = b - a"
proof -
  obtain a b where ab: "last (blocks i) = (a, b)" by (cases "last (blocks i)")
  have ne: "blocks i \<noteq> []" using assms by (simp add: info_ok_def)
  then have "(a, b) \<in> set (blocks i)" using last_in_set [of "blocks i"] ab by simp
  then have in_d: "a < b" "b \<le> length d" using assms by (auto simp: info_ok_def)
  have "nat (int (length (blocks i)) - 1) = length (blocks i) - 1" by simp
  then have "blocks i ! nat (int (length (blocks i)) - 1) = (a, b)" using ab last_conv_nth [OF ne, symmetric] by (simp only:)
  then have "curBlockStr i = Some (take (b - a) (drop a d))" unfolding curBlockStr_def using ne by (intro blockStr_ok [OF assms]) auto
  then show thesis using that [of a b] in_d ab by (simp add: curBlockStart_def)
qed

lemma descending_ok:
  assumes "info_ok d eol i" "unresolvedPath i \<noteq> []" "0 \<le> n" "s < e" "curBlockStr i = Some cur" "e \<le> length cur"
  shows "info_ok d eol (newDescending i (curBlockStart i + s) (curBlockStart i + e) n)"
proof -
  obtain a b where c: "curBlockStart i = a" "b \<le> length d" "curBlockStr i = Some (take (b - a) (drop a d))" "length (take (b - a) (drop a d)) = b - a" "a < b"
    by (rule curBlock_ok [OF assms(1)])
  then have "a + e \<le> length d" using assms(5,6) by simp
  moreover have "path_ok (tl (unresolvedPath i))"
    using assms(1,2) by (cases "unresolvedPath i") (auto simp: info_ok_def path_ok_def split: if_splits)
  ultimately show ?thesis using assms(1,3,4) c(1) by (auto simp: info_ok_def newDescending_def)
qed

lemma go_each_ok:
  assumes "\<And>x st. x \<in> set xs \<Longrightarrow> P st \<Longrightarrow> \<exists>st'. f x st = Some st' \<and> P st' \<and> (N \<longrightarrow> R st')" "P st"
  shows "\<exists>st'. go_each f xs st = Some st' \<and> P st' \<and> (N \<and> xs \<noteq> [] \<longrightarrow> R st')"
  using assms
proof (induction xs arbitrary: st)
  case (Cons x xs)
  obtain st1 where s: "f x st = Some st1" "P st1" "N \<longrightarrow> R st1" using Cons.prems(1) [of x st] Cons.prems(2) by auto
  obtain st2 where "go_each f xs st1 = Some st2" "P st2" "N \<and> xs \<noteq> [] \<longrightarrow> R st2" using Cons.IH [OF Cons.prems(1) s(2)] by auto
  then show ?case using s by (cases xs) auto
qed simp

text \<open>
  The visitor is called for well-formed blocks only, so that a visitor that does not panic there keeps its state; on a path
  without items of lists it is called at least once.
\<close>

definition no_items :: "traversingInfo \<Rightarrow> bool" where
  "no_items i \<longleftrightarrow> minusIndentationCharacter \<notin> set (unresolvedPath i)"

lemma no_items_descending: "unresolvedPath i \<noteq> [] \<Longrightarrow> no_items i \<Longrightarrow> no_items (newDescending i a b n)"
  by (cases "unresolvedPath i") (auto simp: no_items_def newDescending_def)

definition keeps :: "(traversingInfo \<Rightarrow> 's \<Rightarrow> 's option) \<Rightarrow> string \<Rightarrow> string \<Rightarrow> ('s \<Rightarrow> bool) \<Rightarrow> ('s \<Rightarrow> bool) \<Rightarrow> bool" where
  "keeps visitor d eol P R \<longleftrightarrow>
     (\<forall>i st. info_ok d eol i \<longrightarrow> P st \<longrightarrow> (\<exists>st'. visitor i st = Some st' \<and> P st' \<and> (no_items i \<longrightarrow> R st')))"

lemma basic_block_ok:
  assumes v: "keeps visitor d eol P R" and d: "tame d" "eol \<noteq> []"
    and deeper: "\<And>j st. info_ok d eol j \<Longrightarrow> length (unresolvedPath j) < length (unresolvedPath i) \<Longrightarrow> P st \<Longrightarrow>
      \<exists>st'. visitInsertionPlaces visitor j st = Some st' \<and> P st' \<and> (no_items j \<longrightarrow> R st')"
    and i: "info_ok d eol i" "unresolvedPath i \<noteq> []" "-1 \<le> n" "n \<le> 1000" and P: "P st"
  shows "\<exists>st'. handleBasicBlock visitor i n st = Some st' \<and> P st' \<and> (no_items i \<longrightarrow> R st')"
proof -
  obtain part path where p: "unresolvedPath i = part # path" using i(2) by (cases "unresolvedPath i") auto
  obtain cur where cur: "curBlockStr i = Some cur" "tame cur" using curBlock_ok [OF i(1)] tame_slice [OF d(1)] by metis
  have eol: "ti_eol i = eol" and part: "part \<noteq> []" using i(1) p by (auto simp: info_ok_def path_ok_def)
  obtain count where count: "re_counted indentationCharacters n = Some count" using re_counted_cases [OF i(3,4)] by metis
  let ?m = "FindAllStringIndex (re_literal eol @ count @ re_literal part) 0 cur"
  let ?f = "\<lambda>(prefixIndex, _) st. do { (a, b) \<leftarrow> computeChildBlockPosition cur prefixIndex n eol;
      visitInsertionPlaces visitor (newDescending i (curBlockStart i + a) (curBlockStart i + b) n) st }"
  have step: "\<exists>st'. ?f x st = Some st' \<and> P st' \<and> (no_items i \<longrightarrow> R st')" if x: "x \<in> set ?m" "P st" for x :: "nat \<times> nat" and st
  proof -
    obtain a b where ab: "x = (a, b)" by (cases x)
    have m: "0 \<le> n" "a + length eol < length cur" using block_match [OF cur(2) i(3,4) count part] x(1) ab by auto
    obtain e where e: "computeChildBlockPosition cur a n eol = Some (a + length eol, e)" "a + length eol < e" "e \<le> length cur"
      unfolding computeChildBlockPosition_def by (rule inner_block_position [OF m(1) i(4) m(2) d(2)])
    let ?j = "newDescending i (curBlockStart i + (a + length eol)) (curBlockStart i + e) n"
    have "info_ok d eol ?j" by (rule descending_ok [OF i(1,2) m(1) e(2) cur(1) e(3)])
    moreover have "length (unresolvedPath ?j) < length (unresolvedPath i)" using p by (simp add: newDescending_def)
    ultimately obtain st' where "visitInsertionPlaces visitor ?j st = Some st'" "P st'" "no_items ?j \<longrightarrow> R st'"
      using deeper [of ?j st] x(2) by blast
    then show ?thesis using ab e(1) no_items_descending [OF i(2)] by auto
  qed
  have run: "handleBasicBlock visitor i n st = (if ?m = [] then visitor i st else go_each ?f ?m st)"
    by (simp add: handleBasicBlock.simps p count cur eol Let_def)
  show ?thesis
  proof (cases "?m = []")
    case True
    then show ?thesis using v i(1) P run by (simp add: keeps_def)
  next
    case False
    moreover have "\<exists>st'. go_each ?f ?m st = Some st' \<and> P st' \<and> (no_items i \<and> ?m \<noteq> [] \<longrightarrow> R st')"
      by (rule go_each_ok [where xs = ?m and f = ?f and P = P, OF step P])
    ultimately show ?thesis using run by simp
  qed
qed

lemma items_ok:
  assumes v: "keeps visitor d eol P R" and d: "tame d" "eol \<noteq> []"
    and deeper: "\<And>j st. info_ok d eol j \<Longrightarrow> length (unresolvedPath j) < length (unresolvedPath i) \<Longrightarrow> P st \<Longrightarrow>
      \<exists>st'. visitInsertionPlaces visitor j st = Some st' \<and> P st' \<and> (no_items j \<longrightarrow> R st')"
    and i: "info_ok d eol i" "unresolvedPath i = minusIndentationCharacter # path" and P: "P st"
  shows "\<exists>st'. visitInsertionPlaces visitor i st = Some st' \<and> P st'"
proof -
  obtain cur where cur: "curBlockStr i = Some cur" "tame cur" using curBlock_ok [OF i(1)] tame_slice [OF d(1)] by metis
  have eol: "ti_eol i = eol" and path: "path \<noteq> []" using i by (auto simp: info_ok_def path_ok_def)
  let ?n = "computeChildIndentationForMappingBlock cur eol"
  let ?k = "computeChildIndentationForItemBlock cur eol"
  have n: "-1 \<le> ?n" "?n \<le> 1000" and k: "-1 \<le> ?k" "?k \<le> 1000" using child_indentation_bounds(2,3) [OF cur(2), of eol] by simp_all
  obtain count where count: "re_counted spaceIndentationCharacter ?n = Some count" using re_counted_cases [OF n] by metis
  let ?m = "FindAllStringIndex (re_literal eol @ count @ re_literal minusIndentationCharacter) 0 cur"
  let ?f = "\<lambda>(prefixIndex, _) st. do { (a, b) \<leftarrow> computeItemBlockPosition cur prefixIndex ?n eol;
      handleBasicBlock visitor (newDescending i (curBlockStart i + a) (curBlockStart i + b) ?n) ?k st }"
  have step: "\<exists>st'. ?f x st = Some st' \<and> P st' \<and> (False \<longrightarrow> R st')" if x: "x \<in> set ?m" "P st" for x :: "nat \<times> nat" and st
  proof -
    obtain a b where ab: "x = (a, b)" by (cases x)
    have m: "0 \<le> ?n" "a + length eol < length cur"
      using block_match [OF cur(2) n count, of minusIndentationCharacter a b eol] x(1) ab by (auto simp: minusIndentationCharacter_def)
    obtain e where e: "computeItemBlockPosition cur a ?n eol = Some (a + length eol, e)" "a + length eol < e" "e \<le> length cur"
      unfolding computeItemBlockPosition_def by (rule inner_block_position [OF m(1) n(2) m(2) d(2)])
    let ?j = "newDescending i (curBlockStart i + (a + length eol)) (curBlockStart i + e) ?n"
    have j: "info_ok d eol ?j" using descending_ok [OF i(1) _ m(1) e(2) cur(1) e(3)] i(2) by simp
    have pj: "unresolvedPath ?j = path" using i(2) by (simp add: newDescending_def)
    have below: "\<exists>st'. visitInsertionPlaces visitor j' st = Some st' \<and> P st' \<and> (no_items j' \<longrightarrow> R st')"
      if "info_ok d eol j'" "length (unresolvedPath j') < length (unresolvedPath ?j)" "P st" for j' st
      using deeper [OF that(1) _ that(3)] that(2) pj i(2) by simp
    have "\<exists>st'. handleBasicBlock visitor ?j ?k st = Some st' \<and> P st'"
      using basic_block_ok [OF v d below j _ k x(2)] pj path by auto
    then show ?thesis using ab e(1) by auto
  qed
  have "visitInsertionPlaces visitor i st = go_each ?f ?m st"
    by (simp add: visitInsertionPlaces.simps i(2) cur eol count Let_def)
  moreover have "\<exists>st'. go_each ?f ?m st = Some st' \<and> P st' \<and> (False \<and> ?m \<noteq> [] \<longrightarrow> R st')"
    by (rule go_each_ok [where xs = ?m and f = ?f and P = P, OF step P])
  ultimately show ?thesis by simp
qed

lemma traversal_ok:
  assumes v: "keeps visitor d eol P R" and d: "tame d" "eol \<noteq> []"
  shows "info_ok d eol i \<Longrightarrow> P st \<Longrightarrow> \<exists>st'. visitInsertionPlaces visitor i st = Some st' \<and> P st' \<and> (no_items i \<longrightarrow> R st')"
proof (induction "length (unresolvedPath i)" arbitrary: i st rule: less_induct)
  case less
  have deeper: "\<exists>st'. visitInsertionPlaces visitor j st = Some st' \<and> P st' \<and> (no_items j \<longrightarrow> R st')"
    if "info_ok d eol j" "length (unresolvedPath j) < length (unresolvedPath i)" "P st" for j st
    using less.hyps [OF that(2,1,3)] .
  obtain cur where cur: "curBlockStr i = Some cur" "tame cur" using curBlock_ok [OF less.prems(1)] tame_slice [OF d(1)] by metis
  have eol: "ti_eol i = eol" using less.prems(1) by (simp add: info_ok_def)
  show ?case
  proof (cases "unresolvedPath i")
    case Nil
    then show ?thesis using v less.prems by (simp add: visitInsertionPlaces.simps keeps_def)
  next
    case (Cons part path)
    show ?thesis
    proof (cases "part = minusIndentationCharacter")
      case False
      let ?n = "computeChildIndentationForNormalBlock cur eol"
      have "-1 \<le> ?n" "?n \<le> 1000" "unresolvedPath i \<noteq> []" using child_indentation_bounds(1) [OF cur(2), of eol] Cons by simp_all
      then have "\<exists>st'. handleBasicBlock visitor i ?n st = Some st' \<and> P st' \<and> (no_items i \<longrightarrow> R st')"
        using basic_block_ok [OF v d deeper less.prems(1) _ _ _ less.prems(2)] by blast
      then show ?thesis using False Cons by (simp add: visitInsertionPlaces.simps cur eol)
    next
      case True
      then show ?thesis using items_ok [OF v d deeper less.prems(1) _ less.prems(2)] Cons by (auto simp: no_items_def)
    qed
  qed
qed

section \<open>Insertions\<close>

lemma str_index_bounds: "str_index sub s = Some k \<Longrightarrow> k + length sub \<le> length s"
proof (induction sub s arbitrary: k rule: str_index.induct)
  case (2 sub c s)
  show ?case
  proof (cases "has_prefix (c # s) sub")
    case True
    then have "take (length sub) (c # s) = sub" by (simp add: has_prefix_def)
    then have "length sub \<le> length (c # s)" by (metis length_take min.cobounded1)
    then show ?thesis using 2(2) True by simp
  qed (use 2 in auto)
qed (simp split: if_splits)

lemma go_round_nonneg: "0 \<le> p \<Longrightarrow> 0 < q \<Longrightarrow> 0 \<le> go_round p q"
  by (simp add: go_round_def pos_imp_zdiv_nonneg_iff)

lemma indentation_delta_nonneg: "0 \<le> parentBlockIndentation i \<Longrightarrow> 0 \<le> indentation_delta i"
  by (auto simp: indentation_delta_def defaultIndentationLength_def intro: go_round_nonneg)

lemma missing_path_ok:
  "0 \<le> n \<Longrightarrow> 0 \<le> delta \<Longrightarrow> \<exists>t m. missing_path path n delta eol = Some (t, m) \<and> 0 \<le> m"
proof (induction path arbitrary: n)
  case (Cons part path)
  obtain t m where "missing_path path (n + delta) delta eol = Some (t, m)" "0 \<le> m" using Cons.IH [of "n + delta"] Cons.prems by auto
  then show ?case using Cons.prems by (simp add: go_repeat_def)
qed simp

lemma indented_lines_ok:
  "0 \<le> n \<Longrightarrow> \<exists>t. indented_lines ls n eol = Some t \<and> (\<forall>line\<in>set ls. sublist (line @ eol) t)"
proof (induction ls)
  case (Cons l ls)
  then obtain t where t: "indented_lines ls n eol = Some t" "\<forall>line\<in>set ls. sublist (line @ eol) t" by auto
  let ?s = "concat (replicate (nat n) '' '')"
  have "sublist (l @ eol) (?s @ l @ eol @ t)" using sublist_appendI [of "l @ eol" ?s t] by simp
  moreover have "sublist (line @ eol) (?s @ l @ eol @ t)" if "line \<in> set ls" for line
    using sublist_order.order_trans [OF t(2) [rule_format, OF that]] sublist_appendI [of t "?s @ l @ eol" "[]"] by simp
  ultimately show ?case using t(1) Cons.prems by (auto simp: go_repeat_def)
qed simp

lemma insertion_string_ok:
  assumes "info_ok d eol i" "line = [] \<or> line \<in> set ls"
  shows "\<exists>t. createIndentationedInsertionString i eol' ls = Some t \<and> (line \<noteq> [] \<longrightarrow> sublist (line @ eol') t)"
proof -
  have parent: "0 \<le> parentBlockIndentation i" using assms(1) by (simp add: info_ok_def)
  obtain cur where cur: "curBlockStr i = Some cur" using curBlock_ok [OF assms(1)] by metis
  let ?n = "if length (resolvedPath i) > 0 then sibling_indentation i cur else 0"
  have "0 \<le> sibling_indentation i cur"
    using parent indentation_delta_nonneg [OF parent] by (auto simp: sibling_indentation_def split: option.split)
  then have "0 \<le> ?n" by simp
  then obtain t m where t: "missing_path (unresolvedPath i) ?n (indentation_delta i) eol' = Some (t, m)" "0 \<le> m"
    using missing_path_ok indentation_delta_nonneg [OF parent] by meson
  obtain u where u: "indented_lines ls m eol' = Some u" "\<forall>line\<in>set ls. sublist (line @ eol') u" using indented_lines_ok [OF t(2)] by blast
  have "createIndentationedInsertionString i eol' ls = Some (t @ u)" using cur t u by (simp add: createIndentationedInsertionString_def Let_def)
  moreover have "sublist u (t @ u)" using sublist_appendI [of u t "[]"] by simp
  ultimately show ?thesis using u(2) assms(2) by (auto intro: sublist_order.order_trans)
qed

text \<open>An insertion at a position of the document, of a text with the given line.\<close>

definition insertion_ok :: "string \<Rightarrow> string \<Rightarrow> string \<Rightarrow> insertion \<Rightarrow> bool" where
  "insertion_ok d eol line ins \<longleftrightarrow> 0 \<le> insertionPoint ins \<and> insertionPoint ins \<le> int (length d) \<and>
     (line \<noteq> [] \<longrightarrow> sublist (line @ eol) (insertion_text ins))"

lemma insertion_visitor_ok:
  assumes "\<And>i. info_ok d eol i \<Longrightarrow> \<not> hasMappingInUresolvedPath i \<Longrightarrow> condition i \<noteq> None"
    and "\<And>i met. condition i = Some met \<Longrightarrow> line = [] \<or> line \<in> set (if met then ls else els)" "eol \<noteq> []" "length eol \<le> 2"
  shows "keeps (insertion_visitor condition ls els eol) d eol (list_all (insertion_ok d eol line)) (\<lambda>st. list_all (insertion_ok d eol line) st \<and> st \<noteq> [])"
  unfolding keeps_def
proof (intro allI impI)
  fix i st
  assume i: "info_ok d eol i" and st: "list_all (insertion_ok d eol line) st"
  show "\<exists>st'. insertion_visitor condition ls els eol i st = Some st' \<and> list_all (insertion_ok d eol line) st' \<and>
      (no_items i \<longrightarrow> list_all (insertion_ok d eol line) st' \<and> st' \<noteq> [])"
  proof (cases "hasMappingInUresolvedPath i")
    case True
    then show ?thesis using st by (auto simp: insertion_visitor_def no_items_def hasMappingInUresolvedPath_def list_ex_iff)
  next
    case False
    then obtain met where met: "condition i = Some met" using assms(1) [OF i] by auto
    obtain t where t: "createIndentationedInsertionString i eol (if met then ls else els) = Some t" "line \<noteq> [] \<longrightarrow> sublist (line @ eol) t"
      using insertion_string_ok [OF i, of line "if met then ls else els" eol] assms(2) [OF met] by auto
    obtain a b where c: "curBlockStart i = a" "a < b" "b \<le> length d" "curBlockStr i = Some (take (b - a) (drop a d))"
      "length (take (b - a) (drop a d)) = b - a"
      by (rule curBlock_ok [OF i])
    let ?cur = "take (b - a) (drop a d)"
    let ?point = "(case str_index eol ?cur of Some k \<Rightarrow> int k | None \<Rightarrow> -1) + int (length eol) + int a"
    have "0 < length eol" using assms(3) by simp
    then have "0 \<le> ?point \<and> ?point \<le> int (length d)"
      using str_index_bounds [of eol ?cur] c(2,3,5) assms(4) by (cases "str_index eol ?cur") fastforce+
    then show ?thesis using met t st c(1,4) False by (simp add: insertion_visitor_def Let_def insertion_ok_def)
  qed
qed

lemma apply_insertions_ok:
  "list_all (insertion_ok d eol line) insertions \<Longrightarrow> length d \<le> length d' \<Longrightarrow>
   \<exists>d''. apply_insertions insertions d' = Some d'' \<and> subseq d' d'' \<and> (line \<noteq> [] \<and> insertions \<noteq> [] \<longrightarrow> sublist (line @ eol) d'')"
proof (induction insertions arbitrary: d')
  case (Cons ins insertions)
  let ?p = "nat (insertionPoint ins)"
  let ?d = "take ?p d' @ insertion_text ins @ drop ?p d'"
  have p: "0 \<le> insertionPoint ins" "insertionPoint ins \<le> int (length d')" and has_line: "line \<noteq> [] \<longrightarrow> sublist (line @ eol) (insertion_text ins)"
    using Cons.prems by (auto simp: insertion_ok_def)
  have slices: "go_slice d' 0 (insertionPoint ins) = Some (take ?p d')" "go_slice d' (insertionPoint ins) (int (length d')) = Some (drop ?p d')"
    using p by (simp_all add: go_slice_def)
  have "subseq (take ?p d' @ drop ?p d') ?d" by (intro list_emb_append_mono subseq_order.order_refl) (simp add: list_emb_append2)
  then have grown: "subseq d' ?d" by simp
  obtain d'' where d'': "apply_insertions insertions ?d = Some d''" "subseq ?d d''" "line \<noteq> [] \<and> insertions \<noteq> [] \<longrightarrow> sublist (line @ eol) d''"
    using Cons.IH [of ?d] Cons.prems list_emb_length [OF grown] by fastforce
  have "sublist (line @ eol) d''" if "line \<noteq> []"
  proof (cases "insertions = []")
    case True
    then have "d'' = ?d" using d''(1) by simp
    then show ?thesis using has_line that sublist_appendI [of "insertion_text ins" "take ?p d'" "drop ?p d'"] sublist_order.order_trans by metis
  qed (use d''(3) that in simp)
  then show ?case using slices d''(1) subseq_order.order_trans [OF grown d''(2)] by simp
qed simp

section \<open>The passes\<close>

lemma newTraversingInfo_ok: "d \<noteq> [] \<Longrightarrow> path \<noteq> [] \<Longrightarrow> path_ok path \<Longrightarrow> info_ok d eol (newTraversingInfo d path eol)"
  by (simp add: info_ok_def newTraversingInfo_def)

lemma insertLinesConditioned_ok:
  assumes "tame d" "d \<noteq> []" "eol \<noteq> []" "length eol \<le> 2" "path \<noteq> []" "path_ok path" "\<And>i met. condition i = Some met \<Longrightarrow> line = [] \<or> line \<in> set (if met then ls else els)"
    and "\<And>i. info_ok d eol i \<Longrightarrow> \<not> hasMappingInUresolvedPath i \<Longrightarrow> condition i \<noteq> None"
  shows "\<exists>d'. insertLinesConditioned d path condition ls els eol = Some d' \<and> subseq d d' \<and>
    (line \<noteq> [] \<and> minusIndentationCharacter \<notin> set path \<longrightarrow> sublist (line @ eol) d')"
proof -
  let ?ok = "list_all (insertion_ok d eol line)"
  have "keeps (insertion_visitor condition ls els eol) d eol ?ok (\<lambda>st. ?ok st \<and> st \<noteq> [])"
    by (rule insertion_visitor_ok [OF assms(8,7,3,4)])
  from traversal_ok [OF this assms(1,3) newTraversingInfo_ok [OF assms(2,5,6)], of "[]"]
  obtain st where st: "visitInsertionPlaces (insertion_visitor condition ls els eol) (newTraversingInfo d path eol) [] = Some st" "?ok st"
    "minusIndentationCharacter \<notin> set path \<longrightarrow> st \<noteq> []"
    by (auto simp: no_items_def newTraversingInfo_def)
  then show ?thesis using apply_insertions_ok [OF st(2) order_refl] by (auto simp: insertLinesConditioned_def)
qed

lemma isProxyContainer_ok:
  assumes "info_ok d eol i"
  shows "isProxyContainer name i \<noteq> None"
proof (cases "length (unresolvedPath i) > 1")
  case False
  let ?k = "int (length (blocks i)) - (2 - int (length (unresolvedPath i)))"
  have "length (blocks i) = Suc (length (resolvedPath i))" "resolvedPath i = [] \<longrightarrow> unresolvedPath i \<noteq> []"
    using assms by (simp_all add: info_ok_def)
  then have "length (blocks i) + length (unresolvedPath i) \<ge> 2" by (cases "resolvedPath i"; cases "unresolvedPath i") simp_all
  then have k: "0 \<le> ?k" "?k < int (length (blocks i))" using False by linarith+
  obtain a b where "blocks i ! nat ?k = (a, b)" by (cases "blocks i ! nat ?k")
  from blockStr_ok [OF assms k this] show ?thesis using False by (simp add: isProxyContainer_def)
qed (simp add: isProxyContainer_def)

lemma paths_ok: "path_ok [''spec:'', ''template:'', ''metadata:'', ''labels:'']" "path_ok container_path" "container_path \<noteq> []"
  "minusIndentationCharacter \<notin> set [''spec:'', ''template:'', ''metadata:'', ''labels:'']"
  by (simp_all add: path_ok_def container_path_def minusIndentationCharacter_def)



section \<open>The file\<close>

text \<open>
  Whatever the file is, a result of the injector has every document of it as a subsequence, in order, and documents of
  other kinds unchanged.
\<close>

lemma apply_insertions_subseq: "apply_insertions insertions d = Some d' \<Longrightarrow> subseq d d'"
proof (induction insertions arbitrary: d)
  case (Cons ins insertions)
  let ?p = "nat (insertionPoint ins)"
  let ?d = "take ?p d @ insertion_text ins @ drop ?p d"
  obtain before after where "go_slice d 0 (insertionPoint ins) = Some before" "go_slice d (insertionPoint ins) (int (length d)) = Some after"
    and rest: "apply_insertions insertions (before @ insertion_text ins @ after) = Some d'"
    using Cons.prems by (auto simp: bind_eq_Some_conv)
  then have "before = take ?p d" "after = drop ?p d" by (simp_all add: go_slice_def split: if_splits)
  then have d': "subseq ?d d'" using Cons.IH [OF rest] by simp
  have "subseq (take ?p d @ drop ?p d) ?d" by (intro list_emb_append_mono subseq_order.order_refl) (simp add: list_emb_append2)
  then show ?case using subseq_order.order_trans [OF _ d'] by simp
qed simp

lemma insertLinesConditioned_subseq: "insertLinesConditioned d path condition ls els eol = Some d' \<Longrightarrow> subseq d d'"
  by (auto simp: insertLinesConditioned_def bind_eq_Some_conv dest: apply_insertions_subseq)

lemma inject_document_keeps:
  assumes "inject_document eol params d = Some d'"
  shows "subseq d d' \<and> (\<not> isPod d \<and> \<not> isDeployment d \<longrightarrow> d' = d)"
proof -
  have step: "insertLDPreloadTrue x eol = Some y \<Longrightarrow> subseq x y" "insertAppScope x eol params = Some y \<Longrightarrow> subseq x y"
    "insertDebug x eol = Some y \<Longrightarrow> subseq x y" for x y
    by (auto simp: insertLDPreloadTrue_def insertAppScope_def insertDebug_def insertLines_def insertLinesConditioned_subseq split: if_splits)
  show ?thesis
    using assms by (auto simp: inject_document_def bind_eq_Some_conv split: if_splits dest!: step intro: subseq_order.order_trans)
qed

lemma write_documents_keep:
  "go_each (write_document eol params) ds converted = Some out \<Longrightarrow> subseq (converted @ concat ds) out"
proof (induction ds arbitrary: converted)
  case (Cons d ds)
  obtain d' where d': "inject_document eol params d = Some d'"
    "go_each (write_document eol params) ds (converted @ (if converted \<noteq> [] then documentDelimiter else []) @ d') = Some out"
    using Cons.prems by (auto simp: write_document_def [of eol params d converted] bind_eq_Some_conv split: option.splits)
  have "subseq (converted @ d) (converted @ (if converted \<noteq> [] then documentDelimiter else []) @ d')"
    using inject_document_keeps [OF d'(1)] by (intro list_emb_append_mono subseq_order.order_refl) (simp add: list_emb_append2)
  then have "subseq ((converted @ d) @ concat ds) ((converted @ (if converted \<noteq> [] then documentDelimiter else []) @ d') @ concat ds)"
    by (rule list_emb_append_mono) (rule subseq_order.order_refl)
  from subseq_order.order_trans [OF this Cons.IH [OF d'(2)]] show ?case by simp
qed simp

lemma inject_keeps: "inject content params = Some (Inr out) \<Longrightarrow> subseq (concat (split_documents content)) out"
  using write_documents_keep [of _ params "split_documents content" "[]"] by (auto simp: inject_def split: sum.splits)

end
