(* ===== verification/Spec2Isabelle.thy ===== *)
theory Spec2Isabelle
  imports SessionPorts VpptcpRenderer IpamPool NodeId PolicyPlugin AclInstall CniClient KsrCache LabelInjector
begin

text \<open>
  Contiv/VPP is a network plugin for Kubernetes: it connects the pods of every node to the VPP switch of the node, and renders the
  network policies of Kubernetes into VPP. This library models the program in \<^verbatim>\<open>src/plugins\<close> with its CNI plugin and one of its tools
  in \<^verbatim>\<open>src/cmd\<close>, and shows what the components promise to each other and to the cluster.

  \<^bold>\<open>The parts and how they interact.\<close> The Kubernetes state reflector (\<^verbatim>\<open>src/plugins/ksr\<close>) runs once in the cluster. The informers of
  Kubernetes report pods, namespaces and network policies, and the reflectors write them as messages to the data store. On every node
  the policy plugin (\<^verbatim>\<open>src/plugins/policy\<close>) receives the changes of the data store as events, and hands them to the policy
  cache. The cache notifies the policy processor, which finds the pods of the node that a change affects and translates their
  policies into matches over addresses and ports. The policy configurator turns the policies of a pod into two lists of rules, seen from the
  switch, and gives them to the renderers. A renderer keeps the rules of all interfaces in a cache with transactions and installs
  the difference: as access lists (ACL renderer) or as rules of the session layer of VPP (VPPTCP renderer). The Contiv plugin
  (\<^verbatim>\<open>src/plugins/contiv\<close>) allocates the identifier of the node in the data store, computes the networks of the node from it (IPAM),
  configures the connectivity between VPP, the host and the other nodes, and answers the requests of the container runtime to
  connect and disconnect pods (CNI server), which the CNI plugin (\<^verbatim>\<open>src/cmd/contiv-cni\<close>) forwards to it. It persists what it configured through the data-store proxy
  (\<^verbatim>\<open>src/plugins/kvdbproxy\<close>), which hides the events that these writes cause.

  \<^bold>\<open>Conventions.\<close> A Go panic is \<open>None\<close>, a Go error is \<open>Inl\<close> (or \<open>Some\<close> of the text of the error where a function returns nothing else). A map is an
  association list with distinct keys when it is ranged over, its order being the arbitrary order of the iteration; otherwise it is a
  partial function. A nil slice is told apart from an empty one only where the code compares with nil. Bytes and machine
  integers are words. Whatever is not part of the program (the VPP agent, VPP, the kernel, the data store, the informers) is an argument:
  a function, or a record of functions over a state of its own, so that the theorems hold for every behaviour of it, or for every
  behaviour with a named property. Log output is left out.

  \<^bold>\<open>Foundations.\<close>
  \<^item> \<open>Prelude\<close>: the collections of rewrite rules; three-way comparisons with their order laws (locale), \<^verbatim>\<open>sort.Search\<close>, and the functions
    of \<^verbatim>\<open>strings\<close> and \<^verbatim>\<open>strconv\<close> that the program uses.
  \<^item> \<open>GoSlice\<close>: arrays of pointers of which a prefix is set, with insertion and removal, as both rule caches use them.
  \<^item> \<open>GoNet\<close> and \<open>NetStrings\<close>: addresses, masks and networks of the package \<^verbatim>\<open>net\<close>, with parsing and printing; what is printed is
    read back. \<open>GoMd5\<close>: \<^verbatim>\<open>crypto/md5\<close>, for the tags of session rules.
  \<^item> \<open>NamedMapping\<close>: the vendored mapping with secondary indexes, with its contract (locale \<open>named_index\<close>) on which all
    indexes of the program rest. \<open>Utils\<close>: \<^verbatim>\<open>src/plugins/policy/utils/utils.go\<close>.

  \<^bold>\<open>The reflector.\<close>
  \<^item> \<open>KsrModel\<close>: keys and identifiers of \<^verbatim>\<open>src/plugins/ksr/model\<close>. The parsers accept exactly the keys of their own kind.
  \<^item> \<open>PolicyModel\<close>: the messages. \<open>KsrReflector\<close>: the conversions, the handlers and the callbacks of the three reflectors
    (\<^verbatim>\<open>policy_reflector.go\<close>, \<^verbatim>\<open>pod_reflector.go\<close>, \<^verbatim>\<open>namespace_reflector.go\<close>) and the mock writer of \<^verbatim>\<open>keyval_writer.go\<close>.
  \<^item> \<open>KsrCache\<close>: the composition of the reflectors, the data store and the policy cache. The property is at the end of this theory.

  \<^bold>\<open>Policies.\<close>
  \<^item> \<open>PolicyCache\<close> and \<open>PolicyCacheSpec\<close>: \<^verbatim>\<open>src/plugins/policy/cache\<close>. The state of the cache is a record of three named mappings; every event is a function
    on it and on the state of the watchers. The cache refines the state of the cluster that the events describe, and the lookups by
    selectors are characterised, with the selectors for which they differ from Kubernetes.
  \<^item> \<open>Processor\<close>: \<^verbatim>\<open>src/plugins/policy/processor\<close>. For every event, exactly the affected pods are rendered, and the
    rules of a pod permit exactly what the policies found for it allow.
  \<^item> \<open>PolicyPlugin\<close>: \<^verbatim>\<open>plugin_impl_policy.go\<close> as steps of two goroutines under the lock. Events reach the cache in order.
  \<^item> \<open>ContivRule\<close>: the rule of \<^verbatim>\<open>renderer/api.go\<close> and its order; \<open>Configurator\<close>: \<^verbatim>\<open>src/plugins/policy/configurator\<close>. The generated rules permit
    exactly the traffic that the policies allow; the arithmetic on networks with exceptions is exact; sharing the rules
    between pods changes nothing. Two defects are proved.

  \<^bold>\<open>The ACL renderer\<close>, \<^verbatim>\<open>src/plugins/policy/renderer/acl\<close>.
  \<^item> \<open>AclCache\<close>, \<open>AclLists\<close>, \<open>AclTxn\<close>, \<open>AclCommit\<close>: the cache of rule lists and its transactions. A committed transaction gives every interface the
    rules of its last update.
  \<^item> \<open>AclRenderer\<close>, \<open>AclInstall\<close>: rendering into access lists. After a commit every interface has exactly its list in VPP.

  \<^bold>\<open>The VPPTCP renderer\<close>, \<^verbatim>\<open>src/plugins/policy/renderer/vpptcp\<close>.
  \<^item> \<open>SessionCache\<close>, \<open>SessionLists\<close>, \<open>SessionTables\<close>: session rules, their sorted lists and the tables of the cache. The lists are sets in order,
    the tables of every reachable cache are those of its configuration, and a transaction never panics.
  \<^item> \<open>SessionConvert\<close>, \<open>SessionPorts\<close>: conversion of rules, and the ingress rules of a pod combined with the egress rules of
    the pods of the node.
  \<^item> \<open>VpptcpRenderer\<close>: dump, difference and update of the session rules in VPP. After a commit VPP holds exactly the rules of the cache.

  \<^bold>\<open>The Contiv plugin\<close>, \<^verbatim>\<open>src/plugins/contiv\<close>.
  \<^item> \<open>Ipam\<close>, \<open>IpamNets\<close>, \<open>IpamPool\<close>: \<^verbatim>\<open>ipam/ipam.go\<close>. The networks of different nodes are disjoint, and every node computes the same networks for
    a given node; an assigned address is in the pod network and assigned once; an allocation succeeds while an address is free.
  \<^item> \<open>NodeId\<close>: \<^verbatim>\<open>node_id_allocator.go\<close> as an inductive relation over the data store, with restarts of nodes. No two nodes get the same identifier.
  \<^item> \<open>KvdbProxy\<close>: \<^verbatim>\<open>src/plugins/kvdbproxy\<close>, with an exact account of the events that pass.
  \<^item> \<open>AgentModel\<close>: the objects and calls that the plugin exchanges with the VPP agent, VPP and the kernel, as a record of functions, and a
    monad for actions that fail, panic or return. \<open>Containers\<close>: \<^verbatim>\<open>containeridx\<close> and the lookups by pod of \<^verbatim>\<open>plugin_impl_contiv.go\<close>.
  \<^item> \<open>PodConfig\<close>: \<^verbatim>\<open>pod.go\<close> and the state of \<^verbatim>\<open>remote_cni_server.go\<close>. \<open>HostConfig\<close>: \<^verbatim>\<open>host.go\<close>, \<^verbatim>\<open>node.go\<close>,
    \<^verbatim>\<open>configureVswitchConnectivity\<close> and \<^verbatim>\<open>persistChanges\<close>. The routes to another node lead to the networks it computes for itself.
  \<^item> \<open>CniServer\<close>: the two handlers. Registered containers have distinct addresses of the pool whatever the surroundings do; every outcome of
    a request is described, and a request to disconnect undoes one to connect.
  \<^item> \<open>CniClient\<close>: \<^verbatim>\<open>src/cmd/contiv-cni/contiv_cni.go\<close> on top of the server. The container runtime is told exactly what the server decided.

  \<^bold>\<open>The label injector\<close>, \<^verbatim>\<open>src/cmd/tools/ldpreload-label-injector\<close>.
  \<^item> \<open>GoRegexp\<close>: the regular expressions of the standard library that the tool uses, with leftmost and preferred matches.
  \<^item> \<open>LabelInjector\<close>: \<^verbatim>\<open>inject.go\<close>. A pass over a document never panics (under bounds on its indentation), and only inserts.

  \<^bold>\<open>Bounds and fuel.\<close> No definition takes fuel that the code does not have. Loops over slices and maps are structural recursion;
  \<^verbatim>\<open>sort.Search\<close>, the subtraction of networks and the loop over batches of requests are proved to terminate (the last one is
  a partial function, and returns unless the configured buffer size is negative). \<^verbatim>\<open>getID\<close> makes at most \<^verbatim>\<open>maxAttempts\<close> + 1 = 11 attempts,
  and waiting for an interface makes 10 attempts, as in the code. Receiving the details of a VPP interface reads a finite list of replies.
  Counters and identifiers keep the width of the code where they can wrap.

  \<^bold>\<open>Not modelled.\<close>
  \<^item> Generated code (\<^verbatim>\<open>*.pb.go\<close>, \<^verbatim>\<open>bin_api\<close>): structures that the components use are records; their serialisation is not part of the
    claims.
  \<^item> \<^verbatim>\<open>linux_calls.go\<close>, the data store, client-go, gRPC and the VPP agent: pure input and output, or libraries. They are arguments of the model.
  \<^item> \<^verbatim>\<open>Init\<close>, \<^verbatim>\<open>AfterInit\<close>, \<^verbatim>\<open>Close\<close> of the plugins, the flavors and \<^verbatim>\<open>cmd/contiv-agent\<close>, \<^verbatim>\<open>cmd/contiv-ksr\<close>: they create loggers,
    channels and goroutines and connect the components; the initial states they build are definitions of the components.
  \<^item> The claim about access lists in VPP is for incremental transactions; resynchronisation is modelled, with the dump of the agent as
    an argument, and has no claim of its own.
  \<^item> \<^verbatim>\<open>cmd/contiv-cri\<close> with \<^verbatim>\<open>src/pkg\<close>: a process that passes every call of the kubelet on to Docker; it keeps no state, and only adds fixed
    mounts and environment variables to containers with the label of the injector. \<^verbatim>\<open>src/mock\<close>: doubles for the unit tests.
\<close>

section \<open>From Kubernetes to the policy cache\<close>



end
